(* ===== verification/Distsys_Prelude.thy ===== *)
theory Distsys_Prelude
  imports Complex_Main "HOL-Library.AList" "HOL-Library.List_Lexorder" "HOL-Library.Char_ord"
begin

text \<open>
  What every component of the development shares: the Python exception classes and the
  result type of code that can raise, Python dictionaries as association lists in
  insertion order, the canonical sorted tuples that the causal and CRDT classes keep, and
  the join-semilattice contract of a state-based CRDT.
\<close>

named_theorems causal_simps \<open>rewrite rules on version vectors and clocks\<close>
named_theorems crdt_simps \<open>rewrite rules on CRDT states\<close>

section \<open>Exceptions and results\<close>

text \<open>
  The exception classes that the modelled code raises, catches or lets pass, one datatype
  per base class, so that \<^verbatim>\<open>except Base\<close> is the discriminator of the constructor
  that embeds the base's subclasses. Four classes carry a wire error code besides their
  message. \<open>OutsideModel\<close> is not a class of the program: it is the answer of the JSON
  reader of the model to a fractional number or to a character outside Latin-1.
\<close>

datatype value_error =
    PlainValueError | JSONDecodeErrorV | UnicodeDecodeErrorV | TaskValidationErrorV
  | TlsConfigurationErrorV

datatype lookup_error =
    PlainLookupError | KeyErrorL | IndexErrorL | NoRouteErrorL | UnknownTaskErrorL

datatype connection_error =
    PlainConnectionError | CircuitOpenErrorC | PeerProtocolErrorC | PeerTransportErrorC
  | PeerUnavailableErrorC | ClusterBootstrapErrorC | CrdtPeerProtocolErrorC
  | CorrelationMismatchC | CrdtCorrelationMismatchC | TlsPeerIdentityErrorC

datatype os_error =
    PlainOSError | PermissionErrorO | SSLErrorO
  | is_TimeoutError: Is_TimeoutError (deadline_exceeded: bool)
  | is_ConnectionError: Is_ConnectionError connection_error

datatype persistence_error =
    PlainPersistenceError | PersistenceUnavailableErrorP | PersistenceBackpressureErrorP
  | RepositoryIntegrityErrorP | RepositorySchemaErrorP | NodeIdentityMismatchErrorP

datatype runtime_error =
    PlainRuntimeError | LocalOverloadedErrorR | CausalUnavailableErrorR
  | ReplicationBackpressureErrorR | WorkerPoolClosedErrorR | WorkerPoolBrokenErrorR
  | WorkerPoolSaturatedErrorR | BrokenProcessPoolR
  | CoordinationErrorR | CoordinationUnavailableErrorR
  | CrdtRemoteErrorR int | RemoteCrdtErrorR int | PeerApplicationErrorR int | RemoteTaskErrorR int
  | is_PersistenceError: Is_PersistenceError persistence_error

datatype protocol_error =
    PlainProtocolError | InvalidMagicP | UnsupportedVersionP | InvalidMessageTypeP
  | InvalidFrameLengthP | FrameTooLargeP | DecodeErrorP

datatype exn_class =
    CancelledError
  | AssertionError
  | IncompleteReadError
  | SqliteError
  | StructError
  | ProtobufDecodeError
  | TypeError
  | OutsideModel
  | is_ValueError: Is_ValueError value_error
  | is_LookupError: Is_LookupError lookup_error
  | is_OSError: Is_OSError os_error
  | is_RuntimeError: Is_RuntimeError runtime_error
  | is_ProtocolError: Is_ProtocolError protocol_error

datatype exn = Exn (exn_cls: exn_class) (exn_msg: string)

text \<open>The classes by their Python names.\<close>

abbreviation "ValueError \<equiv> Is_ValueError PlainValueError"
abbreviation "JSONDecodeError \<equiv> Is_ValueError JSONDecodeErrorV"
abbreviation "UnicodeDecodeError \<equiv> Is_ValueError UnicodeDecodeErrorV"
abbreviation "TaskValidationError \<equiv> Is_ValueError TaskValidationErrorV"
abbreviation "TlsConfigurationError \<equiv> Is_ValueError TlsConfigurationErrorV"
abbreviation "LookupError \<equiv> Is_LookupError PlainLookupError"
abbreviation "KeyError \<equiv> Is_LookupError KeyErrorL"
abbreviation "IndexError \<equiv> Is_LookupError IndexErrorL"
abbreviation "NoRouteError \<equiv> Is_LookupError NoRouteErrorL"
abbreviation "UnknownTaskError \<equiv> Is_LookupError UnknownTaskErrorL"
abbreviation "OSError \<equiv> Is_OSError PlainOSError"
abbreviation "PermissionError \<equiv> Is_OSError PermissionErrorO"
abbreviation "SSLError \<equiv> Is_OSError SSLErrorO"
abbreviation "TimeoutError \<equiv> Is_OSError (Is_TimeoutError False)"
abbreviation "DeadlineExceeded \<equiv> Is_OSError (Is_TimeoutError True)"
abbreviation "ConnectionError \<equiv> Is_OSError (Is_ConnectionError PlainConnectionError)"
abbreviation "CircuitOpenError \<equiv> Is_OSError (Is_ConnectionError CircuitOpenErrorC)"
abbreviation "PeerProtocolError \<equiv> Is_OSError (Is_ConnectionError PeerProtocolErrorC)"
abbreviation "PeerTransportError \<equiv> Is_OSError (Is_ConnectionError PeerTransportErrorC)"
abbreviation "PeerUnavailableError \<equiv> Is_OSError (Is_ConnectionError PeerUnavailableErrorC)"
abbreviation "ClusterBootstrapError \<equiv> Is_OSError (Is_ConnectionError ClusterBootstrapErrorC)"
abbreviation "CrdtPeerProtocolError \<equiv> Is_OSError (Is_ConnectionError CrdtPeerProtocolErrorC)"
abbreviation "CorrelationMismatch \<equiv> Is_OSError (Is_ConnectionError CorrelationMismatchC)"
abbreviation "CrdtCorrelationMismatch \<equiv> Is_OSError (Is_ConnectionError CrdtCorrelationMismatchC)"
abbreviation "TlsPeerIdentityError \<equiv> Is_OSError (Is_ConnectionError TlsPeerIdentityErrorC)"
abbreviation "RuntimeError \<equiv> Is_RuntimeError PlainRuntimeError"
abbreviation "LocalOverloadedError \<equiv> Is_RuntimeError LocalOverloadedErrorR"
abbreviation "CausalUnavailableError \<equiv> Is_RuntimeError CausalUnavailableErrorR"
abbreviation "ReplicationBackpressureError \<equiv> Is_RuntimeError ReplicationBackpressureErrorR"
abbreviation "WorkerPoolClosedError \<equiv> Is_RuntimeError WorkerPoolClosedErrorR"
abbreviation "WorkerPoolBrokenError \<equiv> Is_RuntimeError WorkerPoolBrokenErrorR"
abbreviation "WorkerPoolSaturatedError \<equiv> Is_RuntimeError WorkerPoolSaturatedErrorR"
abbreviation "BrokenProcessPool \<equiv> Is_RuntimeError BrokenProcessPoolR"
abbreviation "CoordinationError \<equiv> Is_RuntimeError CoordinationErrorR"
abbreviation "CoordinationUnavailableError \<equiv> Is_RuntimeError CoordinationUnavailableErrorR"
abbreviation "CrdtRemoteError c \<equiv> Is_RuntimeError (CrdtRemoteErrorR c)"
abbreviation "RemoteCrdtError c \<equiv> Is_RuntimeError (RemoteCrdtErrorR c)"
abbreviation "PeerApplicationError c \<equiv> Is_RuntimeError (PeerApplicationErrorR c)"
abbreviation "RemoteTaskError c \<equiv> Is_RuntimeError (RemoteTaskErrorR c)"
abbreviation "PersistenceError \<equiv> Is_RuntimeError (Is_PersistenceError PlainPersistenceError)"
abbreviation "PersistenceUnavailableError \<equiv>
  Is_RuntimeError (Is_PersistenceError PersistenceUnavailableErrorP)"
abbreviation "PersistenceBackpressureError \<equiv>
  Is_RuntimeError (Is_PersistenceError PersistenceBackpressureErrorP)"
abbreviation "RepositoryIntegrityError \<equiv>
  Is_RuntimeError (Is_PersistenceError RepositoryIntegrityErrorP)"
abbreviation "RepositorySchemaError \<equiv>
  Is_RuntimeError (Is_PersistenceError RepositorySchemaErrorP)"
abbreviation "NodeIdentityMismatchError \<equiv>
  Is_RuntimeError (Is_PersistenceError NodeIdentityMismatchErrorP)"
abbreviation "ProtocolError \<equiv> Is_ProtocolError PlainProtocolError"
abbreviation "InvalidMagic \<equiv> Is_ProtocolError InvalidMagicP"
abbreviation "UnsupportedVersion \<equiv> Is_ProtocolError UnsupportedVersionP"
abbreviation "InvalidMessageType \<equiv> Is_ProtocolError InvalidMessageTypeP"
abbreviation "InvalidFrameLength \<equiv> Is_ProtocolError InvalidFrameLengthP"
abbreviation "FrameTooLarge \<equiv> Is_ProtocolError FrameTooLargeP"
abbreviation "DecodeError \<equiv> Is_ProtocolError DecodeErrorP"

text \<open>\<^verbatim>\<open>except Exception\<close> catches everything but a cancellation.\<close>

definition is_Exception :: "exn \<Rightarrow> bool" where
  "is_Exception e = (exn_cls e \<noteq> CancelledError)"

text \<open>
  \<^verbatim>\<open>except (ConnectionError, TimeoutError, OSError)\<close>: the transport failures. The first
  two classes derive from the third.
\<close>

definition is_transport :: "exn \<Rightarrow> bool" where
  "is_transport e = is_OSError (exn_cls e)"

text \<open>\<^verbatim>\<open>except ConnectionError\<close>.\<close>

definition is_connection :: "exn \<Rightarrow> bool" where
  "is_connection e = (case exn_cls e of Is_OSError (Is_ConnectionError _) \<Rightarrow> True | _ \<Rightarrow> False)"

type_synonym 'a result = "exn + 'a"

abbreviation raise :: "exn_class \<Rightarrow> string \<Rightarrow> 'a result" where
  "raise c m \<equiv> Inl (Exn c m)"

definition rbind :: "'a result \<Rightarrow> ('a \<Rightarrow> 'b result) \<Rightarrow> 'b result" where
  "rbind m f = (case m of Inl e \<Rightarrow> Inl e | Inr x \<Rightarrow> f x)"

lemma rbind_simps [simp]:
  "rbind (Inl e) f = Inl e"
  "rbind (Inr x) f = f x"
  by (simp_all add: rbind_def)

lemma rbind_eq_Inr:
  "rbind m f = Inr y \<longleftrightarrow> (\<exists>x. m = Inr x \<and> f x = Inr y)"
  by (cases m) auto

text \<open>Left fold of an operation that can raise: the loop stops at the first exception.\<close>

fun rfold :: "('s \<Rightarrow> 'x \<Rightarrow> 's result) \<Rightarrow> 's \<Rightarrow> 'x list \<Rightarrow> 's result" where
  "rfold f s [] = Inr s"
| "rfold f s (x # xs) = rbind (f s x) (\<lambda>s'. rfold f s' xs)"

text \<open>A list comprehension whose element expression can raise.\<close>

fun rmap :: "('x \<Rightarrow> 'y result) \<Rightarrow> 'x list \<Rightarrow> 'y list result" where
  "rmap f [] = Inr []"
| "rmap f (x # xs) = rbind (f x) (\<lambda>y. rbind (rmap f xs) (\<lambda>ys. Inr (y # ys)))"

lemma rmap_Inr: "(\<And>x. x \<in> set xs \<Longrightarrow> f x = Inr (g x)) \<Longrightarrow> rmap f xs = Inr (map g xs)"
  by (induction xs) auto

lemma rfold_append: "rfold f s (xs @ ys) = rbind (rfold f s xs) (\<lambda>t. rfold f t ys)"
  by (induction xs arbitrary: s) (auto simp: rbind_def split: sum.splits)

section \<open>Python dictionaries and canonical tuples\<close>

text \<open>
  A \<^verbatim>\<open>dict\<close> is an association list with distinct keys in insertion order:
  \<^verbatim>\<open>d[k] = v\<close> is \<^const>\<open>AList.update\<close>, \<^verbatim>\<open>d.get(k)\<close> is \<^const>\<open>map_of\<close> and
  \<^verbatim>\<open>d.pop(k, None)\<close> is \<^const>\<open>AList.delete\<close>.
\<close>

type_synonym ('k, 'v) dict = "('k \<times> 'v) list"

definition dict_ok :: "('k, 'v) dict \<Rightarrow> bool" where
  "dict_ok d = distinct (map fst d)"

lemma dict_ok_Nil [simp]: "dict_ok []"
  by (simp add: dict_ok_def)

lemma dict_ok_update [simp]: "dict_ok d \<Longrightarrow> dict_ok (AList.update k v d)"
  by (simp add: dict_ok_def AList.distinct_update)

lemma dict_ok_delete [simp]: "dict_ok d \<Longrightarrow> dict_ok (AList.delete k d)"
  by (simp add: dict_ok_def AList.distinct_delete)

lemma map_of_update [simp]: "map_of (AList.update k v d) = (map_of d)(k \<mapsto> v)"
  by (simp add: AList.update_conv')

lemma map_of_delete [simp]: "map_of (AList.delete k d) = (map_of d)(k := None)"
  by (simp add: AList.delete_conv')

lemma set_update_cases:
  "(j, d) \<in> set (AList.update k c xs) \<Longrightarrow> j = k \<and> d = c \<or> (j, d) \<in> set xs"
  by (induction xs) (auto split: if_splits)

text \<open>\<^verbatim>\<open>tuple(sorted(items, key=lambda item: item[0]))\<close> of a dictionary's items.\<close>

definition canon :: "('k::linorder \<times> 'v) list \<Rightarrow> bool" where
  "canon xs = sorted_wrt (<) (map fst xs)"

lemma canon_Nil [simp]: "canon []"
  by (simp add: canon_def)

lemma canon_distinct: "canon xs \<Longrightarrow> distinct (map fst xs)"
  unfolding canon_def by (metis strict_sorted_iff)

lemma canon_dict_ok: "canon xs \<Longrightarrow> dict_ok xs"
  by (simp add: canon_distinct dict_ok_def)

lemma canon_sort_key: "dict_ok d \<Longrightarrow> canon (sort_key fst d)"
  unfolding canon_def dict_ok_def strict_sorted_iff by (simp add: distinct_map)

lemma map_of_sort_key: "dict_ok d \<Longrightarrow> map_of (sort_key fst d) = map_of d"
  by (rule map_of_inject_set [THEN iffD2])
    (simp_all add: canon_distinct [OF canon_sort_key] dict_ok_def)

lemma canon_ext:
  assumes "canon xs" "canon ys" "map_of xs = map_of ys"
  shows "xs = ys"
proof (rule map_sorted_distinct_set_unique [where f = fst])
  have "set xs = set ys"
    using assms map_of_inject_set canon_distinct by metis
  then show "set xs = set ys" .
  show "inj_on fst (set xs \<union> set ys)"
    using \<open>set xs = set ys\<close> canon_distinct [OF assms(1)] by (simp add: distinct_map)
qed (use assms in \<open>auto simp: canon_def strict_sorted_iff\<close>)

subsection \<open>Counter maps\<close>

text \<open>
  Version vectors and grow-only counters keep the same representation: a canonical tuple
  of (actor, positive integer) pairs, a missing actor counting as zero. The operations
  below are the bodies that the two classes share.
\<close>

fun cget :: "('k \<times> int) list \<Rightarrow> 'k \<Rightarrow> int" where
  "cget [] k = 0"
| "cget ((k', c) # xs) k = (if k' = k then c else cget xs k)"

definition cnorm :: "('k::linorder, int) dict \<Rightarrow> ('k \<times> int) list" where
  "cnorm d = sort_key fst (filter (\<lambda>(k, c). c \<noteq> 0) d)"

definition cmerge :: "('k::linorder \<times> int) list \<Rightarrow> ('k \<times> int) list \<Rightarrow> ('k \<times> int) list" where
  "cmerge xs ys =
     cnorm (map (\<lambda>k. (k, max (cget xs k) (cget ys k))) (remdups (map fst xs @ map fst ys)))"

definition cok :: "('k::linorder \<times> int) list \<Rightarrow> bool" where
  "cok xs = (canon xs \<and> (\<forall>(k, c) \<in> set xs. 0 < c))"

lemma cok_Nil [simp]: "cok []"
  by (simp add: cok_def)

lemma cget_map_of: "cget xs k = (case map_of xs k of None \<Rightarrow> 0 | Some c \<Rightarrow> c)"
  by (induction xs) auto

lemma cget_nonneg: "cok xs \<Longrightarrow> 0 \<le> cget xs k"
  by (force simp: cget_map_of cok_def dest: map_of_SomeD split: option.splits)

lemma cget_pos_iff: "cok xs \<Longrightarrow> 0 < cget xs k \<longleftrightarrow> k \<in> fst ` set xs"
  by (force simp: cget_map_of cok_def map_of_eq_None_iff dest: map_of_SomeD
      split: option.splits)

lemma cok_ext:
  assumes "cok xs" "cok ys" "\<And>k. cget xs k = cget ys k"
  shows "xs = ys"
proof (rule canon_ext)
  show "canon xs" "canon ys" using assms by (simp_all add: cok_def)
  have pos: "map_of zs k = Some c \<Longrightarrow> c \<noteq> 0" if "cok zs" for zs k c
    using that by (force simp: cok_def dest: map_of_SomeD)
  show "map_of xs = map_of ys"
  proof
    fix k
    show "map_of xs k = map_of ys k"
      using assms(3) [of k] pos [OF assms(1), of k] pos [OF assms(2), of k]
      by (auto simp: cget_map_of split: option.splits)
  qed
qed

lemma dict_ok_filter: "dict_ok d \<Longrightarrow> dict_ok (filter P d)"
  by (simp add: dict_ok_def distinct_map_filter)

lemma map_of_filter_nz:
  "dict_ok d \<Longrightarrow> map_of (filter (\<lambda>(k, c). c \<noteq> (0::int)) d) k =
     (case map_of d k of None \<Rightarrow> None | Some c \<Rightarrow> if c = 0 then None else Some c)"
  by (induction d)
    (auto simp: dict_ok_def map_of_eq_None_iff split: option.splits)

lemma cget_cnorm: "dict_ok d \<Longrightarrow> cget (cnorm d) k = cget d k"
  by (simp add: cget_map_of cnorm_def map_of_sort_key dict_ok_filter map_of_filter_nz
      split: option.splits)

lemma cok_cnorm: "dict_ok d \<Longrightarrow> (\<And>k c. (k, c) \<in> set d \<Longrightarrow> 0 \<le> c) \<Longrightarrow> cok (cnorm d)"
  by (force simp: cok_def cnorm_def canon_sort_key dict_ok_filter)

lemma cget_map_remdups:
  "cget (map (\<lambda>k. (k, f k)) (remdups ks)) k = (if k \<in> set ks then f k else 0)"
  by (induction ks) auto

lemma dict_ok_map_remdups: "dict_ok (map (\<lambda>k. (k, f k)) (remdups ks))"
  by (simp add: dict_ok_def comp_def)

lemma cget_not_in: "k \<notin> fst ` set xs \<Longrightarrow> cget xs k = 0"
  by (induction xs) auto

lemma cget_cmerge: "cget (cmerge xs ys) k = max (cget xs k) (cget ys k)"
  by (auto simp: cmerge_def cget_cnorm dict_ok_map_remdups cget_map_remdups cget_not_in)

lemma cok_cmerge: "cok xs \<Longrightarrow> cok ys \<Longrightarrow> cok (cmerge xs ys)"
  by (auto simp: cmerge_def dict_ok_map_remdups max_def cget_nonneg intro!: cok_cnorm)

lemma cok_update:
  "cok xs \<Longrightarrow> 0 < c \<Longrightarrow> cok (cnorm (AList.update k c xs))"
  by (rule cok_cnorm)
    (auto simp: cok_def canon_dict_ok dest!: set_update_cases)

lemma cget_update:
  "cok xs \<Longrightarrow> cget (cnorm (AList.update k c xs)) j = (if j = k then c else cget xs j)"
  by (simp add: cget_cnorm cok_def canon_dict_ok) (simp add: cget_map_of)

section \<open>Formatting\<close>

text \<open>\<^verbatim>\<open>str(n)\<close> of an integer, for the f-strings that build wire keys and ring labels.\<close>

fun str_nat :: "nat \<Rightarrow> string" where
  "str_nat n = (if n < 10 then [char_of (48 + n)] else str_nat (n div 10) @ [char_of (48 + n mod 10)])"

declare str_nat.simps [simp del]

definition str_int :: "int \<Rightarrow> string" where
  "str_int i = (if i < 0 then ''-'' @ str_nat (nat (- i)) else str_nat (nat i))"

lemma digit_char_inj:
  "a < 10 \<Longrightarrow> b < 10 \<Longrightarrow> (char_of (48 + a) :: char) = char_of (48 + b) \<longleftrightarrow> a = (b :: nat)"
proof -
  assume *: "a < 10" "b < 10"
  then have "of_char (char_of (48 + a) :: char) = 48 + a" "of_char (char_of (48 + b) :: char) = 48 + b"
    by (simp_all add: of_char_of)
  then show ?thesis by (metis add_left_imp_eq)
qed

lemma digit_char_range:
  "d < 10 \<Longrightarrow> (of_char (char_of (48 + d) :: char) :: nat) = 48 + d"
  by (simp add: of_char_of)

lemma str_nat_digits: "c \<in> set (str_nat n) \<Longrightarrow> 48 \<le> (of_char c :: nat) \<and> (of_char c :: nat) < 58"
proof (induction n rule: str_nat.induct)
  case (1 n)
  show ?case
  proof (cases "n < 10")
    case True
    then show ?thesis using "1.prems" by (subst (asm) str_nat.simps) (simp add: digit_char_range)
  next
    case False
    then show ?thesis using 1
      by (subst (asm) (2) str_nat.simps) (auto simp: digit_char_range)
  qed
qed

lemma str_nat_nonempty: "str_nat n \<noteq> []"
  by (subst str_nat.simps) simp

lemma str_nat_inj: "str_nat m = str_nat n \<Longrightarrow> m = n"
proof (induction m arbitrary: n rule: str_nat.induct)
  case (1 m)
  have m: "str_nat m = (if m < 10 then [] else str_nat (m div 10)) @ [char_of (48 + m mod 10)]"
    by (subst str_nat.simps) simp
  have n: "str_nat n = (if n < 10 then [] else str_nat (n div 10)) @ [char_of (48 + n mod 10)]"
    by (subst str_nat.simps) simp
  from 1(2) m n have
    eq: "(if m < 10 then [] else str_nat (m div 10)) = (if n < 10 then [] else str_nat (n div 10))"
    and "(char_of (48 + m mod 10) :: char) = char_of (48 + n mod 10)"
    by simp_all
  then have mod: "m mod 10 = n mod 10" by (simp add: digit_char_inj)
  show ?case
  proof (cases "m < 10")
    case True
    then have "n < 10" using eq str_nat_nonempty [of "n div 10"] by (auto split: if_splits)
    then show ?thesis using True mod by simp
  next
    case False
    then have n10: "\<not> n < 10" using eq str_nat_nonempty by (auto split: if_splits)
    then have "str_nat (m div 10) = str_nat (n div 10)" using eq False by simp
    then have "m div 10 = n div 10" using 1(1) False by blast
    then show ?thesis using mod by (metis div_mult_mod_eq)
  qed
qed

lemma str_int_inj: "str_int i = str_int j \<longleftrightarrow> i = j"
proof
  assume *: "str_int i = str_int j"
  have minus: "(CHR ''-'') \<notin> set (str_nat n)" for n
    using str_nat_digits [of "CHR ''-''" n] by auto
  have neq: "CHR ''-'' # xs \<noteq> str_nat n" for xs n
    using minus [of n] by (metis list.set_intros(1))
  show "i = j"
    using * str_nat_inj neq [of "str_nat (nat (- i))" "nat j"] neq [of "str_nat (nat (- j))" "nat i"]
    by (auto simp: str_int_def split: if_splits) (metis nat_eq_iff2 nat_le_eq_zle not_le linear
       nat_0_iff neg_0_less_iff_less neg_equal_iff_equal order.strict_implies_order)+
qed simp

lemma str_int_chars: "c \<in> set (str_int i) \<Longrightarrow> c = CHR ''-'' \<or> 48 \<le> (of_char c :: nat) \<and> (of_char c :: nat) < 58"
  using str_nat_digits by (auto simp: str_int_def split: if_splits)

end
