(* ===== verification/Py_Text.thy ===== *)
theory Py_Text
  imports Distsys_Prelude
begin

text \<open>
  The string operations of Python's standard library that the configuration and the
  address parsers use, on strings of Latin-1 characters: \<^verbatim>\<open>strip\<close>, \<^verbatim>\<open>lower\<close>,
  \<^verbatim>\<open>split\<close> and \<^verbatim>\<open>rsplit\<close> at the first and the last separator, \<^verbatim>\<open>int\<close> of a
  decimal literal, and the UTF-8 encoding.
\<close>

section \<open>Stripping and splitting\<close>

text \<open>The Latin-1 characters for which \<^verbatim>\<open>str.isspace\<close> holds.\<close>

definition py_space :: "char \<Rightarrow> bool" where
  "py_space c = (let n = (of_char c :: nat) in 9 \<le> n \<and> n \<le> 13 \<or> 28 \<le> n \<and> n \<le> 32 \<or> n = 133 \<or> n = 160)"

definition strip :: "string \<Rightarrow> string" where
  "strip s = rev (dropWhile py_space (rev (dropWhile py_space s)))"

text \<open>\<^verbatim>\<open>s.split(sep, 1)\<close> and \<^verbatim>\<open>s.rsplit(sep, 1)\<close> of a string that contains the separator.\<close>

definition split_first :: "char \<Rightarrow> string \<Rightarrow> string \<times> string" where
  "split_first sep s = (takeWhile (\<lambda>c. c \<noteq> sep) s, tl (dropWhile (\<lambda>c. c \<noteq> sep) s))"

definition split_last :: "char \<Rightarrow> string \<Rightarrow> string \<times> string" where
  "split_last sep s = (let (b, a) = split_first sep (rev s) in (rev a, rev b))"

text \<open>\<^verbatim>\<open>s.split(sep)\<close>: every piece, empty ones included.\<close>

fun split_all :: "char \<Rightarrow> string \<Rightarrow> string list" where
  "split_all sep [] = [[]]"
| "split_all sep (c # s) =
     (if c = sep then [] # split_all sep s
      else case split_all sep s of [] \<Rightarrow> [[c]] | p # ps \<Rightarrow> (c # p) # ps)"

definition lower_char :: "char \<Rightarrow> char" where
  "lower_char c =
     (let n = (of_char c :: nat) in
      if 65 \<le> n \<and> n \<le> 90 \<or> 192 \<le> n \<and> n \<le> 222 \<and> n \<noteq> 215 then char_of (n + 32) else c)"

definition lower :: "string \<Rightarrow> string" where
  "lower s = map lower_char s"

lemma split_first_join:
  "sep \<notin> set a \<Longrightarrow> split_first sep (a @ sep # b) = (a, b)"
  by (induction a) (auto simp: split_first_def)

lemma split_last_join:
  assumes "sep \<notin> set b"
  shows "split_last sep (a @ sep # b) = (a, b)"
  using split_first_join [of sep "rev b" "rev a"] assms by (simp add: split_last_def)

lemma strip_id: "s = [] \<or> \<not> py_space (hd s) \<and> \<not> py_space (last s) \<Longrightarrow> strip s = s"
proof -
  assume s: "s = [] \<or> \<not> py_space (hd s) \<and> \<not> py_space (last s)"
  have "dropWhile py_space s = s" using s by (cases s) auto
  moreover have "dropWhile py_space (rev s) = rev s" using s by (cases "rev s") (auto simp: hd_rev [symmetric])
  ultimately show ?thesis by (simp add: strip_def)
qed

section \<open>Decimal literals\<close>

definition dec_digit :: "char \<Rightarrow> bool" where
  "dec_digit c = (48 \<le> (of_char c :: nat) \<and> (of_char c :: nat) \<le> 57)"

text \<open>
  The digits of a literal: at least one digit, single underscores between digits. The
  first argument says whether the character before was a digit.
\<close>

fun dec_digits :: "bool \<Rightarrow> int \<Rightarrow> string \<Rightarrow> int option" where
  "dec_digits after acc [] = (if after then Some acc else None)"
| "dec_digits after acc (c # s) =
     (if dec_digit c then dec_digits True (10 * acc + int (of_char c) - 48) s
      else if c = CHR ''_'' \<and> after then dec_digits False acc s
      else None)"

definition py_int :: "string \<Rightarrow> int option" where
  "py_int raw =
     (case strip raw of
        [] \<Rightarrow> None
      | c # s \<Rightarrow>
          if c = CHR ''-'' then map_option uminus (dec_digits False 0 s)
          else if c = CHR ''+'' then dec_digits False 0 s
          else dec_digits False 0 (c # s))"

abbreviation dec_step :: "int \<Rightarrow> char \<Rightarrow> int" where
  "dec_step a c \<equiv> 10 * a + int (of_char c) - 48"

lemma dec_digits_fold:
  "list_all dec_digit s \<Longrightarrow> s \<noteq> [] \<or> after \<Longrightarrow> dec_digits after acc s = Some (foldl dec_step acc s)"
  by (induction s arbitrary: after acc) auto

lemma fold_str_nat: "foldl dec_step 0 (str_nat n) = int n"
proof (induction n rule: str_nat.induct)
  case (1 n)
  have digit: "int (of_char (char_of (48 + d) :: char)) = 48 + int d" if "d < 10" for d :: nat
    using that by simp
  show ?case
  proof (cases "n < 10")
    case True
    then show ?thesis by (subst str_nat.simps) (simp add: digit)
  next
    case False
    have "int n = 10 * int (n div 10) + int (n mod 10)" by presburger
    with False show ?thesis by (subst str_nat.simps) (simp add: 1 digit)
  qed
qed

lemma str_nat_dec: "list_all dec_digit (str_nat n)"
  using str_nat_digits [of _ n] by (fastforce simp: list_all_iff dec_digit_def)

lemma dec_not_space: "dec_digit c \<Longrightarrow> \<not> py_space c"
  by (auto simp: dec_digit_def py_space_def Let_def)

lemma py_int_str_nat: "py_int (str_nat n) = Some (int n)"
proof -
  have ok: "list_all dec_digit (str_nat n)" "str_nat n \<noteq> []" by (simp_all add: str_nat_dec str_nat_nonempty)
  then have "strip (str_nat n) = str_nat n"
    by (intro strip_id) (simp add: dec_not_space list_all_iff)
  moreover obtain c s where cs: "str_nat n = c # s" using ok by (cases "str_nat n") auto
  moreover have "c \<noteq> CHR ''-''" "c \<noteq> CHR ''+''" using ok cs by (auto simp: dec_digit_def)
  ultimately show ?thesis
    using dec_digits_fold [OF ok(1), of False 0] fold_str_nat [of n] ok by (simp add: py_int_def)
qed

section \<open>UTF-8\<close>

text \<open>The bytes of a Latin-1 string, as characters.\<close>

definition utf8_char :: "char \<Rightarrow> char list" where
  "utf8_char c =
     (let n = (of_char c :: nat) in if n < 128 then [c] else [char_of (192 + n div 64), char_of (128 + n mod 64)])"

definition utf8 :: "string \<Rightarrow> char list" where
  "utf8 s = concat (map utf8_char s)"

section \<open>Big-endian numbers\<close>

text \<open>Big-endian numbers: the value of a list of bytes, and the bytes of a number.\<close>

definition be_value :: "char list \<Rightarrow> nat" where
  "be_value bs = foldl (\<lambda>a b. 256 * a + of_char b) 0 bs"

fun be_bytes :: "nat \<Rightarrow> nat \<Rightarrow> char list" where
  "be_bytes 0 n = []"
| "be_bytes (Suc k) n = be_bytes k (n div 256) @ [char_of (n mod 256)]"

lemma length_be_bytes [simp]: "length (be_bytes k n) = k"
  by (induction k arbitrary: n) simp_all

lemma be_value_snoc: "be_value (bs @ [b]) = 256 * be_value bs + of_char b"
  by (simp add: be_value_def)

lemma be_value_bytes: "n < 256 ^ k \<Longrightarrow> be_value (be_bytes k n) = n"
proof (induction k arbitrary: n)
  case 0
  then show ?case by (simp add: be_value_def)
next
  case (Suc k)
  then have "n div 256 < 256 ^ k" by (simp add: less_mult_imp_div_less mult.commute)
  with Suc.IH show ?case by (simp add: be_value_snoc)
qed

end
