(* ===== verification/Framing.thy ===== *)
theory Framing
  imports Py_Text
begin

text \<open>
  The framed TCP protocol: messages (\<^verbatim>\<open>src/src/distsys/protocol/message.py\<close>), the protobuf
  envelope (\<^verbatim>\<open>protocol/codec.py\<close>) and the frames with their incremental decoder
  (\<^verbatim>\<open>protocol/framing.py\<close>). Bytes are characters. Protobuf itself is a parameter: a
  serializer that may raise on a field out of range, and a parser that may fail. The
  theorems: whatever the chunks a stream arrives in, the decoder yields the messages that
  were framed; its buffer stays bounded; and it agrees with \<^verbatim>\<open>read_message\<close>.
\<close>

section \<open>Messages\<close>

datatype MessageType =
    REQUEST | RESPONSE | ERROR | HEARTBEAT | JOIN_REQUEST | JOIN_RESPONSE | PING | ACK | PING_REQ
  | GOSSIP | FORWARDED_REQUEST | CRDT_MUTATE_REQUEST | CRDT_READ_REQUEST | CRDT_REPLICATE | CRDT_FETCH
  | CRDT_DIGEST | CRDT_DIGEST_RESPONSE | CRDT_RESPONSE

text \<open>The members in the order of their values, from 1.\<close>

definition message_types :: "MessageType list" where
  "message_types =
     [REQUEST, RESPONSE, ERROR, HEARTBEAT, JOIN_REQUEST, JOIN_RESPONSE, PING, ACK, PING_REQ,
      GOSSIP, FORWARDED_REQUEST, CRDT_MUTATE_REQUEST, CRDT_READ_REQUEST, CRDT_REPLICATE, CRDT_FETCH,
      CRDT_DIGEST, CRDT_DIGEST_RESPONSE, CRDT_RESPONSE]"

definition type_table :: "(nat \<times> MessageType) list" where
  "type_table = zip [1 ..< 19] message_types"

fun message_type_value :: "MessageType \<Rightarrow> nat" where
  "message_type_value REQUEST = 1"
| "message_type_value RESPONSE = 2"
| "message_type_value ERROR = 3"
| "message_type_value HEARTBEAT = 4"
| "message_type_value JOIN_REQUEST = 5"
| "message_type_value JOIN_RESPONSE = 6"
| "message_type_value PING = 7"
| "message_type_value ACK = 8"
| "message_type_value PING_REQ = 9"
| "message_type_value GOSSIP = 10"
| "message_type_value FORWARDED_REQUEST = 11"
| "message_type_value CRDT_MUTATE_REQUEST = 12"
| "message_type_value CRDT_READ_REQUEST = 13"
| "message_type_value CRDT_REPLICATE = 14"
| "message_type_value CRDT_FETCH = 15"
| "message_type_value CRDT_DIGEST = 16"
| "message_type_value CRDT_DIGEST_RESPONSE = 17"
| "message_type_value CRDT_RESPONSE = 18"

record Message =
  msg_type :: MessageType
  msg_sender_id :: string
  msg_correlation_id :: string
  msg_timestamp_ms :: int
  msg_ttl :: int
  msg_payload :: "char list"
  msg_traceparent :: string
  msg_tracestate :: string

text \<open>\<open>fresh_uuid\<close> and \<open>now_ms\<close> are the results of \<^verbatim>\<open>uuid4()\<close> and of the clock.\<close>

definition new_request ::
  "string \<Rightarrow> int \<Rightarrow> string \<Rightarrow> char list \<Rightarrow> string option \<Rightarrow> int \<Rightarrow> MessageType \<Rightarrow> string \<Rightarrow> string \<Rightarrow> Message" where
  "new_request fresh_uuid now_ms sender_id payload correlation_id ttl type traceparent tracestate =
     \<lparr>msg_type = type, msg_sender_id = sender_id,
      msg_correlation_id = (case correlation_id of None \<Rightarrow> fresh_uuid | Some c \<Rightarrow> if c = [] then fresh_uuid else c),
      msg_timestamp_ms = now_ms, msg_ttl = ttl, msg_payload = payload,
      msg_traceparent = traceparent, msg_tracestate = tracestate\<rparr>"

definition new_response ::
  "int \<Rightarrow> string \<Rightarrow> string \<Rightarrow> char list \<Rightarrow> MessageType \<Rightarrow> int \<Rightarrow> string \<Rightarrow> string \<Rightarrow> Message" where
  "new_response now_ms sender_id correlation_id payload type ttl traceparent tracestate =
     \<lparr>msg_type = type, msg_sender_id = sender_id, msg_correlation_id = correlation_id,
      msg_timestamp_ms = now_ms, msg_ttl = ttl, msg_payload = payload,
      msg_traceparent = traceparent, msg_tracestate = tracestate\<rparr>"

section \<open>The envelope\<close>

text \<open>The message \<^verbatim>\<open>Envelope\<close> of \<^verbatim>\<open>proto/messages.proto\<close>, and protobuf as a parameter.\<close>

record Envelope =
  env_sender_id :: string
  env_correlation_id :: string
  env_timestamp_ms :: int
  env_ttl :: int
  env_payload :: "char list"
  env_traceparent :: string
  env_tracestate :: string

type_synonym 'm serializer = "'m \<Rightarrow> char list result"
type_synonym 'm parser = "char list \<Rightarrow> 'm option"

definition envelope_of :: "Message \<Rightarrow> Envelope" where
  "envelope_of m =
     \<lparr>env_sender_id = msg_sender_id m, env_correlation_id = msg_correlation_id m,
      env_timestamp_ms = msg_timestamp_ms m, env_ttl = msg_ttl m, env_payload = msg_payload m,
      env_traceparent = msg_traceparent m, env_tracestate = msg_tracestate m\<rparr>"

definition encode_envelope :: "Envelope serializer \<Rightarrow> Message \<Rightarrow> char list result" where
  "encode_envelope ser m = ser (envelope_of m)"

definition decode_envelope :: "Envelope parser \<Rightarrow> MessageType \<Rightarrow> char list \<Rightarrow> Message result" where
  "decode_envelope par type data =
     (case par data of
        None \<Rightarrow> raise DecodeError ''invalid protobuf envelope''
      | Some env \<Rightarrow>
          if env_sender_id env = [] then raise DecodeError ''sender_id is required''
          else if env_correlation_id env = [] then raise DecodeError ''correlation_id is required''
          else Inr \<lparr>msg_type = type, msg_sender_id = env_sender_id env, msg_correlation_id = env_correlation_id env,
                    msg_timestamp_ms = env_timestamp_ms env, msg_ttl = env_ttl env, msg_payload = env_payload env,
                    msg_traceparent = env_traceparent env, msg_tracestate = env_tracestate env\<rparr>)"

section \<open>Frames\<close>

abbreviation HEADER_SIZE :: nat where
  "HEADER_SIZE \<equiv> 8"

text \<open>\<^verbatim>\<open>struct.Struct("!2sBBI")\<close>: two bytes, two unsigned bytes and a big-endian 32-bit length.\<close>

definition header_pack :: "char list \<Rightarrow> nat \<Rightarrow> nat \<Rightarrow> nat \<Rightarrow> char list result" where
  "header_pack magic version raw_type body_length =
     (if body_length \<ge> 2 ^ 32 then raise StructError ''argument out of range''
      else Inr (magic @ [char_of version, char_of raw_type] @ be_bytes 4 body_length))"

definition header_unpack :: "char list \<Rightarrow> char list \<times> nat \<times> nat \<times> nat" where
  "header_unpack h = (take 2 h, of_char (h ! 2), of_char (h ! 3), be_value (take 4 (drop 4 h)))"

definition validate_header :: "int \<Rightarrow> char list \<times> nat \<times> nat \<times> nat \<Rightarrow> MessageType result" where
  "validate_header max_frame_size h =
     (case h of (magic, version, raw_type, body_length) \<Rightarrow>
      if magic \<noteq> ''DS'' then raise InvalidMagic ''expected DS''
      else if version \<noteq> 1 then raise UnsupportedVersion (''unsupported protocol version: '' @ str_nat version)
      else case map_of type_table raw_type of
             None \<Rightarrow> raise InvalidMessageType (''unknown message type: '' @ str_nat raw_type)
           | Some type \<Rightarrow>
               if body_length = 0 then raise InvalidFrameLength (''body length must be > 0, got '' @ str_nat body_length)
               else if int body_length > max_frame_size then raise FrameTooLarge ''frame body exceeds limit''
               else Inr type)"

definition encode_frame :: "Envelope serializer \<Rightarrow> int \<Rightarrow> Message \<Rightarrow> char list result" where
  "encode_frame ser max_frame_size m =
     rbind (encode_envelope ser m) (\<lambda>body.
       if body = [] then raise InvalidFrameLength ''encoded envelope is empty''
       else if int (length body) > max_frame_size then raise FrameTooLarge ''frame body exceeds limit''
       else rbind (header_pack ''DS'' 1 (message_type_value (msg_type m)) (length body)) (\<lambda>header. Inr (header @ body)))"

text \<open>\<^verbatim>\<open>readexactly\<close> on a stream that holds these bytes and then ends.\<close>

definition readexactly :: "char list \<Rightarrow> nat \<Rightarrow> (char list \<times> char list) result" where
  "readexactly stream n =
     (if length stream < n then raise IncompleteReadError [] else Inr (take n stream, drop n stream))"

definition read_message :: "Envelope parser \<Rightarrow> int \<Rightarrow> char list \<Rightarrow> (Message \<times> char list) result" where
  "read_message par max_frame_size stream =
     rbind (readexactly stream HEADER_SIZE) (\<lambda>(header, rest).
     rbind (validate_header max_frame_size (header_unpack header)) (\<lambda>type.
     rbind (readexactly rest (case header_unpack header of (_, _, _, body_length) \<Rightarrow> body_length)) (\<lambda>(body, rest').
     rbind (decode_envelope par type body) (\<lambda>m. Inr (m, rest')))))"

section \<open>The incremental decoder\<close>

text \<open>
  The loop of \<^verbatim>\<open>FrameDecoder.feed\<close> on the buffer. An exception of the header leaves the
  buffer as it is, one of the envelope leaves it without the frame; either way the
  messages of the same call are lost.
\<close>

function feed_loop :: "Envelope parser \<Rightarrow> int \<Rightarrow> char list \<Rightarrow> Message list result \<times> char list" where
  "feed_loop par max_frame_size buffer =
     (if length buffer < HEADER_SIZE then (Inr [], buffer)
      else case header_unpack (take HEADER_SIZE buffer) of (magic, version, raw_type, body_length) \<Rightarrow>
        (case validate_header max_frame_size (magic, version, raw_type, body_length) of
           Inl e \<Rightarrow> (Inl e, buffer)
         | Inr type \<Rightarrow>
             (let frame_size = HEADER_SIZE + body_length in
              if length buffer < frame_size then (Inr [], buffer)
              else
                let body = take body_length (drop HEADER_SIZE buffer); buffer' = drop frame_size buffer
                in case decode_envelope par type body of
                     Inl e \<Rightarrow> (Inl e, buffer')
                   | Inr m \<Rightarrow>
                       (case feed_loop par max_frame_size buffer' of
                          (Inl e, b) \<Rightarrow> (Inl e, b)
                        | (Inr ms, b) \<Rightarrow> (Inr (m # ms), b)))))"
  by pat_completeness auto
termination by (relation "measure (\<lambda>(par, max_frame_size, buffer). length buffer)") auto

declare feed_loop.simps [simp del]

definition feed :: "Envelope parser \<Rightarrow> int \<Rightarrow> char list \<Rightarrow> char list \<Rightarrow> Message list result \<times> char list" where
  "feed par max_frame_size buffer data = feed_loop par max_frame_size (buffer @ data)"

text \<open>A whole stream, chunk by chunk, up to the first exception.\<close>

fun feed_chunks :: "Envelope parser \<Rightarrow> int \<Rightarrow> char list \<Rightarrow> char list list \<Rightarrow> Message list result \<times> char list" where
  "feed_chunks par max_frame_size buffer [] = (Inr [], buffer)"
| "feed_chunks par max_frame_size buffer (c # cs) =
     (case feed par max_frame_size buffer c of
        (Inl e, b) \<Rightarrow> (Inl e, b)
      | (Inr ms, b) \<Rightarrow>
          (case feed_chunks par max_frame_size b cs of
             (Inl e, b') \<Rightarrow> (Inl e, b')
           | (Inr ms', b') \<Rightarrow> (Inr (ms @ ms'), b')))"

section \<open>One frame at a time\<close>

text \<open>
  What the front of a buffer is: not yet a frame, a bad header, or a frame with its decoded
  envelope and the bytes after it.
\<close>

definition frame_step :: "Envelope parser \<Rightarrow> int \<Rightarrow> char list \<Rightarrow> (exn + Message result \<times> char list) option" where
  "frame_step par max_frame_size buffer =
     (if length buffer < HEADER_SIZE then None
      else case header_unpack (take HEADER_SIZE buffer) of (magic, version, raw_type, n) \<Rightarrow>
        (case validate_header max_frame_size (magic, version, raw_type, n) of
           Inl e \<Rightarrow> Some (Inl e)
         | Inr type \<Rightarrow>
             if length buffer < HEADER_SIZE + n then None
             else Some (Inr (decode_envelope par type (take n (drop HEADER_SIZE buffer)), drop (HEADER_SIZE + n) buffer))))"

lemma feed_loop_step:
  "feed_loop par mx buffer =
     (case frame_step par mx buffer of
        None \<Rightarrow> (Inr [], buffer)
      | Some (Inl e) \<Rightarrow> (Inl e, buffer)
      | Some (Inr (Inl e, rest)) \<Rightarrow> (Inl e, rest)
      | Some (Inr (Inr m, rest)) \<Rightarrow>
          (case feed_loop par mx rest of (Inl e, b) \<Rightarrow> (Inl e, b) | (Inr ms, b) \<Rightarrow> (Inr (m # ms), b)))"
  by (subst feed_loop.simps) (auto simp: frame_step_def Let_def split: prod.splits sum.splits if_splits)

lemma frame_step_append:
  "frame_step par mx a = Some x \<Longrightarrow>
     frame_step par mx (a @ b) = Some (case x of Inl e \<Rightarrow> Inl e | Inr (r, rest) \<Rightarrow> Inr (r, rest @ b))"
  by (auto simp: frame_step_def split: prod.splits sum.splits if_splits)

lemma frame_step_shorter: "frame_step par mx a = Some (Inr (r, rest)) \<Longrightarrow> length rest < length a"
  by (auto simp: frame_step_def split: prod.splits sum.splits if_splits)

lemma feed_loop_induct:
  assumes "\<And>a. (\<And>m rest. frame_step par mx a = Some (Inr (Inr m, rest)) \<Longrightarrow> P rest) \<Longrightarrow> P a"
  shows "P a"
proof (induction "length a" arbitrary: a rule: less_induct)
  case less
  show ?case by (rule assms) (blast intro: less frame_step_shorter)
qed

lemma feed_loop_append:
  "feed_loop par mx a = (Inr ms, r) \<Longrightarrow>
     feed_loop par mx (a @ b) =
       (case feed_loop par mx (r @ b) of (Inl e, r') \<Rightarrow> (Inl e, r') | (Inr ms', r') \<Rightarrow> (Inr (ms @ ms'), r'))"
proof (induction a arbitrary: ms rule: feed_loop_induct [where par = par and mx = mx])
  case (1 a)
  show ?case
  proof (cases "frame_step par mx a")
    case None
    then have "ms = []" "r = a" using "1.prems" by (simp_all add: feed_loop_step [of par mx a])
    then show ?thesis by (auto split: prod.splits sum.splits)
  next
    case (Some x)
    then obtain m rest where x: "x = Inr (Inr m, rest)"
      using "1.prems" by (subst (asm) feed_loop_step) (auto split: sum.splits)
    with Some have step: "frame_step par mx a = Some (Inr (Inr m, rest))" by simp
    obtain ms1 where ms1: "feed_loop par mx rest = (Inr ms1, r)" "ms = m # ms1"
      using "1.prems" step by (subst (asm) feed_loop_step) (auto split: prod.splits sum.splits)
    have "feed_loop par mx (a @ b) = (case feed_loop par mx (rest @ b) of (Inl e, r') \<Rightarrow> (Inl e, r') | (Inr ms, r') \<Rightarrow> (Inr (m # ms), r'))"
      using frame_step_append [OF step, of b] by (subst feed_loop_step) simp
    also have "feed_loop par mx (rest @ b) =
        (case feed_loop par mx (r @ b) of (Inl e, r') \<Rightarrow> (Inl e, r') | (Inr ms', r') \<Rightarrow> (Inr (ms1 @ ms'), r'))"
      by (rule "1.IH" [OF step ms1(1)])
    finally show ?thesis using ms1(2) by (auto split: prod.splits sum.splits)
  qed
qed

lemma feed_loop_stable: "feed_loop par mx a = (Inr ms, r) \<Longrightarrow> feed_loop par mx r = (Inr [], r)"
proof (induction a arbitrary: ms rule: feed_loop_induct [where par = par and mx = mx])
  case (1 a)
  show ?case
  proof (cases "frame_step par mx a")
    case None
    then have "feed_loop par mx a = (Inr [], a)" by (simp add: feed_loop_step [of par mx a])
    then show ?thesis using "1.prems" by auto
  next
    case (Some x)
    then obtain m rest where x: "x = Inr (Inr m, rest)"
      using "1.prems" by (subst (asm) feed_loop_step) (auto split: sum.splits)
    with Some have step: "frame_step par mx a = Some (Inr (Inr m, rest))" by simp
    obtain ms1 where "feed_loop par mx rest = (Inr ms1, r)"
      using "1.prems" step by (subst (asm) feed_loop_step) (auto split: prod.splits sum.splits)
    then show ?thesis by (rule "1.IH" [OF step])
  qed
qed

lemma feed_loop_error_append:
  "feed_loop par mx a = (Inl e, b) \<Longrightarrow> \<exists>b'. feed_loop par mx (a @ d) = (Inl e, b')"
proof (induction a rule: feed_loop_induct [where par = par and mx = mx])
  case step: (1 a)
  then obtain y where y: "frame_step par mx a = Some y" by (subst (asm) feed_loop_step) (auto split: option.splits)
  consider e' where "y = Inl e'" | e' rest where "y = Inr (Inl e', rest)" | m rest where "y = Inr (Inr m, rest)"
    by (metis old.sum.exhaust surj_pair)
  then show ?case
  proof cases
    case (3 m rest)
    with y have fs: "frame_step par mx a = Some (Inr (Inr m, rest))" by simp
    have "feed_loop par mx rest = (Inl e, b)"
      using step.prems fs by (subst (asm) feed_loop_step) (auto split: prod.splits sum.splits)
    then obtain b' where "feed_loop par mx (rest @ d) = (Inl e, b')" using step.IH [OF fs] by blast
    then have "feed_loop par mx (a @ d) = (Inl e, b')"
      using frame_step_append [OF fs, of d] by (subst feed_loop_step) simp
    then show ?thesis by blast
  next
    case (1 e')
    have "feed_loop par mx (a @ d) = (Inl e', a @ d)"
      using frame_step_append [OF y, of d] 1 by (subst feed_loop_step) simp
    moreover have "e' = e" using step.prems y 1 by (subst (asm) feed_loop_step) simp
    ultimately show ?thesis by simp
  next
    case (2 e' rest)
    have "feed_loop par mx (a @ d) = (Inl e', rest @ d)"
      using frame_step_append [OF y, of d] 2 by (subst feed_loop_step) simp
    moreover have "e' = e" using step.prems y 2 by (subst (asm) feed_loop_step) simp
    ultimately show ?thesis by simp
  qed
qed

lemma feed_chunks_concat:
  "feed_loop par mx (buffer @ concat chunks) = (Inr ms, r) \<Longrightarrow>
   feed_loop par mx buffer = (Inr [], buffer) \<Longrightarrow> feed_chunks par mx buffer chunks = (Inr ms, r)"
proof (induction chunks arbitrary: buffer ms)
  case (Cons c cs)
  obtain x b where fc: "feed_loop par mx (buffer @ c) = (x, b)" by fastforce
  have all: "feed_loop par mx ((buffer @ c) @ concat cs) = (Inr ms, r)" using Cons.prems(1) by simp
  then have "x \<noteq> Inl e" for e using feed_loop_error_append [of par mx "buffer @ c" e b "concat cs"] fc by auto
  then obtain ms1 where x: "x = Inr ms1" by (cases x) auto
  obtain y b' where rest: "feed_loop par mx (b @ concat cs) = (y, b')" by fastforce
  have "feed_loop par mx ((buffer @ c) @ concat cs) =
      (case y of Inl e \<Rightarrow> (Inl e, b') | Inr ms' \<Rightarrow> (Inr (ms1 @ ms'), b'))"
    using feed_loop_append [OF fc [unfolded x], of "concat cs"] rest by simp
  then obtain ms2 where ms2: "y = Inr ms2" "ms = ms1 @ ms2" "b' = r" using all by (cases y) auto
  have "feed_loop par mx b = (Inr [], b)" by (rule feed_loop_stable [OF fc [unfolded x]])
  from Cons.IH [OF rest [unfolded ms2] this] show ?case using fc x ms2 by (simp add: feed_def)
qed simp

subsection \<open>Encoded frames\<close>

lemma type_table_value: "map_of type_table (message_type_value t) = Some t"
  by (cases t) (simp_all add: type_table_def message_types_def upt_rec)

lemma message_type_value_bound: "message_type_value t < 256"
  by (cases t) simp_all

lemma frame_step_encoded:
  assumes enc: "encode_frame ser mx m = Inr frame"
    and inv: "\<And>b. ser (envelope_of m) = Inr b \<Longrightarrow> par b = Some (envelope_of m)"
    and ids: "msg_sender_id m \<noteq> []" "msg_correlation_id m \<noteq> []"
  shows "frame_step par mx (frame @ rest) = Some (Inr (Inr m, rest))"
proof -
  obtain body where body: "ser (envelope_of m) = Inr body" "body \<noteq> []" "int (length body) \<le> mx" "length body < 2 ^ 32"
    and frame: "frame = (''DS'' @ [char_of (1 :: nat), char_of (message_type_value (msg_type m))] @ be_bytes 4 (length body)) @ body"
      (is "_ = ?h @ _")
    using enc by (auto simp: encode_frame_def encode_envelope_def header_pack_def rbind_eq_Inr split: if_splits)
  have "length body < 256 ^ 4" using body(4) by simp
  then have len: "be_value (be_bytes 4 (length body)) = length body" by (rule be_value_bytes)
  have hdr: "header_unpack (take HEADER_SIZE (frame @ rest)) = (''DS'', 1, message_type_value (msg_type m), length body)"
    using len message_type_value_bound [of "msg_type m"]
    by (simp add: header_unpack_def frame)
  have "validate_header mx (''DS'', 1, message_type_value (msg_type m), length body) = Inr (msg_type m)"
    using body by (simp add: validate_header_def type_table_value)
  moreover have "decode_envelope par (msg_type m) body = Inr m"
    using inv [OF body(1)] ids by (simp add: decode_envelope_def envelope_of_def)
  moreover have "length ?h = HEADER_SIZE" by simp
  then have "drop HEADER_SIZE (frame @ rest) = body @ rest" "drop (HEADER_SIZE + length body) (frame @ rest) = rest"
    "length (frame @ rest) \<ge> HEADER_SIZE + length body"
    unfolding frame by (simp_all del: append.simps add: drop_append)
  ultimately show ?thesis using hdr by (simp add: frame_step_def)
qed

lemma feed_loop_frames:
  "list_all2 (\<lambda>m f. encode_frame ser mx m = Inr f) ms frames \<Longrightarrow>
   (\<And>m. m \<in> set ms \<Longrightarrow> msg_sender_id m \<noteq> [] \<and> msg_correlation_id m \<noteq> [] \<and>
      (\<forall>b. ser (envelope_of m) = Inr b \<longrightarrow> par b = Some (envelope_of m))) \<Longrightarrow>
     feed_loop par mx (concat frames) = (Inr ms, [])"
proof (induction ms frames rule: list_all2_induct)
  case Nil
  then show ?case by (subst feed_loop_step) (simp add: frame_step_def)
next
  case (Cons m ms f frames)
  have m: "msg_sender_id m \<noteq> [] \<and> msg_correlation_id m \<noteq> [] \<and>
      (\<forall>b. ser (envelope_of m) = Inr b \<longrightarrow> par b = Some (envelope_of m))" by (rule Cons.prems) simp
  have "frame_step par mx (f @ concat frames) = Some (Inr (Inr m, concat frames))"
    by (rule frame_step_encoded [OF Cons.hyps(1)]) (use m in blast)+
  moreover have "feed_loop par mx (concat frames) = (Inr ms, [])" by (rule Cons.IH) (use Cons.prems in auto)
  ultimately show ?case by (subst feed_loop_step) simp
qed

lemma read_message_step:
  "read_message par mx stream =
     (case frame_step par mx stream of
        None \<Rightarrow> raise IncompleteReadError []
      | Some (Inl e) \<Rightarrow> Inl e
      | Some (Inr (r, rest)) \<Rightarrow> rbind r (\<lambda>m. Inr (m, rest)))"
  by (auto simp: read_message_def readexactly_def frame_step_def add.commute split: prod.splits sum.splits)

lemma frame_step_wait: "frame_step par mx a = None \<Longrightarrow> int (length a) < int HEADER_SIZE + max 0 mx"
proof -
  assume wait: "frame_step par mx a = None"
  obtain magic version raw n where h: "header_unpack (take HEADER_SIZE a) = (magic, version, raw, n)" by (metis prod_cases4)
  show ?thesis
  proof (cases "length a < HEADER_SIZE")
    case False
    then obtain t where t: "validate_header mx (magic, version, raw, n) = Inr t" "length a < HEADER_SIZE + n"
      using wait h by (auto simp: frame_step_def split: sum.splits if_splits)
    then have "int n \<le> mx" by (auto simp: validate_header_def split: if_splits option.splits)
    then show ?thesis using t(2) by linarith
  qed simp
qed

section \<open>Properties\<close>

text \<open>A message, its envelope and a frame of it, for the witnesses.\<close>

definition example_message :: Message where
  "example_message = new_response 5 ''n1'' ''c1'' ''p'' ACK 8 [] []"

abbreviation example_ser :: "Envelope serializer" where
  "example_ser \<equiv> \<lambda>env. Inr ''e''"

abbreviation example_par :: "Envelope parser" where
  "example_par \<equiv> \<lambda>bytes. if bytes = ''e'' then Some (envelope_of example_message) else None"

text \<open>C23: Framing survives any TCP chunking: the frames of any list of messages, concatenated and
  cut into chunks at arbitrary places, empty chunks included, make the decoder yield
  exactly these messages in order and leave its buffer empty. (Protobuf is relied on to
  parse back what it serialized.)\<close>

theorem framing_survives_chunking:
  assumes "list_all2 (\<lambda>m f. encode_frame ser max_frame_size m = Inr f) ms frames"
    and "\<forall>m \<in> set ms. msg_sender_id m \<noteq> [] \<and> msg_correlation_id m \<noteq> []"
    and protobuf_round_trip: "\<forall>m \<in> set ms. \<forall>b. ser (envelope_of m) = Inr b \<longrightarrow> par b = Some (envelope_of m)"
    and "concat chunks = concat frames"
  shows "feed_chunks par max_frame_size [] chunks = (Inr ms, [])"
proof -
  have "feed_loop par max_frame_size (concat frames) = (Inr ms, [])"
    by (rule feed_loop_frames [OF assms(1)]) (use assms(2,3) in blast)
  moreover have "feed_loop par max_frame_size [] = (Inr [], [])" by (subst feed_loop_step) (simp add: frame_step_def)
  ultimately show ?thesis by (intro feed_chunks_concat) (simp_all add: assms(4))
qed

theorem framing_survives_chunking_witness:
  "\<exists>f. encode_frame example_ser 4194304 example_message = Inr f \<and> length f = 9 \<and>
     feed_chunks example_par 4194304 [] [take 3 f, [], drop 3 f] = (Inr [example_message], [])"
proof -
  obtain f where f: "encode_frame example_ser 4194304 example_message = Inr f" and len: "length f = 9"
    by (simp add: encode_frame_def encode_envelope_def header_pack_def)
  have "list_all2 (\<lambda>m g. encode_frame example_ser 4194304 m = Inr g) [example_message] [f]" using f by simp
  moreover have "\<forall>m \<in> set [example_message]. msg_sender_id m \<noteq> [] \<and> msg_correlation_id m \<noteq> []"
    by (simp add: example_message_def new_response_def)
  ultimately have "feed_chunks example_par 4194304 [] [take 3 f, [], drop 3 f] = (Inr [example_message], [])"
    by (rule framing_survives_chunking) simp_all
  with f len show ?thesis by blast
qed

text \<open>C34: The decoder's memory is bounded and its reads agree with \<^verbatim>\<open>read_message\<close>: after any
  call that does not raise, fewer bytes than a header and a maximal body are left in the
  buffer; and on the same bytes \<^verbatim>\<open>read_message\<close> gives the decoder's first message and the
  bytes from which the decoder goes on, or runs out of input exactly where the decoder
  waits for more, or raises what the decoder raises.\<close>

theorem decoder_bounded_and_agrees_with_reader:
  "(\<forall>ms rest. feed par max_frame_size buffer data = (Inr ms, rest) \<longrightarrow> int (length rest) < 8 + max 0 max_frame_size) \<and>
   (case read_message par max_frame_size (buffer @ data) of
      Inr (m, after) \<Rightarrow>
        feed par max_frame_size buffer data =
          (case feed par max_frame_size [] after of (Inl e, b) \<Rightarrow> (Inl e, b) | (Inr ms, b) \<Rightarrow> (Inr (m # ms), b))
    | Inl e \<Rightarrow>
        feed par max_frame_size buffer data = (Inr [], buffer @ data) \<and> exn_cls e = IncompleteReadError \<or>
        fst (feed par max_frame_size buffer data) = Inl e)"
proof (rule conjI)
  show "\<forall>ms rest. feed par max_frame_size buffer data = (Inr ms, rest) \<longrightarrow> int (length rest) < 8 + max 0 max_frame_size"
  proof (intro allI impI)
    fix ms rest assume "feed par max_frame_size buffer data = (Inr ms, rest)"
    then have "feed_loop par max_frame_size rest = (Inr [], rest)" unfolding feed_def by (rule feed_loop_stable)
    then have "frame_step par max_frame_size rest = None"
      by (subst (asm) feed_loop_step) (auto split: option.splits sum.splits prod.splits)
    then show "int (length rest) < 8 + max 0 max_frame_size" using frame_step_wait by fastforce
  qed
  show "case read_message par max_frame_size (buffer @ data) of
      Inr (m, after) \<Rightarrow>
        feed par max_frame_size buffer data =
          (case feed par max_frame_size [] after of (Inl e, b) \<Rightarrow> (Inl e, b) | (Inr ms, b) \<Rightarrow> (Inr (m # ms), b))
    | Inl e \<Rightarrow>
        feed par max_frame_size buffer data = (Inr [], buffer @ data) \<and> exn_cls e = IncompleteReadError \<or>
        fst (feed par max_frame_size buffer data) = Inl e"
    unfolding read_message_step feed_def feed_loop_step [of par max_frame_size "buffer @ data"]
    by (auto split: option.splits sum.splits prod.splits)
qed

theorem decoder_bounded_and_agrees_with_reader_witness:
  "\<exists>f after. encode_frame example_ser 4194304 example_message = Inr f \<and>
     read_message example_par 4194304 f = Inr (example_message, after) \<and>
     fst (feed example_par 4194304 [] f) = Inr [example_message]"
proof -
  obtain f where f: "encode_frame example_ser 4194304 example_message = Inr f"
    by (simp add: encode_frame_def encode_envelope_def header_pack_def)
  have "frame_step example_par 4194304 (f @ []) = Some (Inr (Inr example_message, []))"
    by (rule frame_step_encoded [OF f]) (simp_all add: example_message_def new_response_def)
  then have r: "read_message example_par 4194304 f = Inr (example_message, [])" by (simp add: read_message_step)
  have "feed example_par 4194304 [] [] = (Inr [], [])" by (simp add: feed_def feed_loop_step [of _ _ "[]"] frame_step_def)
  with decoder_bounded_and_agrees_with_reader [of example_par 4194304 "[]" f] r f show ?thesis by auto
qed

end
