(* ===== verification/Membership.thy ===== *)
theory Membership
  imports Py_Text "HOL-Library.Product_Lexorder"
begin

text \<open>
  Cluster membership: the member records and seed addresses of
  \<^verbatim>\<open>src/src/distsys/cluster/member.py\<close> and the SWIM-style table of
  \<^verbatim>\<open>cluster/membership.py\<close>. Every method of the table holds its lock, so it is one step;
  the readings of the monotonic clock are arguments. The theorems: the local member is
  always ALIVE and its incarnation never falls, the two timer dictionaries follow the
  statuses, merging is the join of the (incarnation, status) order for every remote node,
  and timeouts act exactly when they are due.
\<close>

section \<open>Members\<close>

datatype MemberStatus = ALIVE | SUSPECT | DEAD

text \<open>The \<^verbatim>\<open>IntEnum\<close> values order the statuses.\<close>

fun status_value :: "MemberStatus \<Rightarrow> nat" where
  "status_value ALIVE = 1"
| "status_value SUSPECT = 2"
| "status_value DEAD = 3"

instantiation MemberStatus :: linorder
begin

definition less_eq_MemberStatus :: "MemberStatus \<Rightarrow> MemberStatus \<Rightarrow> bool" where
  "less_eq_MemberStatus a b = (status_value a \<le> status_value b)"

definition less_MemberStatus :: "MemberStatus \<Rightarrow> MemberStatus \<Rightarrow> bool" where
  "less_MemberStatus a b = (status_value a < status_value b)"

instance
proof
  fix a b :: MemberStatus
  show "a \<le> b \<Longrightarrow> b \<le> a \<Longrightarrow> a = b"
    by (cases a; cases b) (simp_all add: less_eq_MemberStatus_def)
qed (auto simp: less_eq_MemberStatus_def less_MemberStatus_def)

end

record ClusterMember =
  cm_node :: string
  cm_host :: string
  cm_port :: int
  cm_status :: MemberStatus
  cm_incarnation :: int

definition ClusterMember_init ::
  "string \<Rightarrow> string \<Rightarrow> int \<Rightarrow> MemberStatus \<Rightarrow> int \<Rightarrow> ClusterMember result" where
  "ClusterMember_init node_id host port status incarnation =
     (if node_id = [] then raise ValueError ''node_id is required''
      else if host = [] then raise ValueError ''host is required''
      else if \<not> (1 \<le> port \<and> port \<le> 65535) then raise ValueError ''port must be between 1 and 65535''
      else if incarnation < 1 then raise ValueError ''incarnation must be positive''
      else Inr \<lparr>cm_node = node_id, cm_host = host, cm_port = port, cm_status = status, cm_incarnation = incarnation\<rparr>)"

record SeedAddress =
  sd_host :: string
  sd_port :: int
  sd_node :: "string option"

definition SeedAddress_init :: "string \<Rightarrow> int \<Rightarrow> string option \<Rightarrow> SeedAddress result" where
  "SeedAddress_init host port node_id =
     (if host = [] then raise ValueError ''seed host is required''
      else if \<not> (1 \<le> port \<and> port \<le> 65535) then raise ValueError ''seed port must be between 1 and 65535''
      else Inr \<lparr>sd_host = host, sd_port = port, sd_node = node_id\<rparr>)"

text \<open>
  \<^verbatim>\<open>parse\<close>. When the only colon stands before the \<^verbatim>\<open>@\<close>, the source's unpacking of
  \<^verbatim>\<open>rsplit\<close> finds one piece and raises a \<^verbatim>\<open>ValueError\<close> of its own.
\<close>

definition seed_endpoint :: "string option \<Rightarrow> string \<Rightarrow> SeedAddress result" where
  "seed_endpoint node_id endpoint =
     (if CHR '':'' \<notin> set endpoint then raise ValueError ''not enough values to unpack (expected 2, got 1)''
      else let (raw_host, raw_port) = split_last (CHR '':'') endpoint; host = strip raw_host
           in if host = [] then raise ValueError ''seed host is required''
              else case py_int raw_port of
                     None \<Rightarrow> raise ValueError (''invalid seed port: '' @ raw_port)
                   | Some port \<Rightarrow> SeedAddress_init host port node_id)"

definition seed_parse :: "string \<Rightarrow> SeedAddress result" where
  "seed_parse raw =
     (let value = strip raw in
      if value = [] \<or> CHR '':'' \<notin> set value then raise ValueError (''invalid seed address: '' @ raw)
      else if CHR ''@'' \<in> set value then
        (let (raw_node_id, endpoint) = split_first (CHR ''@'') value; node_id = strip raw_node_id
         in if node_id = [] then raise ValueError ''seed node_id is required''
            else seed_endpoint (Some node_id) endpoint)
      else seed_endpoint None value)"

section \<open>The table\<close>

record MembershipTable =
  mt_local :: string
  mt_suspicion :: real
  mt_retention :: real
  mt_members :: "(string, ClusterMember) dict"
  mt_suspected :: "(string, real) dict"
  mt_dead :: "(string, real) dict"
  mt_version :: int

definition MembershipTable_init :: "ClusterMember \<Rightarrow> real \<Rightarrow> real \<Rightarrow> MembershipTable result" where
  "MembershipTable_init local_member suspicion retention =
     (if suspicion \<le> 0 then raise ValueError ''suspicion timeout must be greater than zero''
      else if retention \<le> suspicion then raise ValueError ''dead retention must exceed suspicion timeout''
      else Inr \<lparr>mt_local = cm_node local_member, mt_suspicion = suspicion, mt_retention = retention,
                mt_members = [(cm_node local_member, local_member)], mt_suspected = [], mt_dead = [], mt_version = 1\<rparr>)"

definition mt_snapshot :: "MembershipTable \<Rightarrow> ClusterMember list" where
  "mt_snapshot t = map snd (sort_key fst (mt_members t))"

definition mt_get :: "MembershipTable \<Rightarrow> string \<Rightarrow> ClusterMember option" where
  "mt_get t node_id = map_of (mt_members t) node_id"

definition alive_members :: "MembershipTable \<Rightarrow> bool \<Rightarrow> ClusterMember list" where
  "alive_members t include_self =
     [m. (node_id, m) \<leftarrow> sort_key fst (mt_members t), cm_status m = ALIVE \<and> (include_self \<or> node_id \<noteq> mt_local t)]"

definition probe_candidates :: "MembershipTable \<Rightarrow> ClusterMember list" where
  "probe_candidates t =
     [m. (node_id, m) \<leftarrow> sort_key fst (mt_members t), node_id \<noteq> mt_local t \<and> cm_status m \<in> {ALIVE, SUSPECT}]"

text \<open>\<^verbatim>\<open>d.setdefault(k, v)\<close> for its effect.\<close>

definition setdefault :: "'k \<Rightarrow> 'v \<Rightarrow> ('k, 'v) dict \<Rightarrow> ('k, 'v) dict" where
  "setdefault k v d = (case map_of d k of None \<Rightarrow> AList.update k v d | Some _ \<Rightarrow> d)"

definition record_timer_state :: "real \<Rightarrow> ClusterMember \<Rightarrow> MembershipTable \<Rightarrow> MembershipTable" where
  "record_timer_state now member t =
     (let k = cm_node member in
      case cm_status member of
        ALIVE \<Rightarrow> t\<lparr>mt_suspected := AList.delete k (mt_suspected t), mt_dead := AList.delete k (mt_dead t)\<rparr>
      | SUSPECT \<Rightarrow> t\<lparr>mt_suspected := setdefault k now (mt_suspected t), mt_dead := AList.delete k (mt_dead t)\<rparr>
      | DEAD \<Rightarrow> t\<lparr>mt_suspected := AList.delete k (mt_suspected t), mt_dead := setdefault k now (mt_dead t)\<rparr>)"

text \<open>Storing a record under its node id with its timers: what each branch of the merge does.\<close>

definition put_member :: "real \<Rightarrow> ClusterMember \<Rightarrow> MembershipTable \<Rightarrow> MembershipTable" where
  "put_member now member t =
     record_timer_state now member (t\<lparr>mt_members := AList.update (cm_node member) member (mt_members t)\<rparr>)"

definition merge_one_locked :: "MembershipTable \<Rightarrow> real \<Rightarrow> ClusterMember \<Rightarrow> bool result \<times> MembershipTable" where
  "merge_one_locked t now incoming =
     (case mt_get t (cm_node incoming) of
        None \<Rightarrow>
          if cm_node incoming = mt_local t then (raise AssertionError [], t)
          else (Inr True, put_member now incoming t)
      | Some current \<Rightarrow>
          if cm_node incoming = mt_local t then
            (if cm_status incoming \<in> {SUSPECT, DEAD} \<and> cm_incarnation incoming \<ge> cm_incarnation current
             then (Inr True, put_member now (current\<lparr>cm_status := ALIVE, cm_incarnation := cm_incarnation incoming + 1\<rparr>) t)
             else (Inr False, t))
          else if cm_incarnation incoming < cm_incarnation current then (Inr False, t)
          else if cm_incarnation incoming > cm_incarnation current then (Inr True, put_member now incoming t)
          else if cm_status incoming > cm_status current
          then (Inr True, put_member now (current\<lparr>cm_status := cm_status incoming\<rparr>) t)
          else (Inr False, t))"

text \<open>The loop of \<^verbatim>\<open>merge\<close>: each record comes with the reading of the clock while it is merged.\<close>

fun merge_loop :: "MembershipTable \<Rightarrow> bool \<Rightarrow> (ClusterMember \<times> real) list \<Rightarrow> bool result \<times> MembershipTable" where
  "merge_loop t changed [] = (Inr changed, t)"
| "merge_loop t changed ((record, now) # rest) =
     (case merge_one_locked t now record of
        (Inl e, t') \<Rightarrow> (Inl e, t')
      | (Inr c, t') \<Rightarrow> merge_loop t' (c \<or> changed) rest)"

definition mt_merge :: "MembershipTable \<Rightarrow> (ClusterMember \<times> real) list \<Rightarrow> bool result \<times> MembershipTable" where
  "mt_merge t records =
     (case merge_loop t False records of
        (Inl e, t') \<Rightarrow> (Inl e, t')
      | (Inr changed, t') \<Rightarrow> (Inr changed, if changed then t'\<lparr>mt_version := mt_version t' + 1\<rparr> else t'))"

definition mark_suspect :: "MembershipTable \<Rightarrow> real \<Rightarrow> string \<Rightarrow> bool \<times> MembershipTable" where
  "mark_suspect t now node_id =
     (case mt_get t node_id of
        None \<Rightarrow> (False, t)
      | Some current \<Rightarrow>
          if node_id = mt_local t then (False, t)
          else if cm_status current \<noteq> ALIVE then (False, t)
          else (let updated = current\<lparr>cm_status := SUSPECT\<rparr>;
                    t' = record_timer_state now updated (t\<lparr>mt_members := AList.update node_id updated (mt_members t)\<rparr>)
                in (True, t'\<lparr>mt_version := mt_version t' + 1\<rparr>)))"

text \<open>The two loops of \<^verbatim>\<open>advance_timeouts_and_purge\<close>, over the timers as they were before each.\<close>

fun expire_suspects :: "real \<Rightarrow> (string \<times> real) list \<Rightarrow> bool \<Rightarrow> MembershipTable \<Rightarrow> bool \<times> MembershipTable" where
  "expire_suspects now [] changed t = (changed, t)"
| "expire_suspects now ((node_id, suspected_at) # rest) changed t =
     (case mt_get t node_id of
        None \<Rightarrow> expire_suspects now rest changed (t\<lparr>mt_suspected := AList.delete node_id (mt_suspected t)\<rparr>)
      | Some member \<Rightarrow>
          if cm_status member \<noteq> SUSPECT
          then expire_suspects now rest changed (t\<lparr>mt_suspected := AList.delete node_id (mt_suspected t)\<rparr>)
          else if now - suspected_at \<ge> mt_suspicion t
          then expire_suspects now rest True
                 (t\<lparr>mt_members := AList.update node_id (member\<lparr>cm_status := DEAD\<rparr>) (mt_members t),
                    mt_suspected := AList.delete node_id (mt_suspected t),
                    mt_dead := AList.update node_id now (mt_dead t)\<rparr>)
          else expire_suspects now rest changed t)"

fun purge_dead :: "real \<Rightarrow> (string \<times> real) list \<Rightarrow> bool \<Rightarrow> MembershipTable \<Rightarrow> bool \<times> MembershipTable" where
  "purge_dead now [] changed t = (changed, t)"
| "purge_dead now ((node_id, dead_at) # rest) changed t =
     (if node_id = mt_local t then purge_dead now rest changed t
      else case mt_get t node_id of
             None \<Rightarrow> purge_dead now rest changed (t\<lparr>mt_dead := AList.delete node_id (mt_dead t)\<rparr>)
           | Some member \<Rightarrow>
               if cm_status member \<noteq> DEAD
               then purge_dead now rest changed (t\<lparr>mt_dead := AList.delete node_id (mt_dead t)\<rparr>)
               else if now - dead_at \<ge> mt_retention t
               then purge_dead now rest True
                      (t\<lparr>mt_members := AList.delete node_id (mt_members t), mt_dead := AList.delete node_id (mt_dead t)\<rparr>)
               else purge_dead now rest changed t)"

definition advance_timeouts_and_purge :: "MembershipTable \<Rightarrow> real \<Rightarrow> bool \<times> MembershipTable" where
  "advance_timeouts_and_purge t now =
     (let (changed1, t1) = expire_suspects now (mt_suspected t) False t;
          (changed, t2) = purge_dead now (mt_dead t1) changed1 t1
      in (changed, if changed then t2\<lparr>mt_version := mt_version t2 + 1\<rparr> else t2))"

section \<open>Histories and the invariant\<close>

datatype membership_call =
    Merge "(ClusterMember \<times> real) list" | MarkSuspect real string | Advance real

fun membership_step :: "MembershipTable \<Rightarrow> membership_call \<Rightarrow> MembershipTable" where
  "membership_step t (Merge records) = snd (mt_merge t records)"
| "membership_step t (MarkSuspect now node_id) = snd (mark_suspect t now node_id)"
| "membership_step t (Advance now) = snd (advance_timeouts_and_purge t now)"

text \<open>What the constructor of a member guarantees.\<close>

definition member_ok :: "ClusterMember \<Rightarrow> bool" where
  "member_ok m \<longleftrightarrow>
     cm_node m \<noteq> [] \<and> cm_host m \<noteq> [] \<and> 1 \<le> cm_port m \<and> cm_port m \<le> 65535 \<and> 1 \<le> cm_incarnation m"

fun membership_call_ok :: "membership_call \<Rightarrow> bool" where
  "membership_call_ok (Merge records) = list_all (\<lambda>(m, now). member_ok m) records"
| "membership_call_ok (MarkSuspect now node_id) = True"
| "membership_call_ok (Advance now) = True"

text \<open>One node id: its record and its two timers.\<close>

definition view_ok :: "string \<Rightarrow> ClusterMember option \<Rightarrow> real option \<Rightarrow> real option \<Rightarrow> bool" where
  "view_ok k member suspected dead =
     (case member of
        None \<Rightarrow> suspected = None \<and> dead = None
      | Some m \<Rightarrow> cm_node m = k \<and> member_ok m \<and>
          (suspected \<noteq> None \<longleftrightarrow> cm_status m = SUSPECT) \<and> (dead \<noteq> None \<longleftrightarrow> cm_status m = DEAD))"

definition table_view_ok :: "MembershipTable \<Rightarrow> string \<Rightarrow> bool" where
  "table_view_ok t k = view_ok k (mt_get t k) (map_of (mt_suspected t) k) (map_of (mt_dead t) k)"

definition dicts_ok :: "MembershipTable \<Rightarrow> bool" where
  "dicts_ok t \<longleftrightarrow> dict_ok (mt_members t) \<and> dict_ok (mt_suspected t) \<and> dict_ok (mt_dead t)"

definition local_alive :: "MembershipTable \<Rightarrow> bool" where
  "local_alive t \<longleftrightarrow> (\<exists>m. mt_get t (mt_local t) = Some m \<and> cm_status m = ALIVE)"

definition table_ok :: "MembershipTable \<Rightarrow> bool" where
  "table_ok t \<longleftrightarrow> dicts_ok t \<and> 0 < mt_suspicion t \<and> mt_suspicion t < mt_retention t \<and>
     (\<forall>k. table_view_ok t k) \<and> local_alive t"

definition local_incarnation :: "MembershipTable \<Rightarrow> int" where
  "local_incarnation t = (case mt_get t (mt_local t) of None \<Rightarrow> 0 | Some m \<Rightarrow> cm_incarnation m)"

abbreviation same_settings :: "MembershipTable \<Rightarrow> MembershipTable \<Rightarrow> bool" where
  "same_settings t t' \<equiv>
     mt_local t' = mt_local t \<and> mt_suspicion t' = mt_suspicion t \<and> mt_retention t' = mt_retention t"

subsection \<open>Storing a record\<close>

lemma map_of_setdefault:
  "map_of (setdefault k v d) = (map_of d)(k \<mapsto> (case map_of d k of None \<Rightarrow> v | Some x \<Rightarrow> x))"
  by (auto simp: setdefault_def fun_eq_iff split: option.splits)

lemma dict_ok_setdefault [simp]: "dict_ok d \<Longrightarrow> dict_ok (setdefault k v d)"
  by (simp add: setdefault_def split: option.splits)

lemma put_member_settings [simp]:
  "mt_local (put_member now m t) = mt_local t" "mt_suspicion (put_member now m t) = mt_suspicion t"
  "mt_retention (put_member now m t) = mt_retention t" "mt_version (put_member now m t) = mt_version t"
  by (simp_all add: put_member_def record_timer_state_def Let_def split: MemberStatus.split)

lemma put_member_get [simp]: "mt_get (put_member now m t) k = (if k = cm_node m then Some m else mt_get t k)"
  by (simp add: put_member_def record_timer_state_def mt_get_def Let_def split: MemberStatus.split)

lemma put_member_dicts [simp]: "dicts_ok t \<Longrightarrow> dicts_ok (put_member now m t)"
  by (simp add: put_member_def record_timer_state_def dicts_ok_def Let_def split: MemberStatus.split)

lemma put_member_view: "table_view_ok t k \<Longrightarrow> member_ok m \<Longrightarrow> table_view_ok (put_member now m t) k"
  by (cases "k = cm_node m"; cases "cm_status m")
    (auto simp: table_view_ok_def view_ok_def put_member_def record_timer_state_def mt_get_def Let_def
      map_of_setdefault split: option.splits)

lemma put_member_ok:
  assumes "table_ok t" "member_ok m" "cm_node m = mt_local t \<Longrightarrow> cm_status m = ALIVE"
  shows "table_ok (put_member now m t)"
  using assms by (auto simp: table_ok_def local_alive_def put_member_view)

lemma table_okD:
  assumes "table_ok t"
  shows "mt_get t k = Some m \<Longrightarrow> cm_node m = k \<and> member_ok m"
    "\<exists>m. mt_get t (mt_local t) = Some m \<and> cm_status m = ALIVE"
    "map_of (mt_suspected t) k = Some a \<Longrightarrow> \<exists>m. mt_get t k = Some m \<and> cm_status m = SUSPECT"
    "map_of (mt_dead t) k = Some a \<Longrightarrow> \<exists>m. mt_get t k = Some m \<and> cm_status m = DEAD"
    "mt_get t k = Some m \<Longrightarrow> cm_status m = SUSPECT \<Longrightarrow> \<exists>a. map_of (mt_suspected t) k = Some a"
    "mt_get t k = Some m \<Longrightarrow> cm_status m = DEAD \<Longrightarrow> \<exists>a. map_of (mt_dead t) k = Some a"
proof -
  have v: "table_view_ok t k" using assms by (simp add: table_ok_def)
  show "mt_get t k = Some m \<Longrightarrow> cm_node m = k \<and> member_ok m"
    "mt_get t k = Some m \<Longrightarrow> cm_status m = SUSPECT \<Longrightarrow> \<exists>a. map_of (mt_suspected t) k = Some a"
    "mt_get t k = Some m \<Longrightarrow> cm_status m = DEAD \<Longrightarrow> \<exists>a. map_of (mt_dead t) k = Some a"
    using v by (auto simp: table_view_ok_def view_ok_def)
  show "map_of (mt_suspected t) k = Some a \<Longrightarrow> \<exists>m. mt_get t k = Some m \<and> cm_status m = SUSPECT"
    "map_of (mt_dead t) k = Some a \<Longrightarrow> \<exists>m. mt_get t k = Some m \<and> cm_status m = DEAD"
    using v by (cases "mt_get t k"; simp add: table_view_ok_def view_ok_def)+
  show "\<exists>m. mt_get t (mt_local t) = Some m \<and> cm_status m = ALIVE"
    using assms by (simp add: table_ok_def local_alive_def)
qed

subsection \<open>Merging\<close>

text \<open>The order in which records of one node win: incarnation first, then status.\<close>

definition member_rank :: "ClusterMember \<Rightarrow> int \<times> MemberStatus" where
  "member_rank m = (cm_incarnation m, cm_status m)"

definition rank :: "MembershipTable \<Rightarrow> string \<Rightarrow> (int \<times> MemberStatus) option" where
  "rank t k = map_option member_rank (mt_get t k)"

definition join_rank :: "(int \<times> MemberStatus) option \<Rightarrow> int \<times> MemberStatus \<Rightarrow> int \<times> MemberStatus" where
  "join_rank r x = (case r of None \<Rightarrow> x | Some y \<Rightarrow> max y x)"

lemma merge_one_cases [consumes 3, case_names keep put]:
  assumes ok: "table_ok t" and m: "member_ok m" and res: "merge_one_locked t now m = (r, t')"
  obtains (keep) "r = Inr False" "t' = t"
    | (put) m' where "r = Inr True" "t' = put_member now m' t" "cm_node m' = cm_node m" "member_ok m'"
        "cm_node m = mt_local t \<Longrightarrow> cm_status m' = ALIVE \<and> local_incarnation t < cm_incarnation m'"
proof -
  note D = table_okD [OF ok]
  show thesis
  proof (cases "mt_get t (cm_node m)")
    case None
    then have "cm_node m \<noteq> mt_local t" using D(2) by auto
    with None res m show thesis by (intro put [of m]) (auto simp: merge_one_locked_def)
  next
    case (Some c)
    with D(1) have c: "cm_node c = cm_node m" "member_ok c" by auto
    show thesis
    proof (cases "r = Inr True")
      case True
      with Some c m res show thesis
        by (auto simp: merge_one_locked_def local_incarnation_def member_ok_def split: if_splits
            intro: put)
    next
      case False
      with Some res show thesis by (intro keep) (auto simp: merge_one_locked_def split: if_splits)
    qed
  qed
qed

lemma max_lex:
  fixes a b :: int and x y :: MemberStatus
  shows "max (a, x) (b, y) = (if b < a then (a, x) else if a < b then (b, y) else (a, max x y))"
  by (auto simp: max_def)

lemma merge_one_rank:
  assumes ok: "table_ok t" and k: "k \<noteq> mt_local t"
  shows "rank (snd (merge_one_locked t now m)) k =
    (if k = cm_node m then Some (join_rank (rank t k) (member_rank m)) else rank t k)"
proof (cases "mt_get t (cm_node m)")
  case None
  then show ?thesis using k by (auto simp: merge_one_locked_def rank_def join_rank_def)
next
  case (Some c)
  then have "cm_node c = cm_node m" using table_okD(1) [OF ok] by blast
  consider "k \<noteq> cm_node m" | "k = cm_node m" "cm_incarnation m < cm_incarnation c"
    | "k = cm_node m" "cm_incarnation c < cm_incarnation m"
    | "k = cm_node m" "cm_incarnation m = cm_incarnation c" "cm_status c < cm_status m"
    | "k = cm_node m" "cm_incarnation m = cm_incarnation c" "\<not> cm_status c < cm_status m" "cm_status m \<le> cm_status c"
    by (meson linorder_less_linear not_le)
  then show ?thesis
    by cases (use Some k \<open>cm_node c = cm_node m\<close> in
      \<open>simp_all add: merge_one_locked_def rank_def join_rank_def member_rank_def max_lex\<close>)
qed

text \<open>The ranks of the records about one node.\<close>

definition ranks_of :: "string \<Rightarrow> ClusterMember set \<Rightarrow> (int \<times> MemberStatus) set" where
  "ranks_of k ms = member_rank ` {m \<in> ms. cm_node m = k}"

lemma ranks_of_insert [simp]:
  "ranks_of k (insert m ms) = (if cm_node m = k then insert (member_rank m) (ranks_of k ms) else ranks_of k ms)"
  by (auto simp: ranks_of_def)

lemma ranks_of_empty [simp]: "ranks_of k {} = {}"
  by (simp add: ranks_of_def)

lemma finite_ranks_of [simp]: "finite ms \<Longrightarrow> finite (ranks_of k ms)"
  by (simp add: ranks_of_def)

definition top_rank :: "(int \<times> MemberStatus) option \<Rightarrow> (int \<times> MemberStatus) set \<Rightarrow> (int \<times> MemberStatus) option" where
  "top_rank r xs = (let s = set_option r \<union> xs in if s = {} then None else Some (Max s))"

lemma top_rank_join: "finite xs \<Longrightarrow> top_rank (Some (join_rank r x)) xs = top_rank r (insert x xs)"
proof (cases r)
  case (Some y)
  assume "finite xs"
  then have "Max (insert (max y x) xs) = Max (insert y (insert x xs))"
    by (cases "xs = {}") (simp_all add: max.assoc)
  with Some show ?thesis by (simp add: top_rank_def join_rank_def insert_commute)
qed (simp add: top_rank_def join_rank_def)

text \<open>The whole loop: it never raises, keeps the invariant, and joins the ranks.\<close>

lemma merge_loop_spec:
  "table_ok t \<Longrightarrow> list_all (\<lambda>(m, now). member_ok m) records \<Longrightarrow> merge_loop t changed records = (r, t') \<Longrightarrow>
     (\<exists>c. r = Inr c) \<and> table_ok t' \<and> same_settings t t' \<and> mt_version t' = mt_version t \<and>
     local_incarnation t \<le> local_incarnation t' \<and>
     (\<forall>k. k \<noteq> mt_local t \<longrightarrow> rank t' k = top_rank (rank t k) (ranks_of k (fst ` set records)))"
proof (induction records arbitrary: t changed)
  case Nil
  then show ?case by (auto simp: top_rank_def split: option.splits)
next
  case (Cons x records)
  obtain m now where x [simp]: "x = (m, now)" by (cases x)
  have ok: "member_ok m" "list_all (\<lambda>(m, now). member_ok m) records" using Cons.prems(2) by simp_all
  obtain r1 t1 where one: "merge_one_locked t now m = (r1, t1)" by fastforce
  have step: "(\<exists>c. r1 = Inr c) \<and> table_ok t1 \<and> same_settings t t1 \<and> mt_version t1 = mt_version t \<and>
      local_incarnation t \<le> local_incarnation t1"
    using Cons.prems(1) ok(1) one
  proof (cases rule: merge_one_cases)
    case keep
    then show ?thesis using Cons.prems(1) by auto
  next
    case (put m')
    then have "table_ok t1" using Cons.prems(1) by (auto intro: put_member_ok)
    moreover have "local_incarnation t \<le> local_incarnation t1"
      using put by (cases "cm_node m = mt_local t") (simp_all add: local_incarnation_def)
    ultimately show ?thesis using put by auto
  qed
  then obtain c where c: "r1 = Inr c" by blast
  have rest: "merge_loop t1 (c \<or> changed) records = (r, t')" using Cons.prems(3) one c by simp
  note IH = Cons.IH [OF conjunct1 [OF conjunct2 [OF step]] ok(2) rest]
  have "rank t' k = top_rank (rank t k) (ranks_of k (fst ` set (x # records)))" if k: "k \<noteq> mt_local t" for k
  proof -
    have "rank t1 k = (if k = cm_node m then Some (join_rank (rank t k) (member_rank m)) else rank t k)"
      using merge_one_rank [OF Cons.prems(1) k, of now m] one by simp
    moreover have "rank t' k = top_rank (rank t1 k) (ranks_of k (fst ` set records))" using IH k step by simp
    ultimately show ?thesis by (auto simp: top_rank_join)
  qed
  then show ?case using IH step by auto
qed

lemma table_ok_version [simp]: "table_ok (t\<lparr>mt_version := v\<rparr>) = table_ok t"
  by (simp add: table_ok_def dicts_ok_def table_view_ok_def local_alive_def mt_get_def)

lemma local_incarnation_version [simp]: "local_incarnation (t\<lparr>mt_version := v\<rparr>) = local_incarnation t"
  by (simp add: local_incarnation_def mt_get_def)

lemma rank_version [simp]: "rank (t\<lparr>mt_version := v\<rparr>) = rank t" "mt_get (t\<lparr>mt_version := v\<rparr>) = mt_get t"
  by (simp_all add: rank_def mt_get_def fun_eq_iff)

lemma mt_merge_spec:
  assumes "table_ok t" "list_all (\<lambda>(m, now). member_ok m) records" "mt_merge t records = (r, t')"
  shows "(\<exists>c. r = Inr c) \<and> table_ok t' \<and> same_settings t t' \<and> mt_version t \<le> mt_version t' \<and>
     local_incarnation t \<le> local_incarnation t' \<and>
     (\<forall>k. k \<noteq> mt_local t \<longrightarrow> rank t' k = top_rank (rank t k) (ranks_of k (fst ` set records)))"
proof -
  obtain r1 t1 where l: "merge_loop t False records = (r1, t1)" by fastforce
  note spec = merge_loop_spec [OF assms(1,2) l]
  then obtain c where "r1 = Inr c" by blast
  with l assms(3) have "r = Inr c" "t' = (if c then t1\<lparr>mt_version := mt_version t1 + 1\<rparr> else t1)"
    by (simp_all add: mt_merge_def)
  with spec show ?thesis by simp
qed

lemma mark_suspect_spec:
  assumes ok: "table_ok t"
  shows "table_ok (snd (mark_suspect t now k)) \<and> same_settings t (snd (mark_suspect t now k)) \<and>
    mt_version t \<le> mt_version (snd (mark_suspect t now k)) \<and>
    local_incarnation (snd (mark_suspect t now k)) = local_incarnation t"
proof (cases "mt_get t k")
  case (Some m)
  have m: "cm_node m = k" "member_ok m" using table_okD(1) [OF ok Some] by auto
  let ?u = "put_member now (m\<lparr>cm_status := SUSPECT\<rparr>) t"
  have *: "snd (mark_suspect t now k) = (if k \<noteq> mt_local t \<and> cm_status m = ALIVE then ?u\<lparr>mt_version := mt_version ?u + 1\<rparr> else t)"
    using Some m by (simp add: mark_suspect_def put_member_def Let_def)
  have "member_ok (m\<lparr>cm_status := SUSPECT\<rparr>)" using m by (simp add: member_ok_def)
  then have "k \<noteq> mt_local t \<Longrightarrow> table_ok ?u" using ok m by (auto intro: put_member_ok)
  then show ?thesis using ok m by (auto simp: * local_incarnation_def)
qed (use ok in \<open>simp add: mark_suspect_def\<close>)

subsection \<open>Timeouts\<close>

text \<open>What one node becomes at time \<open>now\<close>: the record and the timers after each loop.\<close>

definition timer_due :: "real \<Rightarrow> real \<Rightarrow> real option \<Rightarrow> bool" where
  "timer_due now limit timer = (case timer of None \<Rightarrow> False | Some a \<Rightarrow> now - a \<ge> limit)"

type_synonym view = "ClusterMember option \<times> real option \<times> real option"

definition table_view :: "MembershipTable \<Rightarrow> string \<Rightarrow> view" where
  "table_view t k = (mt_get t k, map_of (mt_suspected t) k, map_of (mt_dead t) k)"

definition view_expire :: "real \<Rightarrow> view \<Rightarrow> view" where
  "view_expire now v = (map_option (\<lambda>m. m\<lparr>cm_status := DEAD\<rparr>) (fst v), None, Some now)"

definition view_purge :: "view \<Rightarrow> view" where
  "view_purge v = (None, fst (snd v), None)"

definition triple_ok :: "string \<Rightarrow> view \<Rightarrow> bool" where
  "triple_ok k v = view_ok k (fst v) (fst (snd v)) (snd (snd v))"

lemma table_view_ok_iff: "table_view_ok t k = triple_ok k (table_view t k)"
  by (simp add: table_view_ok_def table_view_def triple_ok_def)

lemma table_view_sel:
  "fst (table_view t k) = mt_get t k" "fst (snd (table_view t k)) = map_of (mt_suspected t) k"
  "snd (snd (table_view t k)) = map_of (mt_dead t) k"
  by (simp_all add: table_view_def)

lemma triple_ok_expire: "triple_ok k v \<Longrightarrow> timer_due now limit (fst (snd v)) \<Longrightarrow> triple_ok k (view_expire now v)"
  by (auto simp: triple_ok_def view_ok_def view_expire_def timer_due_def member_ok_def split: option.splits)

lemma triple_ok_purge: "triple_ok k v \<Longrightarrow> timer_due now limit (snd (snd v)) \<Longrightarrow> triple_ok k (view_purge v)"
  by (auto simp: triple_ok_def view_ok_def view_purge_def timer_due_def split: option.splits)

lemma triple_alive: "triple_ok k v \<Longrightarrow> fst v = Some m \<Longrightarrow> cm_status m = ALIVE \<Longrightarrow> fst (snd v) = None \<and> snd (snd v) = None"
  by (simp add: triple_ok_def view_ok_def)

lemma timer_step:
  assumes new: "\<And>j. table_view u j = (if j = k then f (table_view t k) else table_view t j)"
    and rest: "\<And>j. table_view t' j = (if P (map_of items j) then f (table_view u j) else table_view u j)"
    and fresh: "map_of items k = None" "\<not> P None" "P (Some a)"
  shows "table_view t' j = (if P (map_of ((k, a) # items) j) then f (table_view t j) else table_view t j)"
  using new [of j] rest [of j] fresh by (cases "j = k") simp_all

lemma timer_due_None [simp]: "\<not> timer_due now limit None"
  by (simp add: timer_due_def)

lemma expire_suspects_spec:
  "dict_ok items \<Longrightarrow> (\<And>k a. (k, a) \<in> set items \<Longrightarrow> map_of (mt_suspected t) k = Some a) \<Longrightarrow>
   (\<And>k. table_view_ok t k) \<Longrightarrow> dicts_ok t \<Longrightarrow> expire_suspects now items changed t = (c, t') \<Longrightarrow>
     same_settings t t' \<and> mt_version t' = mt_version t \<and> dicts_ok t' \<and>
     (c \<longleftrightarrow> changed \<or> (\<exists>k. timer_due now (mt_suspicion t) (map_of items k))) \<and>
     (\<forall>k. table_view t' k = (if timer_due now (mt_suspicion t) (map_of items k)
          then view_expire now (table_view t k) else table_view t k))"
proof (induction items arbitrary: t changed)
  case Nil
  then show ?case by simp
next
  case (Cons item items)
  obtain k a where item [simp]: "item = (k, a)" by (cases item)
  let ?hit = "timer_due now (mt_suspicion t)"
  have fresh: "map_of items k = None" "dict_ok items"
    using Cons.prems(1) by (auto simp: dict_ok_def map_of_eq_None_iff)
  have "map_of (mt_suspected t) k = Some a" using Cons.prems(2) by simp
  then obtain m where m: "mt_get t k = Some m" "cm_status m = SUSPECT" "cm_node m = k" "member_ok m"
    using Cons.prems(3) [of k] by (auto simp: table_view_ok_def view_ok_def split: option.splits)
  show ?case
  proof (cases "now - a \<ge> mt_suspicion t")
    case True
    let ?t = "t\<lparr>mt_members := AList.update k (m\<lparr>cm_status := DEAD\<rparr>) (mt_members t),
        mt_suspected := AList.delete k (mt_suspected t), mt_dead := AList.update k now (mt_dead t)\<rparr>"
    have run: "expire_suspects now items True ?t = (c, t')" using Cons.prems(5) m True by simp
    have new: "table_view ?t j = (if j = k then view_expire now (table_view t k) else table_view t j)" for j
      using m by (simp add: table_view_def view_expire_def mt_get_def)
    have sus: "map_of (mt_suspected ?t) j = Some b" if "(j, b) \<in> set items" for j b
    proof -
      have "j \<noteq> k" using fresh(1) that by (auto simp: map_of_eq_None_iff image_iff)
      then show ?thesis using Cons.prems(2) [of j b] that by simp
    qed
    have "view_ok k (Some (m\<lparr>cm_status := DEAD\<rparr>)) None (Some now)" using m by (simp add: view_ok_def member_ok_def)
    then have views: "table_view_ok ?t j" for j
      using Cons.prems(3) [of j] m unfolding table_view_ok_iff new by (simp add: triple_ok_def view_expire_def table_view_sel)
    have dicts: "dicts_ok ?t" using Cons.prems(4) by (simp add: dicts_ok_def)
    note IH = Cons.IH [OF fresh(2) sus views dicts run]
    have hit: "?hit (Some a)" using True by (simp add: timer_due_def)
    have "table_view t' j = (if ?hit (map_of (item # items) j) then view_expire now (table_view t j) else table_view t j)" for j
      unfolding item by (rule timer_step [where f = "view_expire now" and P = ?hit and u = ?t, OF new]) (use IH fresh(1) hit in simp_all)
    moreover have "\<exists>j. ?hit (map_of (item # items) j)" using hit by (intro exI [of _ k]) simp
    ultimately show ?thesis using IH by simp
  next
    case False
    have run: "expire_suspects now items changed t = (c, t')" using Cons.prems(5) m False by simp
    have hit: "?hit (map_of (item # items) j) = ?hit (map_of items j)" for j
      using False fresh(1) by (simp add: timer_due_def)
    have sus: "map_of (mt_suspected t) j = Some b" if "(j, b) \<in> set items" for j b
      using Cons.prems(2) that by simp
    show ?thesis unfolding hit by (rule Cons.IH [OF fresh(2) sus Cons.prems(3,4) run])
  qed
qed

lemma purge_dead_spec:
  "dict_ok items \<Longrightarrow> (\<And>k a. (k, a) \<in> set items \<Longrightarrow> map_of (mt_dead t) k = Some a \<and> k \<noteq> mt_local t) \<Longrightarrow>
   (\<And>k. table_view_ok t k) \<Longrightarrow> dicts_ok t \<Longrightarrow> purge_dead now items changed t = (c, t') \<Longrightarrow>
     same_settings t t' \<and> mt_version t' = mt_version t \<and> dicts_ok t' \<and>
     (c \<longleftrightarrow> changed \<or> (\<exists>k. timer_due now (mt_retention t) (map_of items k))) \<and>
     (\<forall>k. table_view t' k = (if timer_due now (mt_retention t) (map_of items k)
          then view_purge (table_view t k) else table_view t k))"
proof (induction items arbitrary: t changed)
  case Nil
  then show ?case by simp
next
  case (Cons item items)
  obtain k a where item [simp]: "item = (k, a)" by (cases item)
  let ?hit = "timer_due now (mt_retention t)"
  have fresh: "map_of items k = None" "dict_ok items"
    using Cons.prems(1) by (auto simp: dict_ok_def map_of_eq_None_iff)
  have "map_of (mt_dead t) k = Some a" and remote: "k \<noteq> mt_local t" using Cons.prems(2) [of k a] by simp_all
  then obtain m where m: "mt_get t k = Some m" "cm_status m = DEAD"
    using Cons.prems(3) [of k] by (auto simp: table_view_ok_def view_ok_def split: option.splits)
  show ?case
  proof (cases "now - a \<ge> mt_retention t")
    case True
    let ?t = "t\<lparr>mt_members := AList.delete k (mt_members t), mt_dead := AList.delete k (mt_dead t)\<rparr>"
    have run: "purge_dead now items True ?t = (c, t')" using Cons.prems(5) m True remote by simp
    have new: "table_view ?t j = (if j = k then view_purge (table_view t k) else table_view t j)" for j
      by (simp add: table_view_def view_purge_def mt_get_def)
    have dead: "map_of (mt_dead ?t) j = Some b \<and> j \<noteq> mt_local ?t" if "(j, b) \<in> set items" for j b
    proof -
      have "j \<noteq> k" using fresh(1) that by (auto simp: map_of_eq_None_iff image_iff)
      then show ?thesis using Cons.prems(2) [of j b] that by simp
    qed
    have "triple_ok k (view_purge (table_view t k))"
      using Cons.prems(3) [of k] Cons.prems(2) [of k a] True
      by (intro triple_ok_purge) (simp_all add: table_view_ok_iff table_view_sel timer_due_def)
    then have views: "table_view_ok ?t j" for j
      using Cons.prems(3) [of j] by (simp add: table_view_ok_iff new)
    have dicts: "dicts_ok ?t" using Cons.prems(4) by (simp add: dicts_ok_def)
    note IH = Cons.IH [OF fresh(2) dead views dicts run]
    have hit: "?hit (Some a)" using True by (simp add: timer_due_def)
    have "table_view t' j = (if ?hit (map_of (item # items) j) then view_purge (table_view t j) else table_view t j)" for j
      unfolding item by (rule timer_step [where f = view_purge and P = ?hit and u = ?t, OF new]) (use IH fresh(1) hit in simp_all)
    moreover have "\<exists>j. ?hit (map_of (item # items) j)" using hit by (intro exI [of _ k]) simp
    ultimately show ?thesis using IH by simp
  next
    case False
    have run: "purge_dead now items changed t = (c, t')" using Cons.prems(5) m False remote by simp
    have hit: "?hit (map_of (item # items) j) = ?hit (map_of items j)" for j
      using False fresh(1) by (simp add: timer_due_def)
    have dead: "map_of (mt_dead t) j = Some b \<and> j \<noteq> mt_local t" if "(j, b) \<in> set items" for j b
      using Cons.prems(2) [of j b] that by simp
    show ?thesis unfolding hit by (rule Cons.IH [OF fresh(2) dead Cons.prems(3,4) run])
  qed
qed

text \<open>A node at time \<open>now\<close> after both loops; a member just declared dead is not purged at once.\<close>

definition view_advance :: "real \<Rightarrow> MembershipTable \<Rightarrow> view \<Rightarrow> view" where
  "view_advance now t v =
     (if timer_due now (mt_suspicion t) (fst (snd v)) then view_expire now v
      else if timer_due now (mt_retention t) (snd (snd v)) then view_purge v else v)"

lemma advance_spec:
  assumes ok: "table_ok t" and run: "advance_timeouts_and_purge t now = (c, t')"
  shows "same_settings t t' \<and> mt_version t \<le> mt_version t' \<and> dicts_ok t' \<and>
    (c \<longleftrightarrow> (\<exists>k. timer_due now (mt_suspicion t) (map_of (mt_suspected t) k)) \<or>
            (\<exists>k. timer_due now (mt_retention t) (map_of (mt_dead t) k))) \<and>
    (\<forall>k. table_view t' k = view_advance now t (table_view t k))"
proof -
  have d: "dicts_ok t" "\<And>k. table_view_ok t k" "0 < mt_suspicion t" "mt_suspicion t < mt_retention t"
    using ok by (simp_all add: table_ok_def)
  obtain c1 t1 where e: "expire_suspects now (mt_suspected t) False t = (c1, t1)" by fastforce
  obtain c2 t2 where p: "purge_dead now (mt_dead t1) c1 t1 = (c2, t2)" by fastforce
  have sus: "map_of (mt_suspected t) k = Some a" if "(k, a) \<in> set (mt_suspected t)" for k a
    using d(1) that by (simp add: dicts_ok_def dict_ok_def)
  have "dict_ok (mt_suspected t)" using d(1) by (simp add: dicts_ok_def)
  note E = expire_suspects_spec [OF this sus d(2,1) e]
  have v1: "table_view t1 k = (if timer_due now (mt_suspicion t) (map_of (mt_suspected t) k)
      then view_expire now (table_view t k) else table_view t k)" for k using E by blast
  have ok1: "table_view_ok t1 k" for k
    using d(2) [of k] triple_ok_expire [of k "table_view t k" now "mt_suspicion t"]
    by (simp add: table_view_ok_iff v1 table_view_sel)
  have "map_of (mt_suspected t) (mt_local t) = None" "map_of (mt_dead t) (mt_local t) = None"
    using table_okD(2) [OF ok] triple_alive [OF d(2) [unfolded table_view_ok_iff], of "mt_local t"]
    by (auto simp: table_view_sel)
  then have loc: "map_of (mt_dead t1) (mt_local t1) = None"
    using v1 [of "mt_local t"] E by (simp add: table_view_def)
  have dead: "map_of (mt_dead t1) k = Some a \<and> k \<noteq> mt_local t1" if "(k, a) \<in> set (mt_dead t1)" for k a
  proof -
    have "map_of (mt_dead t1) k = Some a" using E that by (simp add: dicts_ok_def dict_ok_def)
    then show ?thesis using loc by auto
  qed
  have "dict_ok (mt_dead t1)" "dicts_ok t1" using E by (simp_all add: dicts_ok_def)
  note P = purge_dead_spec [OF this(1) dead ok1 this(2) p]
  have dead1: "map_of (mt_dead t1) k = snd (snd (table_view t1 k))" for k by (simp add: table_view_def)
  have hit: "timer_due now (mt_retention t) (map_of (mt_dead t1) k) \<longleftrightarrow>
      \<not> timer_due now (mt_suspicion t) (map_of (mt_suspected t) k) \<and> timer_due now (mt_retention t) (map_of (mt_dead t) k)" for k
    unfolding dead1 v1 using d(3,4) by (simp add: view_expire_def table_view_def timer_due_def)
  have "table_view t2 k = view_advance now t (table_view t k)" for k
    using P E hit [of k] v1 [of k] by (simp add: view_advance_def table_view_def)
  moreover have "t' = (if c2 then t2\<lparr>mt_version := mt_version t2 + 1\<rparr> else t2)" "c = c2"
    using run e p by (auto simp: advance_timeouts_and_purge_def)
  moreover have "c2 \<longleftrightarrow> (\<exists>k. timer_due now (mt_suspicion t) (map_of (mt_suspected t) k)) \<or>
      (\<exists>k. timer_due now (mt_retention t) (map_of (mt_dead t) k))" using P E hit by auto
  ultimately show ?thesis
    using P E by (simp add: dicts_ok_def table_view_def)
qed

lemma advance_ok:
  assumes ok: "table_ok t"
  shows "table_ok (snd (advance_timeouts_and_purge t now)) \<and>
    same_settings t (snd (advance_timeouts_and_purge t now)) \<and>
    mt_version t \<le> mt_version (snd (advance_timeouts_and_purge t now)) \<and>
    local_incarnation (snd (advance_timeouts_and_purge t now)) = local_incarnation t"
proof -
  obtain c t' where run: "advance_timeouts_and_purge t now = (c, t')" by fastforce
  note A = advance_spec [OF ok run]
  have v: "table_view t' k = view_advance now t (table_view t k)" for k using A by blast
  have old: "triple_ok k (table_view t k)" for k using ok by (simp add: table_ok_def table_view_ok_iff)
  have views: "table_view_ok t' k" for k
    using old [of k] by (auto simp: table_view_ok_iff v view_advance_def triple_ok_expire triple_ok_purge)
  obtain m where "mt_get t (mt_local t) = Some m" "cm_status m = ALIVE" using table_okD(2) [OF ok] by blast
  then have "table_view t' (mt_local t) = table_view t (mt_local t)"
    using triple_alive [OF old, of "mt_local t" m] by (simp add: v view_advance_def table_view_sel)
  then have "mt_get t' (mt_local t') = mt_get t (mt_local t)" using A by (simp add: table_view_def)
  then show ?thesis using A views ok run by (simp add: table_ok_def local_alive_def local_incarnation_def)
qed

lemma membership_step_ok:
  "table_ok t \<Longrightarrow> membership_call_ok c \<Longrightarrow>
     table_ok (membership_step t c) \<and> same_settings t (membership_step t c) \<and>
     mt_version t \<le> mt_version (membership_step t c) \<and> local_incarnation t \<le> local_incarnation (membership_step t c)"
proof (cases c)
  case (Merge records)
  assume "table_ok t" "membership_call_ok c"
  then show ?thesis using mt_merge_spec [of t records "fst (mt_merge t records)" "snd (mt_merge t records)"] Merge by simp
qed (use mark_suspect_spec advance_ok in auto)

lemma membership_run_ok:
  "table_ok t \<Longrightarrow> list_all membership_call_ok calls \<Longrightarrow>
     table_ok (foldl membership_step t calls) \<and> same_settings t (foldl membership_step t calls) \<and>
     mt_version t \<le> mt_version (foldl membership_step t calls) \<and>
     local_incarnation t \<le> local_incarnation (foldl membership_step t calls)"
proof (induction calls arbitrary: t)
  case (Cons c calls)
  have "table_ok t" "membership_call_ok c" using Cons.prems by simp_all
  note step = membership_step_ok [OF this]
  then show ?case using Cons.IH [of "membership_step t c"] Cons.prems by auto
qed simp

lemma table_init_ok:
  "MembershipTable_init m s r = Inr t \<Longrightarrow> member_ok m \<Longrightarrow> cm_status m = ALIVE \<Longrightarrow>
     table_ok t \<and> mt_local t = cm_node m \<and> local_incarnation t = cm_incarnation m"
  by (auto simp: MembershipTable_init_def table_ok_def dicts_ok_def dict_ok_def local_alive_def local_incarnation_def
      table_view_ok_def view_ok_def mt_get_def split: if_splits)

lemma snapshot_ranks:
  assumes ok: "table_ok t"
  shows "ranks_of k (set (mt_snapshot t)) = set_option (rank t k)"
proof -
  have dict: "dict_ok (mt_members t)" using ok by (simp add: table_ok_def dicts_ok_def)
  have "m \<in> set (mt_snapshot t) \<and> cm_node m = k \<longleftrightarrow> mt_get t k = Some m" for m
  proof
    assume "m \<in> set (mt_snapshot t) \<and> cm_node m = k"
    then obtain j where "(j, m) \<in> set (mt_members t)" "cm_node m = k" by (auto simp: mt_snapshot_def)
    then have "mt_get t j = Some m" using dict by (simp add: mt_get_def dict_ok_def)
    with \<open>cm_node m = k\<close> show "mt_get t k = Some m" using table_okD(1) [OF ok] by blast
  next
    assume "mt_get t k = Some m"
    then show "m \<in> set (mt_snapshot t) \<and> cm_node m = k"
      using table_okD(1) [OF ok] by (force simp: mt_snapshot_def mt_get_def dest: map_of_SomeD)
  qed
  then show ?thesis by (auto simp: ranks_of_def rank_def)
qed

lemma snapshot_members_ok: "table_ok t \<Longrightarrow> list_all member_ok (mt_snapshot t)"
proof -
  assume ok: "table_ok t"
  then have "dict_ok (mt_members t)" by (simp add: table_ok_def dicts_ok_def)
  then show ?thesis
    using table_okD(1) [OF ok] by (auto simp: list_all_iff mt_snapshot_def mt_get_def dict_ok_def)
qed

section \<open>Properties\<close>

text \<open>C31: Whatever a node hears and whenever its timers fire, its own record stays ALIVE and its
  own incarnation never falls; merging never raises; a suspicion timer runs exactly for the
  SUSPECT members and a retention timer exactly for the DEAD ones; and every record is a
  well-formed member stored under its own node id.\<close>

theorem membership_invariant:
  assumes "MembershipTable_init m suspicion retention = Inr t0" "member_ok m" "cm_status m = ALIVE"
    "list_all membership_call_ok calls" "t = foldl membership_step t0 calls"
  shows "(\<exists>m'. mt_get t (cm_node m) = Some m' \<and> cm_status m' = ALIVE \<and> cm_incarnation m \<le> cm_incarnation m') \<and>
    (\<forall>k. map_of (mt_suspected t) k \<noteq> None \<longleftrightarrow> (\<exists>x. mt_get t k = Some x \<and> cm_status x = SUSPECT)) \<and>
    (\<forall>k. map_of (mt_dead t) k \<noteq> None \<longleftrightarrow> (\<exists>x. mt_get t k = Some x \<and> cm_status x = DEAD)) \<and>
    (\<forall>k x. mt_get t k = Some x \<longrightarrow> cm_node x = k \<and> member_ok x) \<and>
    (\<forall>records. membership_call_ok (Merge records) \<longrightarrow> (\<exists>changed. fst (mt_merge t records) = Inr changed))"
proof -
  have t0: "table_ok t0" "mt_local t0 = cm_node m" "local_incarnation t0 = cm_incarnation m"
    using table_init_ok [OF assms(1-3)] by simp_all
  have run: "table_ok t" "mt_local t = cm_node m" "cm_incarnation m \<le> local_incarnation t"
    using membership_run_ok [OF t0(1) assms(4)] assms(5) t0(2,3) by simp_all
  note D = table_okD [OF run(1)]
  have "\<exists>m'. mt_get t (cm_node m) = Some m' \<and> cm_status m' = ALIVE \<and> cm_incarnation m \<le> cm_incarnation m'"
    using D(2) run(2,3) by (auto simp: local_incarnation_def)
  moreover have "\<exists>changed. fst (mt_merge t records) = Inr changed" if "membership_call_ok (Merge records)" for records
    using mt_merge_spec [OF run(1), of records "fst (mt_merge t records)" "snd (mt_merge t records)"] that by simp
  ultimately show ?thesis using D by blast
qed

theorem membership_invariant_witness:
  "let m = \<lparr>cm_node = ''a'', cm_host = ''h'', cm_port = 1, cm_status = ALIVE, cm_incarnation = 4\<rparr>;
       accusation = m\<lparr>cm_status := DEAD, cm_incarnation := 9\<rparr>
   in \<exists>t0 m'. MembershipTable_init m 1 2 = Inr t0 \<and>
        mt_get (foldl membership_step t0 [Merge [(accusation, 5)], Advance 100]) ''a'' = Some m' \<and> cm_status m' = ALIVE"
proof -
  let ?m = "\<lparr>cm_node = ''a'', cm_host = ''h'', cm_port = 1, cm_status = ALIVE, cm_incarnation = 4\<rparr>"
  let ?acc = "?m\<lparr>cm_status := DEAD, cm_incarnation := 9\<rparr>"
  obtain t0 where t0: "MembershipTable_init ?m 1 2 = Inr t0" by (simp add: MembershipTable_init_def)
  have "member_ok ?m" "list_all membership_call_ok [Merge [(?acc, 5)], Advance 100]"
    by (simp_all add: member_ok_def)
  from membership_invariant [OF t0 this(1) _ this(2) refl] t0 show ?thesis by (auto simp: Let_def)
qed

text \<open>C18: Merging records is the join of the order (incarnation, then status): for every node but
  the local one, the table ends with the greatest rank among its own record and the
  records received about that node. It depends on the set of records only, so gossip may
  arrive in any order, batched in any way and any number of times.\<close>

theorem membership_merge_is_join:
  assumes "table_ok t" "list_all (\<lambda>(m, now). member_ok m) records" "k \<noteq> mt_local t"
  shows "rank (snd (mt_merge t records)) k =
    (let ranks = set_option (rank t k) \<union> member_rank ` {m \<in> fst ` set records. cm_node m = k}
     in if ranks = {} then None else Some (Max ranks))"
proof -
  have "rank (snd (mt_merge t records)) k = top_rank (rank t k) (ranks_of k (fst ` set records))"
    using mt_merge_spec [OF assms(1,2), of "fst (mt_merge t records)" "snd (mt_merge t records)"] assms(3) by simp
  then show ?thesis by (simp add: top_rank_def ranks_of_def)
qed

theorem membership_merge_is_join_witness:
  "let m = \<lambda>n s i. \<lparr>cm_node = n, cm_host = ''h'', cm_port = 1, cm_status = s, cm_incarnation = i\<rparr>;
       t = \<lparr>mt_local = ''a'', mt_suspicion = 1, mt_retention = 2, mt_members = [(''a'', m ''a'' ALIVE 4)],
            mt_suspected = [], mt_dead = [], mt_version = 1\<rparr>
   in rank (snd (mt_merge t [(m ''b'' DEAD 1, 0), (m ''b'' ALIVE 2, 1), (m ''b'' SUSPECT 2, 2)])) ''b'' = Some (2, SUSPECT)"
proof -
  let ?m = "\<lambda>n s i. \<lparr>cm_node = n, cm_host = ''h'', cm_port = 1, cm_status = s, cm_incarnation = i\<rparr>"
  let ?t = "\<lparr>mt_local = ''a'', mt_suspicion = 1, mt_retention = 2, mt_members = [(''a'', ?m ''a'' ALIVE 4)],
            mt_suspected = [], mt_dead = [], mt_version = 1\<rparr>"
  let ?rs = "[(?m ''b'' DEAD 1, 0), (?m ''b'' ALIVE 2, 1), (?m ''b'' SUSPECT 2, 2 :: real)]"
  have ok: "table_ok ?t" "list_all (\<lambda>(m, now). member_ok m) ?rs"
    by (simp_all add: table_ok_def dicts_ok_def dict_ok_def local_alive_def mt_get_def table_view_ok_def view_ok_def member_ok_def)
  have ranks: "{m \<in> fst ` set ?rs. cm_node m = ''b''} = {?m ''b'' DEAD 1, ?m ''b'' ALIVE 2, ?m ''b'' SUSPECT 2}" by auto
  have "Max {(1, DEAD), (2, ALIVE), (2 :: int, SUSPECT)} = (2, SUSPECT)"
    by (simp add: max_lex max_def less_eq_MemberStatus_def)
  with membership_merge_is_join [OF ok, of "''b''"] show ?thesis
    unfolding ranks by (simp add: rank_def mt_get_def member_rank_def)
qed

lemma refuted_incarnation:
  assumes ok: "table_ok t" and r: "member_ok r" "cm_node r = mt_local t" "cm_status r \<in> {SUSPECT, DEAD}"
  shows "\<exists>m. mt_get (snd (mt_merge t [(r, now)])) (mt_local t) = Some m \<and> cm_status m = ALIVE \<and>
    cm_incarnation r < cm_incarnation m"
proof -
  obtain c where c: "mt_get t (mt_local t) = Some c" "cm_status c = ALIVE" using table_okD(2) [OF ok] by blast
  then have "cm_node c = mt_local t" using table_okD(1) [OF ok] by blast
  with c r show ?thesis
    by (cases "cm_incarnation r \<ge> cm_incarnation c") (auto simp: mt_merge_def merge_one_locked_def)
qed

text \<open>C17: A false accusation loses. When a node hears that it is SUSPECT or DEAD, the snapshot it
  then gossips makes every table that knew nothing newer than the accusation hold it ALIVE
  again, with an incarnation above the accusation's.\<close>

theorem swim_refutation_wins:
  assumes "table_ok t" "table_ok u" "mt_local u \<noteq> mt_local t"
    and accusation: "member_ok r" "cm_node r = mt_local t" "cm_status r \<in> {SUSPECT, DEAD}"
    and known: "rank u (mt_local t) = Some x" "x \<le> member_rank r"
    and refuted: "t' = snd (mt_merge t [(r, now)])"
  shows "\<exists>m. mt_get (snd (mt_merge u (map (\<lambda>m. (m, now')) (mt_snapshot t')))) (mt_local t) = Some m \<and>
    cm_status m = ALIVE \<and> cm_incarnation r < cm_incarnation m"
proof -
  have t': "table_ok t'" using mt_merge_spec [OF assms(1), of "[(r, now)]"] accusation(1) refuted by (cases "mt_merge t [(r, now)]") auto
  let ?rs = "map (\<lambda>m. (m, now')) (mt_snapshot t')" and ?k = "mt_local t"
  have rs: "list_all (\<lambda>(m, now). member_ok m) ?rs" "fst ` set ?rs = set (mt_snapshot t')"
    using snapshot_members_ok [OF t'] by (force simp: list_all_iff)+
  obtain m where m: "mt_get t' ?k = Some m" "cm_status m = ALIVE" "cm_incarnation r < cm_incarnation m"
    using refuted_incarnation [OF assms(1) accusation] refuted by blast
  have "rank (snd (mt_merge u ?rs)) ?k = top_rank (rank u ?k) (ranks_of ?k (set (mt_snapshot t')))"
    using mt_merge_spec [OF assms(2) rs(1), of "fst (mt_merge u ?rs)" "snd (mt_merge u ?rs)"] assms(3) rs(2) by simp
  also have "rank t' ?k = Some (cm_incarnation m, ALIVE)" using m by (simp add: rank_def member_rank_def)
  then have "top_rank (rank u ?k) (ranks_of ?k (set (mt_snapshot t'))) = Some (max x (cm_incarnation m, ALIVE))"
    by (simp add: snapshot_ranks [OF t'] top_rank_def known(1) max.commute)
  also have "max x (cm_incarnation m, ALIVE) = (cm_incarnation m, ALIVE)"
    using known(2) m(3) by (cases x) (auto simp: max_lex member_rank_def)
  finally show ?thesis using m(3) by (auto simp: rank_def member_rank_def)
qed

theorem swim_refutation_wins_witness:
  "let m = \<lambda>n s i. \<lparr>cm_node = n, cm_host = ''h'', cm_port = 1, cm_status = s, cm_incarnation = i\<rparr>;
       t = \<lparr>mt_local = ''a'', mt_suspicion = 1, mt_retention = 2, mt_members = [(''a'', m ''a'' ALIVE 4)],
            mt_suspected = [], mt_dead = [], mt_version = 1\<rparr>;
       u = \<lparr>mt_local = ''b'', mt_suspicion = 1, mt_retention = 2,
            mt_members = [(''b'', m ''b'' ALIVE 1), (''a'', m ''a'' SUSPECT 4)],
            mt_suspected = [(''a'', 7)], mt_dead = [], mt_version = 2\<rparr>;
       t' = snd (mt_merge t [(m ''a'' SUSPECT 4, 0)])
   in \<exists>x. mt_get (snd (mt_merge u (map (\<lambda>x. (x, 8)) (mt_snapshot t')))) ''a'' = Some x \<and> cm_status x = ALIVE"
proof -
  let ?m = "\<lambda>n s i. \<lparr>cm_node = n, cm_host = ''h'', cm_port = 1, cm_status = s, cm_incarnation = i\<rparr>"
  let ?t = "\<lparr>mt_local = ''a'', mt_suspicion = 1, mt_retention = 2, mt_members = [(''a'', ?m ''a'' ALIVE 4)],
            mt_suspected = [], mt_dead = [], mt_version = 1\<rparr>"
  let ?u = "\<lparr>mt_local = ''b'', mt_suspicion = 1, mt_retention = 2,
            mt_members = [(''b'', ?m ''b'' ALIVE 1), (''a'', ?m ''a'' SUSPECT 4)],
            mt_suspected = [(''a'', 7)], mt_dead = [], mt_version = 2\<rparr>"
  have "table_ok ?t" "table_ok ?u"
    by (auto simp: table_ok_def dicts_ok_def dict_ok_def local_alive_def mt_get_def table_view_ok_def view_ok_def member_ok_def)
  moreover have "rank ?u (mt_local ?t) = Some (4, SUSPECT)" by (simp add: rank_def mt_get_def member_rank_def)
  moreover have "member_ok (?m ''a'' SUSPECT 4)" by (simp add: member_ok_def)
  ultimately show ?thesis
    using swim_refutation_wins [of ?t ?u "?m ''a'' SUSPECT 4" "(4, SUSPECT)" _ 0 8] unfolding Let_def
    by (auto simp: member_rank_def)
qed

text \<open>The timers act exactly when they are due. A SUSPECT member becomes DEAD when its
  suspicion timeout has run out and not before, a DEAD member is forgotten when its
  retention has run out and not before (never in the same pass that declared it dead),
  nothing else changes, and the call reports a change exactly when there was one.\<close>

theorem timeouts_act_exactly_when_due:
  assumes ok: "table_ok t" and run: "advance_timeouts_and_purge t now = (changed, t')"
  shows "mt_get t' k =
      (case mt_get t k of
         None \<Rightarrow> None
       | Some m \<Rightarrow>
           (case cm_status m of
              ALIVE \<Rightarrow> Some m
            | SUSPECT \<Rightarrow> Some (if now - the (map_of (mt_suspected t) k) \<ge> mt_suspicion t then m\<lparr>cm_status := DEAD\<rparr> else m)
            | DEAD \<Rightarrow> if now - the (map_of (mt_dead t) k) \<ge> mt_retention t then None else Some m)) \<and>
    (changed \<longleftrightarrow> (\<exists>j. mt_get t' j \<noteq> mt_get t j))"
proof -
  note A = advance_spec [OF ok run]
  have get: "mt_get t' j = fst (view_advance now t (table_view t j))" for j using A by (simp add: table_view_sel [symmetric])
  have old: "triple_ok j (table_view t j)" for j using ok by (simp add: table_ok_def table_view_ok_iff)
  have "mt_get t' j \<noteq> mt_get t j \<longleftrightarrow> timer_due now (mt_suspicion t) (map_of (mt_suspected t) j) \<or>
      timer_due now (mt_retention t) (map_of (mt_dead t) j)" for j
    using old [of j]
    by (cases "mt_get t j")
      (auto simp: get view_advance_def view_expire_def view_purge_def table_view_def triple_ok_def view_ok_def
        dest: arg_cong [of _ _ cm_status])
  moreover have "mt_get t' k =
      (case mt_get t k of
         None \<Rightarrow> None
       | Some m \<Rightarrow>
           (case cm_status m of
              ALIVE \<Rightarrow> Some m
            | SUSPECT \<Rightarrow> Some (if now - the (map_of (mt_suspected t) k) \<ge> mt_suspicion t then m\<lparr>cm_status := DEAD\<rparr> else m)
            | DEAD \<Rightarrow> if now - the (map_of (mt_dead t) k) \<ge> mt_retention t then None else Some m))"
    using old [of k]
    by (cases "mt_get t k")
      (auto simp: get view_advance_def view_expire_def view_purge_def table_view_def triple_ok_def view_ok_def timer_due_def
        split: MemberStatus.splits)
  ultimately show ?thesis using A by auto
qed

theorem timeouts_act_exactly_when_due_witness:
  "let m = \<lambda>n s i. \<lparr>cm_node = n, cm_host = ''h'', cm_port = 1, cm_status = s, cm_incarnation = i\<rparr>;
       u = \<lparr>mt_local = ''b'', mt_suspicion = 1, mt_retention = 2,
            mt_members = [(''b'', m ''b'' ALIVE 1), (''a'', m ''a'' SUSPECT 4)],
            mt_suspected = [(''a'', 7)], mt_dead = [], mt_version = 2\<rparr>
   in mt_get (snd (advance_timeouts_and_purge u 9)) ''a'' = Some (m ''a'' DEAD 4) \<and>
      mt_get (snd (advance_timeouts_and_purge u (15 / 2))) ''a'' = Some (m ''a'' SUSPECT 4)"
proof -
  let ?m = "\<lambda>n s i. \<lparr>cm_node = n, cm_host = ''h'', cm_port = 1, cm_status = s, cm_incarnation = i\<rparr>"
  let ?u = "\<lparr>mt_local = ''b'', mt_suspicion = 1, mt_retention = 2,
            mt_members = [(''b'', ?m ''b'' ALIVE 1), (''a'', ?m ''a'' SUSPECT 4)],
            mt_suspected = [(''a'', 7)], mt_dead = [], mt_version = 2\<rparr>"
  have ok: "table_ok ?u"
    by (auto simp: table_ok_def dicts_ok_def dict_ok_def local_alive_def mt_get_def table_view_ok_def view_ok_def member_ok_def)
  have get: "mt_get ?u ''a'' = Some (?m ''a'' SUSPECT 4)" by (simp add: mt_get_def)
  show ?thesis
    using timeouts_act_exactly_when_due [OF ok prod.collapse [symmetric], of 9 "''a''"]
      timeouts_act_exactly_when_due [OF ok prod.collapse [symmetric], of "15 / 2" "''a''"]
    unfolding get by (simp add: Let_def)
qed

end
