(* ===== verification/Json.thy ===== *)
theory Json
  imports Distsys_Prelude
begin

text \<open>
  The part of Python's \<^verbatim>\<open>json\<close> module that the program uses: the compact printer
  (\<^verbatim>\<open>separators=(",", ":")\<close>, \<^verbatim>\<open>ensure_ascii=False\<close>) with and without
  \<^verbatim>\<open>sort_keys\<close>, the reader, and the proof that reading back a printed value gives
  the value with its object members sorted. Fractional numbers are outside the model.
\<close>

section \<open>Values and printing\<close>

datatype json =
    JNull
  | JBool bool
  | JInt int
  | JStr string
  | JArr "json list"
  | JObj "(string \<times> json) list"

definition hex_digit :: "nat \<Rightarrow> char" where
  "hex_digit n = (if n < 10 then char_of (48 + n) else char_of (87 + n))"

text \<open>The two-character escapes of the printer and the reader.\<close>

definition short_escapes :: "(char \<times> char) list" where
  "short_escapes =
     [(CHR 0x22, CHR 0x22), (CHR 0x5C, CHR 0x5C), (CHR ''b'', CHR 0x08), (CHR ''f'', CHR 0x0C),
      (CHR ''n'', CHR 0x0A), (CHR ''r'', CHR 0x0D), (CHR ''t'', CHR 0x09)]"

definition esc_char :: "char \<Rightarrow> string" where
  "esc_char c =
     (case map_of (map prod.swap short_escapes) c of
        Some e \<Rightarrow> [CHR 0x5C, e]
      | None \<Rightarrow>
          (if (of_char c :: nat) < 32
           then [CHR 0x5C, CHR ''u'', CHR ''0'', CHR ''0'',
                 hex_digit (of_char c div 16), hex_digit (of_char c mod 16)]
           else [c]))"

definition jquote :: "string \<Rightarrow> string" where
  "jquote s = [CHR 0x22] @ concat (map esc_char s) @ [CHR 0x22]"

fun jprint :: "json \<Rightarrow> string"
  and jprint_elems :: "json list \<Rightarrow> string"
  and jprint_members :: "(string \<times> json) list \<Rightarrow> string" where
  "jprint JNull = ''null''"
| "jprint (JBool b) = (if b then ''true'' else ''false'')"
| "jprint (JInt i) = str_int i"
| "jprint (JStr s) = jquote s"
| "jprint (JArr xs) = ''['' @ jprint_elems xs @ '']''"
| "jprint (JObj kvs) = ''{'' @ jprint_members kvs @ ''}''"
| "jprint_elems [] = []"
| "jprint_elems [x] = jprint x"
| "jprint_elems (x # y # xs) = jprint x @ '','' @ jprint_elems (y # xs)"
| "jprint_members [] = []"
| "jprint_members [(k, v)] = jquote k @ '':'' @ jprint v"
| "jprint_members ((k, v) # m # kvs) = jquote k @ '':'' @ jprint v @ '','' @ jprint_members (m # kvs)"

text \<open>\<^verbatim>\<open>sort_keys=True\<close> orders the members of every object by key.\<close>

fun jsort :: "json \<Rightarrow> json"
  and jsort_elems :: "json list \<Rightarrow> json list"
  and jsort_members :: "(string \<times> json) list \<Rightarrow> (string \<times> json) list" where
  "jsort (JArr xs) = JArr (jsort_elems xs)"
| "jsort (JObj kvs) = JObj (sort_key fst (jsort_members kvs))"
| "jsort JNull = JNull"
| "jsort (JBool b) = JBool b"
| "jsort (JInt i) = JInt i"
| "jsort (JStr s) = JStr s"
| "jsort_elems [] = []"
| "jsort_elems (x # xs) = jsort x # jsort_elems xs"
| "jsort_members [] = []"
| "jsort_members ((k, v) # kvs) = (k, jsort v) # jsort_members kvs"

definition dumps :: "json \<Rightarrow> string" where
  "dumps v = jprint v"

definition dumps_sorted :: "json \<Rightarrow> string" where
  "dumps_sorted v = jprint (jsort v)"

text \<open>A Python dictionary has each key once.\<close>

fun json_ok :: "json \<Rightarrow> bool"
  and json_ok_elems :: "json list \<Rightarrow> bool"
  and json_ok_members :: "(string \<times> json) list \<Rightarrow> bool" where
  "json_ok (JArr xs) = json_ok_elems xs"
| "json_ok (JObj kvs) = (distinct (map fst kvs) \<and> json_ok_members kvs)"
| "json_ok JNull = True"
| "json_ok (JBool b) = True"
| "json_ok (JInt i) = True"
| "json_ok (JStr s) = True"
| "json_ok_elems [] = True"
| "json_ok_elems (x # xs) = (json_ok x \<and> json_ok_elems xs)"
| "json_ok_members [] = True"
| "json_ok_members ((k, v) # kvs) = (json_ok v \<and> json_ok_members kvs)"

section \<open>Reading\<close>

definition is_ws :: "char \<Rightarrow> bool" where
  "is_ws c = (c = CHR '' '' \<or> c = CHR 0x09 \<or> c = CHR 0x0A \<or> c = CHR 0x0D)"

abbreviation skip_ws :: "string \<Rightarrow> string" where
  "skip_ws \<equiv> dropWhile is_ws"

definition is_digit :: "char \<Rightarrow> bool" where
  "is_digit c = (48 \<le> (of_char c :: nat) \<and> (of_char c :: nat) < 58)"

definition hex_val :: "char \<Rightarrow> nat option" where
  "hex_val c =
     (let n = of_char c in
      if is_digit c then Some (n - 48)
      else if 97 \<le> n \<and> n < 103 then Some (n - 87)
      else if 65 \<le> n \<and> n < 71 then Some (n - 55) else None)"

fun jstring :: "string \<Rightarrow> (string \<times> string) result" where
  "jstring [] = raise JSONDecodeError ''Unterminated string''"
| "jstring (c # s) =
     (if c = CHR 0x22 then Inr ([], s)
      else if c = CHR 0x5C then
        (case s of
           [] \<Rightarrow> raise JSONDecodeError ''Unterminated string''
         | e # s1 \<Rightarrow>
             if e = CHR ''u'' then
               (case s1 of
                  h1 # h2 # h3 # h4 # s2 \<Rightarrow>
                    (case (hex_val h1, hex_val h2, hex_val h3, hex_val h4) of
                       (Some a, Some b, Some x, Some y) \<Rightarrow>
                         if a = 0 \<and> b = 0
                         then rbind (jstring s2) (\<lambda>(t, r). Inr (char_of (16 * x + y) # t, r))
                         else raise OutsideModel ''character outside Latin-1''
                     | _ \<Rightarrow> raise JSONDecodeError ''Invalid unicode escape'')
                | _ \<Rightarrow> raise JSONDecodeError ''Invalid unicode escape'')
             else (case map_of ((CHR ''/'', CHR ''/'') # short_escapes) e of
                     Some d \<Rightarrow> rbind (jstring s1) (\<lambda>(t, r). Inr (d # t, r))
                   | None \<Rightarrow> raise JSONDecodeError ''Invalid escape''))
      else if (of_char c :: nat) < 32 then raise JSONDecodeError ''Invalid control character''
      else rbind (jstring s) (\<lambda>(t, r). Inr (c # t, r)))"

definition digits_val :: "string \<Rightarrow> nat" where
  "digits_val s = foldl (\<lambda>n c. 10 * n + (of_char c - 48)) 0 s"

text \<open>
  The number pattern \<^verbatim>\<open>-?(0|[1-9]\d*)\<close> with an optional fraction and exponent; the
  rest of the text starts where the integer part ends.
\<close>

definition jnat :: "string \<Rightarrow> (nat \<times> string) option" where
  "jnat s =
     (case s of
        [] \<Rightarrow> None
      | c # s1 \<Rightarrow>
          if c = CHR ''0'' then Some (0, s1)
          else if is_digit c then Some (digits_val (takeWhile is_digit s), dropWhile is_digit s)
          else None)"

fun starts_exponent :: "string \<Rightarrow> bool" where
  "starts_exponent [] = False"
| "starts_exponent (c # s) =
     ((c = CHR ''e'' \<or> c = CHR ''E'') \<and>
      (case s of [] \<Rightarrow> False
       | d # s1 \<Rightarrow> is_digit d \<or> ((d = CHR ''+'' \<or> d = CHR ''-'') \<and> s1 \<noteq> [] \<and> is_digit (hd s1))))"

fun starts_fraction :: "string \<Rightarrow> bool" where
  "starts_fraction [] = False"
| "starts_fraction (c # s) = (c = CHR ''.'' \<and> s \<noteq> [] \<and> is_digit (hd s) \<or> starts_exponent (c # s))"

definition jnumber :: "string \<Rightarrow> (json \<times> string) result" where
  "jnumber s =
     (let (neg, s1) = (case s of c # t \<Rightarrow> if c = CHR ''-'' then (True, t) else (False, s) | [] \<Rightarrow> (False, s))
      in case jnat s1 of
           None \<Rightarrow> raise JSONDecodeError ''Expecting value''
         | Some (n, r) \<Rightarrow>
             if starts_fraction r then raise OutsideModel ''fractional number''
             else Inr (JInt (if neg then - int n else int n), r))"

definition jliteral :: "string \<Rightarrow> (json \<times> string) result" where
  "jliteral s =
     (if take 4 s = ''null'' then Inr (JNull, drop 4 s)
      else if take 4 s = ''true'' then Inr (JBool True, drop 4 s)
      else if take 5 s = ''false'' then Inr (JBool False, drop 5 s)
      else if take 3 s = ''NaN'' \<or> take 8 s = ''Infinity'' \<or> take 9 s = ''-Infinity''
      then raise OutsideModel ''fractional number''
      else jnumber s)"

text \<open>The key of a member with its colon, and the delimiter after an element or a member.\<close>

definition jkey :: "string \<Rightarrow> (string \<times> string) result" where
  "jkey s =
     (case s of
        [] \<Rightarrow> raise JSONDecodeError ''Expecting property name enclosed in double quotes''
      | q # s1 \<Rightarrow>
          if q \<noteq> CHR 0x22 then raise JSONDecodeError ''Expecting property name enclosed in double quotes''
          else rbind (jstring s1) (\<lambda>(k, r).
            case skip_ws r of
              [] \<Rightarrow> raise JSONDecodeError ''Expecting colon delimiter''
            | d # r1 \<Rightarrow>
                if d \<noteq> CHR '':'' then raise JSONDecodeError ''Expecting colon delimiter''
                else Inr (k, skip_ws r1)))"

definition jsep :: "char \<Rightarrow> string \<Rightarrow> (bool \<times> string) result" where
  "jsep close s =
     (case skip_ws s of
        [] \<Rightarrow> raise JSONDecodeError ''Expecting comma delimiter''
      | d # r \<Rightarrow>
          if d = close then Inr (True, r)
          else if d = CHR '','' then Inr (False, skip_ws r)
          else raise JSONDecodeError ''Expecting comma delimiter'')"

text \<open>
  The recursive scanner. Each call spends one unit of fuel; \<open>None\<close> is running out of
  it. \<open>loads\<close> gives enough for every text (\<open>scan_fuel\<close>).
\<close>

type_synonym 'a scan = "('a \<times> string) result option"

fun jvalue :: "nat \<Rightarrow> string \<Rightarrow> json scan"
  and jelems :: "nat \<Rightarrow> string \<Rightarrow> json list scan"
  and jmembers :: "nat \<Rightarrow> string \<Rightarrow> (string \<times> json) list scan" where
  "jvalue 0 s = None"
| "jvalue (Suc n) [] = Some (raise JSONDecodeError ''Expecting value'')"
| "jvalue (Suc n) (c # s) =
     (if c = CHR 0x22 then Some (rbind (jstring s) (\<lambda>(t, r). Inr (JStr t, r)))
      else if c = CHR ''{'' then
        (if skip_ws s \<noteq> [] \<and> hd (skip_ws s) = CHR ''}'' then Some (Inr (JObj [], tl (skip_ws s)))
         else map_option
                (\<lambda>res. rbind res (\<lambda>(kvs, r).
                   Inr (JObj (AList.updates (map fst kvs) (map snd kvs) []), r)))
                (jmembers n (skip_ws s)))
      else if c = CHR ''['' then
        (if skip_ws s \<noteq> [] \<and> hd (skip_ws s) = CHR '']'' then Some (Inr (JArr [], tl (skip_ws s)))
         else map_option (\<lambda>res. rbind res (\<lambda>(xs, r). Inr (JArr xs, r))) (jelems n (skip_ws s)))
      else Some (jliteral (c # s)))"
| "jelems 0 s = None"
| "jelems (Suc n) s =
     (case jvalue n s of
        None \<Rightarrow> None
      | Some (Inl e) \<Rightarrow> Some (Inl e)
      | Some (Inr (v, r)) \<Rightarrow>
          (case jsep (CHR '']'') r of
             Inl e \<Rightarrow> Some (Inl e)
           | Inr (is_end, r1) \<Rightarrow>
               if is_end then Some (Inr ([v], r1))
               else map_option (\<lambda>res. rbind res (\<lambda>(vs, r2). Inr (v # vs, r2))) (jelems n r1)))"
| "jmembers 0 s = None"
| "jmembers (Suc n) s =
     (case jkey s of
        Inl e \<Rightarrow> Some (Inl e)
      | Inr (k, s1) \<Rightarrow>
          (case jvalue n s1 of
             None \<Rightarrow> None
           | Some (Inl e) \<Rightarrow> Some (Inl e)
           | Some (Inr (v, r)) \<Rightarrow>
               (case jsep (CHR ''}'') r of
                  Inl e \<Rightarrow> Some (Inl e)
                | Inr (is_end, r1) \<Rightarrow>
                    if is_end then Some (Inr ([(k, v)], r1))
                    else map_option (\<lambda>res. rbind res (\<lambda>(kvs, r2). Inr ((k, v) # kvs, r2)))
                           (jmembers n r1))))"

definition loads :: "string \<Rightarrow> json result" where
  "loads s =
     (case jvalue (2 * length s + 1) (skip_ws s) of
        None \<Rightarrow> raise OutsideModel ''out of fuel''
      | Some (Inl e) \<Rightarrow> Inl e
      | Some (Inr (v, r)) \<Rightarrow>
          if skip_ws r = [] then Inr v else raise JSONDecodeError ''Extra data'')"

section \<open>The reader on printed text\<close>

subsection \<open>Strings\<close>

declare jstring.simps(2) [simp del]

lemma hex_digit_val: "n < 16 \<Longrightarrow> hex_val (hex_digit n) = Some n"
proof -
  assume "n < 16"
  moreover have "(of_char (char_of (48 + n) :: char) :: nat) = 48 + n" if "n < 10"
    using that by (simp add: of_char_of)
  moreover have "(of_char (char_of (87 + n) :: char) :: nat) = 87 + n" if "n < 16"
    using that by (simp add: of_char_of)
  ultimately show ?thesis by (auto simp: hex_val_def hex_digit_def is_digit_def Let_def)
qed

lemma jstring_short:
  "(e, c) \<in> set short_escapes \<Longrightarrow>
     jstring (CHR 0x5C # e # t) = rbind (jstring t) (\<lambda>(u, r). Inr (c # u, r))"
  by (auto simp: jstring.simps(2) short_escapes_def)

lemma esc_char_cases:
  obtains e where "(e, c) \<in> set short_escapes" "esc_char c = [CHR 0x5C, e]"
  | "(of_char c :: nat) < 32" "esc_char c = [CHR 0x5C, CHR ''u'', CHR ''0'', CHR ''0'',
       hex_digit (of_char c div 16), hex_digit (of_char c mod 16)]"
  | "\<not> (of_char c :: nat) < 32" "c \<noteq> CHR 0x22" "c \<noteq> CHR 0x5C" "esc_char c = [c]"
proof (cases "map_of (map prod.swap short_escapes) c")
  case (Some e)
  then have "(c, e) \<in> set (map prod.swap short_escapes)" by (rule map_of_SomeD)
  then show ?thesis using that(1) [of e] Some by (auto simp: esc_char_def)
next
  case None
  then have "c \<noteq> CHR 0x22" "c \<noteq> CHR 0x5C" by (auto simp: short_escapes_def)
  with None show ?thesis using that(2,3) by (auto simp: esc_char_def)
qed

lemma jstring_esc_char:
  "jstring (esc_char c @ t) = rbind (jstring t) (\<lambda>(u, r). Inr (c # u, r))"
proof (cases c rule: esc_char_cases)
  case (1 e)
  then show ?thesis by (simp add: jstring_short)
next
  case 2
  let ?n = "of_char c :: nat"
  have "hex_val (CHR ''0'') = Some 0" by (simp add: hex_val_def is_digit_def)
  moreover have "?n div 16 < 16" "?n mod 16 < 16" using 2 by auto
  ultimately show ?thesis
    using 2 by (simp add: jstring.simps(2) hex_digit_val)
next
  case 3
  then show ?thesis by (simp add: jstring.simps(2))
qed

lemma jstring_quoted: "jstring (concat (map esc_char s) @ CHR 0x22 # r) = Inr (s, r)"
  by (induction s) (simp_all add: jstring.simps(2) [of "CHR 0x22"] jstring_esc_char)

subsection \<open>Integers\<close>

lemma digits_val_snoc: "digits_val (s @ [c]) = 10 * digits_val s + (of_char c - 48)"
  by (simp add: digits_val_def)

lemma digits_val_str_nat: "digits_val (str_nat n) = n"
proof (induction n rule: str_nat.induct)
  case (1 n)
  show ?case
  proof (cases "n < 10")
    case True
    then show ?thesis
      by (subst str_nat.simps) (simp add: digits_val_def digit_char_range)
  next
    case False
    then have "digits_val (str_nat (n div 10)) = n div 10" using 1 by simp
    then show ?thesis using False
      by (subst str_nat.simps) (simp add: digits_val_snoc digit_char_range)
  qed
qed

lemma is_digit_str_nat: "c \<in> set (str_nat n) \<Longrightarrow> is_digit c"
  using str_nat_digits by (simp add: is_digit_def)

lemma char_of_48: "char_of (48::nat) = CHR ''0''"
  by code_simp

lemma str_nat_hd_nonzero: "0 < n \<Longrightarrow> hd (str_nat n) \<noteq> CHR ''0''"
proof (induction n rule: str_nat.induct)
  case (1 n)
  show ?case
  proof (cases "n < 10")
    case True
    have "(char_of (48 + n) :: char) \<noteq> char_of (48 + (0::nat))"
      using digit_char_inj [of n 0] True 1 by simp
    then show ?thesis using True by (subst str_nat.simps) (simp add: char_of_48)
  next
    case False
    then show ?thesis using 1 str_nat_nonempty by (subst str_nat.simps) simp
  qed
qed

text \<open>What can follow a value: the end of the text or a delimiter.\<close>

definition delim :: "string \<Rightarrow> bool" where
  "delim r = (r = [] \<or> hd r = CHR '','' \<or> hd r = CHR '']'' \<or> hd r = CHR ''}'')"

lemma delim_not_number: "delim r \<Longrightarrow> \<not> starts_fraction r \<and> takeWhile is_digit r = [] \<and> dropWhile is_digit r = r"
  by (cases r) (auto simp: delim_def is_digit_def)

lemma jnat_str_nat: "delim r \<Longrightarrow> jnat (str_nat n @ r) = Some (n, r)"
proof (cases "n = 0")
  case True
  then show ?thesis by (subst str_nat.simps) (simp add: jnat_def char_of_48)
next
  case False
  assume r: "delim r"
  obtain c cs where s: "str_nat n = c # cs" using str_nat_nonempty by (metis neq_Nil_conv)
  have dig: "\<forall>x \<in> set (str_nat n). is_digit x" using is_digit_str_nat by blast
  then have "takeWhile is_digit (str_nat n @ r) = str_nat n" "dropWhile is_digit (str_nat n @ r) = r"
    using delim_not_number [OF r] by (simp_all add: takeWhile_append2 dropWhile_append2)
  moreover have "c \<noteq> CHR ''0''" using str_nat_hd_nonzero [of n] False s by simp
  ultimately show ?thesis using dig s digits_val_str_nat [of n] by (simp add: jnat_def)
qed

lemma str_nat_head: obtains c cs where "str_nat n = c # cs" "is_digit c"
  using str_nat_nonempty [of n] is_digit_str_nat [of _ n] by (cases "str_nat n") auto

lemma jliteral_str_int:
  assumes "delim r"
  shows "jliteral (str_int i @ r) = Inr (JInt i, r)"
proof (cases "i < 0")
  case True
  obtain c cs where c: "str_nat (nat (- i)) = c # cs" "is_digit c" by (rule str_nat_head)
  have num: "jnat (c # cs @ r) = Some (nat (- i), r)"
    using jnat_str_nat [OF assms, of "nat (- i)"] c by simp
  have eq: "str_int i @ r = CHR ''-'' # c # cs @ r" using True c by (simp add: str_int_def)
  have "c \<noteq> CHR ''I''" using c(2) by (auto simp: is_digit_def)
  then have "jliteral (str_int i @ r) = jnumber (str_int i @ r)"
    unfolding eq jliteral_def by simp
  then show ?thesis
    using True num delim_not_number [OF assms] unfolding eq by (simp add: jnumber_def)
next
  case False
  obtain c cs where c: "str_nat (nat i) = c # cs" "is_digit c" by (rule str_nat_head)
  have num: "jnat (c # cs @ r) = Some (nat i, r)"
    using jnat_str_nat [OF assms, of "nat i"] c by simp
  have eq: "str_int i @ r = c # cs @ r" using False c by (simp add: str_int_def)
  have "c \<noteq> CHR ''n''" "c \<noteq> CHR ''t''" "c \<noteq> CHR ''f''" "c \<noteq> CHR ''N''" "c \<noteq> CHR ''I''" "c \<noteq> CHR ''-''"
    using c(2) by (auto simp: is_digit_def)
  then have "jliteral (str_int i @ r) = jnumber (str_int i @ r)" "c \<noteq> CHR ''-''"
    unfolding eq jliteral_def by simp_all
  then show ?thesis
    using False num delim_not_number [OF assms] unfolding eq by (simp add: jnumber_def)
qed

subsection \<open>Values\<close>

lemma jprint_head:
  obtains c cs where "jprint v = c # cs" "\<not> is_ws c" "c \<noteq> CHR '']''" "c \<noteq> CHR ''}''"
proof (cases v)
  case (JInt i)
  obtain c cs where "str_nat (nat i) = c # cs" "is_digit c" by (rule str_nat_head)
  moreover from this have "\<not> is_ws c" "c \<noteq> CHR '']''" "c \<noteq> CHR ''}''"
    by (auto simp: is_ws_def is_digit_def)
  moreover have "\<not> is_ws (CHR ''-'')" by (simp add: is_ws_def)
  ultimately show ?thesis
    using that JInt by (cases "i < 0") (auto simp: str_int_def)
next
  case (JBool b)
  then show ?thesis using that by (cases b) (auto simp: is_ws_def)
qed (use that in \<open>auto simp: is_ws_def jquote_def split: if_splits\<close>)

lemma skip_ws_jprint: "skip_ws (jprint v @ r) = jprint v @ r"
  by (rule jprint_head [of v]) simp

lemma skip_ws_delim: "delim r \<Longrightarrow> skip_ws r = r"
  by (cases r) (auto simp: delim_def is_ws_def)

lemma jprint_elems_Cons:
  "jprint_elems (x # xs) = jprint x @ (if xs = [] then [] else '','' @ jprint_elems xs)"
  by (cases xs) auto

lemma jprint_members_Cons:
  "jprint_members ((k, v) # kvs) =
     jquote k @ '':'' @ jprint v @ (if kvs = [] then [] else '','' @ jprint_members kvs)"
  by (cases kvs) auto

lemma updates_distinct:
  "distinct (map fst (acc @ kvs)) \<Longrightarrow> AList.updates (map fst kvs) (map snd kvs) acc = acc @ kvs"
proof (induction kvs arbitrary: acc)
  case (Cons kv kvs)
  have "AList.update (fst kv) (snd kv) acc = acc @ [kv]"
    using Cons.prems by (induction acc) auto
  with Cons.IH [of "acc @ [kv]"] Cons.prems show ?case by simp
qed simp

declare jprint_elems.simps(2,3) [simp del]
declare jprint_members.simps(2,3) [simp del]

lemma jvalue_Cons_plain:
  "c \<noteq> CHR 0x22 \<Longrightarrow> c \<noteq> CHR ''{'' \<Longrightarrow> c \<noteq> CHR ''['' \<Longrightarrow> jvalue (Suc n) (c # s) = Some (jliteral (c # s))"
  by simp

lemma str_int_head: obtains c cs where "str_int i = c # cs" "c = CHR ''-'' \<or> is_digit c"
proof (cases "i < 0")
  case True
  then show ?thesis using that by (auto simp: str_int_def)
next
  case False
  obtain c cs where "str_nat (nat i) = c # cs" "is_digit c" by (rule str_nat_head)
  then show ?thesis using that False by (auto simp: str_int_def)
qed

lemma jvalue_int:
  assumes "delim r"
  shows "jvalue (Suc n) (str_int i @ r) = Some (Inr (JInt i, r))"
proof -
  obtain c cs where s: "str_int i = c # cs" "c = CHR ''-'' \<or> is_digit c" by (rule str_int_head)
  then have "jvalue (Suc n) (c # cs @ r) = Some (jliteral (c # cs @ r))"
    by (intro jvalue_Cons_plain) (auto simp: is_digit_def)
  then show ?thesis using jliteral_str_int [OF assms, of i] s(1) by simp
qed

text \<open>Reading printed text gives back the value and stops at the delimiter.\<close>

lemma jelems_Cons:
  assumes "jvalue n (jprint x @ (if xs = [] then [] else CHR '','' # jprint_elems xs) @ CHR '']'' # r) =
      Some (Inr (x, (if xs = [] then [] else CHR '','' # jprint_elems xs) @ CHR '']'' # r))"
    and "xs \<noteq> [] \<Longrightarrow> jelems n (jprint_elems xs @ CHR '']'' # r) = Some (Inr (xs, r))"
  shows "jelems (Suc n) (jprint_elems (x # xs) @ CHR '']'' # r) = Some (Inr (x # xs, r))"
proof (cases xs)
  case Nil
  then show ?thesis using assms by (simp add: jprint_elems_Cons jsep_def is_ws_def)
next
  case (Cons y ys)
  have "skip_ws (jprint_elems xs @ CHR '']'' # r) = jprint_elems xs @ CHR '']'' # r"
    using Cons skip_ws_jprint by (simp add: jprint_elems_Cons)
  then show ?thesis using assms Cons by (simp add: jprint_elems_Cons [of x] jsep_def is_ws_def)
qed

lemma skip_ws_jquote: "skip_ws (jquote k @ r) = jquote k @ r"
  by (simp add: jquote_def is_ws_def)

lemma jmembers_Cons:
  assumes "jvalue n (jprint v @ (if kvs = [] then [] else CHR '','' # jprint_members kvs) @ CHR ''}'' # r) =
      Some (Inr (v, (if kvs = [] then [] else CHR '','' # jprint_members kvs) @ CHR ''}'' # r))"
    and "kvs \<noteq> [] \<Longrightarrow> jmembers n (jprint_members kvs @ CHR ''}'' # r) = Some (Inr (kvs, r))"
  shows "jmembers (Suc n) (jprint_members ((k, v) # kvs) @ CHR ''}'' # r) = Some (Inr ((k, v) # kvs, r))"
proof -
  have skip: "skip_ws (jprint v @ t) = jprint v @ t" for t by (rule skip_ws_jprint)
  have str: "jstring (concat (map esc_char k) @ CHR 0x22 # t) = Inr (k, t)" for t
    by (rule jstring_quoted)
  show ?thesis
  proof (cases kvs)
    case Nil
    then show ?thesis using assms(1)
      by (simp add: jprint_members_Cons jquote_def jkey_def jsep_def str skip is_ws_def)
  next
    case (Cons m ms)
    obtain k' v' where "m = (k', v')" by (cases m)
    then have "skip_ws (jprint_members kvs @ CHR ''}'' # r) = jprint_members kvs @ CHR ''}'' # r"
      using Cons skip_ws_jquote by (simp add: jprint_members_Cons)
    then show ?thesis using assms Cons
      by (simp add: jprint_members_Cons [of k] jquote_def jkey_def jsep_def str skip is_ws_def)
  qed
qed

lemma jprint_scan:
  "json_ok v \<Longrightarrow> 2 * length (jprint v) < n \<Longrightarrow> delim r \<Longrightarrow> jvalue n (jprint v @ r) = Some (Inr (v, r))"
  "json_ok_elems xs \<Longrightarrow> xs \<noteq> [] \<Longrightarrow> 2 * length (jprint_elems xs) + 1 < n \<Longrightarrow>
     jelems n (jprint_elems xs @ CHR '']'' # t) = Some (Inr (xs, t))"
  "json_ok_members kvs \<Longrightarrow> kvs \<noteq> [] \<Longrightarrow> 2 * length (jprint_members kvs) + 1 < n \<Longrightarrow>
     jmembers n (jprint_members kvs @ CHR ''}'' # t) = Some (Inr (kvs, t))"
proof (induction v and xs and kvs arbitrary: n r and n t and n t
    rule: jsort_jsort_elems_jsort_members.induct)
  case (1 xs)
  then obtain m where n: "n = Suc m" by (cases n) auto
  show ?case
  proof (cases xs)
    case Nil
    then show ?thesis using n by (simp add: is_ws_def)
  next
    case (Cons y ys)
    obtain c cs where c: "jprint y = c # cs" "\<not> is_ws c" "c \<noteq> CHR '']''" by (rule jprint_head)
    have "jelems m (jprint_elems xs @ CHR '']'' # r) = Some (Inr (xs, r))"
      using 1 n Cons by simp
    then show ?thesis using n Cons c by (simp add: jprint_elems_Cons)
  qed
next
  case (2 kvs)
  then obtain m where n: "n = Suc m" by (cases n) auto
  show ?case
  proof (cases kvs)
    case Nil
    then show ?thesis using n by (simp add: is_ws_def)
  next
    case (Cons y ys)
    obtain k v where y: "y = (k, v)" by (cases y)
    have "jmembers m (jprint_members kvs @ CHR ''}'' # r) = Some (Inr (kvs, r))"
      using 2 n Cons by simp
    then show ?thesis using n Cons y 2(2) updates_distinct [of "[]" kvs]
      by (simp add: jprint_members_Cons jquote_def is_ws_def)
  qed
next
  case 3
  then obtain m where "n = Suc m" by (cases n) auto
  then show ?case by (simp add: jliteral_def)
next
  case (4 b)
  then obtain m where "n = Suc m" by (cases n) auto
  then show ?case by (cases b) (simp_all add: jliteral_def)
next
  case (5 i)
  then obtain m where "n = Suc m" by (cases n) auto
  then show ?case using 5 by (simp add: jvalue_int)
next
  case (6 s)
  then obtain m where "n = Suc m" by (cases n) auto
  then show ?case by (simp add: jquote_def jstring_quoted)
next
  case (8 x xs)
  then obtain m where n: "n = Suc m" by (cases n) auto
  show ?case unfolding n
    by (rule jelems_Cons) (use 8 n in \<open>auto simp: jprint_elems_Cons delim_def\<close>)
next
  case (10 k v kvs)
  then obtain m where n: "n = Suc m" by (cases n) auto
  show ?case unfolding n
    by (rule jmembers_Cons) (use 10 n in \<open>auto simp: jprint_members_Cons delim_def\<close>)
qed auto

lemma loads_jprint: "json_ok v \<Longrightarrow> loads (jprint v) = Inr v"
  using jprint_scan(1) [of v "2 * length (jprint v) + 1" "[]"] skip_ws_jprint [of v "[]"]
  by (simp add: loads_def delim_def)

subsection \<open>Sorted members\<close>

lemma json_ok_elems_iff: "json_ok_elems xs \<longleftrightarrow> (\<forall>v \<in> set xs. json_ok v)"
  by (induction xs) auto

lemma json_ok_members_iff: "json_ok_members kvs \<longleftrightarrow> (\<forall>kv \<in> set kvs. json_ok (snd kv))"
  by (induction kvs) auto

lemma jsort_elems_map: "jsort_elems xs = map jsort xs"
  by (induction xs) auto

lemma jsort_members_map: "jsort_members kvs = map (\<lambda>(k, v). (k, jsort v)) kvs"
  by (induction kvs) auto

lemma keys_jsort_members [simp]: "map fst (jsort_members kvs) = map fst kvs"
  by (induction kvs) auto

lemma json_ok_jsort:
  "json_ok v \<Longrightarrow> json_ok (jsort v)"
  "json_ok_elems xs \<Longrightarrow> json_ok_elems (jsort_elems xs)"
  "json_ok_members kvs \<Longrightarrow> json_ok_members (jsort_members kvs)"
proof (induction v and xs and kvs rule: jsort_jsort_elems_jsort_members.induct)
  case (2 kvs)
  then have "dict_ok (jsort_members kvs)" by (simp add: dict_ok_def)
  then have "distinct (map fst (sort_key fst (jsort_members kvs)))"
    using canon_sort_key canon_distinct by blast
  then show ?case using 2 by (simp add: json_ok_members_iff)
qed auto

lemma loads_dumps_sorted: "json_ok v \<Longrightarrow> loads (dumps_sorted v) = Inr (jsort v)"
  by (simp add: dumps_sorted_def loads_jprint json_ok_jsort)

lemma map_of_jsort_members:
  "dict_ok kvs \<Longrightarrow> map_of (sort_key fst (jsort_members kvs)) k = map_option jsort (map_of kvs k)"
proof -
  assume "dict_ok kvs"
  then have "map_of (sort_key fst (jsort_members kvs)) = map_of (jsort_members kvs)"
    by (simp add: map_of_sort_key dict_ok_def)
  then show ?thesis by (simp add: jsort_members_map map_of_map)
qed

section \<open>The reader never runs out of fuel\<close>

lemma jstring_step:
  "jstring (c # s) = Inr (t, r) \<Longrightarrow> r = s \<or> (\<exists>s' t'. length s' \<le> length s \<and> jstring s' = Inr (t', r))"
proof -
  assume step: "jstring (c # s) = Inr (t, r)"
  have tail: "\<exists>t'. jstring s' = Inr (t', r)"
    if "rbind (jstring s') (\<lambda>(u, r). Inr (d # u, r)) = Inr (t, r)" for s' d
    using that by (auto simp: rbind_eq_Inr)
  consider "c = CHR 0x22" | "c = CHR 0x5C" | "c \<noteq> CHR 0x22" "c \<noteq> CHR 0x5C" by blast
  then show ?thesis
  proof cases
    case 2
    show ?thesis
    proof (cases s)
      case (Cons e s1)
      show ?thesis
      proof (cases "e = CHR ''u''")
        case True
        with step 2 Cons show ?thesis
          by (auto simp: jstring.simps(2) split: list.splits option.splits if_splits)
            (drule tail, fastforce)
      next
        case False
        with step 2 Cons tail show ?thesis
          by (auto simp: jstring.simps(2) split: option.splits) (metis le_SucI order_refl)
      qed
    qed (use step 2 in \<open>simp add: jstring.simps(2)\<close>)
  next
    case 3
    then show ?thesis using step tail by (auto simp: jstring.simps(2) split: if_splits)
  qed (use step in \<open>simp add: jstring.simps(2)\<close>)
qed

lemma jstring_shorter: "jstring s = Inr (t, r) \<Longrightarrow> length r < length s"
proof (induction s arbitrary: t rule: measure_induct_rule [where f = length])
  case (less s)
  then obtain c s1 where s: "s = c # s1" by (cases s) auto
  show ?case
  proof (cases "r = s1")
    case False
    then obtain s' t' where "length s' \<le> length s1" "jstring s' = Inr (t', r)"
      using jstring_step [of c s1 t r] less.prems s by blast
    then show ?thesis using less.IH [of s' t'] s by simp
  qed (simp add: s)
qed

lemma jnat_shorter: "jnat s = Some (n, r) \<Longrightarrow> length r < length s"
  using length_dropWhile_le [of is_digit "tl s"]
  by (auto simp: jnat_def split: list.splits if_splits)

lemma jnumber_shorter: "jnumber s = Inr (v, r) \<Longrightarrow> length r < length s"
  using jnat_shorter by (fastforce simp: jnumber_def split: list.splits if_splits option.splits)

lemma jliteral_shorter: "jliteral s = Inr (v, r) \<Longrightarrow> length r < length s"
  using jnumber_shorter by (auto simp: jliteral_def split: if_splits) (cases s; simp)+

lemma skip_ws_le: "length (skip_ws s) \<le> length s"
  by (rule length_dropWhile_le)

lemma skip_ws_Cons: "skip_ws r = d # r1 \<Longrightarrow> length r1 < length r"
  using skip_ws_le [of r] by simp

lemma jkey_shorter: "jkey s = Inr (k, r) \<Longrightarrow> length r < length s"
proof -
  assume key: "jkey s = Inr (k, r)"
  then obtain q s1 where s: "s = q # s1" by (cases s) (auto simp: jkey_def)
  with key obtain k' t where t: "jstring s1 = Inr (k', t)"
    by (cases "jstring s1") (auto simp: jkey_def split: if_splits)
  show ?thesis
  proof (cases "skip_ws t")
    case Nil
    then show ?thesis using key s t by (simp add: jkey_def split: if_splits del: dropWhile_eq_Nil_conv)
  next
    case (Cons d r1)
    then have "r = skip_ws r1" using key s t by (simp add: jkey_def split: if_splits)
    then show ?thesis
      using jstring_shorter [OF t] skip_ws_Cons [OF Cons] skip_ws_le [of r1] s by simp
  qed
qed

lemma jsep_shorter: "jsep close s = Inr (b, r) \<Longrightarrow> length r < length s"
proof -
  assume sep: "jsep close s = Inr (b, r)"
  then obtain d r1 where "skip_ws s = d # r1" by (auto simp: jsep_def split: list.splits)
  then show ?thesis using sep skip_ws_Cons [of s d r1] skip_ws_le [of r1]
    by (auto simp: jsep_def split: if_splits)
qed

lemma scan_shorter:
  "jvalue n s = Some (Inr (v, r)) \<Longrightarrow> length r < length s"
  "jelems n s = Some (Inr (xs, t)) \<Longrightarrow> length t < length s"
  "jmembers n s = Some (Inr (kvs, u)) \<Longrightarrow> length u < length s"
proof (induction n s and n s and n s arbitrary: v r and xs t and kvs u
    rule: jvalue_jelems_jmembers.induct)
  case (3 n c s)
  show ?case
  proof (cases "c = CHR 0x22 \<or> c = CHR ''{'' \<or> c = CHR ''[''")
    case False
    then show ?thesis using 3(3) jliteral_shorter [of "c # s" v r] by simp
  next
    case True
    then show ?thesis using 3 jstring_shorter [of s] skip_ws_le [of s]
      by (fastforce simp: rbind_eq_Inr split: if_splits)
  qed
next
  case (5 n s)
  then obtain v' r' b r1 where v: "jvalue n s = Some (Inr (v', r'))" "jsep (CHR '']'') r' = Inr (b, r1)"
    by (auto split: option.splits sum.splits)
  then have "length r' < length s" "length r1 < length r'" using 5(1) jsep_shorter by blast+
  with v 5(2) [OF v(1) refl refl v(2) refl] 5(3) show ?case
    by (fastforce simp: rbind_eq_Inr split: if_splits)
next
  case (7 n s)
  then obtain k s1 v' r' b r1 where v: "jkey s = Inr (k, s1)" "jvalue n s1 = Some (Inr (v', r'))"
      "jsep (CHR ''}'') r' = Inr (b, r1)"
    by (auto split: option.splits sum.splits)
  then have "length s1 < length s" "length r' < length s1" "length r1 < length r'"
    using 7(1) [OF v(1) refl] jsep_shorter jkey_shorter by blast+
  with v 7(2) [OF v(1) refl v(2) refl refl v(3) refl] 7(3) show ?case
    by (fastforce simp: rbind_eq_Inr split: if_splits)
qed auto

lemma scan_fuel:
  "2 * length s < n \<Longrightarrow> jvalue n s \<noteq> None"
  "2 * length s + 1 < n \<Longrightarrow> jelems n s \<noteq> None"
  "2 * length s + 1 < n \<Longrightarrow> jmembers n s \<noteq> None"
proof (induction n s and n s and n s rule: jvalue_jelems_jmembers.induct)
  case (3 n c s)
  then show ?case using skip_ws_le [of s] by auto
next
  case (5 n s)
  then obtain res where v: "jvalue n s = Some res" by auto
  show ?case
  proof (cases res)
    case (Inr p)
    obtain v' r' where p: "p = (v', r')" by (cases p)
    show ?thesis
    proof (cases "jsep (CHR '']'') r'")
      case sep: (Inr q)
      obtain b r1 where q: "q = (b, r1)" by (cases q)
      have "length r1 < length s"
        using scan_shorter(1) [of n s v' r'] jsep_shorter [of "CHR '']''" r' b r1] sep q v Inr p by simp
      then show ?thesis using 5 v Inr p sep q by auto
    qed (use v Inr p in auto)
  qed (use v in auto)
next
  case (7 n s)
  show ?case
  proof (cases "jkey s")
    case key: (Inr kp)
    obtain k s1 where kp: "kp = (k, s1)" by (cases kp)
    have s1: "length s1 < length s" using jkey_shorter key kp by blast
    then have "jvalue n s1 \<noteq> None" using 7(1) [of "(k, s1)" k s1] 7(3) key kp by simp
    then obtain res where v: "jvalue n s1 = Some res" by auto
    show ?thesis
    proof (cases res)
      case (Inr p)
      obtain v' r' where p: "p = (v', r')" by (cases p)
      show ?thesis
      proof (cases "jsep (CHR ''}'') r'")
        case sep: (Inr q)
        obtain b r1 where q: "q = (b, r1)" by (cases q)
        have "length r1 < length s1"
          using scan_shorter(1) [of n s1 v' r'] jsep_shorter [of "CHR ''}''" r' b r1] sep q v Inr p by simp
        then show ?thesis using 7 v Inr p sep q key kp s1 by auto
      qed (use v Inr p key kp in auto)
    qed (use v key kp in auto)
  qed auto
qed auto

lemma loads_fuel: "jvalue (2 * length s + 1) (skip_ws s) \<noteq> None"
  using scan_fuel(1) [of "skip_ws s" "2 * length s + 1"] skip_ws_le [of s] by simp

end
