(* ===== verification/Cluster_Wire.thy ===== *)
theory Cluster_Wire
  imports Framing Membership Json
begin

text \<open>
  The application codecs: task requests and responses (\<^verbatim>\<open>src/src/distsys/protocol/codec.py\<close>)
  and the cluster control messages (\<^verbatim>\<open>cluster/codec.py\<close>). The records named after the
  messages of \<^verbatim>\<open>proto/messages.proto\<close> are what the generated classes hold; protobuf's
  serializer and parser for each are parameters. The theorems are the round trips.
\<close>

section \<open>UTF-8 decoding\<close>

definition continuation :: "nat \<Rightarrow> nat \<Rightarrow> char \<Rightarrow> bool" where
  "continuation lo hi c = (lo \<le> (of_char c :: nat) \<and> (of_char c :: nat) \<le> hi)"

text \<open>The second byte a lead byte of a three- or four-byte sequence allows.\<close>

definition second_range :: "nat \<Rightarrow> nat \<times> nat" where
  "second_range n =
     (if n = 224 then (160, 191) else if n = 237 then (128, 159) else if n = 240 then (144, 191)
      else if n = 244 then (128, 143) else (128, 191))"

text \<open>
  \<^verbatim>\<open>bytes.decode("utf-8")\<close>. A well-formed character outside Latin-1 is answered by
  \<open>OutsideModel\<close>.
\<close>

fun utf8_decode :: "char list \<Rightarrow> string result" where
  "utf8_decode [] = Inr []"
| "utf8_decode (c # s) =
     (let n = (of_char c :: nat) in
      if n < 128 then rbind (utf8_decode s) (\<lambda>t. Inr (c # t))
      else if n < 194 \<or> 244 < n then raise UnicodeDecodeError ''invalid start byte''
      else case s of
             [] \<Rightarrow> raise UnicodeDecodeError ''unexpected end of data''
           | d # s1 \<Rightarrow>
               if n < 224 then
                 (if \<not> continuation 128 191 d then raise UnicodeDecodeError ''invalid continuation byte''
                  else if n < 196 then rbind (utf8_decode s1) (\<lambda>t. Inr (char_of (64 * (n - 192) + (of_char d - 128)) # t))
                  else raise OutsideModel ''character outside Latin-1'')
               else if \<not> continuation (fst (second_range n)) (snd (second_range n)) d
               then raise UnicodeDecodeError ''invalid continuation byte''
               else if list_all (continuation 128 191) (take (if n < 240 then 1 else 2) s1) \<and>
                       length s1 \<ge> (if n < 240 then 1 else 2)
               then raise OutsideModel ''character outside Latin-1''
               else raise UnicodeDecodeError ''invalid continuation byte'')"

section \<open>Task requests and responses\<close>

record TaskRequest =
  tr_task_name :: string
  tr_payload_json :: "char list"
  tr_routing_key :: string

record TaskResponse =
  tp_success :: bool
  tp_result_json :: "char list"
  tp_error_code :: int
  tp_error_message :: string
  tp_processing_time_us :: int

record TaskRequestData =
  td_task_name :: string
  td_payload :: json
  td_routing_key :: string

record TaskResponseData =
  rd_success :: bool
  rd_result :: "json option"
  rd_error_code :: int
  rd_error_message :: string
  rd_processing_time_us :: int

definition json_dump :: "json \<Rightarrow> char list" where
  "json_dump value = utf8 (dumps value)"

definition json_load :: "char list \<Rightarrow> json result" where
  "json_load data =
     (if data = [] then Inr JNull
      else case rbind (utf8_decode data) loads of
             Inr v \<Rightarrow> Inr v
           | Inl e \<Rightarrow>
               if exn_cls e \<in> {UnicodeDecodeError, JSONDecodeError} then raise DecodeError ''invalid JSON application payload''
               else Inl e)"

definition encode_task_request :: "TaskRequest serializer \<Rightarrow> string \<Rightarrow> json \<Rightarrow> string \<Rightarrow> char list result" where
  "encode_task_request ser task_name payload routing_key =
     (if task_name = [] then raise DecodeError ''task_name is required''
      else ser \<lparr>tr_task_name = task_name, tr_payload_json = json_dump payload, tr_routing_key = routing_key\<rparr>)"

definition decode_task_request :: "TaskRequest parser \<Rightarrow> char list \<Rightarrow> TaskRequestData result" where
  "decode_task_request par data =
     (case par data of
        None \<Rightarrow> raise DecodeError ''invalid TaskRequest protobuf''
      | Some request \<Rightarrow>
          if tr_task_name request = [] then raise DecodeError ''task_name is required''
          else rbind (json_load (tr_payload_json request)) (\<lambda>payload.
            Inr \<lparr>td_task_name = tr_task_name request, td_payload = payload, td_routing_key = tr_routing_key request\<rparr>))"

text \<open>Without success the error fields are set; with it they keep protobuf's defaults.\<close>

definition encode_task_response ::
  "TaskResponse serializer \<Rightarrow> bool \<Rightarrow> json \<Rightarrow> int \<Rightarrow> string \<Rightarrow> int \<Rightarrow> char list result" where
  "encode_task_response ser success result error_code error_message processing_time_us =
     ser \<lparr>tp_success = success, tp_result_json = (if success then json_dump result else []),
          tp_error_code = (if success then 0 else error_code),
          tp_error_message = (if success then [] else error_message), tp_processing_time_us = processing_time_us\<rparr>"

definition decode_task_response :: "TaskResponse parser \<Rightarrow> char list \<Rightarrow> TaskResponseData result" where
  "decode_task_response par data =
     (case par data of
        None \<Rightarrow> raise DecodeError ''invalid TaskResponse protobuf''
      | Some response \<Rightarrow>
          rbind (if tp_success response then rbind (json_load (tp_result_json response)) (\<lambda>v. Inr (Some v)) else Inr None) (\<lambda>result.
            Inr \<lparr>rd_success = tp_success response, rd_result = result, rd_error_code = tp_error_code response,
                 rd_error_message = tp_error_message response, rd_processing_time_us = tp_processing_time_us response\<rparr>))"

section \<open>Cluster messages\<close>

record MemberProto =
  mp_node_id :: string
  mp_host :: string
  mp_port :: int
  mp_status :: int
  mp_incarnation :: int

record AckProto =
  ap_success :: bool
  ap_target_node_id :: string
  ap_gossip :: "MemberProto list"

record PingRequestProto =
  pp_target :: MemberProto
  pp_gossip :: "MemberProto list"

record ForwardedProto =
  fp_request :: TaskRequest
  fp_origin_node_id :: string
  fp_remaining_timeout_ms :: int

record AckData =
  ack_success :: bool
  ack_target_node_id :: string
  ack_gossip :: "ClusterMember list"

record ForwardedTaskData =
  fd_task :: TaskRequestData
  fd_origin_node_id :: string
  fd_remaining_timeout_ms :: int

definition member_to_proto :: "ClusterMember \<Rightarrow> MemberProto" where
  "member_to_proto m =
     \<lparr>mp_node_id = cm_node m, mp_host = cm_host m, mp_port = cm_port m,
      mp_status = int (status_value (cm_status m)), mp_incarnation = cm_incarnation m\<rparr>"

definition member_from_proto :: "MemberProto \<Rightarrow> ClusterMember result" where
  "member_from_proto v =
     (if mp_node_id v = [] \<or> mp_host v = [] then raise DecodeError ''cluster member node_id and host are required''
      else case map_of [(1, ALIVE), (2, SUSPECT), (3, DEAD)] (mp_status v) of
             None \<Rightarrow> raise DecodeError (str_int (mp_status v) @ '' is not a valid MemberStatus'')
           | Some status \<Rightarrow>
               (case ClusterMember_init (mp_node_id v) (mp_host v) (mp_port v) status (mp_incarnation v) of
                  Inr m \<Rightarrow> Inr m
                | Inl e \<Rightarrow> if is_ValueError (exn_cls e) then raise DecodeError (exn_msg e) else Inl e))"

definition parse_proto :: "'m parser \<Rightarrow> char list \<Rightarrow> string \<Rightarrow> 'm result" where
  "parse_proto par data label =
     (case par data of None \<Rightarrow> raise DecodeError (''invalid '' @ label @ '' protobuf'') | Some m \<Rightarrow> Inr m)"

text \<open>The messages that hold one member or a list of members are that member or that list.\<close>

definition encode_join_request :: "MemberProto serializer \<Rightarrow> ClusterMember \<Rightarrow> char list result" where
  "encode_join_request ser member = ser (member_to_proto member)"

definition decode_join_request :: "MemberProto parser \<Rightarrow> char list \<Rightarrow> ClusterMember result" where
  "decode_join_request par data = rbind (parse_proto par data ''JoinRequest'') member_from_proto"

definition encode_join_response :: "MemberProto list serializer \<Rightarrow> ClusterMember list \<Rightarrow> char list result" where
  "encode_join_response ser members = ser (map member_to_proto members)"

definition decode_join_response :: "MemberProto list parser \<Rightarrow> char list \<Rightarrow> ClusterMember list result" where
  "decode_join_response par data = rbind (parse_proto par data ''JoinResponse'') (rmap member_from_proto)"

definition encode_ping :: "MemberProto list serializer \<Rightarrow> ClusterMember list \<Rightarrow> char list result" where
  "encode_ping ser gossip = ser (map member_to_proto gossip)"

definition decode_ping :: "MemberProto list parser \<Rightarrow> char list \<Rightarrow> ClusterMember list result" where
  "decode_ping par data = rbind (parse_proto par data ''Ping'') (rmap member_from_proto)"

definition encode_ack :: "AckProto serializer \<Rightarrow> bool \<Rightarrow> string \<Rightarrow> ClusterMember list \<Rightarrow> char list result" where
  "encode_ack ser success target_node_id gossip =
     ser \<lparr>ap_success = success, ap_target_node_id = target_node_id, ap_gossip = map member_to_proto gossip\<rparr>"

definition decode_ack :: "AckProto parser \<Rightarrow> char list \<Rightarrow> AckData result" where
  "decode_ack par data =
     rbind (parse_proto par data ''Ack'') (\<lambda>v.
     rbind (rmap member_from_proto (ap_gossip v)) (\<lambda>gossip.
     Inr \<lparr>ack_success = ap_success v, ack_target_node_id = ap_target_node_id v, ack_gossip = gossip\<rparr>))"

definition encode_ping_request :: "PingRequestProto serializer \<Rightarrow> ClusterMember \<Rightarrow> ClusterMember list \<Rightarrow> char list result" where
  "encode_ping_request ser target gossip =
     ser \<lparr>pp_target = member_to_proto target, pp_gossip = map member_to_proto gossip\<rparr>"

definition decode_ping_request :: "PingRequestProto parser \<Rightarrow> char list \<Rightarrow> (ClusterMember \<times> ClusterMember list) result" where
  "decode_ping_request par data =
     rbind (parse_proto par data ''PingRequest'') (\<lambda>v.
     rbind (member_from_proto (pp_target v)) (\<lambda>target.
     rbind (rmap member_from_proto (pp_gossip v)) (\<lambda>gossip. Inr (target, gossip))))"

definition encode_gossip :: "MemberProto list serializer \<Rightarrow> ClusterMember list \<Rightarrow> char list result" where
  "encode_gossip ser members = ser (map member_to_proto members)"

definition decode_gossip :: "MemberProto list parser \<Rightarrow> char list \<Rightarrow> ClusterMember list result" where
  "decode_gossip par data = rbind (parse_proto par data ''Gossip'') (rmap member_from_proto)"

text \<open>The task of a forwarded request goes through its own serialized form, both ways.\<close>

definition encode_forwarded_request ::
  "TaskRequest serializer \<Rightarrow> TaskRequest parser \<Rightarrow> ForwardedProto serializer \<Rightarrow>
     string \<Rightarrow> json \<Rightarrow> string \<Rightarrow> string \<Rightarrow> int \<Rightarrow> char list result" where
  "encode_forwarded_request ser par ser_forwarded task_name payload routing_key origin_node_id remaining_timeout_ms =
     (if origin_node_id = [] then raise DecodeError ''origin_node_id is required''
      else if remaining_timeout_ms < 0 then raise DecodeError ''remaining_timeout_ms cannot be negative''
      else rbind (encode_task_request ser task_name payload routing_key) (\<lambda>bytes.
        case par bytes of
          None \<Rightarrow> raise ProtobufDecodeError []
        | Some task \<Rightarrow>
            ser_forwarded \<lparr>fp_request = task, fp_origin_node_id = origin_node_id, fp_remaining_timeout_ms = remaining_timeout_ms\<rparr>))"

definition decode_forwarded_request ::
  "TaskRequest serializer \<Rightarrow> TaskRequest parser \<Rightarrow> ForwardedProto parser \<Rightarrow> char list \<Rightarrow> ForwardedTaskData result" where
  "decode_forwarded_request ser par par_forwarded data =
     rbind (parse_proto par_forwarded data ''ForwardedTaskRequest'') (\<lambda>v.
       if fp_origin_node_id v = [] then raise DecodeError ''origin_node_id is required''
       else rbind (ser (fp_request v)) (\<lambda>bytes.
            rbind (decode_task_request par bytes) (\<lambda>task.
            Inr \<lparr>fd_task = task, fd_origin_node_id = fp_origin_node_id v, fd_remaining_timeout_ms = fp_remaining_timeout_ms v\<rparr>)))"

section \<open>Round trips\<close>

lemma utf8_decode_two:
  assumes "hi = 2 \<or> hi = (3::nat)" "lo < 64"
  shows "utf8_decode (char_of (192 + hi) # char_of (128 + lo) # s) =
    rbind (utf8_decode s) (\<lambda>t. Inr (char_of (64 * hi + lo) # t))"
  using assms by (elim disjE) (simp_all add: Let_def continuation_def)

lemma high_byte: "\<not> n < 128 \<Longrightarrow> n < 256 \<Longrightarrow> n div 64 = 2 \<or> n div 64 = (3::nat)"
  using div_le_mono [of 128 n 64] div_le_mono [of n 255 64] by force

lemma utf8_decode_utf8: "utf8_decode (utf8 s) = Inr s"
proof (induction s)
  case (Cons c s)
  define n where "n = (of_char c :: nat)"
  have c: "char_of n = c" unfolding n_def by (rule char_of_char)
  have n: "n < 256" unfolding n_def by (rule nat_of_char_less_256)
  show ?case
  proof (cases "n < 128")
    case True
    then show ?thesis using Cons by (simp add: utf8_def utf8_char_def Let_def n_def)
  next
    case False
    then have "utf8 (c # s) = char_of (192 + n div 64) # char_of (128 + n mod 64) # utf8 s"
      by (simp only: utf8_def utf8_char_def Let_def n_def list.map concat.simps if_False append.simps)
    then show ?thesis
      using utf8_decode_two [OF high_byte [OF False n], of "n mod 64" "utf8 s"] Cons c by simp
  qed
qed (simp add: utf8_def)

lemma utf8_nonempty: "s \<noteq> [] \<Longrightarrow> utf8 s \<noteq> []"
  by (cases s) (auto simp: utf8_def utf8_char_def Let_def)

lemma jprint_nonempty: "jprint v \<noteq> []"
proof (cases v)
  case (JInt i)
  then show ?thesis using str_int_head [of i] by (metis jprint.simps(3) list.distinct(1))
qed (auto simp: jquote_def)

lemma json_load_dump: "json_ok v \<Longrightarrow> json_load (json_dump v) = Inr v"
  by (simp add: json_load_def json_dump_def dumps_def utf8_nonempty jprint_nonempty utf8_decode_utf8 loads_jprint)

text \<open>
  What protobuf documents of a message class: a message that serializes is parsed back
  unchanged.
\<close>

definition inverts :: "'m parser \<Rightarrow> 'm serializer \<Rightarrow> bool" where
  "inverts par ser \<longleftrightarrow> (\<forall>m b. ser m = Inr b \<longrightarrow> par b = Some m)"

lemma invertsD: "inverts par ser \<Longrightarrow> ser m = Inr b \<Longrightarrow> par b = Some m"
  by (simp add: inverts_def)

lemma member_round_trip: "member_ok m \<Longrightarrow> member_from_proto (member_to_proto m) = Inr m"
  by (cases "cm_status m")
    (auto simp: member_ok_def member_from_proto_def member_to_proto_def ClusterMember_init_def)

lemma members_round_trip:
  "list_all member_ok ms \<Longrightarrow> rmap member_from_proto (map member_to_proto ms) = Inr ms"
  by (induction ms) (simp_all add: member_round_trip)

lemma task_request_round_trip:
  assumes "inverts par ser" "json_ok payload" "encode_task_request ser name payload key = Inr b"
  shows "par b = Some \<lparr>tr_task_name = name, tr_payload_json = json_dump payload, tr_routing_key = key\<rparr>"
    and "decode_task_request par b = Inr \<lparr>td_task_name = name, td_payload = payload, td_routing_key = key\<rparr>"
  using assms by (auto simp: encode_task_request_def decode_task_request_def json_load_dump dest!: invertsD split: if_splits)

lemma task_response_round_trip:
  assumes "inverts par ser" "json_ok result" "encode_task_response ser success result code msg us = Inr b"
  shows "decode_task_response par b =
    Inr \<lparr>rd_success = success, rd_result = (if success then Some result else None),
         rd_error_code = (if success then 0 else code), rd_error_message = (if success then [] else msg),
         rd_processing_time_us = us\<rparr>"
  using assms by (auto simp: encode_task_response_def decode_task_response_def json_load_dump dest!: invertsD)

lemma forwarded_round_trip:
  assumes "inverts par ser" "inverts pf sf" "json_ok payload"
    and enc: "encode_forwarded_request ser par sf name payload key origin ms = Inr b"
  shows "decode_forwarded_request ser par pf b =
    Inr \<lparr>fd_task = \<lparr>td_task_name = name, td_payload = payload, td_routing_key = key\<rparr>,
         fd_origin_node_id = origin, fd_remaining_timeout_ms = ms\<rparr>"
proof -
  obtain t where t: "encode_task_request ser name payload key = Inr t"
    using enc by (cases "encode_task_request ser name payload key") (auto simp: encode_forwarded_request_def split: if_splits)
  let ?task = "\<lparr>tr_task_name = name, tr_payload_json = json_dump payload, tr_routing_key = key\<rparr>"
  note parsed = task_request_round_trip [OF assms(1,3) t]
  have ser: "ser ?task = Inr t" using t by (auto simp: encode_task_request_def split: if_splits)
  have "sf \<lparr>fp_request = ?task, fp_origin_node_id = origin, fp_remaining_timeout_ms = ms\<rparr> = Inr b" "origin \<noteq> []"
    using enc t parsed(1) by (auto simp: encode_forwarded_request_def split: if_splits)
  then show ?thesis
    using invertsD [OF assms(2)] ser parsed(2) by (simp add: decode_forwarded_request_def parse_proto_def)
qed

lemma gossip_round_trip:
  assumes "inverts par ser" "list_all member_ok ms"
  shows "encode_gossip ser ms = Inr b \<Longrightarrow> decode_gossip par b = Inr ms"
    and "encode_ping ser ms = Inr b \<Longrightarrow> decode_ping par b = Inr ms"
    and "encode_join_response ser ms = Inr b \<Longrightarrow> decode_join_response par b = Inr ms"
  using invertsD [OF assms(1)] members_round_trip [OF assms(2)]
  by (simp_all add: encode_gossip_def decode_gossip_def encode_ping_def decode_ping_def
      encode_join_response_def decode_join_response_def parse_proto_def)

lemma join_round_trip:
  "inverts par ser \<Longrightarrow> member_ok m \<Longrightarrow> encode_join_request ser m = Inr b \<Longrightarrow> decode_join_request par b = Inr m"
  by (simp add: encode_join_request_def decode_join_request_def parse_proto_def invertsD member_round_trip)

lemma ack_round_trip:
  "inverts par ser \<Longrightarrow> list_all member_ok ms \<Longrightarrow> encode_ack ser ok name ms = Inr b \<Longrightarrow>
     decode_ack par b = Inr \<lparr>ack_success = ok, ack_target_node_id = name, ack_gossip = ms\<rparr>"
  by (simp add: encode_ack_def decode_ack_def parse_proto_def invertsD members_round_trip)

lemma ping_request_round_trip:
  "inverts par ser \<Longrightarrow> member_ok target \<Longrightarrow> list_all member_ok ms \<Longrightarrow> encode_ping_request ser target ms = Inr b \<Longrightarrow>
     decode_ping_request par b = Inr (target, ms)"
  by (simp add: encode_ping_request_def decode_ping_request_def parse_proto_def invertsD member_round_trip
      members_round_trip)

text \<open>C35: Every cluster message that could be encoded is decoded to what was sent: a gossip, ping
  or join member list, a join request, an acknowledgement, a ping request, and a forwarded
  task with its JSON payload, origin and remaining timeout, for members that pass the
  validation of \<^verbatim>\<open>ClusterMember\<close> and a payload whose objects have each key once.
\<close>

theorem cluster_wire_round_trip:
  assumes "list_all member_ok ms" "member_ok target" "json_ok payload"
    and "inverts pm sm" "inverts pl sl" "inverts pa sa" "inverts pp sp" "inverts pt st" "inverts pf sf"
  shows "(encode_gossip sl ms = Inr b \<longrightarrow> decode_gossip pl b = Inr ms) \<and>
    (encode_ping sl ms = Inr b \<longrightarrow> decode_ping pl b = Inr ms) \<and>
    (encode_join_request sm target = Inr b \<longrightarrow> decode_join_request pm b = Inr target) \<and>
    (encode_join_response sl ms = Inr b \<longrightarrow> decode_join_response pl b = Inr ms) \<and>
    (encode_ack sa ok name ms = Inr b \<longrightarrow>
      decode_ack pa b = Inr \<lparr>ack_success = ok, ack_target_node_id = name, ack_gossip = ms\<rparr>) \<and>
    (encode_ping_request sp target ms = Inr b \<longrightarrow> decode_ping_request pp b = Inr (target, ms)) \<and>
    (encode_forwarded_request st pt sf name payload key origin timeout = Inr b \<longrightarrow>
      decode_forwarded_request st pt pf b =
        Inr \<lparr>fd_task = \<lparr>td_task_name = name, td_payload = payload, td_routing_key = key\<rparr>,
             fd_origin_node_id = origin, fd_remaining_timeout_ms = timeout\<rparr>)"
  using gossip_round_trip [OF assms(5,1)] join_round_trip [OF assms(4,2)] ack_round_trip [OF assms(6,1)]
    ping_request_round_trip [OF assms(7,2,1)] forwarded_round_trip [OF assms(8,9,3)]
  by (intro conjI impI) assumption+

text \<open>A codec that knows one message, whose bytes are one byte.\<close>

definition one_ser :: "'m \<Rightarrow> 'm serializer" where
  "one_ser m0 m = (if m = m0 then Inr ''x'' else raise ValueError [])"

definition one_par :: "'m \<Rightarrow> 'm parser" where
  "one_par m0 b = (if b = ''x'' then Some m0 else None)"

lemma one_inverts: "inverts (one_par m) (one_ser m)"
  by (auto simp: inverts_def one_ser_def one_par_def split: if_splits)

definition wire_member :: ClusterMember where
  "wire_member = \<lparr>cm_node = ''node-a'', cm_host = ''10.0.0.1'', cm_port = 7000, cm_status = SUSPECT, cm_incarnation = 3\<rparr>"

definition wire_task :: TaskRequest where
  "wire_task = \<lparr>tr_task_name = ''echo'', tr_payload_json = ''{\"x\":1}'', tr_routing_key = ''k''\<rparr>"

definition wire_forwarded :: ForwardedProto where
  "wire_forwarded = \<lparr>fp_request = wire_task, fp_origin_node_id = ''node-b'', fp_remaining_timeout_ms = 250\<rparr>"

theorem cluster_wire_round_trip_witness:
  "decode_ack (one_par \<lparr>ap_success = True, ap_target_node_id = ''node-a'', ap_gossip = [member_to_proto wire_member]\<rparr>) ''x'' =
     Inr \<lparr>ack_success = True, ack_target_node_id = ''node-a'', ack_gossip = [wire_member]\<rparr> \<and>
   decode_forwarded_request (one_ser wire_task) (one_par wire_task) (one_par wire_forwarded) ''x'' =
     Inr \<lparr>fd_task = \<lparr>td_task_name = ''echo'', td_payload = JObj [(''x'', JInt 1)], td_routing_key = ''k''\<rparr>,
          fd_origin_node_id = ''node-b'', fd_remaining_timeout_ms = 250\<rparr>"
proof -
  have dump: "json_dump (JObj [(''x'', JInt 1)]) = ''{\"x\":1}''" by code_simp
  have ok: "member_ok wire_member" "list_all member_ok [wire_member]" "json_ok (JObj [(''x'', JInt 1)])"
    by (simp_all add: wire_member_def member_ok_def)
  let ?ack = "\<lparr>ap_success = True, ap_target_node_id = ''node-a'', ap_gossip = [member_to_proto wire_member]\<rparr>"
  have "encode_ack (one_ser ?ack) True ''node-a'' [wire_member] = Inr ''x''"
    by (simp add: encode_ack_def one_ser_def)
  moreover have "encode_forwarded_request (one_ser wire_task) (one_par wire_task) (one_ser wire_forwarded)
    ''echo'' (JObj [(''x'', JInt 1)]) ''k'' ''node-b'' 250 = Inr ''x''"
    by (simp add: encode_forwarded_request_def encode_task_request_def dump one_ser_def one_par_def wire_task_def
        wire_forwarded_def)
  ultimately show ?thesis
    using cluster_wire_round_trip [OF ok(2,1,3) one_inverts one_inverts one_inverts one_inverts one_inverts one_inverts]
    by blast
qed

section \<open>Malformed input\<close>

lemma member_from_proto_cases:
  "(\<exists>m. member_from_proto v = Inr m \<and> member_ok m) \<or> (\<exists>t. member_from_proto v = raise DecodeError t)"
  by (auto simp: member_from_proto_def ClusterMember_init_def member_ok_def split: option.splits)

lemma members_from_proto_cases:
  "(\<exists>ms. rmap member_from_proto vs = Inr ms \<and> list_all member_ok ms) \<or> (\<exists>t. rmap member_from_proto vs = raise DecodeError t)"
proof (induction vs)
  case (Cons v vs)
  then show ?case using member_from_proto_cases [of v] by (elim disjE exE conjE) simp_all
qed simp

text \<open>
  Whatever the bytes and whatever the protobuf parser makes of them, decoding a cluster
  control message either gives members that satisfy the validation of \<^verbatim>\<open>ClusterMember\<close> or
  raises \<^verbatim>\<open>DecodeError\<close>; no other exception leaves the decoder and no malformed member
  enters the table through it.
\<close>

lemma cluster_decoders_validate:
  "(case decode_gossip pl data of Inr ms \<Rightarrow> list_all member_ok ms | Inl e \<Rightarrow> exn_cls e = DecodeError) \<and>
   (case decode_ping pl data of Inr ms \<Rightarrow> list_all member_ok ms | Inl e \<Rightarrow> exn_cls e = DecodeError) \<and>
   (case decode_join_request pm data of Inr m \<Rightarrow> member_ok m | Inl e \<Rightarrow> exn_cls e = DecodeError) \<and>
   (case decode_join_response pl data of Inr ms \<Rightarrow> list_all member_ok ms | Inl e \<Rightarrow> exn_cls e = DecodeError) \<and>
   (case decode_ack pa data of Inr a \<Rightarrow> list_all member_ok (ack_gossip a) | Inl e \<Rightarrow> exn_cls e = DecodeError) \<and>
   (case decode_ping_request pp data of
      Inr (m, ms) \<Rightarrow> member_ok m \<and> list_all member_ok ms | Inl e \<Rightarrow> exn_cls e = DecodeError)"
proof -
  have lists: "case rbind (parse_proto pl data label) (rmap member_from_proto) of
      Inr ms \<Rightarrow> list_all member_ok ms | Inl e \<Rightarrow> exn_cls e = DecodeError" for label
  proof (cases "pl data")
    case (Some vs)
    then show ?thesis using members_from_proto_cases [of vs] by (elim disjE exE conjE) (simp_all add: parse_proto_def)
  qed (simp add: parse_proto_def)
  have join: "case decode_join_request pm data of Inr m \<Rightarrow> member_ok m | Inl e \<Rightarrow> exn_cls e = DecodeError"
  proof (cases "pm data")
    case (Some v)
    then show ?thesis using member_from_proto_cases [of v]
      by (elim disjE exE conjE) (simp_all add: decode_join_request_def parse_proto_def)
  qed (simp add: decode_join_request_def parse_proto_def)
  have ack: "case decode_ack pa data of
      Inr a \<Rightarrow> list_all member_ok (ack_gossip a) | Inl e \<Rightarrow> exn_cls e = DecodeError"
  proof (cases "pa data")
    case (Some v)
    then show ?thesis using members_from_proto_cases [of "ap_gossip v"]
      by (elim disjE exE conjE) (simp_all add: decode_ack_def parse_proto_def)
  qed (simp add: decode_ack_def parse_proto_def)
  have "case decode_ping_request pp data of
      Inr (m, ms) \<Rightarrow> member_ok m \<and> list_all member_ok ms | Inl e \<Rightarrow> exn_cls e = DecodeError"
  proof (cases "pp data")
    case (Some v)
    then show ?thesis using members_from_proto_cases [of "pp_gossip v"] member_from_proto_cases [of "pp_target v"]
      by (elim disjE exE conjE) (simp_all add: decode_ping_request_def parse_proto_def)
  qed (simp add: decode_ping_request_def parse_proto_def)
  with lists join ack show ?thesis
    by (simp add: decode_gossip_def decode_ping_def decode_join_response_def)
qed

end
