(* ===== verification/Crdt_Contract.thy ===== *)
theory Crdt_Contract
  imports Distsys_Prelude
begin

text \<open>
  The contract of a replicated state, \<^verbatim>\<open>crdt/base.py\<close>: on the states of one object the
  merge never raises and is commutative, associative and idempotent. What a replica holds
  after a sequence of merges then depends only on the set of states it has seen. Every
  CRDT of the program, the stored entries and the version vectors interpret the contract.
\<close>

text \<open>A replica that may hold no state takes in a state: it keeps it, or merges it in.\<close>

definition absorb :: "('s \<Rightarrow> 's \<Rightarrow> 's result) \<Rightarrow> 's option \<Rightarrow> 's \<Rightarrow> 's option result" where
  "absorb merge a x =
     (case a of None \<Rightarrow> Inr (Some x) | Some s \<Rightarrow> rbind (merge s x) (\<lambda>t. Inr (Some t)))"

locale state_crdt =
  fixes ok :: "'s \<Rightarrow> bool"
    and merge :: "'s \<Rightarrow> 's \<Rightarrow> 's result"
  assumes merge_total: "ok a \<Longrightarrow> ok b \<Longrightarrow> \<exists>c. merge a b = Inr c \<and> ok c"
    and merge_comm: "ok a \<Longrightarrow> ok b \<Longrightarrow> merge a b = merge b a"
    and merge_idem: "ok a \<Longrightarrow> merge a a = Inr a"
    and merge_assoc: "ok a \<Longrightarrow> ok b \<Longrightarrow> ok c \<Longrightarrow>
           rbind (merge a b) (\<lambda>x. merge x c) = rbind (merge b c) (merge a)"
begin

definition below :: "'s \<Rightarrow> 's \<Rightarrow> bool" where
  "below a b = (merge a b = Inr b)"

lemma merge_cases:
  assumes "ok a" "ok b"
  obtains c where "merge a b = Inr c" "ok c"
  using merge_total [OF assms] by blast

lemma below_refl: "ok a \<Longrightarrow> below a a"
  by (simp add: below_def merge_idem)

lemma below_antisym: "ok a \<Longrightarrow> ok b \<Longrightarrow> below a b \<Longrightarrow> below b a \<Longrightarrow> a = b"
  using merge_comm [of a b] by (simp add: below_def)

lemma below_trans: "ok a \<Longrightarrow> ok b \<Longrightarrow> ok c \<Longrightarrow> below a b \<Longrightarrow> below b c \<Longrightarrow> below a c"
  using merge_assoc [of a b c] by (simp add: below_def)

lemma below_merge1: "ok a \<Longrightarrow> ok b \<Longrightarrow> merge a b = Inr c \<Longrightarrow> below a c"
  using merge_assoc [of a a b] by (simp add: below_def merge_idem)

lemma below_merge2: "ok a \<Longrightarrow> ok b \<Longrightarrow> merge a b = Inr c \<Longrightarrow> below b c"
  using below_merge1 [of b a] merge_comm [of a b] by simp

lemma merge_least:
  "ok a \<Longrightarrow> ok b \<Longrightarrow> ok d \<Longrightarrow> merge a b = Inr c \<Longrightarrow> below a d \<Longrightarrow> below b d \<Longrightarrow> below c d"
  using merge_assoc [of a b d] by (simp add: below_def)

lemma rfold_merge_total:
  "ok s \<Longrightarrow> (\<And>x. x \<in> set xs \<Longrightarrow> ok x) \<Longrightarrow> \<exists>t. rfold merge s xs = Inr t \<and> ok t"
proof (induction xs arbitrary: s)
  case (Cons x xs)
  then obtain c where "merge s x = Inr c" "ok c" using merge_cases [of s x] by auto
  with Cons show ?case by simp
qed simp

lemma rfold_merge_above:
  "ok s \<Longrightarrow> (\<And>x. x \<in> set xs \<Longrightarrow> ok x) \<Longrightarrow> rfold merge s xs = Inr t \<Longrightarrow>
     below s t \<and> (\<forall>x \<in> set xs. below x t)"
proof (induction xs arbitrary: s)
  case Nil
  then show ?case by (simp add: below_refl)
next
  case (Cons x xs)
  obtain c where c: "merge s x = Inr c" "ok c" using Cons.prems merge_cases [of s x] by auto
  have t: "ok t" using Cons.prems rfold_merge_total [of s "x # xs"] by auto
  have "below c t \<and> (\<forall>x \<in> set xs. below x t)" using Cons c by simp
  moreover have "below s c" "below x c"
    using c Cons.prems by (auto intro: below_merge1 below_merge2)
  ultimately show ?case
    using Cons.prems c t below_trans [of s c t] below_trans [of x c t] by simp
qed

lemma rfold_merge_least:
  "ok s \<Longrightarrow> (\<And>x. x \<in> set xs \<Longrightarrow> ok x) \<Longrightarrow> rfold merge s xs = Inr t \<Longrightarrow> ok d \<Longrightarrow>
     below s d \<Longrightarrow> (\<And>x. x \<in> set xs \<Longrightarrow> below x d) \<Longrightarrow> below t d"
proof (induction xs arbitrary: s)
  case (Cons x xs)
  obtain c where c: "merge s x = Inr c" "ok c" using Cons.prems merge_cases [of s x] by auto
  then have "below c d" using Cons.prems by (intro merge_least [of s x d c]) auto
  then show ?case using Cons c by simp
qed simp

text \<open>
  Strong convergence: the order in which states arrive, and how often each arrives, does
  not matter.
\<close>

lemma rfold_merge_lub:
  assumes "ok s" "ok s'" "\<And>x. x \<in> set xs \<Longrightarrow> ok x" "\<And>y. y \<in> set ys \<Longrightarrow> ok y"
    and "insert s (set xs) = insert s' (set ys)"
  shows "rfold merge s xs = rfold merge s' ys"
proof -
  obtain t u where t: "rfold merge s xs = Inr t" "ok t" and u: "rfold merge s' ys = Inr u" "ok u"
    using rfold_merge_total [of s xs] rfold_merge_total [of s' ys] assms(1-4) by auto
  have ub: "below s t \<and> (\<forall>x \<in> set xs. below x t)" "below s' u \<and> (\<forall>x \<in> set ys. below x u)"
    by (rule rfold_merge_above [OF assms(1,3) t(1)], assumption)
      (rule rfold_merge_above [OF assms(2,4) u(1)])
  then have cross: "\<forall>x \<in> insert s (set xs). below x u" "\<forall>x \<in> insert s' (set ys). below x t"
    using assms(5) by (metis insert_iff)+
  have "below t u"
    by (rule rfold_merge_least [OF assms(1,3) t(1) u(2)]) (use cross in blast)+
  moreover have "below u t"
    by (rule rfold_merge_least [OF assms(2,4) u(1) t(2)]) (use cross in blast)+
  ultimately show ?thesis using t u below_antisym by simp
qed

lemma rfold_merge_set:
  assumes "ok s" "\<And>x. x \<in> set xs \<Longrightarrow> ok x" "set xs = set ys"
  shows "rfold merge s xs = rfold merge s ys"
  by (rule rfold_merge_lub [OF assms(1,1,2)]) (use assms in auto)

text \<open>The same for a replica that may hold no state yet.\<close>

lemma absorb_total:
  "(\<And>s. a = Some s \<Longrightarrow> ok s) \<Longrightarrow> ok x \<Longrightarrow> \<exists>s. absorb merge a x = Inr (Some s) \<and> ok s"
  using merge_total by (cases a) (fastforce simp: absorb_def)+

lemma rfold_absorb_Some:
  "rfold (absorb merge) (Some s) xs = rbind (rfold merge s xs) (\<lambda>t. Inr (Some t))"
  by (induction xs arbitrary: s) (auto simp: absorb_def rbind_def split: sum.splits)

lemma rfold_absorb_set:
  assumes "\<And>s. a = Some s \<Longrightarrow> ok s" "\<And>x. x \<in> set xs \<Longrightarrow> ok x" "set xs = set ys"
  shows "rfold (absorb merge) a xs = rfold (absorb merge) a ys"
proof (cases a)
  case (Some s)
  then show ?thesis
    using rfold_merge_set [of s xs ys] assms by (simp add: rfold_absorb_Some)
next
  case None
  show ?thesis
  proof (cases xs)
    case Nil
    then show ?thesis using assms(3) by simp
  next
    case (Cons x xs')
    then obtain y ys' where ys: "ys = y # ys'" using assms(3) by (cases ys) auto
    have oky: "ok z" if "z \<in> set ys" for z using that assms(2,3) by blast
    have "rfold merge x xs' = rfold merge y ys'"
      by (rule rfold_merge_lub) (use assms(2) oky Cons ys assms(3) in auto)
    then show ?thesis using None Cons ys by (simp add: rfold_absorb_Some absorb_def)
  qed
qed

lemma rfold_absorb_total:
  "(\<And>s. a = Some s \<Longrightarrow> ok s) \<Longrightarrow> (\<And>x. x \<in> set xs \<Longrightarrow> ok x) \<Longrightarrow>
     \<exists>b. rfold (absorb merge) a xs = Inr b \<and> (\<forall>s. b = Some s \<longrightarrow> ok s)"
proof (induction xs arbitrary: a)
  case (Cons x xs)
  obtain s where s: "absorb merge a x = Inr (Some s)" "ok s"
    using absorb_total [of a x] Cons.prems by auto
  then show ?case using Cons.IH [of "Some s"] Cons.prems by simp
qed simp

text \<open>Two replicas that merge each other's accumulated states meet in one state.\<close>

lemma rfold_merge_exchange:
  assumes "ok s" "ok s'" "\<And>x. x \<in> set xs \<union> set ys \<Longrightarrow> ok x"
    and "rfold merge s xs = Inr t" "rfold merge s' ys = Inr u"
  shows "merge t u = rfold merge s (xs @ s' # ys)"
proof -
  have ok: "ok t" "ok u"
    using rfold_merge_total [of s xs] rfold_merge_total [of s' ys] assms by auto
  obtain v where v: "merge t u = Inr v" "ok v" using ok merge_cases by blast
  obtain w where w: "rfold merge s (xs @ s' # ys) = Inr w" "ok w"
    using rfold_merge_total [of s "xs @ s' # ys"] assms by auto
  note tu = rfold_merge_above [OF assms(1) _ assms(4)] rfold_merge_above [OF assms(2) _ assms(5)]
  have w_above: "below s w \<and> (\<forall>x \<in> set (xs @ s' # ys). below x w)"
    by (rule rfold_merge_above) (use assms w in auto)
  have "below t w" by (rule rfold_merge_least [OF assms(1) _ assms(4)]) (use w_above w assms in auto)
  moreover have "below u w"
    by (rule rfold_merge_least [OF assms(2) _ assms(5)]) (use w_above w assms in auto)
  ultimately have "below v w" using merge_least [of t u w v] ok v w by blast
  moreover have "below w v"
  proof (rule rfold_merge_least [OF assms(1) _ w(1) v(2)])
    have tv: "below t v" "below u v" using v ok by (auto intro: below_merge1 below_merge2)
    have xv: "below x v" if "ok x" "below x t \<or> below x u" for x
      using that tv below_trans [of x t v] below_trans [of x u v] ok v by blast
    show "below s v" using xv [of s] tu assms by auto
    show "below x v" if "x \<in> set (xs @ s' # ys)" for x
      using that xv [of x] tu assms by auto
  qed (use assms in auto)
  ultimately show ?thesis using v w below_antisym by simp
qed

end

text \<open>The contract for a merge that cannot raise.\<close>

locale total_crdt =
  fixes ok :: "'s \<Rightarrow> bool"
    and join :: "'s \<Rightarrow> 's \<Rightarrow> 's"
  assumes join_ok: "ok a \<Longrightarrow> ok b \<Longrightarrow> ok (join a b)"
    and join_comm: "ok a \<Longrightarrow> ok b \<Longrightarrow> join a b = join b a"
    and join_idem: "ok a \<Longrightarrow> join a a = a"
    and join_assoc: "ok a \<Longrightarrow> ok b \<Longrightarrow> ok c \<Longrightarrow> join (join a b) c = join a (join b c)"

sublocale total_crdt \<subseteq> state_crdt ok "\<lambda>a b. Inr (join a b)"
  by unfold_locales (auto simp: join_ok join_idem join_assoc intro: join_comm)

end
