(* ===== verification/Causal.thy ===== *)
theory Causal
  imports Crdt_Contract
begin

text \<open>
  The causal primitives of \<^verbatim>\<open>src/src/distsys/causal\<close>: actors, dots, version vectors,
  session tokens and the local causal clock.
\<close>

section \<open>Actors and dots\<close>

datatype CausalActor = CausalActor (ca_node_id: string) (ca_incarnation: int)

definition CausalActor_init :: "string \<Rightarrow> int \<Rightarrow> CausalActor result" where
  "CausalActor_init node_id incarnation =
     (if node_id = [] then raise ValueError ''node_id must not be empty''
      else if incarnation < 0 then raise ValueError ''incarnation must be non-negative''
      else Inr (CausalActor node_id incarnation))"

definition actor_ok :: "CausalActor \<Rightarrow> bool" where
  "actor_ok a = (ca_node_id a \<noteq> [] \<and> 0 \<le> ca_incarnation a)"

definition wire_key :: "CausalActor \<Rightarrow> string" where
  "wire_key a = ca_node_id a @ ''@'' @ str_int (ca_incarnation a)"

text \<open>\<^verbatim>\<open>@dataclass(order=True)\<close>: the fields compared in order.\<close>

instantiation CausalActor :: linorder
begin

definition less_eq_CausalActor :: "CausalActor \<Rightarrow> CausalActor \<Rightarrow> bool" where
  "less_eq_CausalActor a b \<longleftrightarrow> ca_node_id a < ca_node_id b \<or>
     ca_node_id a = ca_node_id b \<and> ca_incarnation a \<le> ca_incarnation b"

definition less_CausalActor :: "CausalActor \<Rightarrow> CausalActor \<Rightarrow> bool" where
  "less_CausalActor a b \<longleftrightarrow> ca_node_id a < ca_node_id b \<or>
     ca_node_id a = ca_node_id b \<and> ca_incarnation a < ca_incarnation b"

instance
  by standard (auto simp: less_eq_CausalActor_def less_CausalActor_def CausalActor.expand)

end

datatype Dot = Dot (dot_actor: CausalActor) (dot_counter: int)

definition Dot_init :: "CausalActor \<Rightarrow> int \<Rightarrow> Dot result" where
  "Dot_init actor counter =
     (if counter < 1 then raise ValueError ''counter must be >= 1'' else Inr (Dot actor counter))"

instantiation Dot :: linorder
begin

definition less_eq_Dot :: "Dot \<Rightarrow> Dot \<Rightarrow> bool" where
  "less_eq_Dot a b \<longleftrightarrow> dot_actor a < dot_actor b \<or>
     dot_actor a = dot_actor b \<and> dot_counter a \<le> dot_counter b"

definition less_Dot :: "Dot \<Rightarrow> Dot \<Rightarrow> bool" where
  "less_Dot a b \<longleftrightarrow> dot_actor a < dot_actor b \<or>
     dot_actor a = dot_actor b \<and> dot_counter a < dot_counter b"

instance
  by standard (auto simp: less_eq_Dot_def less_Dot_def Dot.expand)

end

text \<open>
  Two actors never share a wire key: the part after the last \<^verbatim>\<open>@\<close> is a number.
\<close>

lemma wire_key_inj: "wire_key a = wire_key b \<longleftrightarrow> a = b"
proof
  assume eq: "wire_key a = wire_key b"
  have at: "CHR ''@'' \<notin> set (str_int i)" for i
    using str_int_chars [of "CHR ''@''" i] by auto
  have split: "takeWhile (\<lambda>c. c \<noteq> CHR ''@'') (rev (wire_key x)) = rev (str_int (ca_incarnation x)) \<and>
      dropWhile (\<lambda>c. c \<noteq> CHR ''@'') (rev (wire_key x)) = CHR ''@'' # rev (ca_node_id x)" for x
    using at [of "ca_incarnation x"]
    by (auto simp: wire_key_def takeWhile_append dropWhile_append)
  show "a = b"
    using split [of a] split [of b] eq by (simp add: str_int_inj CausalActor.expand)
qed simp

section \<open>Version vectors\<close>

datatype VersionRelation = BEFORE | AFTER | EQUAL | CONCURRENT

datatype VersionVector = VersionVector (vv_items: "(CausalActor \<times> int) list")

text \<open>
  The constructor takes a dictionary. It rejects a negative counter, drops the zero
  counters and sorts the rest by actor. The operations below build their results with
  \<open>vv_normalized\<close>, the constructor past its check; \<open>vv_init_merge\<close> and
  \<open>vv_init_with_dot\<close> show that the check cannot fire there.
\<close>

definition vv_normalized :: "(CausalActor, int) dict \<Rightarrow> VersionVector" where
  "vv_normalized entries = VersionVector (cnorm entries)"

definition VersionVector_init :: "(CausalActor, int) dict \<Rightarrow> VersionVector result" where
  "VersionVector_init entries =
     (if list_ex (\<lambda>(actor, counter). counter < 0) entries
      then raise ValueError ''version counters must be non-negative''
      else Inr (vv_normalized entries))"

definition vv_empty :: VersionVector where
  "vv_empty = VersionVector []"

definition vv_bool :: "VersionVector \<Rightarrow> bool" where
  "vv_bool v = (vv_items v \<noteq> [])"

definition vv_get :: "VersionVector \<Rightarrow> CausalActor \<Rightarrow> int" where
  "vv_get v actor = cget (vv_items v) actor"

definition with_dot :: "VersionVector \<Rightarrow> Dot \<Rightarrow> VersionVector" where
  "with_dot v dot =
     vv_normalized (AList.update (dot_actor dot)
       (max (vv_get v (dot_actor dot)) (dot_counter dot)) (vv_items v))"

text \<open>
  The source collects the actors of both vectors in a set; the model lists that set in
  the order of first occurrence. The constructor sorts, so no result depends on it.
\<close>

definition vv_actors :: "VersionVector \<Rightarrow> VersionVector \<Rightarrow> CausalActor list" where
  "vv_actors v w = remdups (map fst (vv_items v) @ map fst (vv_items w))"

definition vv_merge :: "VersionVector \<Rightarrow> VersionVector \<Rightarrow> VersionVector" where
  "vv_merge v w =
     vv_normalized (map (\<lambda>actor. (actor, max (vv_get v actor) (vv_get w actor))) (vv_actors v w))"

fun compare_loop ::
  "VersionVector \<Rightarrow> VersionVector \<Rightarrow> bool \<Rightarrow> bool \<Rightarrow> CausalActor list \<Rightarrow> VersionRelation" where
  "compare_loop v w lt gt [] =
     (if lt then BEFORE else if gt then AFTER else EQUAL)"
| "compare_loop v w lt gt (actor # actors) =
     (let left = vv_get v actor; right = vv_get w actor;
          lt' = (if left < right then True else lt);
          gt' = (if \<not> left < right \<and> left > right then True else gt)
      in if lt' \<and> gt' then CONCURRENT else compare_loop v w lt' gt' actors)"

definition vv_compare :: "VersionVector \<Rightarrow> VersionVector \<Rightarrow> VersionRelation" where
  "vv_compare v w = compare_loop v w False False (vv_actors v w)"

definition dominates :: "VersionVector \<Rightarrow> VersionVector \<Rightarrow> bool" where
  "dominates v w = (vv_compare v w \<in> {AFTER, EQUAL})"

definition concurrent_with :: "VersionVector \<Rightarrow> VersionVector \<Rightarrow> bool" where
  "concurrent_with v w = (vv_compare v w = CONCURRENT)"

fun missing_loop ::
  "VersionVector \<Rightarrow> (CausalActor \<times> int) list \<Rightarrow> (CausalActor, int \<times> int) dict \<Rightarrow>
     (CausalActor, int \<times> int) dict" where
  "missing_loop v [] missing = missing"
| "missing_loop v ((actor, required_counter) # items) missing =
     missing_loop v items
       (if vv_get v actor < required_counter
        then AList.update actor (vv_get v actor + 1, required_counter) missing else missing)"

definition missing_from :: "VersionVector \<Rightarrow> VersionVector \<Rightarrow> (CausalActor, int \<times> int) dict" where
  "missing_from v required = missing_loop v (vv_items required) []"

subsection \<open>The class invariant and pointwise reading\<close>

definition vv_ok :: "VersionVector \<Rightarrow> bool" where
  "vv_ok v = cok (vv_items v)"

lemma vv_ok_empty [simp]: "vv_ok vv_empty"
  by (simp add: vv_ok_def vv_empty_def)

lemma vv_get_empty [simp]: "vv_get vv_empty a = 0"
  by (simp add: vv_get_def vv_empty_def)

lemma vv_init_ok: "dict_ok d \<Longrightarrow> VersionVector_init d = Inr v \<Longrightarrow> vv_ok v"
  by (force simp: VersionVector_init_def vv_normalized_def vv_ok_def list_ex_iff
      split: if_splits intro: cok_cnorm)

lemma vv_get_nonneg [simp]: "vv_ok v \<Longrightarrow> 0 \<le> vv_get v a"
  by (simp add: vv_ok_def vv_get_def cget_nonneg)

lemma vv_ext: "vv_ok v \<Longrightarrow> vv_ok w \<Longrightarrow> (\<And>a. vv_get v a = vv_get w a) \<Longrightarrow> v = w"
  by (cases v; cases w) (auto simp: vv_ok_def vv_get_def intro: cok_ext)

lemma vv_merge_raw: "vv_merge v w = VersionVector (cmerge (vv_items v) (vv_items w))"
  by (simp add: vv_merge_def vv_normalized_def cmerge_def vv_get_def vv_actors_def)

lemma vv_get_merge [simp]: "vv_get (vv_merge v w) a = max (vv_get v a) (vv_get w a)"
  by (simp add: vv_merge_raw vv_get_def cget_cmerge)

lemma vv_ok_merge [simp]: "vv_ok v \<Longrightarrow> vv_ok w \<Longrightarrow> vv_ok (vv_merge v w)"
  by (simp add: vv_merge_raw vv_ok_def cok_cmerge)

lemma vv_get_with_dot [simp]:
  "vv_ok v \<Longrightarrow> vv_get (with_dot v d) a =
     (if a = dot_actor d then max (vv_get v a) (dot_counter d) else vv_get v a)"
  by (simp add: with_dot_def vv_normalized_def vv_get_def vv_ok_def cget_update)

lemma vv_ok_with_dot [simp]: "vv_ok v \<Longrightarrow> 1 \<le> dot_counter d \<Longrightarrow> vv_ok (with_dot v d)"
  by (simp add: with_dot_def vv_normalized_def vv_ok_def cok_update)

lemma vv_init_merge:
  "vv_ok v \<Longrightarrow> vv_ok w \<Longrightarrow>
     VersionVector_init (map (\<lambda>a. (a, max (vv_get v a) (vv_get w a))) (vv_actors v w)) =
       Inr (vv_merge v w)"
  by (auto simp: VersionVector_init_def vv_merge_def list_ex_iff max_def not_less)

lemma vv_init_with_dot:
  assumes "vv_ok v" "1 \<le> dot_counter d"
  shows "VersionVector_init (AList.update (dot_actor d)
      (max (vv_get v (dot_actor d)) (dot_counter d)) (vv_items v)) = Inr (with_dot v d)"
proof -
  have "0 \<le> c" if "(a, c) \<in> set (AList.update (dot_actor d)
      (max (vv_get v (dot_actor d)) (dot_counter d)) (vv_items v))" for a c
    using set_update_cases [OF that] assms by (auto simp: vv_ok_def cok_def)
  then show ?thesis by (force simp: VersionVector_init_def with_dot_def list_ex_iff)
qed

text \<open>Version vectors satisfy the merge contract.\<close>

interpretation vv: total_crdt vv_ok vv_merge
  by unfold_locales (auto intro!: vv_ext simp: max.commute max.assoc)

subsection \<open>Comparison\<close>

lemma compare_loop_spec:
  "(\<not> (lt \<and> gt)) \<Longrightarrow> compare_loop v w lt gt actors =
     (let l = lt \<or> (\<exists>a \<in> set actors. vv_get v a < vv_get w a);
          g = gt \<or> (\<exists>a \<in> set actors. vv_get v a > vv_get w a)
      in if l \<and> g then CONCURRENT else if l then BEFORE else if g then AFTER else EQUAL)"
  by (induction actors arbitrary: lt gt) (auto simp: Let_def)

lemma vv_get_not_actor: "a \<notin> set (vv_actors v w) \<Longrightarrow> vv_get v a = 0 \<and> vv_get w a = 0"
  by (auto simp: vv_actors_def vv_get_def image_iff intro!: cget_not_in)

lemma vv_compare_spec:
  "vv_compare v w =
     (let l = (\<exists>a. vv_get v a < vv_get w a); g = (\<exists>a. vv_get v a > vv_get w a)
      in if l \<and> g then CONCURRENT else if l then BEFORE else if g then AFTER else EQUAL)"
proof -
  have "(\<exists>a \<in> set (vv_actors v w). vv_get v a < vv_get w a) = (\<exists>a. vv_get v a < vv_get w a)"
    "(\<exists>a \<in> set (vv_actors v w). vv_get v a > vv_get w a) = (\<exists>a. vv_get v a > vv_get w a)"
    using vv_get_not_actor by (metis less_irrefl)+
  then show ?thesis by (simp add: vv_compare_def compare_loop_spec)
qed

lemma dominates_iff [causal_simps]: "dominates v w \<longleftrightarrow> (\<forall>a. vv_get w a \<le> vv_get v a)"
proof -
  have "(\<forall>a. vv_get w a \<le> vv_get v a) \<longleftrightarrow> \<not> (\<exists>a. vv_get v a < vv_get w a)"
    by (simp add: not_less)
  then show ?thesis by (simp add: dominates_def vv_compare_spec Let_def del: not_ex)
qed

lemma dominates_refl [simp]: "dominates v v"
  by (simp add: dominates_iff)

lemma dominates_trans: "dominates u v \<Longrightarrow> dominates v w \<Longrightarrow> dominates u w"
  by (meson dominates_iff order_trans)

lemma dominates_antisym: "vv_ok v \<Longrightarrow> vv_ok w \<Longrightarrow> dominates v w \<Longrightarrow> dominates w v \<Longrightarrow> v = w"
  by (auto simp: dominates_iff intro!: vv_ext order_antisym)

lemma dominates_merge_iff [simp]: "dominates v (vv_merge w x) \<longleftrightarrow> dominates v w \<and> dominates v x"
  by (auto simp: dominates_iff)

lemma dominates_merge1 [simp]: "dominates (vv_merge v w) v"
  and dominates_merge2 [simp]: "dominates (vv_merge v w) w"
  by (auto simp: dominates_iff)

lemma dominates_mono1: "dominates v x \<Longrightarrow> dominates (vv_merge v w) x"
  and dominates_mono2: "dominates w x \<Longrightarrow> dominates (vv_merge v w) x"
  by (auto simp: dominates_iff max_def intro: order_trans)

lemma dominates_with_dot [simp]: "vv_ok v \<Longrightarrow> dominates (with_dot v d) v"
  by (auto simp: dominates_iff)

lemma dominates_empty [simp]: "vv_ok v \<Longrightarrow> dominates v vv_empty"
  by (simp add: dominates_iff)

lemma merge_absorb: "vv_ok v \<Longrightarrow> vv_ok w \<Longrightarrow> dominates v w \<Longrightarrow> vv_merge v w = v"
  by (auto simp: dominates_iff max_def intro!: vv_ext order_antisym)

lemma merge_empty [simp]: "vv_ok v \<Longrightarrow> vv_merge vv_empty v = v" "vv_ok v \<Longrightarrow> vv_merge v vv_empty = v"
  by (auto intro!: vv_ext simp: max_def order_antisym)

lemma update_fresh: "k \<notin> fst ` set d \<Longrightarrow> AList.update k v d = d @ [(k, v)]"
  by (induction d) auto

lemma missing_loop_filter:
  "distinct (map fst (m @ map (\<lambda>(a, c). (a, 0, c)) items)) \<Longrightarrow> missing_loop v items m =
     m @ map (\<lambda>(a, c). (a, vv_get v a + 1, c)) (filter (\<lambda>(a, c). vv_get v a < c) items)"
  by (induction v items m rule: missing_loop.induct) (auto simp: update_fresh)

lemma missing_from_filter:
  "vv_ok required \<Longrightarrow> missing_from v required =
     map (\<lambda>(a, c). (a, vv_get v a + 1, c)) (filter (\<lambda>(a, c). vv_get v a < c) (vv_items required))"
  by (simp add: missing_from_def missing_loop_filter vv_ok_def cok_def canon_distinct
      comp_def case_prod_unfold)

lemma vv_get_item: "vv_ok v \<Longrightarrow> (a, c) \<in> set (vv_items v) \<Longrightarrow> vv_get v a = c"
  using canon_distinct [of "vv_items v"]
  by (force simp: vv_get_def vv_ok_def cok_def cget_map_of)

lemma vv_item_get: "vv_get v a \<noteq> 0 \<Longrightarrow> (a, vv_get v a) \<in> set (vv_items v)"
  by (auto simp: vv_get_def cget_map_of dest: map_of_SomeD split: option.splits)

section \<open>Session tokens\<close>

datatype CausalToken = CausalToken (tok_version: VersionVector)

definition token_empty :: CausalToken where
  "token_empty = CausalToken vv_empty"

definition token_merge :: "CausalToken \<Rightarrow> CausalToken \<Rightarrow> CausalToken" where
  "token_merge t u = CausalToken (vv_merge (tok_version t) (tok_version u))"

section \<open>The causal clock\<close>

text \<open>
  The asyncio lock makes each method of the clock one step; a staged section runs its
  body, given here as a function of the staged value, while the lock is held. The body
  returns its result, whether it called \<^verbatim>\<open>commit\<close>, and the state it changed. When the
  body raises, the exception leaves the generator at its \<^verbatim>\<open>yield\<close> and the frontier stays.
\<close>

record CausalClock =
  clk_actor :: CausalActor
  clk_frontier :: VersionVector

definition CausalClock_init :: "CausalActor \<Rightarrow> CausalClock" where
  "CausalClock_init actor = \<lparr>clk_actor = actor, clk_frontier = vv_empty\<rparr>"

definition staged_observe ::
  "CausalClock \<Rightarrow> VersionVector \<Rightarrow> (VersionVector \<Rightarrow> 'a result \<times> bool \<times> 's) \<Rightarrow>
     'a result \<times> 's \<times> CausalClock" where
  "staged_observe clk version body =
     (let frontier = vv_merge (clk_frontier clk) version;
          (r, committed, s) = body frontier
      in (r, s, if isl r \<or> \<not> committed then clk else clk\<lparr>clk_frontier := frontier\<rparr>))"

definition observe :: "CausalClock \<Rightarrow> VersionVector \<Rightarrow> VersionVector result \<times> CausalClock" where
  "observe clk version =
     (let (r, _, clk') = staged_observe clk version (\<lambda>frontier. (Inr frontier, True, ()))
      in (r, clk'))"

definition clock_restore :: "CausalClock \<Rightarrow> VersionVector \<Rightarrow> VersionVector \<times> CausalClock" where
  "clock_restore clk version = (version, clk\<lparr>clk_frontier := version\<rparr>)"

definition staged_allocation ::
  "CausalClock \<Rightarrow> VersionVector option \<Rightarrow> (Dot \<Rightarrow> VersionVector \<Rightarrow> 'a result \<times> bool \<times> 's) \<Rightarrow>
     'a result \<times> 's \<times> CausalClock" where
  "staged_allocation clk observed body =
     (let base = (case observed of None \<Rightarrow> clk_frontier clk
                  | Some v \<Rightarrow> vv_merge (clk_frontier clk) v);
          dot = Dot (clk_actor clk) (vv_get base (clk_actor clk) + 1);
          frontier = with_dot base dot;
          (r, committed, s) = body dot frontier
      in (r, s, if isl r \<or> \<not> committed then clk else clk\<lparr>clk_frontier := frontier\<rparr>))"

definition allocate :: "CausalClock \<Rightarrow> VersionVector option \<Rightarrow> (Dot \<times> VersionVector) result \<times> CausalClock" where
  "allocate clk observed =
     (let (r, _, clk') = staged_allocation clk observed (\<lambda>dot frontier. (Inr (dot, frontier), True, ()))
      in (r, clk'))"

definition clock_ok :: "CausalClock \<Rightarrow> bool" where
  "clock_ok clk = vv_ok (clk_frontier clk)"

text \<open>The value staged by an allocation, by itself.\<close>

definition alloc_base :: "CausalClock \<Rightarrow> VersionVector option \<Rightarrow> VersionVector" where
  "alloc_base clk observed =
     (case observed of None \<Rightarrow> clk_frontier clk | Some v \<Rightarrow> vv_merge (clk_frontier clk) v)"

definition alloc_dot :: "CausalClock \<Rightarrow> VersionVector option \<Rightarrow> Dot" where
  "alloc_dot clk observed =
     Dot (clk_actor clk) (vv_get (alloc_base clk observed) (clk_actor clk) + 1)"

lemma staged_allocation_alt:
  "staged_allocation clk observed body =
     (let (r, committed, s) = body (alloc_dot clk observed)
            (with_dot (alloc_base clk observed) (alloc_dot clk observed))
      in (r, s, if isl r \<or> \<not> committed then clk
           else clk\<lparr>clk_frontier := with_dot (alloc_base clk observed) (alloc_dot clk observed)\<rparr>))"
  by (simp only: staged_allocation_def alloc_dot_def alloc_base_def Let_def)

lemma observe_simp [simp]:
  "observe clk v = (Inr (vv_merge (clk_frontier clk) v),
     clk\<lparr>clk_frontier := vv_merge (clk_frontier clk) v\<rparr>)"
  by (simp add: observe_def staged_observe_def Let_def)

lemma alloc_base_ok [simp]:
  "clock_ok clk \<Longrightarrow> (\<And>v. observed = Some v \<Longrightarrow> vv_ok v) \<Longrightarrow> vv_ok (alloc_base clk observed)"
  by (auto simp: alloc_base_def clock_ok_def split: option.splits)

lemma alloc_dot_counter_pos:
  "vv_ok (alloc_base clk observed) \<Longrightarrow> 1 \<le> dot_counter (alloc_dot clk observed)"
  by (simp add: alloc_dot_def)

lemma alloc_dot_init:
  assumes "vv_ok (alloc_base clk observed)"
  shows "Dot_init (clk_actor clk) (vv_get (alloc_base clk observed) (clk_actor clk) + 1) =
       Inr (alloc_dot clk observed)"
  using vv_get_nonneg [OF assms, of "clk_actor clk"]
  by (simp add: Dot_init_def alloc_dot_def)

subsection \<open>Histories of clock calls\<close>

text \<open>
  A history is a list of \<^verbatim>\<open>observe\<close> calls and staged allocations; an allocation whose body
  raises or does not commit is \<open>Allocate observed False\<close>. \<open>clock_run\<close> returns the
  dots of the committed allocations in order.
\<close>

datatype clock_call = Observe VersionVector | Allocate "VersionVector option" bool

fun call_ok :: "clock_call \<Rightarrow> bool" where
  "call_ok (Observe v) = vv_ok v"
| "call_ok (Allocate None b) = True"
| "call_ok (Allocate (Some v) b) = vv_ok v"

fun clock_run :: "CausalClock \<Rightarrow> clock_call list \<Rightarrow> Dot list \<times> CausalClock" where
  "clock_run clk [] = ([], clk)"
| "clock_run clk (Observe v # calls) = clock_run (snd (observe clk v)) calls"
| "clock_run clk (Allocate observed commit # calls) =
     (let (r, dots, clk') = staged_allocation clk observed
            (\<lambda>dot frontier. (Inr (), commit, if commit then [dot] else []));
          (rest, final) = clock_run clk' calls
      in (dots @ rest, final))"

lemma clock_run_commit:
  assumes "clock_run (clk\<lparr>clk_frontier :=
      with_dot (alloc_base clk observed) (alloc_dot clk observed)\<rparr>) calls = (rest, clk')"
  shows "clock_run clk (Allocate observed True # calls) = (alloc_dot clk observed # rest, clk')"
  using assms by (simp add: staged_allocation_alt)

lemma clock_run_abort: "clock_run clk (Allocate observed False # calls) = clock_run clk calls"
  by (simp add: staged_allocation_alt)

lemma call_ok_base:
  "clock_ok clk \<Longrightarrow> call_ok (Allocate observed b) \<Longrightarrow> vv_ok (alloc_base clk observed)"
  by (cases observed) (auto simp: alloc_base_def clock_ok_def)

lemma dominates_alloc_base: "dominates (alloc_base clk observed) (clk_frontier clk)"
  by (cases observed) (auto simp: alloc_base_def)

text \<open>
  The dots allocated between two states of one clock carry the clock's actor, and their
  counters increase strictly from above the old frontier to the new one.
\<close>

definition dots_between :: "CausalClock \<Rightarrow> Dot list \<Rightarrow> CausalClock \<Rightarrow> bool" where
  "dots_between clk dots clk' \<longleftrightarrow>
     clock_ok clk' \<and> clk_actor clk' = clk_actor clk \<and>
     dominates (clk_frontier clk') (clk_frontier clk) \<and>
     sorted_wrt (<) (map dot_counter dots) \<and>
     (\<forall>d \<in> set dots. dot_actor d = clk_actor clk \<and>
        vv_get (clk_frontier clk) (clk_actor clk) < dot_counter d \<and>
        dot_counter d \<le> vv_get (clk_frontier clk') (clk_actor clk))"

lemma dots_between_weaken:
  assumes "dots_between clk' dots clk''" "clk_actor clk' = clk_actor clk"
    and "dominates (clk_frontier clk') (clk_frontier clk)"
  shows "dots_between clk dots clk''"
proof -
  have "vv_get (clk_frontier clk) (clk_actor clk) \<le> vv_get (clk_frontier clk') (clk_actor clk)"
    using assms(3) by (simp add: dominates_iff)
  then show ?thesis
    using assms dominates_trans [of "clk_frontier clk''" "clk_frontier clk'" "clk_frontier clk"]
    by (auto simp: dots_between_def)
qed

lemma dots_between_commit:
  assumes ok: "vv_ok (alloc_base clk observed)"
    and rest: "dots_between (clk\<lparr>clk_frontier :=
      with_dot (alloc_base clk observed) (alloc_dot clk observed)\<rparr>) rest clk'"
  shows "dots_between clk (alloc_dot clk observed # rest) clk'"
proof -
  let ?b = "alloc_base clk observed"
  let ?d = "alloc_dot clk observed"
  let ?c = "clk\<lparr>clk_frontier := with_dot ?b ?d\<rparr>"
  have at: "dot_actor ?d = clk_actor clk" "dot_counter ?d = vv_get ?b (clk_actor clk) + 1"
    by (simp_all add: alloc_dot_def)
  have base: "dominates ?b (clk_frontier clk)" by (rule dominates_alloc_base)
  have top: "vv_get (with_dot ?b ?d) (clk_actor clk) = dot_counter ?d"
    using ok at by simp
  have "dominates (clk_frontier clk') (with_dot ?b ?d)"
    using rest by (simp add: dots_between_def)
  then have "dot_counter ?d \<le> vv_get (clk_frontier clk') (clk_actor clk)"
    using top by (metis dominates_iff)
  moreover have "dots_between clk rest clk'"
    using dots_between_weaken [OF rest, of clk] dominates_trans [OF dominates_with_dot [OF ok] base]
    by simp
  moreover have "vv_get (clk_frontier clk) (clk_actor clk) < dot_counter ?d"
    using base at by (simp add: dominates_iff)
  moreover have "\<forall>d \<in> set rest. dot_counter ?d < dot_counter d"
    using rest top by (simp add: dots_between_def)
  ultimately show ?thesis using at by (simp add: dots_between_def)
qed

lemma clock_run_invariant:
  "clock_ok clk \<Longrightarrow> list_all call_ok calls \<Longrightarrow> clock_run clk calls = (dots, clk') \<Longrightarrow>
     dots_between clk dots clk'"
proof (induction calls arbitrary: clk dots)
  case Nil
  then show ?case by (auto simp: dots_between_def)
next
  case (Cons call calls)
  show ?case
  proof (cases call)
    case (Observe v)
    let ?c = "clk\<lparr>clk_frontier := vv_merge (clk_frontier clk) v\<rparr>"
    have "clock_ok ?c" "clock_run ?c calls = (dots, clk')"
      using Cons.prems Observe by (auto simp: clock_ok_def)
    then have "dots_between ?c dots clk'" using Cons.IH Cons.prems(2) by simp
    then show ?thesis by (rule dots_between_weaken) auto
  next
    case (Allocate observed commit)
    let ?c = "clk\<lparr>clk_frontier := with_dot (alloc_base clk observed) (alloc_dot clk observed)\<rparr>"
    have ok: "vv_ok (alloc_base clk observed)"
      using Cons.prems Allocate call_ok_base by auto
    show ?thesis
    proof (cases commit)
      case False
      then show ?thesis using Cons Allocate clock_run_abort by simp
    next
      case True
      obtain rest clk1 where run: "clock_run ?c calls = (rest, clk1)" by fastforce
      then have "dots = alloc_dot clk observed # rest" "clk1 = clk'"
        using clock_run_commit [OF run] Cons.prems(3) Allocate True by auto
      moreover have "clock_ok ?c"
        using ok alloc_dot_counter_pos by (simp add: clock_ok_def)
      ultimately show ?thesis
        using Cons.IH run Cons.prems(2) dots_between_commit [OF ok] by simp
    qed
  qed
qed

section \<open>Properties\<close>

text \<open>C29: \<^verbatim>\<open>compare\<close> decides the causal order exactly: EQUAL is equality of the vectors, BEFORE and
  AFTER are the two strict componentwise orders, and CONCURRENT is the case where each side has
  a counter the other has not seen.\<close>

theorem compare_decides_order:
  assumes "vv_ok v" "vv_ok w"
  shows "(vv_compare v w = EQUAL \<longleftrightarrow> v = w) \<and>
    (vv_compare v w = BEFORE \<longleftrightarrow> v \<noteq> w \<and> (\<forall>a. vv_get v a \<le> vv_get w a)) \<and>
    (vv_compare v w = AFTER \<longleftrightarrow> v \<noteq> w \<and> (\<forall>a. vv_get w a \<le> vv_get v a)) \<and>
    (vv_compare v w = CONCURRENT \<longleftrightarrow>
       (\<exists>a. vv_get v a < vv_get w a) \<and> (\<exists>a. vv_get w a < vv_get v a))"
proof -
  have eq: "v = w \<longleftrightarrow> \<not> (\<exists>a. vv_get v a < vv_get w a) \<and> \<not> (\<exists>a. vv_get w a < vv_get v a)"
    using vv_ext [OF assms] by (auto simp: not_less intro: order_antisym)
  have le: "(\<forall>a. vv_get v a \<le> vv_get w a) \<longleftrightarrow> \<not> (\<exists>a. vv_get w a < vv_get v a)"
    "(\<forall>a. vv_get w a \<le> vv_get v a) \<longleftrightarrow> \<not> (\<exists>a. vv_get v a < vv_get w a)"
    by (auto simp: not_less)
  show ?thesis unfolding vv_compare_spec Let_def eq le by auto
qed

theorem compare_decides_order_witness:
  "vv_compare (VersionVector [(CausalActor ''a'' 1, 2), (CausalActor ''b'' 1, 1)])
     (VersionVector [(CausalActor ''a'' 1, 1), (CausalActor ''b'' 1, 3)]) = CONCURRENT"
proof -
  let ?v = "VersionVector [(CausalActor ''a'' 1, 2), (CausalActor ''b'' 1, 1)]"
  let ?w = "VersionVector [(CausalActor ''a'' 1, 1), (CausalActor ''b'' 1, 3)]"
  have "vv_ok ?v" "vv_ok ?w" by code_simp+
  moreover have "vv_get ?v (CausalActor ''b'' 1) < vv_get ?w (CausalActor ''b'' 1)"
    "vv_get ?w (CausalActor ''a'' 1) < vv_get ?v (CausalActor ''a'' 1)" by code_simp+
  ultimately show ?thesis using compare_decides_order [of ?v ?w] by blast
qed

text \<open>\<^verbatim>\<open>missing_from\<close> reports exactly the gaps: an actor is listed with the closed interval from the
  first unseen counter to the required one, for precisely the actors on which the vector is
  behind, so the report is empty exactly when the vector dominates the requirement.\<close>

theorem missing_from_exact:
  assumes "vv_ok v" "vv_ok required"
  shows "((a, lo, hi) \<in> set (missing_from v required) \<longleftrightarrow>
      vv_get v a < vv_get required a \<and> lo = vv_get v a + 1 \<and> hi = vv_get required a) \<and>
    (missing_from v required = [] \<longleftrightarrow> dominates v required)"
proof -
  have mem: "(a, lo, hi) \<in> set (missing_from v required) \<longleftrightarrow>
      vv_get v a < vv_get required a \<and> lo = vv_get v a + 1 \<and> hi = vv_get required a" for a lo hi
    using vv_get_item [OF assms(2), of a hi] vv_item_get [of required a] vv_get_nonneg [OF assms(1), of a]
    by (auto simp: missing_from_filter [OF assms(2)])
  moreover have "missing_from v required = [] \<longleftrightarrow> (\<forall>a lo hi. (a, lo, hi) \<notin> set (missing_from v required))"
    by (metis list.set_intros(1) neq_Nil_conv prod_cases3 empty_iff empty_set)
  ultimately show ?thesis by (simp add: dominates_iff not_less)
qed

theorem missing_from_exact_witness:
  "(CausalActor ''a'' 1, 3, 5) \<in>
     set (missing_from (VersionVector [(CausalActor ''a'' 1, 2)]) (VersionVector [(CausalActor ''a'' 1, 5)]))"
proof -
  let ?v = "VersionVector [(CausalActor ''a'' 1, 2)]"
  let ?r = "VersionVector [(CausalActor ''a'' 1, 5)]"
  have "vv_ok ?v" "vv_ok ?r" by code_simp+
  moreover have "vv_get ?v (CausalActor ''a'' 1) = 2" "vv_get ?r (CausalActor ''a'' 1) = 5"
    by code_simp+
  ultimately show ?thesis using missing_from_exact [of ?v ?r "CausalActor ''a'' 1" 3 5] by simp
qed

text \<open>C30: Over any history of observations and staged allocations, aborted ones included, one clock
  hands out dots of its own actor with strictly increasing counters, all above the frontier it
  started from and covered by the frontier it ends with, and its frontier never goes back.\<close>

theorem clock_dots_unique:
  assumes "clock_ok clk" "list_all call_ok calls" "clock_run clk calls = (dots, clk')"
  shows "distinct dots \<and> sorted_wrt (<) (map dot_counter dots) \<and>
    (\<forall>d \<in> set dots. dot_actor d = clk_actor clk \<and>
        vv_get (clk_frontier clk) (clk_actor clk) < dot_counter d \<and>
        dot_counter d \<le> vv_get (clk_frontier clk') (clk_actor clk)) \<and>
    dominates (clk_frontier clk') (clk_frontier clk) \<and> vv_ok (clk_frontier clk')"
proof -
  have between: "dots_between clk dots clk'" by (rule clock_run_invariant [OF assms])
  then have "distinct (map dot_counter dots)"
    by (simp add: dots_between_def strict_sorted_iff)
  then have "distinct dots" by (simp add: distinct_map)
  then show ?thesis using between by (simp add: dots_between_def clock_ok_def)
qed

theorem clock_dots_unique_witness:
  "distinct (fst (clock_run (CausalClock_init (CausalActor ''n1'' 1))
     [Allocate None True, Allocate None False,
      Observe (VersionVector [(CausalActor ''n1'' 1, 7)]), Allocate None True]))"
proof -
  let ?c = "CausalClock_init (CausalActor ''n1'' 1)"
  let ?h = "[Allocate None True, Allocate None False,
      Observe (VersionVector [(CausalActor ''n1'' 1, 7)]), Allocate None True]"
  have "clock_ok ?c" "list_all call_ok ?h" by code_simp+
  then show ?thesis using clock_dots_unique [of ?c ?h] by (metis prod.collapse)
qed

end
