(* ===== verification/Crdts.thy ===== *)
theory Crdts
  imports Causal Json
begin

text \<open>
  The four CRDT classes of \<^verbatim>\<open>src/src/distsys/crdt\<close>, what their operations do to the
  values they show, and their interpretations of the merge contract.
\<close>

section \<open>The classes\<close>

datatype CrdtType = GCOUNTER | PNCOUNTER | ORSET | MVREGISTER

subsection \<open>GCounter\<close>

datatype GCounter = GCounter (gc_components: "(CausalActor \<times> int) list")

definition GCounter_init :: "(CausalActor, int) dict \<Rightarrow> GCounter result" where
  "GCounter_init components =
     (if list_ex (\<lambda>(actor, value). value < 0) components
      then raise ValueError ''gcounter components must be non-negative''
      else Inr (GCounter (cnorm components)))"

definition gc_empty :: GCounter where
  "gc_empty = GCounter []"

definition gc_component :: "GCounter \<Rightarrow> CausalActor \<Rightarrow> int" where
  "gc_component c actor = cget (gc_components c) actor"

definition gc_increment :: "GCounter \<Rightarrow> CausalActor \<Rightarrow> int \<Rightarrow> GCounter result" where
  "gc_increment c actor amount =
     (if amount < 1 then raise ValueError ''amount must be >= 1''
      else let items = gc_components c
           in GCounter_init (AList.update actor
                ((case map_of items actor of None \<Rightarrow> 0 | Some v \<Rightarrow> v) + amount) items))"

definition gc_value :: "GCounter \<Rightarrow> int" where
  "gc_value c = sum_list (map snd (gc_components c))"

definition gc_merge :: "GCounter \<Rightarrow> GCounter \<Rightarrow> GCounter" where
  "gc_merge c d =
     GCounter (cnorm (map (\<lambda>actor. (actor, max (gc_component c actor) (gc_component d actor)))
       (remdups (map fst (gc_components c) @ map fst (gc_components d)))))"

definition gc_to_dict :: "GCounter \<Rightarrow> json" where
  "gc_to_dict c = JObj (map (\<lambda>(actor, value). (wire_key actor, JInt value)) (gc_components c))"

definition gc_ok :: "GCounter \<Rightarrow> bool" where
  "gc_ok c = cok (gc_components c)"

subsection \<open>PNCounter\<close>

datatype PNCounter = PNCounter (pn_positive: GCounter) (pn_negative: GCounter)

definition pn_empty :: PNCounter where
  "pn_empty = PNCounter gc_empty gc_empty"

definition pn_increment :: "PNCounter \<Rightarrow> CausalActor \<Rightarrow> int \<Rightarrow> PNCounter result" where
  "pn_increment c actor amount =
     rbind (gc_increment (pn_positive c) actor amount) (\<lambda>p. Inr (PNCounter p (pn_negative c)))"

definition pn_decrement :: "PNCounter \<Rightarrow> CausalActor \<Rightarrow> int \<Rightarrow> PNCounter result" where
  "pn_decrement c actor amount =
     rbind (gc_increment (pn_negative c) actor amount) (\<lambda>n. Inr (PNCounter (pn_positive c) n))"

definition pn_value :: "PNCounter \<Rightarrow> int" where
  "pn_value c = gc_value (pn_positive c) - gc_value (pn_negative c)"

definition pn_merge :: "PNCounter \<Rightarrow> PNCounter \<Rightarrow> PNCounter" where
  "pn_merge c d =
     PNCounter (gc_merge (pn_positive c) (pn_positive d)) (gc_merge (pn_negative c) (pn_negative d))"

definition pn_to_dict :: "PNCounter \<Rightarrow> json" where
  "pn_to_dict c =
     JObj [(''positive'', gc_to_dict (pn_positive c)), (''negative'', gc_to_dict (pn_negative c))]"

definition pn_ok :: "PNCounter \<Rightarrow> bool" where
  "pn_ok c = (gc_ok (pn_positive c) \<and> gc_ok (pn_negative c))"

subsection \<open>ORSet\<close>

datatype ORSet = ORSet (or_adds: "(string \<times> Dot set) list") (or_removed: "Dot set")

definition ORSet_init :: "(string, Dot set) dict \<Rightarrow> Dot set \<Rightarrow> ORSet" where
  "ORSet_init adds removed = ORSet (sort_key fst adds) removed"

definition or_empty :: ORSet where
  "or_empty = ORSet [] {}"

text \<open>\<^verbatim>\<open>adds.get(element, frozenset())\<close>\<close>

definition get_dots :: "(string, Dot set) dict \<Rightarrow> string \<Rightarrow> Dot set" where
  "get_dots adds element = (case map_of adds element of None \<Rightarrow> {} | Some dots \<Rightarrow> dots)"

definition or_add :: "ORSet \<Rightarrow> string \<Rightarrow> Dot \<Rightarrow> ORSet" where
  "or_add s element dot =
     ORSet_init (AList.update element (get_dots (or_adds s) element \<union> {dot}) (or_adds s)) (or_removed s)"

definition or_remove :: "ORSet \<Rightarrow> string \<Rightarrow> ORSet" where
  "or_remove s element =
     (let active = get_dots (or_adds s) element - or_removed s
      in ORSet_init (or_adds s) (or_removed s \<union> active))"

definition or_value :: "ORSet \<Rightarrow> string set" where
  "or_value s = set (map fst (filter (\<lambda>(element, dots). dots - or_removed s \<noteq> {}) (or_adds s)))"

definition or_contains :: "ORSet \<Rightarrow> string \<Rightarrow> bool" where
  "or_contains s element = (element \<in> or_value s)"

fun or_merge_adds :: "(string, Dot set) dict \<Rightarrow> (string \<times> Dot set) list \<Rightarrow> (string, Dot set) dict" where
  "or_merge_adds adds [] = adds"
| "or_merge_adds adds ((element, dots) # items) =
     or_merge_adds (AList.update element (get_dots adds element \<union> dots) adds) items"

definition or_merge :: "ORSet \<Rightarrow> ORSet \<Rightarrow> ORSet" where
  "or_merge s t = ORSet_init (or_merge_adds (or_adds s) (or_adds t)) (or_removed s \<union> or_removed t)"

definition dot_to_dict :: "Dot \<Rightarrow> json" where
  "dot_to_dict dot =
     JObj [(''actor'', JStr (wire_key (dot_actor dot))), (''counter'', JInt (dot_counter dot))]"

definition or_to_dict :: "ORSet \<Rightarrow> json" where
  "or_to_dict s =
     JObj [(''adds'', JObj (map (\<lambda>(element, dots).
              (element, JArr (map dot_to_dict (sorted_list_of_set dots)))) (or_adds s))),
           (''removed'', JArr (map dot_to_dict (sorted_list_of_set (or_removed s))))]"

definition or_ok :: "ORSet \<Rightarrow> bool" where
  "or_ok s = (canon (or_adds s) \<and> (\<forall>(element, dots) \<in> set (or_adds s). finite dots) \<and>
     finite (or_removed s))"

subsection \<open>MVRegister\<close>

definition canonical_json :: "json \<Rightarrow> string" where
  "canonical_json value = dumps_sorted value"

datatype MVRegister = MVRegister (mv_entries: "(Dot \<times> string) list") (mv_superseded: "Dot set")

definition MVRegister_init :: "(Dot, string) dict \<Rightarrow> Dot set \<Rightarrow> MVRegister" where
  "MVRegister_init values superseded = MVRegister (sort_key fst values) superseded"

definition mv_empty :: MVRegister where
  "mv_empty = MVRegister [] {}"

definition mv_visible :: "MVRegister \<Rightarrow> (Dot \<times> string) list" where
  "mv_visible r = filter (\<lambda>(dot, encoded). dot \<notin> mv_superseded r) (mv_entries r)"

definition mv_write :: "MVRegister \<Rightarrow> json \<Rightarrow> Dot \<Rightarrow> MVRegister" where
  "mv_write r value dot =
     (let encoded = canonical_json value;
          visible = set (map fst (mv_visible r))
      in MVRegister_init (AList.update dot encoded (mv_entries r)) (mv_superseded r \<union> visible))"

definition mv_values :: "MVRegister \<Rightarrow> json list result" where
  "mv_values r = rmap (\<lambda>(dot, encoded). loads encoded) (mv_visible r)"

fun mv_merge_values :: "(Dot, string) dict \<Rightarrow> (Dot \<times> string) list \<Rightarrow> (Dot, string) dict result" where
  "mv_merge_values values [] = Inr values"
| "mv_merge_values values ((dot, encoded) # items) =
     (case map_of values dot of
        Some existing \<Rightarrow>
          if existing \<noteq> encoded
          then raise ValueError ''same Dot cannot identify different register values''
          else mv_merge_values (AList.update dot encoded values) items
      | None \<Rightarrow> mv_merge_values (AList.update dot encoded values) items)"

definition mv_merge :: "MVRegister \<Rightarrow> MVRegister \<Rightarrow> MVRegister result" where
  "mv_merge r q =
     rbind (mv_merge_values (mv_entries r) (mv_entries q))
       (\<lambda>values. Inr (MVRegister_init values (mv_superseded r \<union> mv_superseded q)))"

definition mv_to_dict :: "MVRegister \<Rightarrow> json result" where
  "mv_to_dict r =
     rbind (rmap (\<lambda>(dot, encoded). rbind (loads encoded) (\<lambda>v.
         Inr (JObj [(''actor'', JStr (wire_key (dot_actor dot))), (''counter'', JInt (dot_counter dot)),
                    (''value'', v)]))) (mv_entries r))
       (\<lambda>values. Inr (JObj [(''values'', JArr values),
          (''superseded'', JArr (map dot_to_dict (sorted_list_of_set (mv_superseded r))))]))"

definition mv_ok :: "MVRegister \<Rightarrow> bool" where
  "mv_ok r = (canon (mv_entries r) \<and> finite (mv_superseded r))"

section \<open>Counters\<close>

lemma gc_ok_empty [simp]: "gc_ok gc_empty"
  by (simp add: gc_ok_def gc_empty_def)

lemma gc_ext: "gc_ok c \<Longrightarrow> gc_ok d \<Longrightarrow> (\<And>a. gc_component c a = gc_component d a) \<Longrightarrow> c = d"
  by (cases c; cases d) (auto simp: gc_ok_def gc_component_def intro: cok_ext)

lemma gc_merge_raw: "gc_merge c d = GCounter (cmerge (gc_components c) (gc_components d))"
  by (simp add: gc_merge_def cmerge_def gc_component_def)

lemma gc_component_merge [simp]:
  "gc_component (gc_merge c d) a = max (gc_component c a) (gc_component d a)"
  by (simp add: gc_merge_raw gc_component_def cget_cmerge)

lemma gc_ok_merge [simp]: "gc_ok c \<Longrightarrow> gc_ok d \<Longrightarrow> gc_ok (gc_merge c d)"
  by (simp add: gc_merge_raw gc_ok_def cok_cmerge)

interpretation gc: total_crdt gc_ok gc_merge
  by unfold_locales (auto intro!: gc_ext simp: max.commute max.assoc)

lemma gc_component_nonneg [simp]: "gc_ok c \<Longrightarrow> 0 \<le> gc_component c a"
  by (simp add: gc_ok_def gc_component_def cget_nonneg)

text \<open>The constructor's check cannot fire on the dictionary \<^verbatim>\<open>increment\<close> builds.\<close>

lemma gc_increment_ok:
  assumes "gc_ok c" "1 \<le> amount"
  shows "gc_increment c actor amount =
    Inr (GCounter (cnorm (AList.update actor (gc_component c actor + amount) (gc_components c))))"
proof -
  have "0 \<le> v" if "(a, v) \<in> set (AList.update actor (gc_component c actor + amount) (gc_components c))" for a v
    using set_update_cases [OF that] assms gc_component_nonneg [OF assms(1), of actor]
    by (auto simp: gc_ok_def cok_def)
  then have "\<not> list_ex (\<lambda>(a, v). v < 0) (AList.update actor (gc_component c actor + amount) (gc_components c))"
    by (force simp: list_ex_iff)
  then show ?thesis using assms
    by (simp add: gc_increment_def GCounter_init_def gc_component_def cget_map_of Let_def)
qed

lemma gc_increment_spec:
  assumes "gc_ok c" "1 \<le> amount" "gc_increment c actor amount = Inr d"
  shows "gc_ok d" "gc_component d a = gc_component c a + (if a = actor then amount else 0)"
proof -
  have d: "d = GCounter (cnorm (AList.update actor (gc_component c actor + amount) (gc_components c)))"
    using assms gc_increment_ok by simp
  have "0 < gc_component c actor + amount"
    using gc_component_nonneg [OF assms(1), of actor] assms(2) by simp
  then show "gc_ok d" using assms(1) d by (simp add: gc_ok_def cok_update)
  show "gc_component d a = gc_component c a + (if a = actor then amount else 0)"
    using assms(1) d by (simp add: gc_component_def gc_ok_def cget_update)
qed

text \<open>The value is the sum of the components over any finite set of actors that covers them.\<close>

lemma sum_list_cget:
  "distinct (map fst xs) \<Longrightarrow> sum_list (map snd xs) = (\<Sum>a \<in> fst ` set xs. cget xs a)"
proof (induction xs)
  case (Cons x xs)
  obtain a c where x: "x = (a, c)" by (cases x)
  have "(\<Sum>b \<in> fst ` set xs. cget (x # xs) b) = (\<Sum>b \<in> fst ` set xs. cget xs b)"
    using Cons.prems x by (intro sum.cong) auto
  then show ?case using Cons x by simp
qed simp

lemma gc_value_sum:
  assumes "gc_ok c" "finite A" "fst ` set (gc_components c) \<subseteq> A"
  shows "gc_value c = (\<Sum>a \<in> A. gc_component c a)"
proof -
  have "gc_value c = (\<Sum>a \<in> fst ` set (gc_components c). gc_component c a)"
    using assms(1) by (simp add: gc_value_def gc_component_def sum_list_cget gc_ok_def cok_def canon_distinct)
  also have "\<dots> = (\<Sum>a \<in> A. gc_component c a)"
    using assms by (intro sum.mono_neutral_left) (auto simp: gc_component_def cget_not_in)
  finally show ?thesis .
qed

lemma gc_support: "gc_ok c \<Longrightarrow> a \<in> fst ` set (gc_components c) \<longleftrightarrow> 0 < gc_component c a"
  by (simp add: gc_ok_def gc_component_def cget_pos_iff)

lemma finite_gc_support [simp]: "finite (fst ` set (gc_components c))"
  by simp

lemma gc_value_increment:
  assumes "gc_ok c" "1 \<le> amount" "gc_increment c actor amount = Inr d"
  shows "gc_value d = gc_value c + amount"
proof -
  let ?A = "insert actor (fst ` set (gc_components c) \<union> fst ` set (gc_components d))"
  note d = gc_increment_spec [OF assms]
  have "gc_value d = (\<Sum>a \<in> ?A. gc_component c a + (if a = actor then amount else 0))"
    using gc_value_sum [OF d(1), of ?A] d(2) by auto
  also have "\<dots> = gc_value c + amount"
    using gc_value_sum [OF assms(1), of ?A] by (simp add: sum.distrib subset_insertI2)
  finally show ?thesis .
qed

text \<open>
  When two replicas move on from a common state and no actor works on both sides, nothing
  that either side counted is lost or counted twice by their merge.
\<close>

definition gc_fork :: "GCounter \<Rightarrow> GCounter \<Rightarrow> GCounter \<Rightarrow> bool" where
  "gc_fork c p q \<longleftrightarrow> (\<forall>a. gc_component c a \<le> gc_component p a \<and> gc_component c a \<le> gc_component q a \<and>
     (gc_component p a = gc_component c a \<or> gc_component q a = gc_component c a))"

lemma gc_value_fork:
  assumes "gc_ok c" "gc_ok p" "gc_ok q" "gc_fork c p q"
  shows "gc_value (gc_merge p q) = gc_value p + gc_value q - gc_value c"
proof -
  let ?s = "\<lambda>c. fst ` set (gc_components c)"
  let ?A = "?s c \<union> ?s p \<union> ?s q \<union> ?s (gc_merge p q)"
  have A: "gc_value x = (\<Sum>a \<in> ?A. gc_component x a)" if "gc_ok x" "?s x \<subseteq> ?A" for x
    using that by (intro gc_value_sum) auto
  have vals: "gc_value (gc_merge p q) = (\<Sum>a \<in> ?A. gc_component (gc_merge p q) a)"
    "gc_value p = (\<Sum>a \<in> ?A. gc_component p a)" "gc_value q = (\<Sum>a \<in> ?A. gc_component q a)"
    "gc_value c = (\<Sum>a \<in> ?A. gc_component c a)"
    by (rule A; use assms in auto)+
  have pt: "gc_component (gc_merge p q) a = gc_component p a + gc_component q a - gc_component c a" for a
  proof -
    have "gc_component c a \<le> gc_component p a" "gc_component c a \<le> gc_component q a"
      "gc_component p a = gc_component c a \<or> gc_component q a = gc_component c a"
      using assms(4) unfolding gc_fork_def by blast+
    then show ?thesis by auto
  qed
  have "sum (gc_component (gc_merge p q)) B =
      sum (gc_component p) B + sum (gc_component q) B - sum (gc_component c) B" for B
  proof -
    have "sum (gc_component (gc_merge p q)) B =
        (\<Sum>a \<in> B. gc_component p a + gc_component q a - gc_component c a)"
      by (rule sum.cong) (simp_all only: pt)
    then show ?thesis by (simp only: sum_subtractf sum.distrib)
  qed
  then show ?thesis unfolding vals .
qed

lemma pn_ok_empty [simp]: "pn_ok pn_empty"
  by (simp add: pn_ok_def pn_empty_def)

lemma pn_ok_merge [simp]: "pn_ok c \<Longrightarrow> pn_ok d \<Longrightarrow> pn_ok (pn_merge c d)"
  by (simp add: pn_ok_def pn_merge_def)

interpretation pn: total_crdt pn_ok pn_merge
  by unfold_locales
    (auto simp: pn_ok_def pn_merge_def gc.join_idem gc.join_assoc intro: gc.join_comm)

section \<open>Observed-remove sets\<close>

lemma or_ok_empty [simp]: "or_ok or_empty"
  by (simp add: or_ok_def or_empty_def)

lemma get_dots_update [simp]:
  "get_dots (AList.update e ds adds) e' = (if e' = e then ds else get_dots adds e')"
  by (simp add: get_dots_def)

lemma get_dots_sort [simp]: "dict_ok adds \<Longrightarrow> get_dots (sort_key fst adds) e = get_dots adds e"
  by (simp add: get_dots_def map_of_sort_key)

lemma finite_get_dots: "or_ok s \<Longrightarrow> finite (get_dots (or_adds s) e)"
  by (force simp: get_dots_def or_ok_def split: option.splits dest: map_of_SomeD)

lemma or_value_iff:
  assumes "or_ok s"
  shows "e \<in> or_value s \<longleftrightarrow> get_dots (or_adds s) e - or_removed s \<noteq> {}"
proof -
  have "distinct (map fst (or_adds s))" using assms by (simp add: or_ok_def canon_distinct)
  then have "(e, ds) \<in> set (or_adds s) \<longleftrightarrow> map_of (or_adds s) e = Some ds" for ds
    by simp
  then show ?thesis
    by (force simp: or_value_def get_dots_def image_iff split: option.splits)
qed

lemma or_ok_init:
  "dict_ok adds \<Longrightarrow> (\<And>e ds. (e, ds) \<in> set adds \<Longrightarrow> finite ds) \<Longrightarrow> finite removed \<Longrightarrow>
     or_ok (ORSet_init adds removed)"
  by (auto simp: or_ok_def ORSet_init_def canon_sort_key)

lemma or_adds_dict [simp]: "or_ok s \<Longrightarrow> dict_ok (or_adds s)"
  by (simp add: or_ok_def canon_dict_ok)

lemma or_ok_add [simp]: "or_ok s \<Longrightarrow> or_ok (or_add s e d)"
  unfolding or_add_def
  by (rule or_ok_init) (auto simp: finite_get_dots dest!: set_update_cases, auto simp: or_ok_def)

lemma or_ok_remove [simp]: "or_ok s \<Longrightarrow> or_ok (or_remove s e)"
  unfolding or_remove_def Let_def
  by (rule or_ok_init) (simp, auto simp: finite_get_dots or_ok_def)

lemma or_init_sel [simp]:
  "or_removed (ORSet_init adds removed) = removed"
  "dict_ok adds \<Longrightarrow> get_dots (or_adds (ORSet_init adds removed)) e = get_dots adds e"
  by (simp_all add: ORSet_init_def)

lemma or_add_dots [simp]:
  "or_ok s \<Longrightarrow> get_dots (or_adds (or_add s e d)) e' =
     get_dots (or_adds s) e' \<union> (if e' = e then {d} else {})"
  "or_removed (or_add s e d) = or_removed s"
  by (simp_all add: or_add_def)

lemma or_remove_dots [simp]:
  "or_ok s \<Longrightarrow> get_dots (or_adds (or_remove s e)) e' = get_dots (or_adds s) e'"
  "or_removed (or_remove s e) = or_removed s \<union> get_dots (or_adds s) e"
  by (auto simp: or_remove_def Let_def)

lemma or_merge_adds_dict: "dict_ok adds \<Longrightarrow> dict_ok (or_merge_adds adds items)"
  by (induction adds items rule: or_merge_adds.induct) auto

lemma or_merge_adds_finite:
  "(\<And>e ds. (e, ds) \<in> set adds \<Longrightarrow> finite ds) \<Longrightarrow> (\<And>e. finite (get_dots adds e)) \<Longrightarrow>
     (\<And>e ds. (e, ds) \<in> set items \<Longrightarrow> finite ds) \<Longrightarrow>
     (e, ds) \<in> set (or_merge_adds adds items) \<Longrightarrow> finite ds"
proof (induction adds items rule: or_merge_adds.induct)
  case (2 adds element dots items)
  show ?case
  proof (rule "2.IH")
    show "finite ds'" if "(e', ds') \<in> set (AList.update element (get_dots adds element \<union> dots) adds)" for e' ds'
      using set_update_cases [OF that] 2(2,3) 2(4) [of element dots] by auto
    show "finite (get_dots (AList.update element (get_dots adds element \<union> dots) adds) e')" for e'
      using 2(3) 2(4) [of element dots] by auto
    show "finite ds'" if "(e', ds') \<in> set items" for e' ds' using that 2(4) by auto
    show "(e, ds) \<in> set (or_merge_adds (AList.update element (get_dots adds element \<union> dots) adds) items)"
      using 2(5) by simp
  qed
qed auto

lemma or_merge_adds_map_of:
  "distinct (map fst items) \<Longrightarrow> map_of (or_merge_adds adds items) e =
     (case map_of items e of
        None \<Rightarrow> map_of adds e
      | Some ds \<Rightarrow> Some (get_dots adds e \<union> ds))"
proof (induction adds items rule: or_merge_adds.induct)
  case (2 adds element dots items)
  then have new: "map_of items element = None" by (simp add: map_of_eq_None_iff)
  show ?case
  proof (cases "e = element")
    case True
    then show ?thesis using 2 new by simp
  next
    case False
    then show ?thesis using 2 by (cases "map_of items e") simp_all
  qed
qed simp

lemma or_ok_merge [simp]: "or_ok s \<Longrightarrow> or_ok t \<Longrightarrow> or_ok (or_merge s t)"
  unfolding or_merge_def
  by (rule or_ok_init)
    (auto simp: or_merge_adds_dict finite_get_dots or_ok_def canon_dict_ok
       intro: or_merge_adds_finite [of "or_adds s" "or_adds t"])

lemma or_merge_map_of:
  assumes "or_ok s" "or_ok t"
  shows "map_of (or_adds (or_merge s t)) e =
    (case (map_of (or_adds s) e, map_of (or_adds t) e) of
       (None, None) \<Rightarrow> None
     | (None, Some y) \<Rightarrow> Some y
     | (Some x, None) \<Rightarrow> Some x
     | (Some x, Some y) \<Rightarrow> Some (x \<union> y))"
proof -
  have "distinct (map fst (or_adds t))" using assms by (simp add: or_ok_def canon_distinct)
  then show ?thesis using assms
    by (auto simp: or_merge_def ORSet_init_def map_of_sort_key or_merge_adds_dict
        or_merge_adds_map_of get_dots_def split: option.splits)
qed

lemma or_merge_dots [simp]:
  "or_ok s \<Longrightarrow> or_ok t \<Longrightarrow>
     get_dots (or_adds (or_merge s t)) e = get_dots (or_adds s) e \<union> get_dots (or_adds t) e"
  "or_removed (or_merge s t) = or_removed s \<union> or_removed t"
  by (auto simp: get_dots_def or_merge_map_of split: option.splits) (simp_all add: or_merge_def)

lemma or_ext:
  assumes "or_ok s" "or_ok t" "\<And>e. map_of (or_adds s) e = map_of (or_adds t) e"
    and "or_removed s = or_removed t"
  shows "s = t"
  using canon_ext [of "or_adds s" "or_adds t"] assms
  by (auto simp: or_ok_def intro: ORSet.expand)

interpretation ors: total_crdt or_ok or_merge
  by unfold_locales
    (auto intro!: or_ext simp: or_merge_map_of split: option.splits)

section \<open>Multi-value registers\<close>

lemma canon_set_ext:
  assumes "canon xs" "canon ys" "set xs = set ys"
  shows "xs = ys"
  using assms canon_ext map_of_inject_set [of xs ys] canon_distinct by blast

lemma canon_filter: "canon xs \<Longrightarrow> canon (filter P xs)"
  by (auto simp: canon_def sorted_wrt_map intro: sorted_wrt_filter)

lemma mv_ok_empty [simp]: "mv_ok mv_empty"
  by (simp add: mv_ok_def mv_empty_def)

lemma mv_ok_init: "dict_ok values \<Longrightarrow> finite superseded \<Longrightarrow> mv_ok (MVRegister_init values superseded)"
  by (simp add: mv_ok_def MVRegister_init_def canon_sort_key)

lemma mv_init_sel [simp]:
  "mv_superseded (MVRegister_init values superseded) = superseded"
  "set (mv_entries (MVRegister_init values superseded)) = set values"
  "dict_ok values \<Longrightarrow> map_of (mv_entries (MVRegister_init values superseded)) = map_of values"
  by (simp_all add: MVRegister_init_def map_of_sort_key)

lemma mv_entries_dict [simp]: "mv_ok r \<Longrightarrow> dict_ok (mv_entries r)"
  by (simp add: mv_ok_def canon_dict_ok)

lemma mv_visible_canon: "mv_ok r \<Longrightarrow> canon (mv_visible r)"
  by (simp add: mv_ok_def mv_visible_def canon_filter)

lemma mv_superseded_finite [simp]: "mv_ok r \<Longrightarrow> finite (mv_superseded r)"
  by (simp add: mv_ok_def)

lemma mv_ok_write [simp]: "mv_ok r \<Longrightarrow> mv_ok (mv_write r v d)"
  by (simp add: mv_write_def Let_def mv_ok_init)

lemma mv_ext:
  assumes "mv_ok r" "mv_ok q" "map_of (mv_entries r) = map_of (mv_entries q)"
    and "mv_superseded r = mv_superseded q"
  shows "r = q"
  using canon_ext [of "mv_entries r" "mv_entries q"] assms
  by (auto simp: mv_ok_def intro: MVRegister.expand)

text \<open>Two registers agree when no dot carries two encodings in them.\<close>

definition mv_agree :: "(Dot \<times> string) list \<Rightarrow> (Dot \<times> string) list \<Rightarrow> bool" where
  "mv_agree xs ys = (\<forall>d x y. map_of xs d = Some x \<longrightarrow> map_of ys d = Some y \<longrightarrow> x = y)"

lemma mv_merge_values_agree:
  "mv_agree vals items \<Longrightarrow> dict_ok vals \<Longrightarrow> distinct (map fst items) \<Longrightarrow>
     \<exists>vs. mv_merge_values vals items = Inr vs \<and> dict_ok vs \<and> map_of vs = map_of vals ++ map_of items"
proof (induction vals items rule: mv_merge_values.induct)
  case (2 vals dot encoded items)
  have new: "map_of items dot = None" using "2.prems" by (simp add: map_of_eq_None_iff)
  have same: "map_of vals dot = None \<or> map_of vals dot = Some encoded"
    using "2.prems"(1) by (cases "map_of vals dot") (auto simp: mv_agree_def)
  have "mv_agree (AList.update dot encoded vals) items"
    using "2.prems"(1) new unfolding mv_agree_def by (auto split: if_splits)
  then obtain vs where vs: "mv_merge_values (AList.update dot encoded vals) items = Inr vs" "dict_ok vs"
      "map_of vs = map_of (AList.update dot encoded vals) ++ map_of items"
    using 2 same by fastforce
  have "mv_merge_values vals ((dot, encoded) # items) = Inr vs" using same vs(1) by auto
  moreover have "map_of vs = map_of vals ++ map_of ((dot, encoded) # items)"
    using vs(3) new by (auto simp: map_add_def fun_eq_iff split: option.splits)
  ultimately show ?case using vs(2) by blast
qed simp

lemma mv_merge_values_conflict:
  "\<not> mv_agree vals items \<Longrightarrow> distinct (map fst items) \<Longrightarrow>
     mv_merge_values vals items = raise ValueError ''same Dot cannot identify different register values''"
proof (induction vals items rule: mv_merge_values.induct)
  case (2 vals dot encoded items)
  have new: "map_of items dot = None" using "2.prems" by (simp add: map_of_eq_None_iff)
  show ?case
  proof (cases "\<exists>x. map_of vals dot = Some x \<and> x \<noteq> encoded")
    case False
    then have "\<not> mv_agree (AList.update dot encoded vals) items"
      using "2.prems"(1) new unfolding mv_agree_def by (auto split: if_splits)
    then show ?thesis using 2 False by (cases "map_of vals dot") auto
  qed auto
qed (simp add: mv_agree_def)

lemma mv_merge_spec:
  assumes "mv_ok r" "mv_ok q" "mv_agree (mv_entries r) (mv_entries q)"
  shows "\<exists>m. mv_merge r q = Inr m \<and> mv_ok m \<and>
    map_of (mv_entries m) = map_of (mv_entries r) ++ map_of (mv_entries q) \<and>
    mv_superseded m = mv_superseded r \<union> mv_superseded q"
proof -
  have "distinct (map fst (mv_entries q))" using assms(2) by (simp add: mv_ok_def canon_distinct)
  then obtain vs where vs: "mv_merge_values (mv_entries r) (mv_entries q) = Inr vs" "dict_ok vs"
      "map_of vs = map_of (mv_entries r) ++ map_of (mv_entries q)"
    using mv_merge_values_agree [OF assms(3)] assms(1) by auto
  let ?m = "MVRegister_init vs (mv_superseded r \<union> mv_superseded q)"
  have "mv_merge r q = Inr ?m" using vs(1) by (simp add: mv_merge_def)
  moreover have "mv_ok ?m" using vs(2) assms by (intro mv_ok_init) (auto simp: mv_ok_def)
  ultimately show ?thesis using vs by simp
qed

text \<open>The registers of one history: each dot names the one value written with it.\<close>

definition mv_of :: "(Dot \<Rightarrow> string) \<Rightarrow> MVRegister \<Rightarrow> bool" where
  "mv_of w r = (mv_ok r \<and> (\<forall>(d, s) \<in> set (mv_entries r). w d = s))"

lemma mv_of_map_of: "mv_of w r \<longleftrightarrow> mv_ok r \<and> (\<forall>d s. map_of (mv_entries r) d = Some s \<longrightarrow> w d = s)"
  by (auto simp: mv_of_def mv_ok_def canon_distinct)

lemma mv_of_agree: "mv_of w r \<Longrightarrow> mv_of w q \<Longrightarrow> mv_agree (mv_entries r) (mv_entries q)"
  by (auto simp: mv_of_map_of mv_agree_def)

lemma mv_of_merge:
  assumes "mv_of w r" "mv_of w q"
  shows "\<exists>m. mv_merge r q = Inr m \<and> mv_of w m \<and>
    map_of (mv_entries m) = map_of (mv_entries r) ++ map_of (mv_entries q) \<and>
    mv_superseded m = mv_superseded r \<union> mv_superseded q"
  using mv_merge_spec [of r q] mv_of_agree [OF assms] assms
  by (fastforce simp: mv_of_map_of map_add_Some_iff)

lemma mv_of_map_add_comm:
  "mv_of w r \<Longrightarrow> mv_of w q \<Longrightarrow>
     map_of (mv_entries r) ++ map_of (mv_entries q) = map_of (mv_entries q) ++ map_of (mv_entries r)"
  by (rule ext) (auto simp: mv_of_map_of map_add_def split: option.splits)

interpretation mv: state_crdt "mv_of w" mv_merge for w
proof
  fix a b c
  assume a: "mv_of w a"
  show "mv_merge a a = Inr a"
    using mv_of_merge [OF a a] a by (auto simp: mv_of_def map_add_subsumed1 intro!: mv_ext)
  assume b: "mv_of w b"
  show "\<exists>c. mv_merge a b = Inr c \<and> mv_of w c" using mv_of_merge [OF a b] by blast
  show "mv_merge a b = mv_merge b a"
  proof -
    obtain m n where m: "mv_merge a b = Inr m" "mv_ok m"
        "map_of (mv_entries m) = map_of (mv_entries a) ++ map_of (mv_entries b)"
        "mv_superseded m = mv_superseded a \<union> mv_superseded b"
      and n: "mv_merge b a = Inr n" "mv_ok n"
        "map_of (mv_entries n) = map_of (mv_entries b) ++ map_of (mv_entries a)"
        "mv_superseded n = mv_superseded b \<union> mv_superseded a"
      using mv_of_merge [OF a b] mv_of_merge [OF b a] mv_of_def by blast
    have "m = n"
      by (rule mv_ext) (use m n mv_of_map_add_comm [OF a b] in \<open>simp_all add: Un_commute\<close>)
    then show ?thesis using m n by simp
  qed
  assume c: "mv_of w c"
  obtain m n where m: "mv_merge a b = Inr m" "mv_of w m"
      "map_of (mv_entries m) = map_of (mv_entries a) ++ map_of (mv_entries b)"
      "mv_superseded m = mv_superseded a \<union> mv_superseded b"
    and n: "mv_merge b c = Inr n" "mv_of w n"
      "map_of (mv_entries n) = map_of (mv_entries b) ++ map_of (mv_entries c)"
      "mv_superseded n = mv_superseded b \<union> mv_superseded c"
    using mv_of_merge [OF a b] mv_of_merge [OF b c] by blast
  obtain p q where p: "mv_merge m c = Inr p" "mv_ok p"
      "map_of (mv_entries p) = map_of (mv_entries m) ++ map_of (mv_entries c)"
      "mv_superseded p = mv_superseded m \<union> mv_superseded c"
    and q: "mv_merge a n = Inr q" "mv_ok q"
      "map_of (mv_entries q) = map_of (mv_entries a) ++ map_of (mv_entries n)"
      "mv_superseded q = mv_superseded a \<union> mv_superseded n"
    using mv_of_merge [OF m(2) c] mv_of_merge [OF a n(2)] mv_of_def by blast
  have "p = q" by (rule mv_ext) (use m n p q in \<open>simp_all add: Un_assoc\<close>)
  then show "rbind (mv_merge a b) (\<lambda>x. mv_merge x c) = rbind (mv_merge b c) (mv_merge a)"
    using m n p q by simp
qed

lemma mv_visible_set:
  "mv_ok r \<Longrightarrow> (d, s) \<in> set (mv_visible r) \<longleftrightarrow> map_of (mv_entries r) d = Some s \<and> d \<notin> mv_superseded r"
  by (auto simp: mv_visible_def mv_ok_def canon_distinct)

lemma mv_write_sel:
  assumes "mv_ok r"
  shows "map_of (mv_entries (mv_write r v d)) = (map_of (mv_entries r))(d \<mapsto> canonical_json v)"
    "mv_superseded (mv_write r v d) = mv_superseded r \<union> fst ` set (mv_entries r)"
  using assms by (auto simp: mv_write_def Let_def mv_visible_def image_iff)

lemma mv_values_visible:
  assumes "mv_visible r = map (\<lambda>(d, v). (d, canonical_json v)) dvs" "\<forall>(d, v) \<in> set dvs. json_ok v"
  shows "mv_values r = Inr (map (jsort \<circ> snd) dvs)"
  unfolding mv_values_def assms(1) using assms(2)
  by (induction dvs) (auto simp: canonical_json_def loads_dumps_sorted)

lemma mv_visible_write:
  assumes "mv_ok r" "d \<notin> fst ` set (mv_entries r)" "d \<notin> mv_superseded r"
  shows "mv_visible (mv_write r v d) = [(d, canonical_json v)]"
proof (rule canon_set_ext)
  show "canon (mv_visible (mv_write r v d))" using assms by (simp add: mv_visible_canon)
  show "canon [(d, canonical_json v)]" by (simp add: canon_def)
  show "set (mv_visible (mv_write r v d)) = set [(d, canonical_json v)]"
    using assms by (force simp: mv_visible_set mv_write_sel dest: map_of_SomeD split: if_splits)
qed

lemma mv_visible_fork:
  assumes "mv_ok r" "d1 < d2" "{d1, d2} \<inter> (fst ` set (mv_entries r) \<union> mv_superseded r) = {}"
    and "mv_merge (mv_write r v1 d1) (mv_write r v2 d2) = Inr m"
  shows "mv_visible m = [(d1, canonical_json v1), (d2, canonical_json v2)]"
proof (rule canon_set_ext)
  let ?p = "mv_write r v1 d1" and ?q = "mv_write r v2 d2"
  have new: "map_of (mv_entries r) d1 = None" "map_of (mv_entries r) d2 = None"
    using assms(3) by (auto simp: map_of_eq_None_iff)
  have "mv_agree (mv_entries ?p) (mv_entries ?q)"
    using assms(1,2) new by (auto simp: mv_agree_def mv_write_sel split: if_splits)
  then have m: "mv_ok m" "map_of (mv_entries m) = map_of (mv_entries ?p) ++ map_of (mv_entries ?q)"
      "mv_superseded m = mv_superseded ?p \<union> mv_superseded ?q"
    using mv_merge_spec [of ?p ?q] assms(1,4) by auto
  show "canon (mv_visible m)" by (rule mv_visible_canon [OF m(1)])
  show "canon [(d1, canonical_json v1), (d2, canonical_json v2)]" using assms(2) by (simp add: canon_def)
  show "set (mv_visible m) = set [(d1, canonical_json v1), (d2, canonical_json v2)]" (is "?L = ?R")
  proof (rule set_eqI, rule iffI)
    fix x assume x: "x \<in> ?L"
    obtain d s where ds: "x = (d, s)" by (cases x)
    then have "map_of (mv_entries m) d = Some s" "d \<notin> mv_superseded m"
      using x mv_visible_set [OF m(1)] by auto
    then show "x \<in> ?R" using m(2,3) assms(1) ds
      by (force simp: mv_write_sel map_add_Some_iff dest: map_of_SomeD split: if_splits)
  next
    fix x assume "x \<in> ?R"
    then show "x \<in> ?L" using m assms new
      by (auto simp: mv_visible_set mv_write_sel map_add_Some_iff)
  qed
qed

section \<open>Counter histories\<close>

text \<open>A local update: increment or decrement, the acting replica, the amount.\<close>

type_synonym pn_update = "bool \<times> CausalActor \<times> int"

definition pn_apply :: "PNCounter \<Rightarrow> pn_update \<Rightarrow> PNCounter result" where
  "pn_apply c u = (case u of (up, actor, amount) \<Rightarrow>
     if up then pn_increment c actor amount else pn_decrement c actor amount)"

definition pn_effect :: "pn_update list \<Rightarrow> int" where
  "pn_effect us = sum_list (map (\<lambda>(up, actor, amount). if up then amount else - amount) us)"

definition pn_updates_ok :: "pn_update list \<Rightarrow> bool" where
  "pn_updates_ok us = list_all (\<lambda>(up, actor, amount). 1 \<le> amount) us"

definition actors_of :: "pn_update list \<Rightarrow> CausalActor set" where
  "actors_of us = set (map (\<lambda>(up, actor, amount). actor) us)"

definition gc_grows :: "CausalActor set \<Rightarrow> GCounter \<Rightarrow> GCounter \<Rightarrow> bool" where
  "gc_grows A c d \<longleftrightarrow> (\<forall>a. gc_component c a \<le> gc_component d a \<and>
     (a \<notin> A \<longrightarrow> gc_component d a = gc_component c a))"

lemma gc_grows_refl [simp]: "gc_grows A c c"
  by (simp add: gc_grows_def)

lemma gc_grows_trans: "gc_grows A c d \<Longrightarrow> gc_grows B d e \<Longrightarrow> gc_grows (A \<union> B) c e"
  unfolding gc_grows_def by (metis Un_iff order_trans)

lemma gc_increment_grows:
  "gc_ok c \<Longrightarrow> 1 \<le> amount \<Longrightarrow> gc_increment c actor amount = Inr d \<Longrightarrow> gc_grows {actor} c d"
  by (simp add: gc_grows_def gc_increment_spec)

lemma gc_fork_grows: "gc_grows A c p \<Longrightarrow> gc_grows B c q \<Longrightarrow> A \<inter> B = {} \<Longrightarrow> gc_fork c p q"
  unfolding gc_grows_def gc_fork_def by (metis IntI empty_iff)

lemma pn_apply_step:
  assumes "pn_ok c" "1 \<le> amount"
  shows "\<exists>d. pn_apply c (up, actor, amount) = Inr d \<and> pn_ok d \<and>
    gc_grows {actor} (pn_positive c) (pn_positive d) \<and> gc_grows {actor} (pn_negative c) (pn_negative d) \<and>
    pn_value d = pn_value c + (if up then amount else - amount)"
proof -
  obtain p n where inc: "gc_increment (pn_positive c) actor amount = Inr p"
      "gc_increment (pn_negative c) actor amount = Inr n"
    using gc_increment_ok assms by (simp add: pn_ok_def)
  show ?thesis
  proof (cases up)
    case True
    then show ?thesis using assms inc gc_increment_spec(1) [of "pn_positive c" amount actor p]
        gc_increment_grows [of "pn_positive c" amount actor p] gc_value_increment [of "pn_positive c" amount actor p]
      by (simp add: pn_apply_def pn_increment_def pn_ok_def pn_value_def)
  next
    case False
    then show ?thesis using assms inc gc_increment_spec(1) [of "pn_negative c" amount actor n]
        gc_increment_grows [of "pn_negative c" amount actor n] gc_value_increment [of "pn_negative c" amount actor n]
      by (simp add: pn_apply_def pn_decrement_def pn_ok_def pn_value_def)
  qed
qed

lemma pn_run:
  "pn_ok c \<Longrightarrow> pn_updates_ok us \<Longrightarrow>
     \<exists>d. rfold pn_apply c us = Inr d \<and> pn_ok d \<and>
       gc_grows (actors_of us) (pn_positive c) (pn_positive d) \<and>
       gc_grows (actors_of us) (pn_negative c) (pn_negative d) \<and>
       pn_value d = pn_value c + pn_effect us"
proof (induction us arbitrary: c)
  case Nil
  then show ?case by (simp add: pn_effect_def)
next
  case (Cons u us)
  obtain up actor amount where u: "u = (up, actor, amount)" by (cases u)
  then obtain d where d: "pn_apply c u = Inr d" "pn_ok d"
      "gc_grows {actor} (pn_positive c) (pn_positive d)" "gc_grows {actor} (pn_negative c) (pn_negative d)"
      "pn_value d = pn_value c + (if up then amount else - amount)"
    using pn_apply_step [of c amount up actor] Cons.prems by (auto simp: pn_updates_ok_def)
  obtain e where e: "rfold pn_apply d us = Inr e" "pn_ok e"
      "gc_grows (actors_of us) (pn_positive d) (pn_positive e)"
      "gc_grows (actors_of us) (pn_negative d) (pn_negative e)"
      "pn_value e = pn_value d + pn_effect us"
    using Cons.IH [OF d(2)] Cons.prems by (auto simp: pn_updates_ok_def)
  have "actors_of (u # us) = {actor} \<union> actors_of us" by (simp add: actors_of_def u)
  then show ?case
    using d e gc_grows_trans [OF d(3) e(3)] gc_grows_trans [OF d(4) e(4)]
    by (simp add: pn_effect_def u)
qed

section \<open>Properties\<close>

text \<open>C28: Two replicas that update a PN-counter from a common state, with no actor updating on both,
  merge to a counter that shows every increment and every decrement of both exactly once.\<close>

theorem pncounter_merge_counts_every_update:
  assumes "pn_ok c" "pn_updates_ok us" "pn_updates_ok ws" "actors_of us \<inter> actors_of ws = {}"
  shows "\<exists>p q. rfold pn_apply c us = Inr p \<and> rfold pn_apply c ws = Inr q \<and>
    pn_value (pn_merge p q) = pn_value c + pn_effect us + pn_effect ws"
proof -
  obtain p where p: "rfold pn_apply c us = Inr p" "pn_ok p"
      "gc_grows (actors_of us) (pn_positive c) (pn_positive p)"
      "gc_grows (actors_of us) (pn_negative c) (pn_negative p)"
      "pn_value p = pn_value c + pn_effect us"
    using pn_run [OF assms(1,2)] by blast
  obtain q where q: "rfold pn_apply c ws = Inr q" "pn_ok q"
      "gc_grows (actors_of ws) (pn_positive c) (pn_positive q)"
      "gc_grows (actors_of ws) (pn_negative c) (pn_negative q)"
      "pn_value q = pn_value c + pn_effect ws"
    using pn_run [OF assms(1,3)] by blast
  have "gc_fork (pn_positive c) (pn_positive p) (pn_positive q)"
    "gc_fork (pn_negative c) (pn_negative p) (pn_negative q)"
    using p q assms(4) gc_fork_grows by blast+
  then have "gc_value (gc_merge (pn_positive p) (pn_positive q)) =
      gc_value (pn_positive p) + gc_value (pn_positive q) - gc_value (pn_positive c)"
    "gc_value (gc_merge (pn_negative p) (pn_negative q)) =
      gc_value (pn_negative p) + gc_value (pn_negative q) - gc_value (pn_negative c)"
    using p(2) q(2) assms(1) by (simp_all only: pn_ok_def gc_value_fork)
  then have "pn_value (pn_merge p q) = pn_value p + pn_value q - pn_value c"
    by (simp add: pn_value_def pn_merge_def)
  then show ?thesis using p q by auto
qed

theorem pncounter_merge_counts_every_update_witness:
  "\<exists>p q. rfold pn_apply pn_empty [(True, CausalActor ''a'' 1, 5), (False, CausalActor ''a'' 1, 2)] = Inr p \<and>
     rfold pn_apply pn_empty [(True, CausalActor ''b'' 1, 4)] = Inr q \<and>
     pn_value (pn_merge p q) = 7"
proof -
  let ?us = "[(True, CausalActor ''a'' 1, 5), (False, CausalActor ''a'' 1, 2)]"
  let ?ws = "[(True, CausalActor ''b'' 1, 4)]"
  have "pn_ok pn_empty" "pn_updates_ok ?us" "pn_updates_ok ?ws" by code_simp+
  moreover have "actors_of ?us \<inter> actors_of ?ws = {}" by (simp add: actors_of_def)
  moreover have "pn_value pn_empty + pn_effect ?us + pn_effect ?ws = 7" by code_simp
  ultimately show ?thesis using pncounter_merge_counts_every_update [of pn_empty ?us ?ws] by simp
qed

text \<open>C27: A remove takes away exactly the additions its replica had observed: after merging replica
  \<open>a\<close> with a replica \<open>b\<close> that removed an element, the element is still there if and only if \<open>a\<close>
  holds an addition of it that neither replica had removed and \<open>b\<close> had not seen. In particular
  an addition with a new dot made concurrently wins, and an observed addition does not return.\<close>

theorem orset_remove_observed_add_wins:
  assumes "or_ok a" "or_ok b"
  shows "(or_contains (or_merge a (or_remove b e)) e \<longleftrightarrow>
      (\<exists>d \<in> get_dots (or_adds a) e.
         d \<notin> or_removed a \<and> d \<notin> or_removed b \<and> d \<notin> get_dots (or_adds b) e)) \<and>
    (d \<notin> or_removed b \<union> get_dots (or_adds b) e \<longrightarrow>
      or_contains (or_merge (or_add b e d) (or_remove b e)) e) \<and>
    \<not> or_contains (or_merge (or_add b e d) (or_remove (or_add b e d) e)) e"
  using assms by (auto simp: or_contains_def or_value_iff)

theorem orset_remove_observed_add_wins_witness:
  "or_contains (or_merge (or_add or_empty ''x'' (Dot (CausalActor ''a'' 1) 1)) (or_remove or_empty ''x'')) ''x''"
  using orset_remove_observed_add_wins [of or_empty or_empty "''x''" "Dot (CausalActor ''a'' 1) 1"]
  by (simp add: or_empty_def get_dots_def or_ok_def)

text \<open>A write with a new dot leaves exactly the written value visible; of two writes from the same
  register state, the merge shows both values in the order of their dots; and a write that
  follows another one replaces it. Values come back as the JSON reader returns them.\<close>

theorem mvregister_concurrent_writes_survive:
  assumes "mv_ok r" "json_ok v1" "json_ok v2" "d1 < d2"
    and "{d1, d2} \<inter> (fst ` set (mv_entries r) \<union> mv_superseded r) = {}"
  shows "mv_values (mv_write r v1 d1) = Inr [jsort v1] \<and>
    (\<exists>m. mv_merge (mv_write r v1 d1) (mv_write r v2 d2) = Inr m \<and> mv_values m = Inr [jsort v1, jsort v2]) \<and>
    mv_values (mv_write (mv_write r v1 d1) v2 d2) = Inr [jsort v2]"
proof (intro conjI)
  have new: "map_of (mv_entries r) d1 = None" "map_of (mv_entries r) d2 = None"
    using assms(5) by (auto simp: map_of_eq_None_iff)
  show "mv_values (mv_write r v1 d1) = Inr [jsort v1]"
    using mv_values_visible [of "mv_write r v1 d1" "[(d1, v1)]"] assms by (simp add: mv_visible_write)
  have "mv_agree (mv_entries (mv_write r v1 d1)) (mv_entries (mv_write r v2 d2))"
    using assms(1,4) new by (auto simp: mv_agree_def mv_write_sel split: if_splits)
  then obtain m where "mv_merge (mv_write r v1 d1) (mv_write r v2 d2) = Inr m"
    using mv_merge_spec [of "mv_write r v1 d1" "mv_write r v2 d2"] assms(1) by auto
  moreover from this have "mv_visible m = [(d1, canonical_json v1), (d2, canonical_json v2)]"
    using mv_visible_fork assms by blast
  ultimately show "\<exists>m. mv_merge (mv_write r v1 d1) (mv_write r v2 d2) = Inr m \<and> mv_values m = Inr [jsort v1, jsort v2]"
    using mv_values_visible [of m "[(d1, v1), (d2, v2)]"] assms by auto
  have "d2 \<notin> fst ` set (mv_entries (mv_write r v1 d1))"
    using assms(1,4) new(2) by (simp add: mv_write_sel map_of_eq_None_iff [symmetric])
  moreover have "d2 \<notin> mv_superseded (mv_write r v1 d1)" using assms by (auto simp: mv_write_sel)
  ultimately have "mv_visible (mv_write (mv_write r v1 d1) v2 d2) = [(d2, canonical_json v2)]"
    using assms(1) by (simp add: mv_visible_write)
  then show "mv_values (mv_write (mv_write r v1 d1) v2 d2) = Inr [jsort v2]"
    using mv_values_visible [of _ "[(d2, v2)]"] assms by simp
qed

theorem mvregister_concurrent_writes_survive_witness:
  "\<exists>m. mv_merge (mv_write mv_empty (JInt 1) (Dot (CausalActor ''a'' 1) 1))
      (mv_write mv_empty (JStr ''x'') (Dot (CausalActor ''b'' 1) 1)) = Inr m \<and>
    mv_values m = Inr [JInt 1, JStr ''x'']"
proof -
  let ?d = "Dot (CausalActor ''a'' 1) 1" and ?e = "Dot (CausalActor ''b'' 1) 1"
  have "?d < ?e" by code_simp
  then show ?thesis
    using mvregister_concurrent_writes_survive [of mv_empty "JInt 1" "JStr ''x''" ?d ?e]
    by (simp add: mv_empty_def mv_ok_def)
qed

end
