(* ===== verification/Storage.thy ===== *)
theory Storage
  imports Crdts
begin

text \<open>
  The storage layer of \<^verbatim>\<open>src/src/distsys/storage\<close>: typed entries, their merge, the
  in-memory store, and the causal digests of \<^verbatim>\<open>replication/digest.py\<close>. Each
  lock-protected method of the store is one step on the dictionary of entries; the lock
  objects themselves carry no data.
\<close>

section \<open>Entries\<close>

datatype CrdtState =
    SGCounter GCounter | SPNCounter PNCounter | SORSet ORSet | SMVRegister MVRegister

text \<open>The table \<^verbatim>\<open>_EXPECTED_STATE\<close>, read from the state class to the type, and the two names.\<close>

fun state_type :: "CrdtState \<Rightarrow> CrdtType" where
  "state_type (SGCounter c) = GCOUNTER"
| "state_type (SPNCounter c) = PNCOUNTER"
| "state_type (SORSet s) = ORSET"
| "state_type (SMVRegister r) = MVREGISTER"

fun type_value :: "CrdtType \<Rightarrow> string" where
  "type_value GCOUNTER = ''gcounter''"
| "type_value PNCOUNTER = ''pncounter''"
| "type_value ORSET = ''orset''"
| "type_value MVREGISTER = ''mvregister''"

fun expected_name :: "CrdtType \<Rightarrow> string" where
  "expected_name GCOUNTER = ''GCounter''"
| "expected_name PNCOUNTER = ''PNCounter''"
| "expected_name ORSET = ''ORSet''"
| "expected_name MVREGISTER = ''MVRegister''"

record StoredCrdtEntry =
  se_key :: string
  se_type :: CrdtType
  se_state :: CrdtState
  se_version :: VersionVector
  se_context :: VersionVector

definition StoredCrdtEntry_init ::
  "string \<Rightarrow> CrdtType \<Rightarrow> CrdtState \<Rightarrow> VersionVector \<Rightarrow> VersionVector \<Rightarrow> StoredCrdtEntry result" where
  "StoredCrdtEntry_init key crdt_type state state_version causal_context =
     (if key = [] then raise ValueError ''key must not be empty''
      else if state_type state \<noteq> crdt_type
      then raise TypeError (''state for '' @ type_value crdt_type @ '' must be '' @ expected_name crdt_type)
      else Inr \<lparr>se_key = key, se_type = crdt_type, se_state = state,
                se_version = state_version, se_context = causal_context\<rparr>)"

definition with_context :: "StoredCrdtEntry \<Rightarrow> VersionVector \<Rightarrow> StoredCrdtEntry result" where
  "with_context e causal_context =
     StoredCrdtEntry_init (se_key e) (se_type e) (se_state e) (se_version e) causal_context"

fun merge_state :: "CrdtState \<Rightarrow> CrdtState \<Rightarrow> CrdtState result" where
  "merge_state (SGCounter c) (SGCounter d) = Inr (SGCounter (gc_merge c d))"
| "merge_state (SPNCounter c) (SPNCounter d) = Inr (SPNCounter (pn_merge c d))"
| "merge_state (SORSet s) (SORSet t) = Inr (SORSet (or_merge s t))"
| "merge_state (SMVRegister r) (SMVRegister q) = rbind (mv_merge r q) (\<lambda>m. Inr (SMVRegister m))"
| "merge_state s t = raise TypeError ''cannot merge different CRDT state types''"

definition merge_entries :: "StoredCrdtEntry \<Rightarrow> StoredCrdtEntry \<Rightarrow> StoredCrdtEntry result" where
  "merge_entries left right =
     (if se_key left \<noteq> se_key right then raise ValueError ''cannot merge entries with different keys''
      else if se_type left \<noteq> se_type right
      then raise TypeError ''cannot merge different CRDT types for one key''
      else rbind (merge_state (se_state left) (se_state right)) (\<lambda>state.
        StoredCrdtEntry_init (se_key left) (se_type left) state
          (vv_merge (se_version left) (se_version right))
          (vv_merge (se_context left) (se_context right))))"

section \<open>The store\<close>

record CrdtStore =
  store_entries :: "(string, StoredCrdtEntry) dict"

definition CrdtStore_init :: CrdtStore where
  "CrdtStore_init = \<lparr>store_entries = []\<rparr>"

definition store_get :: "CrdtStore \<Rightarrow> string \<Rightarrow> StoredCrdtEntry option" where
  "store_get s key = map_of (store_entries s) key"

definition put_if_absent :: "CrdtStore \<Rightarrow> StoredCrdtEntry \<Rightarrow> StoredCrdtEntry result \<times> CrdtStore" where
  "put_if_absent s entry =
     (case map_of (store_entries s) (se_key entry) of
        None \<Rightarrow> (Inr entry, s\<lparr>store_entries := AList.update (se_key entry) entry (store_entries s)\<rparr>)
      | Some existing \<Rightarrow>
          if se_type existing \<noteq> se_type entry
          then (raise TypeError ''cannot change CRDT type for existing key'', s)
          else (Inr existing, s))"

definition store_replace ::
  "CrdtStore \<Rightarrow> StoredCrdtEntry \<Rightarrow> CrdtType option \<Rightarrow> StoredCrdtEntry result \<times> CrdtStore" where
  "store_replace s entry expected_type =
     (let existing = map_of (store_entries s) (se_key entry)
      in if (\<exists>t \<in> set_option expected_type. \<exists>e \<in> set_option existing. se_type e \<noteq> t)
         then (raise TypeError ''existing CRDT type does not match expected type'', s)
         else if (\<exists>e \<in> set_option existing. se_type e \<noteq> se_type entry)
         then (raise TypeError ''cannot change CRDT type for existing key'', s)
         else (Inr entry, s\<lparr>store_entries := AList.update (se_key entry) entry (store_entries s)\<rparr>))"

definition store_merge_entry :: "CrdtStore \<Rightarrow> StoredCrdtEntry \<Rightarrow> StoredCrdtEntry result \<times> CrdtStore" where
  "store_merge_entry s incoming =
     (case store_get s (se_key incoming) of
        None \<Rightarrow> store_replace s incoming None
      | Some existing \<Rightarrow>
          (case merge_entries existing incoming of
             Inl e \<Rightarrow> (Inl e, s)
           | Inr merged \<Rightarrow> store_replace s merged (Some (se_type existing))))"

definition store_merge_metadata ::
  "CrdtStore \<Rightarrow> string \<Rightarrow> VersionVector \<Rightarrow> StoredCrdtEntry option result \<times> CrdtStore" where
  "store_merge_metadata s key causal_context =
     (case store_get s key of
        None \<Rightarrow> (Inr None, s)
      | Some existing \<Rightarrow>
          (case with_context existing (vv_merge (se_context existing) causal_context) of
             Inl e \<Rightarrow> (Inl e, s)
           | Inr updated \<Rightarrow>
               (let (r, s') = store_replace s updated (Some (se_type existing))
                in (rbind r (\<lambda>e. Inr (Some e)), s'))))"

definition store_keys :: "CrdtStore \<Rightarrow> string list" where
  "store_keys s = sort (map fst (store_entries s))"

definition snapshot_all :: "CrdtStore \<Rightarrow> int option \<Rightarrow> StoredCrdtEntry list result" where
  "snapshot_all s limit =
     (let entries = map snd (sort_key fst (store_entries s))
      in case limit of
           None \<Rightarrow> Inr entries
         | Some n \<Rightarrow> if n < 0 then raise ValueError ''limit must be non-negative''
                     else Inr (take (nat n) entries))"

section \<open>Digests\<close>

record CrdtDigestEntry =
  dg_key :: string
  dg_type :: CrdtType
  dg_version :: VersionVector
  dg_context :: VersionVector

definition digest_from_entry :: "StoredCrdtEntry \<Rightarrow> CrdtDigestEntry" where
  "digest_from_entry entry =
     \<lparr>dg_key = se_key entry, dg_type = se_type entry, dg_version = se_version entry,
      dg_context = se_context entry\<rparr>"

datatype DigestRelation =
    DIGEST_EQUAL | LOCAL_AHEAD | REMOTE_AHEAD | DIGEST_CONCURRENT | METADATA_ONLY

definition compare_digest :: "CrdtDigestEntry \<Rightarrow> CrdtDigestEntry \<Rightarrow> DigestRelation result" where
  "compare_digest local remote =
     (if dg_key local \<noteq> dg_key remote then raise ValueError ''digest keys must match''
      else if dg_type local \<noteq> dg_type remote then raise ValueError ''digest CRDT types must match''
      else (case vv_compare (dg_version local) (dg_version remote) of
              EQUAL \<Rightarrow> if dg_context local = dg_context remote then Inr DIGEST_EQUAL else Inr METADATA_ONLY
            | AFTER \<Rightarrow> Inr LOCAL_AHEAD
            | BEFORE \<Rightarrow> Inr REMOTE_AHEAD
            | CONCURRENT \<Rightarrow> Inr DIGEST_CONCURRENT))"

section \<open>Well-formed entries and stores\<close>

fun state_ok :: "CrdtState \<Rightarrow> bool" where
  "state_ok (SGCounter c) = gc_ok c"
| "state_ok (SPNCounter c) = pn_ok c"
| "state_ok (SORSet s) = or_ok s"
| "state_ok (SMVRegister r) = mv_ok r"

definition entry_ok :: "StoredCrdtEntry \<Rightarrow> bool" where
  "entry_ok e \<longleftrightarrow> se_key e \<noteq> [] \<and> state_type (se_state e) = se_type e \<and> state_ok (se_state e) \<and>
     vv_ok (se_version e) \<and> vv_ok (se_context e)"

text \<open>
  \<open>state_of w\<close>: the states of a history in which the register write with dot \<open>d\<close> wrote
  the text \<open>w d\<close>. The causal clock never gives out a dot twice, so every history has such
  a \<open>w\<close>.
\<close>

fun state_of :: "(Dot \<Rightarrow> string) \<Rightarrow> CrdtState \<Rightarrow> bool" where
  "state_of w (SMVRegister r) = mv_of w r"
| "state_of w s = state_ok s"

definition entry_of :: "(Dot \<Rightarrow> string) \<Rightarrow> string \<Rightarrow> CrdtType \<Rightarrow> StoredCrdtEntry \<Rightarrow> bool" where
  "entry_of w k t e \<longleftrightarrow> se_key e = k \<and> se_type e = t \<and> entry_ok e \<and> state_of w (se_state e)"

definition store_ok :: "CrdtStore \<Rightarrow> bool" where
  "store_ok s \<longleftrightarrow> dict_ok (store_entries s) \<and> (\<forall>(k, e) \<in> set (store_entries s). se_key e = k \<and> entry_ok e)"

lemma state_of_ok: "state_of w s \<Longrightarrow> state_ok s"
  by (cases s) (auto simp: mv_of_def)

lemma StoredCrdtEntry_init_ok:
  "k \<noteq> [] \<Longrightarrow> state_type s = t \<Longrightarrow> StoredCrdtEntry_init k t s v c =
     Inr \<lparr>se_key = k, se_type = t, se_state = s, se_version = v, se_context = c\<rparr>"
  by (simp add: StoredCrdtEntry_init_def)

lemma merge_state_mv:
  "rbind (merge_state (SMVRegister r) (SMVRegister q)) (\<lambda>x. merge_state x (SMVRegister p)) =
     rbind (rbind (mv_merge r q) (\<lambda>x. mv_merge x p)) (\<lambda>m. Inr (SMVRegister m))"
  "rbind (merge_state (SMVRegister q) (SMVRegister p)) (merge_state (SMVRegister r)) =
     rbind (rbind (mv_merge q p) (mv_merge r)) (\<lambda>m. Inr (SMVRegister m))"
  by (cases "mv_merge r q"; simp) (cases "mv_merge q p"; simp)

interpretation st: state_crdt "\<lambda>s. state_of w s \<and> state_type s = t" merge_state for w t
proof
  fix a b c
  assume a: "state_of w a \<and> state_type a = t"
  show "merge_state a a = Inr a"
    using a by (cases a) (auto simp: gc.join_idem pn.join_idem ors.join_idem mv.merge_idem)
  assume b: "state_of w b \<and> state_type b = t"
  show "\<exists>c. merge_state a b = Inr c \<and> state_of w c \<and> state_type c = t"
    using a b mv.merge_total [of w] by (cases a; cases b) fastforce+
  show "merge_state a b = merge_state b a"
    using a b by (cases a; cases b) (auto simp: gc.join_comm pn.join_comm ors.join_comm mv.merge_comm)
  assume c: "state_of w c \<and> state_type c = t"
  show "rbind (merge_state a b) (\<lambda>x. merge_state x c) = rbind (merge_state b c) (merge_state a)"
  proof (cases "t = MVREGISTER")
    case True
    then obtain r q p where "a = SMVRegister r" "b = SMVRegister q" "c = SMVRegister p"
      using a b c by (cases a; cases b; cases c) auto
    then show ?thesis using a b c by (simp only: merge_state_mv mv.merge_assoc [of w] state_of.simps)
  next
    case False
    then show ?thesis using a b c
      by (cases a; cases b; cases c) (auto simp: gc.join_assoc pn.join_assoc ors.join_assoc)
  qed
qed

lemma merge_entries_of:
  assumes "entry_of w k t a" "entry_of w k t b"
  shows "\<exists>s. merge_state (se_state a) (se_state b) = Inr s \<and> state_of w s \<and> state_type s = t \<and>
    merge_entries a b = Inr \<lparr>se_key = k, se_type = t, se_state = s,
      se_version = vv_merge (se_version a) (se_version b),
      se_context = vv_merge (se_context a) (se_context b)\<rparr>"
proof -
  obtain s where "merge_state (se_state a) (se_state b) = Inr s" "state_of w s \<and> state_type s = t"
    using st.merge_total [of w "se_state a" t "se_state b"] assms by (auto simp: entry_of_def entry_ok_def)
  then show ?thesis using assms
    by (auto simp: merge_entries_def entry_of_def entry_ok_def StoredCrdtEntry_init_ok)
qed

lemma merge_entries_fields:
  assumes "entry_of w k t a" "entry_of w k t b"
  obtains m where "merge_entries a b = Inr m" "entry_of w k t m"
    "merge_state (se_state a) (se_state b) = Inr (se_state m)"
    "se_version m = vv_merge (se_version a) (se_version b)"
    "se_context m = vv_merge (se_context a) (se_context b)"
  using merge_entries_of [OF assms] assms state_of_ok
  by (fastforce simp: entry_of_def entry_ok_def)

lemma entry_of_ext:
  "entry_of w k t a \<Longrightarrow> entry_of w k t b \<Longrightarrow> se_state a = se_state b \<Longrightarrow>
     se_version a = se_version b \<Longrightarrow> se_context a = se_context b \<Longrightarrow> a = b"
  by (auto simp: entry_of_def intro: StoredCrdtEntry.equality)

interpretation en: state_crdt "entry_of w k t" merge_entries for w k t
proof
  fix a b c
  assume a: "entry_of w k t a"
  then have a': "state_of w (se_state a) \<and> state_type (se_state a) = t" "vv_ok (se_version a)" "vv_ok (se_context a)"
    by (auto simp: entry_of_def entry_ok_def)
  obtain aa where aa: "merge_entries a a = Inr aa" "entry_of w k t aa"
    "merge_state (se_state a) (se_state a) = Inr (se_state aa)"
    "se_version aa = vv_merge (se_version a) (se_version a)"
    "se_context aa = vv_merge (se_context a) (se_context a)" by (rule merge_entries_fields [OF a a])
  show "merge_entries a a = Inr a"
    using entry_of_ext [OF aa(2) a] aa a' st.merge_idem [of w "se_state a" t] by (simp add: vv.join_idem)
  assume b: "entry_of w k t b"
  then have b': "state_of w (se_state b) \<and> state_type (se_state b) = t" "vv_ok (se_version b)" "vv_ok (se_context b)"
    by (auto simp: entry_of_def entry_ok_def)
  obtain m where m: "merge_entries a b = Inr m" "entry_of w k t m"
    "merge_state (se_state a) (se_state b) = Inr (se_state m)"
    "se_version m = vv_merge (se_version a) (se_version b)"
    "se_context m = vv_merge (se_context a) (se_context b)" by (rule merge_entries_fields [OF a b])
  obtain m' where m': "merge_entries b a = Inr m'" "entry_of w k t m'"
    "merge_state (se_state b) (se_state a) = Inr (se_state m')"
    "se_version m' = vv_merge (se_version b) (se_version a)"
    "se_context m' = vv_merge (se_context b) (se_context a)" by (rule merge_entries_fields [OF b a])
  show "\<exists>c. merge_entries a b = Inr c \<and> entry_of w k t c" using m by blast
  show "merge_entries a b = merge_entries b a"
    using entry_of_ext [OF m(2) m'(2)] m m' a' b' st.merge_comm [of w "se_state a" t "se_state b"]
    by (simp add: vv.join_comm)
  assume c: "entry_of w k t c"
  then have c': "state_of w (se_state c) \<and> state_type (se_state c) = t" "vv_ok (se_version c)" "vv_ok (se_context c)"
    by (auto simp: entry_of_def entry_ok_def)
  obtain n where n: "merge_entries b c = Inr n" "entry_of w k t n"
    "merge_state (se_state b) (se_state c) = Inr (se_state n)"
    "se_version n = vv_merge (se_version b) (se_version c)"
    "se_context n = vv_merge (se_context b) (se_context c)" by (rule merge_entries_fields [OF b c])
  obtain p where p: "merge_entries m c = Inr p" "entry_of w k t p"
    "merge_state (se_state m) (se_state c) = Inr (se_state p)"
    "se_version p = vv_merge (se_version m) (se_version c)"
    "se_context p = vv_merge (se_context m) (se_context c)" by (rule merge_entries_fields [OF m(2) c])
  obtain q where q: "merge_entries a n = Inr q" "entry_of w k t q"
    "merge_state (se_state a) (se_state n) = Inr (se_state q)"
    "se_version q = vv_merge (se_version a) (se_version n)"
    "se_context q = vv_merge (se_context a) (se_context n)" by (rule merge_entries_fields [OF a n(2)])
  have "se_state p = se_state q"
    using st.merge_assoc [OF a'(1) b'(1) c'(1)] m(3) n(3) p(3) q(3) by simp
  then have "p = q"
    using entry_of_ext [OF p(2) q(2)] m n p q a' b' c' by (simp add: vv.join_assoc)
  then show "rbind (merge_entries a b) (\<lambda>x. merge_entries x c) = rbind (merge_entries b c) (merge_entries a)"
    using m n p q by simp
qed

section \<open>Deliveries\<close>

text \<open>The result of one delivered entry, by the entry it leaves under each key.\<close>

lemma store_replace_get:
  assumes "store_replace s e t = (Inr r, s')"
  shows "store_get s' k = (if k = se_key e then Some e else store_get s k)" "r = e"
  using assms by (auto simp: store_replace_def store_get_def Let_def split: if_splits)

lemma store_replace_raises:
  assumes "store_replace s e t = (Inl x, s')"
  shows "s' = s"
  using assms by (auto simp: store_replace_def Let_def split: if_splits)

lemma store_replace_same_type:
  assumes "\<And>x. store_get s (se_key e) = Some x \<Longrightarrow> se_type x = se_type e" "t = None \<or> t = Some (se_type e)"
  shows "store_replace s e t =
    (Inr e, s\<lparr>store_entries := AList.update (se_key e) e (store_entries s)\<rparr>)"
  using assms by (auto simp: store_replace_def store_get_def Let_def)

text \<open>
  \<open>store_of w ty\<close>: a store of a history in which every key has one type and every
  register dot one text.
\<close>

definition store_of :: "(Dot \<Rightarrow> string) \<Rightarrow> (string \<Rightarrow> CrdtType) \<Rightarrow> CrdtStore \<Rightarrow> bool" where
  "store_of w ty s \<longleftrightarrow> (\<forall>k e. store_get s k = Some e \<longrightarrow> entry_of w k (ty k) e)"

definition sent_of :: "(Dot \<Rightarrow> string) \<Rightarrow> (string \<Rightarrow> CrdtType) \<Rightarrow> StoredCrdtEntry \<Rightarrow> bool" where
  "sent_of w ty e \<longleftrightarrow> entry_of w (se_key e) (ty (se_key e)) e"

lemma merge_entry_absorb:
  assumes "store_of w ty s" "sent_of w ty e"
  shows "\<exists>r s'. store_merge_entry s e = (Inr r, s') \<and> store_of w ty s' \<and>
    absorb merge_entries (store_get s (se_key e)) e = Inr (Some r) \<and>
    store_get s' = (store_get s)(se_key e \<mapsto> r)"
proof (cases "store_get s (se_key e)")
  case None
  then have "store_merge_entry s e = (Inr e, s\<lparr>store_entries := AList.update (se_key e) e (store_entries s)\<rparr>)"
    using store_replace_same_type [of s e None] by (simp add: store_merge_entry_def)
  moreover from this have "store_get (s\<lparr>store_entries := AList.update (se_key e) e (store_entries s)\<rparr>) =
      (store_get s)(se_key e \<mapsto> e)" by (auto simp: store_get_def)
  ultimately show ?thesis using assms None
    by (auto simp: absorb_def store_of_def sent_of_def)
next
  case (Some x)
  have "entry_of w (se_key e) (ty (se_key e)) x" using assms(1) Some by (simp add: store_of_def)
  then obtain m where m: "merge_entries x e = Inr m" "entry_of w (se_key e) (ty (se_key e)) m"
    using en.merge_total [of w "se_key e" "ty (se_key e)" x e] assms(2) by (auto simp: sent_of_def)
  have "se_type x = se_type m" "se_key m = se_key e"
    using \<open>entry_of w _ _ x\<close> m(2) by (auto simp: entry_of_def)
  then have "store_merge_entry s e = (Inr m, s\<lparr>store_entries := AList.update (se_key e) m (store_entries s)\<rparr>)"
    using Some m store_replace_same_type [of s m "Some (se_type m)"] by (simp add: store_merge_entry_def)
  moreover have "store_get (s\<lparr>store_entries := AList.update (se_key e) m (store_entries s)\<rparr>) =
      (store_get s)(se_key e \<mapsto> m)" by (auto simp: store_get_def)
  ultimately show ?thesis using assms Some m
    by (auto simp: absorb_def store_of_def)
qed

definition deliver :: "CrdtStore \<Rightarrow> StoredCrdtEntry \<Rightarrow> CrdtStore result" where
  "deliver s e = (case store_merge_entry s e of (Inl x, s') \<Rightarrow> Inl x | (Inr r, s') \<Rightarrow> Inr s')"

lemma rfold_deliver:
  "store_of w ty s \<Longrightarrow> (\<And>e. e \<in> set es \<Longrightarrow> sent_of w ty e) \<Longrightarrow>
     \<exists>s'. rfold deliver s es = Inr s' \<and> store_of w ty s' \<and>
       (\<forall>k. rfold (absorb merge_entries) (store_get s k) (filter (\<lambda>e. se_key e = k) es) =
          Inr (store_get s' k))"
proof (induction es arbitrary: s)
  case (Cons e es)
  obtain r s1 where s1: "store_merge_entry s e = (Inr r, s1)" "store_of w ty s1"
      "absorb merge_entries (store_get s (se_key e)) e = Inr (Some r)"
      "store_get s1 = (store_get s)(se_key e \<mapsto> r)"
    using merge_entry_absorb [OF Cons.prems(1), of e] Cons.prems(2) by auto
  obtain s' where s': "rfold deliver s1 es = Inr s'" "store_of w ty s'"
      "\<forall>k. rfold (absorb merge_entries) (store_get s1 k) (filter (\<lambda>e. se_key e = k) es) =
          Inr (store_get s' k)"
    using Cons.IH [OF s1(2)] Cons.prems(2) by auto
  moreover have "rfold (absorb merge_entries) (store_get s k) (filter (\<lambda>e. se_key e = k) (e # es)) =
      Inr (store_get s' k)" for k
    using s'(3) [rule_format, of k] s1(3,4) by (cases "se_key e = k") auto
  moreover have "deliver s e = Inr s1" using s1(1) by (simp add: deliver_def)
  ultimately show ?case by (intro exI [of _ s']) simp
qed simp

section \<open>Calls on a store\<close>

datatype store_call =
    PutIfAbsent StoredCrdtEntry
  | Replace StoredCrdtEntry "CrdtType option"
  | MergeEntry StoredCrdtEntry
  | MergeMetadata string VersionVector

text \<open>A call that raises leaves the store as it was; the caller sees the exception.\<close>

fun store_step :: "CrdtStore \<Rightarrow> store_call \<Rightarrow> CrdtStore" where
  "store_step s (PutIfAbsent e) = snd (put_if_absent s e)"
| "store_step s (Replace e t) = snd (store_replace s e t)"
| "store_step s (MergeEntry e) = snd (store_merge_entry s e)"
| "store_step s (MergeMetadata k v) = snd (store_merge_metadata s k v)"

fun store_call_ok :: "store_call \<Rightarrow> bool" where
  "store_call_ok (PutIfAbsent e) = entry_ok e"
| "store_call_ok (Replace e t) = entry_ok e"
| "store_call_ok (MergeEntry e) = entry_ok e"
| "store_call_ok (MergeMetadata k v) = vv_ok v"

definition store_type :: "CrdtStore \<Rightarrow> string \<Rightarrow> CrdtType option" where
  "store_type s k = map_option se_type (store_get s k)"

text \<open>What one call may do: nothing, or put one well-formed entry under its own key, of the type the key had.\<close>

definition store_puts :: "CrdtStore \<Rightarrow> CrdtStore \<Rightarrow> bool" where
  "store_puts s s' \<longleftrightarrow> s' = s \<or>
     (\<exists>e. entry_ok e \<and> (\<forall>x. store_get s (se_key e) = Some x \<longrightarrow> se_type x = se_type e) \<and>
        s' = s\<lparr>store_entries := AList.update (se_key e) e (store_entries s)\<rparr>)"

lemma store_ok_get: "store_ok s \<Longrightarrow> store_get s k = Some e \<Longrightarrow> se_key e = k \<and> entry_ok e"
  by (auto simp: store_ok_def store_get_def dest: map_of_SomeD)

lemma merge_state_ok:
  "merge_state a b = Inr c \<Longrightarrow> state_ok a \<Longrightarrow> state_ok b \<Longrightarrow> state_ok c \<and> state_type c = state_type a"
proof (induction a b rule: merge_state.induct)
  case (4 r q)
  then obtain m where m: "mv_merge r q = Inr m" "c = SMVRegister m" by (auto simp: rbind_eq_Inr)
  have "distinct (map fst (mv_entries q))" using 4 by (simp add: mv_ok_def canon_distinct)
  then have "mv_agree (mv_entries r) (mv_entries q)"
    using m(1) mv_merge_values_conflict [of "mv_entries r" "mv_entries q"]
    by (cases "mv_agree (mv_entries r) (mv_entries q)") (simp_all add: mv_merge_def)
  then show ?case using mv_merge_spec [of r q] 4 m by auto
qed auto

lemma merge_entries_ok:
  assumes "merge_entries a b = Inr c" "entry_ok a" "entry_ok b"
  shows "entry_ok c \<and> se_key c = se_key a \<and> se_type c = se_type a"
proof -
  obtain x where "merge_state (se_state a) (se_state b) = Inr x"
      "StoredCrdtEntry_init (se_key a) (se_type a) x (vv_merge (se_version a) (se_version b))
         (vv_merge (se_context a) (se_context b)) = Inr c"
    using assms(1) by (auto simp: merge_entries_def rbind_eq_Inr split: if_splits)
  then show ?thesis
    using assms merge_state_ok [of "se_state a" "se_state b" x]
    by (auto simp: entry_ok_def StoredCrdtEntry_init_def split: if_splits)
qed

lemma store_replace_puts: "entry_ok e \<Longrightarrow> store_puts s (snd (store_replace s e t))"
  by (auto simp: store_puts_def store_replace_def store_get_def Let_def)

lemma store_step_puts:
  assumes "store_ok s" "store_call_ok c"
  shows "store_puts s (store_step s c)"
proof (cases c)
  case (PutIfAbsent e)
  then show ?thesis using assms
    by (auto simp: store_puts_def put_if_absent_def store_get_def split: option.splits)
next
  case (Replace e t)
  then show ?thesis using assms store_replace_puts by simp
next
  case (MergeEntry e)
  show ?thesis
  proof (cases "store_get s (se_key e)")
    case None
    then show ?thesis using MergeEntry assms store_replace_puts by (simp add: store_merge_entry_def)
  next
    case (Some x)
    show ?thesis
    proof (cases "merge_entries x e")
      case (Inl err)
      then show ?thesis using MergeEntry Some by (simp add: store_merge_entry_def store_puts_def)
    next
      case (Inr m)
      then have "entry_ok m"
        using merge_entries_ok [of x e m] store_ok_get [OF assms(1) Some] assms(2) MergeEntry by simp
      then show ?thesis
        using MergeEntry Some Inr store_replace_puts by (simp add: store_merge_entry_def)
    qed
  qed
next
  case (MergeMetadata k v)
  show ?thesis
  proof (cases "store_get s k")
    case None
    then show ?thesis using MergeMetadata by (simp add: store_merge_metadata_def store_puts_def)
  next
    case (Some x)
    have x: "entry_ok x" using store_ok_get [OF assms(1) Some] by simp
    let ?u = "x\<lparr>se_context := vv_merge (se_context x) v\<rparr>"
    have u: "with_context x (vv_merge (se_context x) v) = Inr ?u" "entry_ok ?u"
      using x assms(2) MergeMetadata by (auto simp: with_context_def StoredCrdtEntry_init_def entry_ok_def)
    then have "store_step s c = snd (store_replace s ?u (Some (se_type x)))"
      using MergeMetadata Some by (simp add: store_merge_metadata_def case_prod_unfold Let_def)
    then show ?thesis using store_replace_puts u(2) by simp
  qed
qed

lemma store_puts_ok: "store_ok s \<Longrightarrow> store_puts s s' \<Longrightarrow> store_ok s'"
  by (auto simp: store_puts_def store_ok_def dest!: set_update_cases)

lemma store_puts_type: "store_puts s s' \<Longrightarrow> store_type s k = Some t \<Longrightarrow> store_type s' k = Some t"
  by (auto simp: store_puts_def store_type_def store_get_def)

section \<open>Properties\<close>

text \<open>C4: Strong convergence of the store. Two replicas that start with the same entries and take in the
  same set of entries, in any order and with any repetitions, raise nowhere and hold the same
  entry under every key. The entries come from one history: each key has one type and each
  register dot one written text.\<close>

theorem store_convergence:
  assumes "store_of w ty s" "\<forall>e \<in> set xs. sent_of w ty e" "set xs = set ys"
  shows "\<exists>a b. rfold deliver s xs = Inr a \<and> rfold deliver s ys = Inr b \<and> store_get a = store_get b"
proof -
  obtain a where a: "rfold deliver s xs = Inr a"
      "\<forall>k. rfold (absorb merge_entries) (store_get s k) (filter (\<lambda>e. se_key e = k) xs) = Inr (store_get a k)"
    using rfold_deliver [OF assms(1), of xs] assms(2) by auto
  obtain b where b: "rfold deliver s ys = Inr b"
      "\<forall>k. rfold (absorb merge_entries) (store_get s k) (filter (\<lambda>e. se_key e = k) ys) = Inr (store_get b k)"
    using rfold_deliver [OF assms(1), of ys] assms(2,3) by auto
  have "store_get a k = store_get b k" for k
  proof -
    have "rfold (absorb merge_entries) (store_get s k) (filter (\<lambda>e. se_key e = k) xs) =
        rfold (absorb merge_entries) (store_get s k) (filter (\<lambda>e. se_key e = k) ys)"
      by (rule en.rfold_absorb_set [where w = w and k = k and t = "ty k"])
        (use assms in \<open>auto simp: store_of_def sent_of_def\<close>)
    then show ?thesis using a(2) b(2) by simp
  qed
  then show ?thesis using a(1) b(1) by auto
qed

theorem store_convergence_witness:
  "let e = \<lambda>n. \<lparr>se_key = ''k'', se_type = GCOUNTER, se_state = SGCounter (GCounter [(CausalActor n 1, 2)]),
        se_version = VersionVector [(CausalActor n 1, 1)], se_context = VersionVector [(CausalActor n 1, 1)]\<rparr>
   in \<exists>a b. rfold deliver CrdtStore_init [e ''a'', e ''b''] = Inr a \<and>
        rfold deliver CrdtStore_init [e ''b'', e ''a'', e ''b''] = Inr b \<and> store_get a = store_get b"
proof -
  let ?e = "\<lambda>n. \<lparr>se_key = ''k'', se_type = GCOUNTER, se_state = SGCounter (GCounter [(CausalActor n 1, 2)]),
        se_version = VersionVector [(CausalActor n 1, 1)], se_context = VersionVector [(CausalActor n 1, 1)]\<rparr>"
  have "store_of (\<lambda>d. []) (\<lambda>k. GCOUNTER) CrdtStore_init"
    by (simp add: store_of_def store_get_def CrdtStore_init_def)
  moreover have "sent_of (\<lambda>d. []) (\<lambda>k. GCOUNTER) (?e n)" for n
    by (simp add: sent_of_def entry_of_def entry_ok_def gc_ok_def vv_ok_def cok_def canon_def)
  ultimately show ?thesis
    using store_convergence [of "\<lambda>d. []" "\<lambda>k. GCOUNTER" CrdtStore_init
        "[?e ''a'', ?e ''b'']" "[?e ''b'', ?e ''a'', ?e ''b'']"] by (simp add: insert_commute)
qed

text \<open>Whatever sequence of calls a store serves, failing ones included, it stays well-formed (each
  entry under its own non-empty key, of a state class that fits its type) and no key ever
  changes its CRDT type.\<close>

theorem store_types_never_change:
  assumes "store_ok s" "list_all store_call_ok calls"
  shows "store_ok (foldl store_step s calls) \<and>
    (\<forall>k t. store_type s k = Some t \<longrightarrow> store_type (foldl store_step s calls) k = Some t)"
  using assms
proof (induction calls arbitrary: s)
  case (Cons c calls)
  then have "store_puts s (store_step s c)" using store_step_puts by simp
  then show ?case
    using Cons.IH [of "store_step s c"] Cons.prems store_puts_ok [of s] store_puts_type [of s] by simp
qed simp

theorem store_types_never_change_witness:
  "let e = \<lambda>t st. \<lparr>se_key = ''k'', se_type = t, se_state = st, se_version = vv_empty, se_context = vv_empty\<rparr>
   in store_type (foldl store_step CrdtStore_init
        [PutIfAbsent (e ORSET (SORSet or_empty)), Replace (e GCOUNTER (SGCounter gc_empty)) None]) ''k'' = Some ORSET"
proof -
  let ?e = "\<lambda>t st. \<lparr>se_key = ''k'', se_type = t, se_state = st, se_version = vv_empty, se_context = vv_empty\<rparr>"
  let ?s = "store_step CrdtStore_init (PutIfAbsent (?e ORSET (SORSet or_empty)))"
  have s: "?s = \<lparr>store_entries = [(''k'', ?e ORSET (SORSet or_empty))]\<rparr>"
    by (simp add: put_if_absent_def CrdtStore_init_def)
  have "store_ok ?s" unfolding s by (simp add: store_ok_def dict_ok_def entry_ok_def)
  moreover have "list_all store_call_ok [Replace (?e GCOUNTER (SGCounter gc_empty)) None]"
    by (simp add: entry_ok_def)
  moreover have "store_type ?s ''k'' = Some ORSET" unfolding s by (simp add: store_type_def store_get_def)
  ultimately show ?thesis
    using store_types_never_change [of ?s "[Replace (?e GCOUNTER (SGCounter gc_empty)) None]"] by simp
qed

end
