(* ===== verification/Persistence_Codec.thy ===== *)
theory Persistence_Codec
  imports Storage
begin

text \<open>
  The durable encoding of \<^verbatim>\<open>src/src/distsys/persistence/codec.py\<close>: entries to JSON text
  and back, every validation of the decoders included, and the proof that a stored entry
  is read back as it was written.
\<close>

section \<open>Parsing\<close>

definition parse_json :: "string \<Rightarrow> json result" where
  "parse_json raw =
     (case loads raw of
        Inl e \<Rightarrow> if exn_cls e = TypeError \<or> exn_cls e = JSONDecodeError
                 then raise ValueError ''invalid durable JSON payload'' else Inl e
      | Inr v \<Rightarrow> Inr v)"

text \<open>\<^verbatim>\<open>data.get(key)\<close> on an object, and \<^verbatim>\<open>isinstance(value, int)\<close>, which holds of booleans too.\<close>

definition jget :: "(string \<times> json) list \<Rightarrow> string \<Rightarrow> json" where
  "jget kvs key = (case map_of kvs key of None \<Rightarrow> JNull | Some v \<Rightarrow> v)"

fun as_int :: "json \<Rightarrow> int option" where
  "as_int (JInt i) = Some i"
| "as_int (JBool b) = Some (of_bool b)"
| "as_int v = None"

fun as_str :: "json \<Rightarrow> string option" where
  "as_str (JStr s) = Some s"
| "as_str v = None"

fun as_list :: "json \<Rightarrow> json list option" where
  "as_list (JArr xs) = Some xs"
| "as_list v = None"

fun as_dict :: "json \<Rightarrow> (string \<times> json) list option" where
  "as_dict (JObj kvs) = Some kvs"
| "as_dict v = None"

section \<open>Actors, dots and version vectors\<close>

definition encode_actor :: "CausalActor \<Rightarrow> json" where
  "encode_actor actor =
     JObj [(''node_id'', JStr (ca_node_id actor)), (''incarnation'', JInt (ca_incarnation actor))]"

definition decode_actor :: "json \<Rightarrow> CausalActor result" where
  "decode_actor data =
     (case as_dict data of
        None \<Rightarrow> raise TypeError ''causal actor must be an object''
      | Some d \<Rightarrow>
          (case (as_str (jget d ''node_id''), as_int (jget d ''incarnation'')) of
             (Some node_id, Some incarnation) \<Rightarrow> CausalActor_init node_id incarnation
           | _ \<Rightarrow> raise TypeError ''invalid causal actor''))"

definition encode_dot :: "Dot \<Rightarrow> json" where
  "encode_dot dot = JObj [(''actor'', encode_actor (dot_actor dot)), (''counter'', JInt (dot_counter dot))]"

definition decode_dot :: "json \<Rightarrow> Dot result" where
  "decode_dot data =
     (case as_dict data of
        None \<Rightarrow> raise TypeError ''invalid causal dot''
      | Some d \<Rightarrow>
          (case as_int (jget d ''counter'') of
             None \<Rightarrow> raise TypeError ''invalid causal dot''
           | Some counter \<Rightarrow>
               rbind (decode_actor (jget d ''actor'')) (\<lambda>actor. Dot_init actor counter)))"

definition encode_version_vector :: "VersionVector \<Rightarrow> string" where
  "encode_version_vector vector =
     canonical_json (JArr (map (\<lambda>(actor, counter).
       JObj [(''actor'', encode_actor actor), (''counter'', JInt counter)]) (vv_items vector)))"

definition decode_vv_item ::
  "(CausalActor, int) dict \<Rightarrow> json \<Rightarrow> (CausalActor, int) dict result" where
  "decode_vv_item entries item =
     (case as_dict item of
        None \<Rightarrow> raise TypeError ''invalid version vector entry''
      | Some d \<Rightarrow>
          (case as_int (jget d ''counter'') of
             None \<Rightarrow> raise TypeError ''invalid version vector entry''
           | Some counter \<Rightarrow>
               rbind (decode_actor (jget d ''actor'')) (\<lambda>actor.
                 if map_of entries actor \<notin> {None, Some counter}
                 then raise ValueError ''duplicate actor with conflicting counter''
                 else Inr (AList.update actor counter entries))))"

definition decode_version_vector :: "string \<Rightarrow> VersionVector result" where
  "decode_version_vector raw =
     rbind (parse_json raw) (\<lambda>payload.
       case as_list payload of
         None \<Rightarrow> raise TypeError ''version vector payload must be a list''
       | Some items \<Rightarrow> rbind (rfold decode_vv_item [] items) VersionVector_init)"

section \<open>States\<close>

definition encode_gcounter :: "GCounter \<Rightarrow> json" where
  "encode_gcounter c =
     JArr (map (\<lambda>(actor, value). JObj [(''actor'', encode_actor actor), (''value'', JInt value)])
       (gc_components c))"

definition decode_gcounter_item ::
  "(CausalActor, int) dict \<Rightarrow> json \<Rightarrow> (CausalActor, int) dict result" where
  "decode_gcounter_item components item =
     (case as_dict item of
        None \<Rightarrow> raise TypeError ''invalid gcounter component''
      | Some d \<Rightarrow>
          (case as_int (jget d ''value'') of
             None \<Rightarrow> raise TypeError ''invalid gcounter component''
           | Some value \<Rightarrow>
               rbind (decode_actor (jget d ''actor'')) (\<lambda>actor. Inr (AList.update actor value components))))"

definition decode_gcounter :: "json \<Rightarrow> GCounter result" where
  "decode_gcounter payload =
     (case as_list payload of
        None \<Rightarrow> raise TypeError ''gcounter payload must be a list''
      | Some items \<Rightarrow> rbind (rfold decode_gcounter_item [] items) GCounter_init)"

fun encode_payload :: "CrdtState \<Rightarrow> CrdtType \<Rightarrow> json result" where
  "encode_payload (SGCounter c) GCOUNTER = Inr (JObj [(''components'', encode_gcounter c)])"
| "encode_payload (SPNCounter c) PNCOUNTER =
     Inr (JObj [(''positive'', encode_gcounter (pn_positive c)), (''negative'', encode_gcounter (pn_negative c))])"
| "encode_payload (SORSet s) ORSET =
     Inr (JObj [(''adds'', JArr (map (\<lambda>(element, dots).
                   JObj [(''element'', JStr element),
                         (''dots'', JArr (map encode_dot (sorted_list_of_set dots)))]) (or_adds s))),
                (''removed'', JArr (map encode_dot (sorted_list_of_set (or_removed s))))])"
| "encode_payload (SMVRegister r) MVREGISTER =
     Inr (JObj [(''values'', JArr (map (\<lambda>(dot, value_json).
                   JObj [(''dot'', encode_dot dot), (''value_json'', JStr value_json)]) (mv_entries r))),
                (''superseded'', JArr (map encode_dot (sorted_list_of_set (mv_superseded r))))])"
| "encode_payload s t = raise TypeError ''CRDT state does not match CRDT type''"

definition encode_crdt_state :: "CrdtState \<Rightarrow> CrdtType \<Rightarrow> string result" where
  "encode_crdt_state state crdt_type =
     rbind (encode_payload state crdt_type) (\<lambda>payload. Inr (canonical_json payload))"

definition decode_dots :: "json list \<Rightarrow> Dot set result" where
  "decode_dots items = rbind (rmap decode_dot items) (\<lambda>dots. Inr (set dots))"

definition decode_add :: "(string, Dot set) dict \<Rightarrow> json \<Rightarrow> (string, Dot set) dict result" where
  "decode_add adds item =
     (case as_dict item of
        None \<Rightarrow> raise TypeError ''invalid ORSet add entry''
      | Some d \<Rightarrow>
          (case as_str (jget d ''element'') of
             None \<Rightarrow> raise TypeError ''invalid ORSet add entry''
           | Some element \<Rightarrow>
               (case as_list (jget d ''dots'') of
                  None \<Rightarrow> raise TypeError ''invalid ORSet dots''
                | Some dots_raw \<Rightarrow>
                    rbind (decode_dots dots_raw) (\<lambda>dots. Inr (AList.update element dots adds)))))"

definition decode_value :: "(Dot, string) dict \<Rightarrow> json \<Rightarrow> (Dot, string) dict result" where
  "decode_value vals item =
     (case as_dict item of
        None \<Rightarrow> raise TypeError ''invalid MVRegister value entry''
      | Some d \<Rightarrow>
          (case as_str (jget d ''value_json'') of
             None \<Rightarrow> raise TypeError ''invalid MVRegister value entry''
           | Some value_json \<Rightarrow>
               rbind (decode_dot (jget d ''dot'')) (\<lambda>dot.
               rbind (parse_json value_json) (\<lambda>_. Inr (AList.update dot value_json vals)))))"

fun decode_payload :: "(string \<times> json) list \<Rightarrow> CrdtType \<Rightarrow> CrdtState result" where
  "decode_payload p GCOUNTER = rbind (decode_gcounter (jget p ''components'')) (\<lambda>c. Inr (SGCounter c))"
| "decode_payload p PNCOUNTER =
     rbind (decode_gcounter (jget p ''positive'')) (\<lambda>pos.
     rbind (decode_gcounter (jget p ''negative'')) (\<lambda>neg. Inr (SPNCounter (PNCounter pos neg))))"
| "decode_payload p ORSET =
     (case (as_list (jget p ''adds''), as_list (jget p ''removed'')) of
        (Some adds_raw, Some removed_raw) \<Rightarrow>
          rbind (rfold decode_add [] adds_raw) (\<lambda>adds.
          rbind (decode_dots removed_raw) (\<lambda>removed. Inr (SORSet (ORSet_init adds removed))))
      | _ \<Rightarrow> raise ValueError ''invalid ORSet durable payload'')"
| "decode_payload p MVREGISTER =
     (case (as_list (jget p ''values''), as_list (jget p ''superseded'')) of
        (Some values_raw, Some superseded_raw) \<Rightarrow>
          rbind (rfold decode_value [] values_raw) (\<lambda>vals.
          rbind (decode_dots superseded_raw) (\<lambda>superseded.
            Inr (SMVRegister (MVRegister_init vals superseded))))
      | _ \<Rightarrow> raise ValueError ''invalid MVRegister durable payload'')"

definition decode_crdt_state :: "string \<Rightarrow> CrdtType \<Rightarrow> CrdtState result" where
  "decode_crdt_state raw crdt_type =
     rbind (parse_json raw) (\<lambda>payload.
       case as_dict payload of
         None \<Rightarrow> raise TypeError ''CRDT payload must be an object''
       | Some p \<Rightarrow> decode_payload p crdt_type)"

section \<open>Entries\<close>

record EncodedCrdtEntry =
  enc_key :: string
  enc_type :: string
  enc_state :: string
  enc_version :: string
  enc_context :: string

definition encode_entry :: "StoredCrdtEntry \<Rightarrow> EncodedCrdtEntry result" where
  "encode_entry entry =
     rbind (encode_crdt_state (se_state entry) (se_type entry)) (\<lambda>state_json.
       Inr \<lparr>enc_key = se_key entry, enc_type = type_value (se_type entry), enc_state = state_json,
            enc_version = encode_version_vector (se_version entry),
            enc_context = encode_version_vector (se_context entry)\<rparr>)"

text \<open>\<^verbatim>\<open>CrdtType(value)\<close>\<close>

definition type_of_value :: "string \<Rightarrow> CrdtType option" where
  "type_of_value s = find (\<lambda>t. type_value t = s) [GCOUNTER, PNCOUNTER, ORSET, MVREGISTER]"

definition decode_entry :: "EncodedCrdtEntry \<Rightarrow> StoredCrdtEntry result" where
  "decode_entry encoded =
     (case type_of_value (enc_type encoded) of
        None \<Rightarrow> raise ValueError (''unknown CRDT type: '' @ enc_type encoded)
      | Some crdt_type \<Rightarrow>
          rbind (decode_crdt_state (enc_state encoded) crdt_type) (\<lambda>state.
          rbind (decode_version_vector (enc_version encoded)) (\<lambda>state_version.
          rbind (decode_version_vector (enc_context encoded)) (\<lambda>causal_context.
            StoredCrdtEntry_init (enc_key encoded) crdt_type state state_version causal_context))))"

section \<open>Round trip\<close>

text \<open>
  What the constructors guarantee of the parts of an entry: actors have a node id and a
  non-negative incarnation, dots a positive counter, and a register holds JSON texts.
\<close>

definition dot_ok :: "Dot \<Rightarrow> bool" where
  "dot_ok d \<longleftrightarrow> actor_ok (dot_actor d) \<and> 1 \<le> dot_counter d"

definition vv_wf :: "VersionVector \<Rightarrow> bool" where
  "vv_wf v \<longleftrightarrow> vv_ok v \<and> (\<forall>(a, c) \<in> set (vv_items v). actor_ok a)"

definition gc_wf :: "GCounter \<Rightarrow> bool" where
  "gc_wf c \<longleftrightarrow> gc_ok c \<and> (\<forall>(a, v) \<in> set (gc_components c). actor_ok a)"

fun state_wf :: "CrdtState \<Rightarrow> bool" where
  "state_wf (SGCounter c) \<longleftrightarrow> gc_wf c"
| "state_wf (SPNCounter c) \<longleftrightarrow> gc_wf (pn_positive c) \<and> gc_wf (pn_negative c)"
| "state_wf (SORSet s) \<longleftrightarrow> or_ok s \<and> (\<forall>(e, ds) \<in> set (or_adds s). \<forall>d \<in> ds. dot_ok d) \<and>
     (\<forall>d \<in> or_removed s. dot_ok d)"
| "state_wf (SMVRegister r) \<longleftrightarrow> mv_ok r \<and>
     (\<forall>(d, t) \<in> set (mv_entries r). dot_ok d \<and> (\<exists>v. loads t = Inr v)) \<and> (\<forall>d \<in> mv_superseded r. dot_ok d)"

definition entry_wf :: "StoredCrdtEntry \<Rightarrow> bool" where
  "entry_wf e \<longleftrightarrow> se_key e \<noteq> [] \<and> state_type (se_state e) = se_type e \<and> state_wf (se_state e) \<and>
     vv_wf (se_version e) \<and> vv_wf (se_context e)"

lemma vv_wf_empty [simp]: "vv_wf vv_empty"
  by (simp add: vv_wf_def vv_empty_def vv_ok_def)

named_theorems codec_simps \<open>decoders on sorted encoded values\<close>

lemma jget_jsort [codec_simps]:
  "distinct (map fst kvs) \<Longrightarrow> jget (sort_key fst (jsort_members kvs)) k = jsort (jget kvs k)"
  using map_of_jsort_members [of kvs k]
  by (cases "map_of kvs k") (simp_all add: jget_def dict_ok_def)

lemma as_dict_jsort [codec_simps]: "as_dict (jsort (JObj kvs)) = Some (sort_key fst (jsort_members kvs))"
  by simp

lemma as_list_jsort [codec_simps]: "as_list (jsort (JArr xs)) = Some (map jsort xs)"
  by (simp add: jsort_elems_map)

lemma jget_hit [codec_simps]:
  "jget ((k, v) # kvs) k = v" "k \<noteq> k' \<Longrightarrow> jget ((k', v) # kvs) k = jget kvs k"
  by (simp_all add: jget_def)

lemma parse_canonical: "json_ok v \<Longrightarrow> parse_json (canonical_json v) = Inr (jsort v)"
  by (simp add: parse_json_def canonical_json_def loads_dumps_sorted)

lemma decode_actor_jsort [codec_simps]: "actor_ok a \<Longrightarrow> decode_actor (jsort (encode_actor a)) = Inr a"
  unfolding decode_actor_def encode_actor_def as_dict_jsort
  by (simp add: codec_simps del: jsort_members.simps) (simp add: CausalActor_init_def actor_ok_def)

lemma decode_dot_jsort [codec_simps]: "dot_ok d \<Longrightarrow> decode_dot (jsort (encode_dot d)) = Inr d"
  unfolding decode_dot_def encode_dot_def as_dict_jsort
  by (simp add: codec_simps dot_ok_def del: jsort_members.simps) (simp add: Dot_init_def dot_ok_def)

text \<open>A decoding loop that adds one new key per item rebuilds the dictionary.\<close>

lemma rfold_updates:
  assumes "\<And>acc k v. (k, v) \<in> set items \<Longrightarrow> k \<notin> fst ` set acc \<Longrightarrow> f acc (enc (k, v)) = Inr (AList.update k v acc)"
    and "distinct (map fst (acc @ items))"
  shows "rfold f acc (map enc items) = Inr (acc @ items)"
  using assms
proof (induction items arbitrary: acc)
  case (Cons kv items)
  obtain k v where kv: "kv = (k, v)" by (cases kv)
  have "k \<notin> fst ` set acc" using Cons.prems(2) kv by auto
  then have "f acc (enc kv) = Inr (acc @ [(k, v)])"
    using Cons.prems(1) [of k v acc] kv by (simp add: update_fresh)
  moreover have "rfold f (acc @ [(k, v)]) (map enc items) = Inr ((acc @ [(k, v)]) @ items)"
    using Cons.prems kv by (intro Cons.IH) auto
  ultimately show ?case using kv by simp
qed simp

lemma cnorm_id: "cok xs \<Longrightarrow> cnorm xs = xs"
  by (rule cok_ext)
    (auto simp: cget_cnorm cok_def canon_dict_ok intro!: cok_cnorm [unfolded cok_def] less_imp_le)

lemma cok_items: "cok xs \<Longrightarrow> distinct (map fst xs) \<and> \<not> list_ex (\<lambda>(k, c). c < 0) xs"
  by (force simp: cok_def canon_distinct list_ex_iff)

lemma decode_encode_version_vector:
  assumes "vv_wf v"
  shows "decode_version_vector (encode_version_vector v) = Inr v"
proof -
  let ?enc = "\<lambda>(actor, counter). JObj [(''actor'', encode_actor actor), (''counter'', JInt counter)]"
  have step: "decode_vv_item acc ((jsort \<circ> ?enc) (a, c)) = Inr (AList.update a c acc)"
    if "(a, c) \<in> set (vv_items v)" "a \<notin> fst ` set acc" for acc a c
  proof -
    have "actor_ok a" using assms that(1) by (auto simp: vv_wf_def)
    moreover have "map_of acc a = None" using that(2) by (simp add: map_of_eq_None_iff)
    ultimately show ?thesis unfolding decode_vv_item_def comp_def case_prod_conv as_dict_jsort
      by (simp add: codec_simps del: jsort_members.simps)
  qed
  have items: "cok (vv_items v)" using assms by (simp add: vv_wf_def vv_ok_def)
  have "rfold decode_vv_item [] (map (jsort \<circ> ?enc) (vv_items v)) = Inr ([] @ vv_items v)"
    by (rule rfold_updates) (use step cok_items [OF items] in auto)
  moreover have "json_ok (JArr (map ?enc (vv_items v)))"
    by (auto simp: json_ok_elems_iff encode_actor_def)
  ultimately show ?thesis
    using cok_items [OF items] cnorm_id [OF items]
    by (simp add: decode_version_vector_def encode_version_vector_def parse_canonical
        as_list_jsort VersionVector_init_def vv_normalized_def del: jsort.simps)
qed

lemma decode_encode_gcounter:
  assumes "gc_wf c"
  shows "decode_gcounter (jsort (encode_gcounter c)) = Inr c"
proof -
  let ?enc = "\<lambda>(actor, v). JObj [(''actor'', encode_actor actor), (''value'', JInt v)]"
  have step: "decode_gcounter_item acc ((jsort \<circ> ?enc) (a, n)) = Inr (AList.update a n acc)"
    if "(a, n) \<in> set (gc_components c)" for acc a n
  proof -
    have "actor_ok a" using assms that(1) by (auto simp: gc_wf_def)
    then show ?thesis unfolding decode_gcounter_item_def comp_def case_prod_conv as_dict_jsort
      by (simp add: codec_simps del: jsort_members.simps)
  qed
  have items: "cok (gc_components c)" using assms by (simp add: gc_wf_def gc_ok_def)
  have "rfold decode_gcounter_item [] (map (jsort \<circ> ?enc) (gc_components c)) = Inr ([] @ gc_components c)"
    by (rule rfold_updates) (use step cok_items [OF items] in auto)
  then show ?thesis
    using cok_items [OF items] cnorm_id [OF items]
    by (simp add: decode_gcounter_def encode_gcounter_def as_list_jsort GCounter_init_def del: jsort.simps)
qed

lemma decode_encode_dots:
  assumes "finite ds" "\<forall>d \<in> ds. dot_ok d"
  shows "decode_dots (map (jsort \<circ> encode_dot) (sorted_list_of_set ds)) = Inr ds"
proof -
  have "rmap decode_dot (map (jsort \<circ> encode_dot) xs) = Inr xs" if "\<forall>d \<in> set xs. dot_ok d" for xs
    using that by (induction xs) (simp_all add: codec_simps)
  then show ?thesis using assms by (simp add: decode_dots_def)
qed

lemma json_ok_encoded: "json_ok (encode_actor a)" "json_ok (encode_dot d)" "json_ok (encode_gcounter c)"
  by (auto simp: encode_actor_def encode_dot_def encode_gcounter_def json_ok_elems_iff)

lemma encode_payload_json_ok: "encode_payload s t = Inr p \<Longrightarrow> json_ok p"
  by (induction s t rule: encode_payload.induct)
    (auto simp: json_ok_encoded json_ok_elems_iff)

lemma sort_key_canon: "canon xs \<Longrightarrow> sort_key fst xs = xs"
  using canon_ext [of "sort_key fst xs" xs] by (simp add: canon_sort_key canon_dict_ok map_of_sort_key)

lemma decode_encode_orset:
  assumes "state_wf (SORSet s)"
  shows "rfold decode_add [] (map (jsort \<circ> (\<lambda>(element, dots). JObj [(''element'', JStr element),
       (''dots'', JArr (map encode_dot (sorted_list_of_set dots)))])) (or_adds s)) = Inr (or_adds s)"
proof -
  let ?enc = "\<lambda>(element, dots). JObj [(''element'', JStr element),
       (''dots'', JArr (map encode_dot (sorted_list_of_set dots)))]"
  have step: "decode_add acc ((jsort \<circ> ?enc) (e, ds)) = Inr (AList.update e ds acc)"
    if "(e, ds) \<in> set (or_adds s)" for acc e ds
  proof -
    have "finite ds" "\<forall>d \<in> ds. dot_ok d" using assms that by (auto simp: or_ok_def)
    then have "decode_dots (map (jsort \<circ> encode_dot) (sorted_list_of_set ds)) = Inr ds"
      by (rule decode_encode_dots)
    then show ?thesis unfolding decode_add_def comp_def case_prod_conv as_dict_jsort
      by (simp add: codec_simps comp_def del: jsort_members.simps jsort.simps(1))
  qed
  have "rfold decode_add [] (map (jsort \<circ> ?enc) (or_adds s)) = Inr ([] @ or_adds s)"
    by (rule rfold_updates) (use step assms in \<open>auto simp: or_ok_def canon_distinct\<close>)
  then show ?thesis by simp
qed

lemma decode_encode_mvregister:
  assumes "state_wf (SMVRegister r)"
  shows "rfold decode_value [] (map (jsort \<circ> (\<lambda>(dot, value_json).
       JObj [(''dot'', encode_dot dot), (''value_json'', JStr value_json)])) (mv_entries r)) = Inr (mv_entries r)"
proof -
  let ?enc = "\<lambda>(dot, value_json). JObj [(''dot'', encode_dot dot), (''value_json'', JStr value_json)]"
  have step: "decode_value acc ((jsort \<circ> ?enc) (d, t)) = Inr (AList.update d t acc)"
    if "(d, t) \<in> set (mv_entries r)" for acc d t
  proof -
    have "dot_ok d" "\<exists>v. loads t = Inr v" using assms that by auto
    then show ?thesis unfolding decode_value_def comp_def case_prod_conv as_dict_jsort
      by (auto simp: codec_simps parse_json_def simp del: jsort_members.simps)
  qed
  have "rfold decode_value [] (map (jsort \<circ> ?enc) (mv_entries r)) = Inr ([] @ mv_entries r)"
    by (rule rfold_updates) (use step assms in \<open>auto simp: mv_ok_def canon_distinct\<close>)
  then show ?thesis by simp
qed

lemma decode_encode_payload:
  assumes "state_wf s" "encode_payload s (state_type s) = Inr (JObj kvs)"
  shows "decode_payload (sort_key fst (jsort_members kvs)) (state_type s) = Inr s"
proof (cases s)
  case (SGCounter c)
  with assms have "kvs = [(''components'', encode_gcounter c)]" by auto
  then show ?thesis using assms SGCounter decode_encode_gcounter [of c]
    by (simp add: codec_simps del: jsort_members.simps)
next
  case (SPNCounter c)
  with assms have "kvs = [(''positive'', encode_gcounter (pn_positive c)), (''negative'', encode_gcounter (pn_negative c))]"
    by auto
  then show ?thesis
    using assms SPNCounter decode_encode_gcounter [of "pn_positive c"] decode_encode_gcounter [of "pn_negative c"]
    by (simp add: codec_simps del: jsort_members.simps)
next
  case (SORSet t)
  have ok: "or_ok t" "\<forall>d \<in> or_removed t. dot_ok d" using assms(1) SORSet by auto
  then have "ORSet_init (or_adds t) (or_removed t) = t"
    by (simp add: ORSet_init_def sort_key_canon or_ok_def)
  moreover have "decode_dots (map (jsort \<circ> encode_dot) (sorted_list_of_set (or_removed t))) = Inr (or_removed t)"
    using ok by (intro decode_encode_dots) (auto simp: or_ok_def)
  ultimately show ?thesis
    using assms(2) decode_encode_orset [OF assms(1) [unfolded SORSet]] unfolding SORSet
    by (auto simp: codec_simps simp del: jsort_members.simps jsort.simps(1))
next
  case (SMVRegister r)
  have ok: "mv_ok r" "\<forall>d \<in> mv_superseded r. dot_ok d" using assms(1) SMVRegister by auto
  then have "MVRegister_init (mv_entries r) (mv_superseded r) = r"
    by (simp add: MVRegister_init_def sort_key_canon mv_ok_def)
  moreover have "decode_dots (map (jsort \<circ> encode_dot) (sorted_list_of_set (mv_superseded r))) = Inr (mv_superseded r)"
    using ok by (intro decode_encode_dots) (auto simp: mv_ok_def)
  ultimately show ?thesis
    using assms(2) decode_encode_mvregister [OF assms(1) [unfolded SMVRegister]] unfolding SMVRegister
    by (auto simp: codec_simps simp del: jsort_members.simps jsort.simps(1))
qed

lemma encode_payload_object: "\<exists>kvs. encode_payload s (state_type s) = Inr (JObj kvs)"
  by (cases s) simp_all

lemma decode_encode_state:
  assumes "state_wf s"
  shows "\<exists>raw. encode_crdt_state s (state_type s) = Inr raw \<and> decode_crdt_state raw (state_type s) = Inr s"
proof -
  obtain kvs where kvs: "encode_payload s (state_type s) = Inr (JObj kvs)"
    using encode_payload_object by blast
  have "parse_json (canonical_json (JObj kvs)) = Inr (jsort (JObj kvs))"
    using encode_payload_json_ok [OF kvs] by (rule parse_canonical)
  then show ?thesis
    using kvs decode_encode_payload [OF assms kvs]
    by (simp add: encode_crdt_state_def decode_crdt_state_def)
qed

lemma type_of_value_inverse [simp]: "type_of_value (type_value t) = Some t"
  by (cases t) (simp_all add: type_of_value_def)

lemma entry_wf_ok: "entry_wf e \<Longrightarrow> entry_ok e"
  by (cases "se_state e") (auto simp: entry_wf_def entry_ok_def vv_wf_def gc_wf_def pn_ok_def)

lemma decode_encode_entry:
  assumes "entry_wf e"
  shows "\<exists>enc. encode_entry e = Inr enc \<and> enc_key enc = se_key e \<and> decode_entry enc = Inr e"
proof -
  obtain raw where raw: "encode_crdt_state (se_state e) (se_type e) = Inr raw"
      "decode_crdt_state raw (se_type e) = Inr (se_state e)"
    using decode_encode_state [of "se_state e"] assms by (auto simp: entry_wf_def)
  then show ?thesis using assms
    by (simp add: encode_entry_def decode_entry_def decode_encode_version_vector entry_wf_def
        StoredCrdtEntry_init_ok)
qed

section \<open>Properties\<close>

text \<open>C25: Durability of the encoding: every well-formed entry, of each of the four CRDT types, encodes
  without an exception, and decoding its five columns returns exactly that entry.\<close>

theorem stored_entry_round_trip:
  assumes "entry_wf e"
  shows "\<exists>enc. encode_entry e = Inr enc \<and> decode_entry enc = Inr e"
  using decode_encode_entry [OF assms] by blast

theorem stored_entry_round_trip_witness:
  "let d = Dot (CausalActor ''n1'' 1) 2;
       e = \<lparr>se_key = ''k'', se_type = ORSET, se_state = SORSet (ORSet [(''x'', {d})] {d}),
            se_version = VersionVector [(CausalActor ''n1'' 1, 2)], se_context = VersionVector [(CausalActor ''n1'' 1, 2)]\<rparr>
   in \<exists>enc. encode_entry e = Inr enc \<and> decode_entry enc = Inr e"
proof -
  let ?d = "Dot (CausalActor ''n1'' 1) 2"
  let ?e = "\<lparr>se_key = ''k'', se_type = ORSET, se_state = SORSet (ORSet [(''x'', {?d})] {?d}),
            se_version = VersionVector [(CausalActor ''n1'' 1, 2)], se_context = VersionVector [(CausalActor ''n1'' 1, 2)]\<rparr>"
  have "entry_wf ?e"
    by (simp add: entry_wf_def or_ok_def vv_wf_def vv_ok_def cok_def canon_def dot_ok_def actor_ok_def)
  then show ?thesis using stored_entry_round_trip [of ?e] by (simp only: Let_def)
qed

end
