(* ===== verification/Crdt_Wire.thy ===== *)
theory Crdt_Wire
  imports Cluster_Wire Persistence_Codec
begin

text \<open>
  The codecs of CRDT traffic (\<^verbatim>\<open>src/src/distsys/replication/codec.py\<close>): causal metadata,
  states, digests, mutation and read requests, and responses, over the messages of
  \<^verbatim>\<open>proto/messages.proto\<close>. The theorems are the round trips and that only well-formed
  entries come out of the decoders.
\<close>

section \<open>Messages\<close>

record ActorProto =
  pa_node_id :: string
  pa_incarnation :: int

record DotProto =
  pd_actor :: ActorProto
  pd_counter :: int

text \<open>A \<^verbatim>\<open>VersionEntry\<close> or a \<^verbatim>\<open>GCounterComponent\<close> is an actor with its number.\<close>

type_synonym VersionProto = "(ActorProto \<times> int) list"

text \<open>The \<^verbatim>\<open>oneof state\<close> of a \<^verbatim>\<open>CrdtState\<close>; \<open>PbUnset\<close> when no member was set.\<close>

datatype StateProto =
    PbUnset
  | PbGCounter VersionProto
  | PbPNCounter VersionProto VersionProto
  | PbORSet "(string \<times> DotProto list) list" "DotProto list"
  | PbMVRegister "(DotProto \<times> char list) list" "DotProto list"

record CrdtStateProto =
  ps_key :: string
  ps_type :: int
  ps_version :: VersionProto
  ps_context :: VersionProto
  ps_state :: StateProto

record DigestProto =
  pg_key :: string
  pg_type :: int
  pg_version :: VersionProto
  pg_context :: VersionProto

record DigestRequestProto =
  dr_requester :: string
  dr_entries :: "DigestProto list"
  dr_batch_size :: int

datatype MutationProto =
    MuUnset | MuIncrement int | MuDecrement int | MuSetAdd string | MuSetRemove string | MuRegisterWrite "char list"

record MutationRequestProto =
  pm_key :: string
  pm_type :: int
  pm_token :: VersionProto
  pm_forwarded :: bool
  pm_origin :: string
  pm_remaining_ms :: int
  pm_mutation :: MutationProto

record ReadRequestProto =
  pq_key :: string
  pq_token :: VersionProto
  pq_forwarded :: bool
  pq_origin :: string
  pq_remaining_ms :: int

record ResponseProto =
  po_success :: bool
  po_type :: int
  po_value_json :: "char list"
  po_token :: VersionProto
  po_served_by :: string
  po_repair :: bool
  po_error_code :: int
  po_error_message :: string
  po_state :: "CrdtStateProto option"
  po_frontier :: "VersionProto option"

section \<open>JSON payloads\<close>

definition json_dump_sorted :: "json \<Rightarrow> char list" where
  "json_dump_sorted value = utf8 (dumps_sorted value)"

definition json_load_payload :: "char list \<Rightarrow> json result" where
  "json_load_payload data =
     (if data = [] then Inr JNull
      else case rbind (utf8_decode data) loads of
             Inr v \<Rightarrow> Inr v
           | Inl e \<Rightarrow>
               if exn_cls e \<in> {UnicodeDecodeError, JSONDecodeError} then raise DecodeError ''invalid JSON payload''
               else Inl e)"

section \<open>Causal metadata\<close>

definition actor_to_proto :: "CausalActor \<Rightarrow> ActorProto" where
  "actor_to_proto actor = \<lparr>pa_node_id = ca_node_id actor, pa_incarnation = ca_incarnation actor\<rparr>"

definition actor_from_proto :: "ActorProto \<Rightarrow> CausalActor result" where
  "actor_from_proto p = CausalActor_init (pa_node_id p) (pa_incarnation p)"

definition dot_to_proto :: "Dot \<Rightarrow> DotProto" where
  "dot_to_proto d = \<lparr>pd_actor = actor_to_proto (dot_actor d), pd_counter = dot_counter d\<rparr>"

definition dot_from_proto :: "DotProto \<Rightarrow> Dot result" where
  "dot_from_proto p = rbind (actor_from_proto (pd_actor p)) (\<lambda>actor. Dot_init actor (pd_counter p))"

definition version_to_proto :: "VersionVector \<Rightarrow> VersionProto" where
  "version_to_proto v = map (\<lambda>(actor, counter). (actor_to_proto actor, counter)) (vv_items v)"

text \<open>The comprehension \<^verbatim>\<open>{actor_from_proto(item.actor): item.counter for item in \<dots>}\<close>.\<close>

definition add_component :: "(CausalActor, int) dict \<Rightarrow> ActorProto \<times> int \<Rightarrow> (CausalActor, int) dict result" where
  "add_component entries item =
     rbind (actor_from_proto (fst item)) (\<lambda>actor. Inr (AList.update actor (snd item) entries))"

definition version_from_proto :: "VersionProto \<Rightarrow> VersionVector result" where
  "version_from_proto p = rbind (rfold add_component [] p) VersionVector_init"

definition token_to_proto :: "CausalToken \<Rightarrow> VersionProto" where
  "token_to_proto token = version_to_proto (tok_version token)"

definition token_from_proto :: "VersionProto \<Rightarrow> CausalToken result" where
  "token_from_proto p = rbind (version_from_proto p) (\<lambda>v. Inr (CausalToken v))"

definition encode_token :: "VersionProto serializer \<Rightarrow> CausalToken \<Rightarrow> char list result" where
  "encode_token ser token = ser (token_to_proto token)"

definition decode_token :: "VersionProto parser \<Rightarrow> char list \<Rightarrow> CausalToken result" where
  "decode_token par data =
     (case par data of None \<Rightarrow> raise DecodeError ''invalid CausalToken protobuf'' | Some msg \<Rightarrow> token_from_proto msg)"

section \<open>States\<close>

fun type_to_proto :: "CrdtType \<Rightarrow> int" where
  "type_to_proto GCOUNTER = 1"
| "type_to_proto PNCOUNTER = 2"
| "type_to_proto ORSET = 3"
| "type_to_proto MVREGISTER = 4"

definition type_from_proto :: "int \<Rightarrow> CrdtType result" where
  "type_from_proto raw =
     (if raw = 1 then Inr GCOUNTER else if raw = 2 then Inr PNCOUNTER else if raw = 3 then Inr ORSET
      else if raw = 4 then Inr MVREGISTER else raise DecodeError (''invalid CRDT type: '' @ str_int raw))"

definition gcounter_to_proto :: "GCounter \<Rightarrow> VersionProto" where
  "gcounter_to_proto c = map (\<lambda>(actor, value). (actor_to_proto actor, value)) (gc_components c)"

definition gcounter_from_proto :: "VersionProto \<Rightarrow> GCounter result" where
  "gcounter_from_proto p = rbind (rfold add_component [] p) GCounter_init"

definition dots_to_proto :: "Dot set \<Rightarrow> DotProto list" where
  "dots_to_proto dots = map dot_to_proto (sorted_list_of_set dots)"

definition dots_from_proto :: "DotProto list \<Rightarrow> Dot set result" where
  "dots_from_proto ps = rbind (rmap dot_from_proto ps) (\<lambda>dots. Inr (set dots))"

text \<open>
  The counters are set with \<^verbatim>\<open>CopyFrom\<close>, which marks the member as set. Sets and registers
  are filled item by item: without items nothing touches the message and the \<^verbatim>\<open>oneof\<close>
  stays unset.
\<close>

fun state_proto :: "CrdtState \<Rightarrow> StateProto" where
  "state_proto (SGCounter c) = PbGCounter (gcounter_to_proto c)"
| "state_proto (SPNCounter c) = PbPNCounter (gcounter_to_proto (pn_positive c)) (gcounter_to_proto (pn_negative c))"
| "state_proto (SORSet s) =
     (if or_adds s = [] \<and> or_removed s = {} then PbUnset
      else PbORSet (map (\<lambda>(element, dots). (element, dots_to_proto dots)) (or_adds s)) (dots_to_proto (or_removed s)))"
| "state_proto (SMVRegister r) =
     (if mv_entries r = [] \<and> mv_superseded r = {} then PbUnset
      else PbMVRegister (map (\<lambda>(dot, encoded). (dot_to_proto dot, utf8 encoded)) (mv_entries r))
             (dots_to_proto (mv_superseded r)))"

definition state_to_proto :: "StoredCrdtEntry \<Rightarrow> CrdtStateProto result" where
  "state_to_proto entry =
     (if state_type (se_state entry) \<noteq> se_type entry then raise AssertionError []
      else Inr \<lparr>ps_key = se_key entry, ps_type = type_to_proto (se_type entry),
                ps_version = version_to_proto (se_version entry), ps_context = version_to_proto (se_context entry),
                ps_state = state_proto (se_state entry)\<rparr>)"

definition add_element :: "(string, Dot set) dict \<Rightarrow> string \<times> DotProto list \<Rightarrow> (string, Dot set) dict result" where
  "add_element adds item = rbind (dots_from_proto (snd item)) (\<lambda>dots. Inr (AList.update (fst item) dots adds))"

definition add_register_value :: "(Dot, string) dict \<Rightarrow> DotProto \<times> char list \<Rightarrow> (Dot, string) dict result" where
  "add_register_value values item =
     (case rbind (utf8_decode (snd item)) (\<lambda>encoded. rbind (loads encoded) (\<lambda>_. Inr encoded)) of
        Inl e \<Rightarrow>
          if exn_cls e \<in> {UnicodeDecodeError, JSONDecodeError} then raise DecodeError ''invalid MVRegister JSON payload''
          else Inl e
      | Inr encoded \<Rightarrow> rbind (dot_from_proto (fst item)) (\<lambda>dot. Inr (AList.update dot encoded values)))"

fun state_of_proto :: "CrdtType \<Rightarrow> StateProto \<Rightarrow> CrdtState result" where
  "state_of_proto GCOUNTER (PbGCounter c) = rbind (gcounter_from_proto c) (\<lambda>c. Inr (SGCounter c))"
| "state_of_proto PNCOUNTER (PbPNCounter p n) =
     rbind (gcounter_from_proto p) (\<lambda>p. rbind (gcounter_from_proto n) (\<lambda>n. Inr (SPNCounter (PNCounter p n))))"
| "state_of_proto ORSET (PbORSet adds removed) =
     rbind (rfold add_element [] adds) (\<lambda>adds.
     rbind (dots_from_proto removed) (\<lambda>removed. Inr (SORSet (ORSet_init adds removed))))"
| "state_of_proto MVREGISTER (PbMVRegister values superseded) =
     rbind (rfold add_register_value [] values) (\<lambda>values.
     rbind (dots_from_proto superseded) (\<lambda>superseded. Inr (SMVRegister (MVRegister_init values superseded))))"
| "state_of_proto _ _ = raise DecodeError ''CRDT type/state mismatch''"

definition state_from_proto :: "CrdtStateProto \<Rightarrow> StoredCrdtEntry result" where
  "state_from_proto msg =
     (if ps_key msg = [] then raise DecodeError ''CRDT state key is required''
      else rbind (type_from_proto (ps_type msg)) (\<lambda>crdt_type.
           rbind (state_of_proto crdt_type (ps_state msg)) (\<lambda>state.
           rbind (version_from_proto (ps_version msg)) (\<lambda>version.
           rbind (version_from_proto (ps_context msg)) (\<lambda>context.
           StoredCrdtEntry_init (ps_key msg) crdt_type state version context)))))"

definition digest_to_proto :: "CrdtDigestEntry \<Rightarrow> DigestProto" where
  "digest_to_proto entry =
     \<lparr>pg_key = dg_key entry, pg_type = type_to_proto (dg_type entry), pg_version = version_to_proto (dg_version entry),
      pg_context = version_to_proto (dg_context entry)\<rparr>"

definition digest_from_proto :: "DigestProto \<Rightarrow> CrdtDigestEntry result" where
  "digest_from_proto msg =
     rbind (type_from_proto (pg_type msg)) (\<lambda>crdt_type.
     rbind (version_from_proto (pg_version msg)) (\<lambda>version.
     rbind (version_from_proto (pg_context msg)) (\<lambda>context.
     Inr \<lparr>dg_key = pg_key msg, dg_type = crdt_type, dg_version = version, dg_context = context\<rparr>)))"

section \<open>Requests and responses\<close>

text \<open>\<^verbatim>\<open>None\<close> as a value is \<open>JNull\<close>.\<close>

record CrdtMutationData =
  md_key :: string
  md_type :: CrdtType
  md_operation :: string
  md_value :: json
  md_amount :: int
  md_token :: CausalToken
  md_forwarded :: bool
  md_origin :: string
  md_remaining_ms :: int

record CrdtReadData =
  rq_key :: string
  rq_token :: CausalToken
  rq_forwarded :: bool
  rq_origin :: string
  rq_remaining_ms :: int

record CrdtResponseData =
  rs_success :: bool
  rs_type :: "CrdtType option"
  rs_value :: json
  rs_token :: CausalToken
  rs_served_by :: string
  rs_repair :: bool
  rs_error_code :: int
  rs_error_message :: string
  rs_state :: "StoredCrdtEntry option"
  rs_frontier :: VersionVector

definition mutation_to_proto :: "CrdtMutationData \<Rightarrow> MutationProto result" where
  "mutation_to_proto req =
     (if md_operation req = ''increment'' then
        (if md_amount req < 1 then raise DecodeError ''increment amount must be >= 1'' else Inr (MuIncrement (md_amount req)))
      else if md_operation req = ''decrement'' then
        (if md_amount req < 1 then raise DecodeError ''decrement amount must be >= 1'' else Inr (MuDecrement (md_amount req)))
      else if md_operation req = ''add'' then
        (case md_value req of JStr element \<Rightarrow> Inr (MuSetAdd element) | _ \<Rightarrow> raise DecodeError ''ORSet add value must be a string'')
      else if md_operation req = ''remove'' then
        (case md_value req of JStr element \<Rightarrow> Inr (MuSetRemove element) | _ \<Rightarrow> raise DecodeError ''ORSet remove value must be a string'')
      else if md_operation req = ''write'' then Inr (MuRegisterWrite (json_dump_sorted (md_value req)))
      else raise DecodeError (''unsupported mutation operation: '' @ md_operation req))"

definition encode_mutation_request :: "MutationRequestProto serializer \<Rightarrow> CrdtMutationData \<Rightarrow> char list result" where
  "encode_mutation_request ser req =
     (if md_key req = [] then raise DecodeError ''CRDT key is required''
      else rbind (mutation_to_proto req) (\<lambda>mutation.
        ser \<lparr>pm_key = md_key req, pm_type = type_to_proto (md_type req), pm_token = token_to_proto (md_token req),
             pm_forwarded = md_forwarded req, pm_origin = md_origin req, pm_remaining_ms = md_remaining_ms req,
             pm_mutation = mutation\<rparr>))"

fun mutation_from_proto :: "MutationProto \<Rightarrow> (string \<times> json \<times> int) result" where
  "mutation_from_proto (MuIncrement amount) = Inr (''increment'', JNull, amount)"
| "mutation_from_proto (MuDecrement amount) = Inr (''decrement'', JNull, amount)"
| "mutation_from_proto (MuSetAdd element) = Inr (''add'', JStr element, 0)"
| "mutation_from_proto (MuSetRemove element) = Inr (''remove'', JStr element, 0)"
| "mutation_from_proto (MuRegisterWrite value_json) = rbind (json_load_payload value_json) (\<lambda>v. Inr (''write'', v, 0))"
| "mutation_from_proto MuUnset = raise DecodeError ''mutation is required''"

definition decode_mutation_request :: "MutationRequestProto parser \<Rightarrow> char list \<Rightarrow> CrdtMutationData result" where
  "decode_mutation_request par data =
     (case par data of
        None \<Rightarrow> raise DecodeError ''invalid CrdtMutationRequest protobuf''
      | Some msg \<Rightarrow>
          if pm_key msg = [] then raise DecodeError ''CRDT key is required''
          else rbind (type_from_proto (pm_type msg)) (\<lambda>crdt_type.
               rbind (mutation_from_proto (pm_mutation msg)) (\<lambda>(operation, value, amount).
               rbind (token_from_proto (pm_token msg)) (\<lambda>token.
               Inr \<lparr>md_key = pm_key msg, md_type = crdt_type, md_operation = operation, md_value = value,
                    md_amount = amount, md_token = token, md_forwarded = pm_forwarded msg, md_origin = pm_origin msg,
                    md_remaining_ms = pm_remaining_ms msg\<rparr>))))"

definition encode_read_request :: "ReadRequestProto serializer \<Rightarrow> CrdtReadData \<Rightarrow> char list result" where
  "encode_read_request ser req =
     (if rq_key req = [] then raise DecodeError ''CRDT key is required''
      else ser \<lparr>pq_key = rq_key req, pq_token = token_to_proto (rq_token req), pq_forwarded = rq_forwarded req,
                pq_origin = rq_origin req, pq_remaining_ms = rq_remaining_ms req\<rparr>)"

definition decode_read_request :: "ReadRequestProto parser \<Rightarrow> char list \<Rightarrow> CrdtReadData result" where
  "decode_read_request par data =
     (case par data of
        None \<Rightarrow> raise DecodeError ''invalid CrdtReadRequest protobuf''
      | Some msg \<Rightarrow>
          if pq_key msg = [] then raise DecodeError ''CRDT key is required''
          else rbind (token_from_proto (pq_token msg)) (\<lambda>token.
            Inr \<lparr>rq_key = pq_key msg, rq_token = token, rq_forwarded = pq_forwarded msg, rq_origin = pq_origin msg,
                 rq_remaining_ms = pq_remaining_ms msg\<rparr>))"

definition encode_crdt_response :: "ResponseProto serializer \<Rightarrow> CrdtResponseData \<Rightarrow> char list result" where
  "encode_crdt_response ser r =
     (let kind = (case rs_type r of None \<Rightarrow> 0 | Some t \<Rightarrow> type_to_proto t) in
      if rs_success r then
        rbind (case rs_state r of None \<Rightarrow> Inr None | Some e \<Rightarrow> rbind (state_to_proto e) (\<lambda>p. Inr (Some p))) (\<lambda>state.
          ser \<lparr>po_success = True, po_type = kind, po_value_json = json_dump_sorted (rs_value r),
               po_token = token_to_proto (rs_token r), po_served_by = rs_served_by r, po_repair = rs_repair r,
               po_error_code = 0, po_error_message = [], po_state = state,
               po_frontier = Some (version_to_proto (rs_frontier r))\<rparr>)
      else
        ser \<lparr>po_success = False, po_type = kind, po_value_json = [], po_token = [], po_served_by = [], po_repair = False,
             po_error_code = rs_error_code r, po_error_message = rs_error_message r, po_state = None, po_frontier = None\<rparr>)"

definition decode_crdt_response :: "ResponseProto parser \<Rightarrow> char list \<Rightarrow> CrdtResponseData result" where
  "decode_crdt_response par data =
     (case par data of
        None \<Rightarrow> raise DecodeError ''invalid CrdtResponse protobuf''
      | Some msg \<Rightarrow>
          rbind (if po_success msg \<and> po_type msg \<noteq> 0 then rbind (type_from_proto (po_type msg)) (\<lambda>t. Inr (Some t)) else Inr None) (\<lambda>crdt_type.
          rbind (if po_success msg then json_load_payload (po_value_json msg) else Inr JNull) (\<lambda>value.
          rbind (if po_success msg then token_from_proto (po_token msg) else Inr token_empty) (\<lambda>token.
          rbind (case po_state msg of
                   Some s \<Rightarrow> if po_success msg then rbind (state_from_proto s) (\<lambda>e. Inr (Some e)) else Inr None
                 | None \<Rightarrow> Inr None) (\<lambda>state.
          rbind (case po_frontier msg of
                   Some v \<Rightarrow> if po_success msg then version_from_proto v else Inr vv_empty
                 | None \<Rightarrow> Inr vv_empty) (\<lambda>frontier.
          Inr \<lparr>rs_success = po_success msg, rs_type = crdt_type, rs_value = value, rs_token = token,
               rs_served_by = po_served_by msg, rs_repair = po_repair msg, rs_error_code = po_error_code msg,
               rs_error_message = po_error_message msg, rs_state = state, rs_frontier = frontier\<rparr>))))))"

definition encode_replication :: "CrdtStateProto serializer \<Rightarrow> StoredCrdtEntry \<Rightarrow> char list result" where
  "encode_replication ser entry = rbind (state_to_proto entry) ser"

definition decode_replication :: "CrdtStateProto parser \<Rightarrow> char list \<Rightarrow> StoredCrdtEntry result" where
  "decode_replication par data =
     (case par data of None \<Rightarrow> raise DecodeError ''invalid CrdtReplicate protobuf'' | Some msg \<Rightarrow> state_from_proto msg)"

definition encode_fetch_request :: "string serializer \<Rightarrow> string \<Rightarrow> char list result" where
  "encode_fetch_request ser key = (if key = [] then raise DecodeError ''CRDT key is required'' else ser key)"

definition decode_fetch_request :: "string parser \<Rightarrow> char list \<Rightarrow> string result" where
  "decode_fetch_request par data =
     (case par data of
        None \<Rightarrow> raise DecodeError ''invalid CrdtFetch protobuf''
      | Some key \<Rightarrow> if key = [] then raise DecodeError ''CRDT key is required'' else Inr key)"

definition encode_digest_request ::
  "DigestRequestProto serializer \<Rightarrow> string \<Rightarrow> CrdtDigestEntry list \<Rightarrow> int \<Rightarrow> char list result" where
  "encode_digest_request ser requester entries batch_size =
     ser \<lparr>dr_requester = requester, dr_entries = map digest_to_proto entries, dr_batch_size = batch_size\<rparr>"

definition decode_digest_request ::
  "DigestRequestProto parser \<Rightarrow> char list \<Rightarrow> (string \<times> CrdtDigestEntry list \<times> int) result" where
  "decode_digest_request par data =
     (case par data of
        None \<Rightarrow> raise DecodeError ''invalid CrdtDigest protobuf''
      | Some msg \<Rightarrow>
          rbind (rmap digest_from_proto (dr_entries msg)) (\<lambda>entries. Inr (dr_requester msg, entries, dr_batch_size msg)))"

definition encode_digest_response :: "DigestProto list serializer \<Rightarrow> CrdtDigestEntry list \<Rightarrow> char list result" where
  "encode_digest_response ser entries = ser (map digest_to_proto entries)"

definition decode_digest_response :: "DigestProto list parser \<Rightarrow> char list \<Rightarrow> CrdtDigestEntry list result" where
  "decode_digest_response par data =
     (case par data of
        None \<Rightarrow> raise DecodeError ''invalid CrdtDigestResponse protobuf''
      | Some msg \<Rightarrow> rmap digest_from_proto msg)"

section \<open>Round trips of the parts\<close>

lemma json_payload_round_trip: "json_ok v \<Longrightarrow> json_load_payload (json_dump_sorted v) = Inr (jsort v)"
  using utf8_nonempty [OF jprint_nonempty, of "jsort v"]
  by (simp add: json_load_payload_def json_dump_sorted_def utf8_decode_utf8 loads_dumps_sorted)
    (simp add: dumps_sorted_def)

lemma actor_round_trip: "actor_ok a \<Longrightarrow> actor_from_proto (actor_to_proto a) = Inr a"
  by (simp add: actor_ok_def actor_from_proto_def actor_to_proto_def CausalActor_init_def)

lemma dot_round_trip: "dot_ok d \<Longrightarrow> dot_from_proto (dot_to_proto d) = Inr d"
  by (simp add: dot_ok_def dot_from_proto_def dot_to_proto_def actor_round_trip Dot_init_def)

lemma components_round_trip:
  assumes "cok items" "\<forall>(a, c) \<in> set items. actor_ok a"
  shows "rfold add_component [] (map (\<lambda>(actor, c). (actor_to_proto actor, c)) items) = Inr items"
proof -
  have "rfold add_component [] (map (\<lambda>(actor, c). (actor_to_proto actor, c)) items) = Inr ([] @ items)"
    by (rule rfold_updates) (use assms cok_items in \<open>auto simp: add_component_def actor_round_trip\<close>)
  then show ?thesis by simp
qed

lemma version_round_trip: "vv_wf v \<Longrightarrow> version_from_proto (version_to_proto v) = Inr v"
  using cok_items [of "vv_items v"] cnorm_id [of "vv_items v"] components_round_trip [of "vv_items v"]
  by (simp add: vv_wf_def vv_ok_def version_from_proto_def version_to_proto_def VersionVector_init_def vv_normalized_def)

lemma token_round_trip: "vv_wf (tok_version t) \<Longrightarrow> token_from_proto (token_to_proto t) = Inr t"
  by (simp add: token_from_proto_def token_to_proto_def version_round_trip)

lemma gcounter_round_trip: "gc_wf c \<Longrightarrow> gcounter_from_proto (gcounter_to_proto c) = Inr c"
  using cok_items [of "gc_components c"] cnorm_id [of "gc_components c"] components_round_trip [of "gc_components c"]
  by (simp add: gc_wf_def gc_ok_def gcounter_from_proto_def gcounter_to_proto_def GCounter_init_def)

lemma dots_round_trip: "finite ds \<Longrightarrow> \<forall>d \<in> ds. dot_ok d \<Longrightarrow> dots_from_proto (dots_to_proto ds) = Inr ds"
proof -
  have "rmap dot_from_proto (map dot_to_proto xs) = Inr xs" if "\<forall>d \<in> set xs. dot_ok d" for xs
    using that by (induction xs) (simp_all add: dot_round_trip)
  then show "finite ds \<Longrightarrow> \<forall>d \<in> ds. dot_ok d \<Longrightarrow> dots_from_proto (dots_to_proto ds) = Inr ds"
    by (simp add: dots_from_proto_def dots_to_proto_def)
qed

lemma adds_round_trip:
  assumes "state_wf (SORSet s)"
  shows "rfold add_element [] (map (\<lambda>(element, dots). (element, dots_to_proto dots)) (or_adds s)) = Inr (or_adds s)"
proof -
  have step: "add_element acc (e, dots_to_proto ds) = Inr (AList.update e ds acc)" if "(e, ds) \<in> set (or_adds s)" for acc e ds
  proof -
    have "finite ds" "\<forall>d \<in> ds. dot_ok d" using assms that by (auto simp: or_ok_def)
    then show ?thesis by (simp add: add_element_def dots_round_trip)
  qed
  have "rfold add_element [] (map (\<lambda>(element, dots). (element, dots_to_proto dots)) (or_adds s)) = Inr ([] @ or_adds s)"
    by (rule rfold_updates) (use step assms in \<open>auto simp: or_ok_def canon_distinct\<close>)
  then show ?thesis by simp
qed

lemma register_round_trip:
  assumes "state_wf (SMVRegister r)"
  shows "rfold add_register_value [] (map (\<lambda>(dot, encoded). (dot_to_proto dot, utf8 encoded)) (mv_entries r)) =
    Inr (mv_entries r)"
proof -
  have step: "add_register_value acc (dot_to_proto d, utf8 t) = Inr (AList.update d t acc)" if "(d, t) \<in> set (mv_entries r)" for acc d t
  proof -
    have "dot_ok d" "\<exists>v. loads t = Inr v" using assms that by auto
    then show ?thesis by (auto simp: add_register_value_def utf8_decode_utf8 dot_round_trip)
  qed
  have "rfold add_register_value [] (map (\<lambda>(dot, encoded). (dot_to_proto dot, utf8 encoded)) (mv_entries r)) =
    Inr ([] @ mv_entries r)"
    by (rule rfold_updates) (use step assms in \<open>auto simp: mv_ok_def canon_distinct\<close>)
  then show ?thesis by simp
qed

lemma type_round_trip [simp]: "type_from_proto (type_to_proto t) = Inr t"
  by (cases t) (simp_all add: type_from_proto_def)

text \<open>The states whose \<^verbatim>\<open>oneof\<close> is set.\<close>

definition sendable :: "CrdtState \<Rightarrow> bool" where
  "sendable s \<longleftrightarrow> s \<noteq> SORSet or_empty \<and> s \<noteq> SMVRegister mv_empty"

lemma state_of_proto_round_trip:
  assumes "state_wf s" "sendable s"
  shows "state_of_proto (state_type s) (state_proto s) = Inr s"
proof (cases s)
  case (SORSet t)
  then have "\<not> (or_adds t = [] \<and> or_removed t = {})" using assms(2) by (cases t) (simp add: sendable_def or_empty_def)
  moreover have "canon (or_adds t)" "dots_from_proto (dots_to_proto (or_removed t)) = Inr (or_removed t)"
    using assms(1) SORSet by (simp_all add: or_ok_def dots_round_trip)
  ultimately show ?thesis
    using assms(1) SORSet adds_round_trip [of t] by (simp add: ORSet_init_def sort_key_canon del: state_wf.simps)
next
  case (SMVRegister r)
  then have "\<not> (mv_entries r = [] \<and> mv_superseded r = {})" using assms(2) by (cases r) (simp add: sendable_def mv_empty_def)
  moreover have "canon (mv_entries r)" "dots_from_proto (dots_to_proto (mv_superseded r)) = Inr (mv_superseded r)"
    using assms(1) SMVRegister by (simp_all add: mv_ok_def dots_round_trip)
  ultimately show ?thesis
    using assms(1) SMVRegister register_round_trip [of r] by (simp add: MVRegister_init_def sort_key_canon del: state_wf.simps)
qed (use assms in \<open>simp_all add: gcounter_round_trip\<close>)

lemma state_round_trip:
  assumes "entry_wf e" "sendable (se_state e)" "state_to_proto e = Inr p"
  shows "state_from_proto p = Inr e"
  using assms state_of_proto_round_trip [of "se_state e"]
  by (auto simp: entry_wf_def state_to_proto_def state_from_proto_def version_round_trip StoredCrdtEntry_init_def
      split: if_splits)

definition digest_wf :: "CrdtDigestEntry \<Rightarrow> bool" where
  "digest_wf d \<longleftrightarrow> vv_wf (dg_version d) \<and> vv_wf (dg_context d)"

lemma digest_round_trip: "digest_wf d \<Longrightarrow> digest_from_proto (digest_to_proto d) = Inr d"
  by (simp add: digest_wf_def digest_from_proto_def digest_to_proto_def version_round_trip)

lemma digests_round_trip: "list_all digest_wf ds \<Longrightarrow> rmap digest_from_proto (map digest_to_proto ds) = Inr ds"
  by (induction ds) (simp_all add: digest_round_trip)

lemma entry_digest_wf: "entry_wf e \<Longrightarrow> digest_wf (digest_from_entry e)"
  by (simp add: entry_wf_def digest_wf_def digest_from_entry_def)

section \<open>Round trips of the messages\<close>

lemma replication_round_trip:
  assumes "inverts par ser" "entry_wf e" "sendable (se_state e)" "encode_replication ser e = Inr b"
  shows "decode_replication par b = Inr e"
  using assms state_round_trip [OF assms(2,3)]
  by (cases "state_to_proto e") (auto simp: encode_replication_def decode_replication_def dest: invertsD)

lemma digest_messages_round_trip:
  assumes "list_all digest_wf ds"
  shows "inverts par ser \<Longrightarrow> encode_digest_request ser node ds n = Inr b \<Longrightarrow> decode_digest_request par b = Inr (node, ds, n)"
    and "inverts par' ser' \<Longrightarrow> encode_digest_response ser' ds = Inr b \<Longrightarrow> decode_digest_response par' b = Inr ds"
  using digests_round_trip [OF assms]
  by (simp_all add: encode_digest_request_def decode_digest_request_def encode_digest_response_def
      decode_digest_response_def invertsD)

text \<open>
  A request as its decoder rebuilds it: counters carry no value, the other operations no
  amount, and the members of a written object are sorted.
\<close>

definition request_norm :: "CrdtMutationData \<Rightarrow> CrdtMutationData" where
  "request_norm req =
     (if md_operation req = ''increment'' \<or> md_operation req = ''decrement'' then req\<lparr>md_value := JNull\<rparr>
      else if md_operation req = ''write'' then req\<lparr>md_value := jsort (md_value req), md_amount := 0\<rparr>
      else req\<lparr>md_amount := 0\<rparr>)"

lemma mutation_part_round_trip:
  assumes "json_ok (md_value req)" "mutation_to_proto req = Inr m"
  shows "mutation_from_proto m =
    Inr (md_operation (request_norm req), md_value (request_norm req), md_amount (request_norm req))"
  using assms json_payload_round_trip [OF assms(1)]
  by (auto simp: mutation_to_proto_def request_norm_def split: if_splits json.splits)

lemma mutation_round_trip:
  assumes "inverts par ser" "json_ok (md_value req)" "vv_wf (tok_version (md_token req))"
    and "encode_mutation_request ser req = Inr b"
  shows "decode_mutation_request par b = Inr (request_norm req)"
proof -
  obtain m where m: "mutation_to_proto req = Inr m" and key: "md_key req \<noteq> []"
    using assms(4) by (cases "mutation_to_proto req") (auto simp: encode_mutation_request_def split: if_splits)
  then have "ser \<lparr>pm_key = md_key req, pm_type = type_to_proto (md_type req), pm_token = token_to_proto (md_token req),
      pm_forwarded = md_forwarded req, pm_origin = md_origin req, pm_remaining_ms = md_remaining_ms req,
      pm_mutation = m\<rparr> = Inr b"
    using assms(4) by (simp add: encode_mutation_request_def)
  from invertsD [OF assms(1) this] show ?thesis
    using key mutation_part_round_trip [OF assms(2) m] token_round_trip [OF assms(3)]
    by (simp add: decode_mutation_request_def) (simp add: request_norm_def)
qed

lemma read_round_trip:
  assumes "inverts par ser" "vv_wf (tok_version (rq_token req))" "encode_read_request ser req = Inr b"
  shows "decode_read_request par b = Inr req"
  using assms by (auto simp: encode_read_request_def decode_read_request_def token_round_trip dest: invertsD split: if_splits)

definition response_wf :: "CrdtResponseData \<Rightarrow> bool" where
  "response_wf r \<longleftrightarrow> json_ok (rs_value r) \<and> vv_wf (tok_version (rs_token r)) \<and> vv_wf (rs_frontier r) \<and>
     (\<forall>e \<in> set_option (rs_state r). entry_wf e \<and> sendable (se_state e))"

text \<open>What a peer sees of a response: of an error only its code and its message.\<close>

definition response_seen :: "CrdtResponseData \<Rightarrow> CrdtResponseData" where
  "response_seen r =
     (if rs_success r then r\<lparr>rs_value := jsort (rs_value r), rs_error_code := 0, rs_error_message := []\<rparr>
      else \<lparr>rs_success = False, rs_type = None, rs_value = JNull, rs_token = token_empty, rs_served_by = [],
            rs_repair = False, rs_error_code = rs_error_code r, rs_error_message = rs_error_message r,
            rs_state = None, rs_frontier = vv_empty\<rparr>)"

lemma type_to_proto_nonzero [simp]: "type_to_proto t \<noteq> 0"
  by (cases t) simp_all

lemma response_round_trip:
  assumes "inverts par ser" "response_wf r" "encode_crdt_response ser r = Inr b"
  shows "decode_crdt_response par b = Inr (response_seen r)"
proof (cases "rs_success r")
  case True
  note wf = assms(2) [unfolded response_wf_def]
  obtain st where st: "(case rs_state r of None \<Rightarrow> Inr None | Some e \<Rightarrow> rbind (state_to_proto e) (\<lambda>p. Inr (Some p))) = Inr st"
    using assms(3) True
    by (cases "case rs_state r of None \<Rightarrow> Inr None | Some e \<Rightarrow> rbind (state_to_proto e) (\<lambda>p. Inr (Some p))")
      (auto simp: encode_crdt_response_def)
  have state: "(case st of Some s \<Rightarrow> rbind (state_from_proto s) (\<lambda>e. Inr (Some e)) | None \<Rightarrow> Inr None) = Inr (rs_state r)"
  proof (cases "rs_state r")
    case (Some e)
    then obtain p where "state_to_proto e = Inr p" "st = Some p" using st by (cases "state_to_proto e") auto
    then show ?thesis using Some wf state_round_trip [of e p] by simp
  qed (use st in simp)
  note parsed = invertsD [OF assms(1)]
  have "decode_crdt_response par b = Inr (response_seen r)" if "par b = Some
      \<lparr>po_success = True, po_type = (case rs_type r of None \<Rightarrow> 0 | Some t \<Rightarrow> type_to_proto t),
       po_value_json = json_dump_sorted (rs_value r), po_token = token_to_proto (rs_token r), po_served_by = rs_served_by r,
       po_repair = rs_repair r, po_error_code = 0, po_error_message = [], po_state = st,
       po_frontier = Some (version_to_proto (rs_frontier r))\<rparr>"
    using that True state wf
    by (simp add: decode_crdt_response_def response_seen_def json_payload_round_trip token_round_trip version_round_trip
        split: option.splits)
  then show ?thesis using assms(3) True st by (simp add: encode_crdt_response_def Let_def parsed)
next
  case False
  then show ?thesis using assms(3) invertsD [OF assms(1)]
    by (simp add: encode_crdt_response_def decode_crdt_response_def response_seen_def Let_def)
qed


definition wire_actor :: CausalActor where
  "wire_actor = CausalActor ''n1'' 1"

definition wire_version :: VersionVector where
  "wire_version = VersionVector [(wire_actor, 2)]"

definition wire_entry :: StoredCrdtEntry where
  "wire_entry =
     \<lparr>se_key = ''k'', se_type = ORSET, se_state = SORSet (ORSet [(''x'', {Dot wire_actor 1})] {Dot wire_actor 1}),
      se_version = wire_version, se_context = wire_version\<rparr>"

definition wire_mutation :: CrdtMutationData where
  "wire_mutation =
     \<lparr>md_key = ''k'', md_type = ORSET, md_operation = ''add'', md_value = JStr ''x'', md_amount = 0,
      md_token = CausalToken wire_version, md_forwarded = True, md_origin = ''n2'', md_remaining_ms = 400\<rparr>"

definition wire_read :: CrdtReadData where
  "wire_read =
     \<lparr>rq_key = ''k'', rq_token = CausalToken wire_version, rq_forwarded = False, rq_origin = [], rq_remaining_ms = 0\<rparr>"

definition wire_answer :: CrdtResponseData where
  "wire_answer =
     \<lparr>rs_success = True, rs_type = Some ORSET, rs_value = JArr [], rs_token = CausalToken wire_version,
      rs_served_by = ''n1'', rs_repair = False, rs_error_code = 0, rs_error_message = [],
      rs_state = Some wire_entry, rs_frontier = wire_version\<rparr>"

lemma wire_version_wf: "vv_wf wire_version"
  by (simp add: wire_version_def wire_actor_def vv_wf_def vv_ok_def cok_def canon_def actor_ok_def)

lemma wire_entry_wf: "entry_wf wire_entry" "sendable (se_state wire_entry)"
  by (simp_all add: wire_entry_def entry_wf_def wire_version_wf or_ok_def canon_def dot_ok_def actor_ok_def wire_actor_def
      sendable_def or_empty_def)

lemma wire_answer_wf: "response_wf wire_answer"
  by (simp add: wire_answer_def response_wf_def wire_version_wf wire_entry_wf)


text \<open>
  An empty set is the state a \<^verbatim>\<open>remove\<close> leaves behind on a key that did not exist. Its
  message has no member of the \<^verbatim>\<open>oneof\<close> set, and no peer accepts it.
\<close>

theorem empty_orset_not_replicable:
  assumes "inverts par ser" "se_key e \<noteq> []" "se_type e = ORSET" "se_state e = SORSet (or_remove or_empty element)"
    and "encode_replication ser e = Inr b"
  shows "decode_replication par b = raise DecodeError ''CRDT type/state mismatch''"
  using assms
  by (auto simp: encode_replication_def decode_replication_def state_to_proto_def state_from_proto_def or_remove_def
      or_empty_def ORSet_init_def get_dots_def type_from_proto_def dest: invertsD)

section \<open>What the decoders accept\<close>

lemma rfold_invariant:
  assumes "rfold f acc xs = Inr r" "P acc" "\<And>acc x acc'. P acc \<Longrightarrow> f acc x = Inr acc' \<Longrightarrow> P acc'"
  shows "P r"
  using assms(1,2)
proof (induction xs arbitrary: acc)
  case (Cons x xs)
  then obtain acc' where "f acc x = Inr acc'" by (cases "f acc x") auto
  then show ?case using Cons assms(3) by simp
qed simp

lemma actor_from_proto_ok: "actor_from_proto p = Inr a \<Longrightarrow> actor_ok a"
  by (auto simp: actor_from_proto_def CausalActor_init_def actor_ok_def split: if_splits)

lemma dot_from_proto_ok: "dot_from_proto p = Inr d \<Longrightarrow> dot_ok d"
  by (cases "actor_from_proto (pd_actor p)")
    (auto simp: dot_from_proto_def Dot_init_def dot_ok_def actor_from_proto_ok split: if_splits)

lemma components_ok:
  assumes "rfold add_component [] p = Inr d"
  shows "dict_ok d \<and> (\<forall>(a, c) \<in> set d. actor_ok a)"
proof (rule rfold_invariant [OF assms])
  fix acc x acc'
  assume acc: "dict_ok acc \<and> (\<forall>(a, c) \<in> set acc. actor_ok a)" and step: "add_component acc x = Inr acc'"
  then obtain a where a: "actor_from_proto (fst x) = Inr a" "acc' = AList.update a (snd x) acc"
    by (cases "actor_from_proto (fst x)") (auto simp: add_component_def)
  have "actor_ok b" if "(b, c) \<in> set acc'" for b c
    using set_update_cases [OF that [unfolded a(2)]] acc actor_from_proto_ok [OF a(1)] by auto
  then show "dict_ok acc' \<and> (\<forall>(a, c) \<in> set acc'. actor_ok a)" using acc a(2) by auto
qed simp

lemma cnorm_members: "(a, c) \<in> set (cnorm d) \<Longrightarrow> (a, c) \<in> set d"
  by (simp add: cnorm_def)

lemma version_from_proto_wf: "version_from_proto p = Inr v \<Longrightarrow> vv_wf v"
proof -
  assume v: "version_from_proto p = Inr v"
  then obtain d where d: "rfold add_component [] p = Inr d" by (cases "rfold add_component [] p") (auto simp: version_from_proto_def)
  have "\<not> list_ex (\<lambda>(a, c). c < 0) d" "v = VersionVector (cnorm d)"
    using v d by (auto simp: version_from_proto_def VersionVector_init_def vv_normalized_def split: if_splits)
  then show ?thesis using components_ok [OF d]
    by (force simp: vv_wf_def vv_ok_def list_ex_iff not_less dest: cnorm_members intro!: cok_cnorm)
qed

lemma gcounter_from_proto_wf: "gcounter_from_proto p = Inr c \<Longrightarrow> gc_wf c"
proof -
  assume c: "gcounter_from_proto p = Inr c"
  then obtain d where d: "rfold add_component [] p = Inr d" by (cases "rfold add_component [] p") (auto simp: gcounter_from_proto_def)
  have "\<not> list_ex (\<lambda>(a, c). c < 0) d" "c = GCounter (cnorm d)"
    using c d by (auto simp: gcounter_from_proto_def GCounter_init_def split: if_splits)
  then show ?thesis using components_ok [OF d]
    by (force simp: gc_wf_def gc_ok_def list_ex_iff not_less dest: cnorm_members intro!: cok_cnorm)
qed

lemma dots_from_proto_ok: "dots_from_proto ps = Inr ds \<Longrightarrow> finite ds \<and> (\<forall>d \<in> ds. dot_ok d)"
proof -
  have "rmap dot_from_proto ps = Inr xs \<Longrightarrow> \<forall>d \<in> set xs. dot_ok d" for xs
  proof (induction ps arbitrary: xs)
    case (Cons p ps)
    then show ?case
      by (cases "dot_from_proto p"; cases "rmap dot_from_proto ps") (auto simp: dot_from_proto_ok)
  qed simp
  then show "dots_from_proto ps = Inr ds \<Longrightarrow> finite ds \<and> (\<forall>d \<in> ds. dot_ok d)"
    by (cases "rmap dot_from_proto ps") (auto simp: dots_from_proto_def)
qed

lemma elements_ok:
  assumes "rfold add_element [] items = Inr adds"
  shows "dict_ok adds \<and> (\<forall>(e, ds) \<in> set adds. finite ds \<and> (\<forall>d \<in> ds. dot_ok d))"
proof (rule rfold_invariant [OF assms])
  fix acc x acc'
  assume acc: "dict_ok acc \<and> (\<forall>(e, ds) \<in> set acc. finite ds \<and> (\<forall>d \<in> ds. dot_ok d))" and step: "add_element acc x = Inr acc'"
  then obtain ds where ds: "dots_from_proto (snd x) = Inr ds" "acc' = AList.update (fst x) ds acc"
    by (cases "dots_from_proto (snd x)") (auto simp: add_element_def)
  have "finite cs \<and> (\<forall>d \<in> cs. dot_ok d)" if "(e, cs) \<in> set acc'" for e cs
    using set_update_cases [OF that [unfolded ds(2)]] acc dots_from_proto_ok [OF ds(1)] by auto
  then show "dict_ok acc' \<and> (\<forall>(e, ds) \<in> set acc'. finite ds \<and> (\<forall>d \<in> ds. dot_ok d))" using acc ds(2) by auto
qed simp

lemma register_values_ok:
  assumes "rfold add_register_value [] items = Inr values"
  shows "dict_ok values \<and> (\<forall>(d, t) \<in> set values. dot_ok d \<and> (\<exists>v. loads t = Inr v))"
proof (rule rfold_invariant [OF assms])
  fix acc x acc'
  assume acc: "dict_ok acc \<and> (\<forall>(d, t) \<in> set acc. dot_ok d \<and> (\<exists>v. loads t = Inr v))"
    and step: "add_register_value acc x = Inr acc'"
  obtain t v where t: "utf8_decode (snd x) = Inr t" "loads t = Inr v"
    using step by (cases "utf8_decode (snd x)"; cases "loads (projr (utf8_decode (snd x)))")
      (auto simp: add_register_value_def split: if_splits)
  with step obtain d where d: "dot_from_proto (fst x) = Inr d" "acc' = AList.update d t acc"
    by (cases "dot_from_proto (fst x)") (auto simp: add_register_value_def)
  have "dot_ok c \<and> (\<exists>v. loads s = Inr v)" if "(c, s) \<in> set acc'" for c s
    using set_update_cases [OF that [unfolded d(2)]] acc dot_from_proto_ok [OF d(1)] t(2) by auto
  then show "dict_ok acc' \<and> (\<forall>(d, t) \<in> set acc'. dot_ok d \<and> (\<exists>v. loads t = Inr v))" using acc d(2) by auto
qed simp

lemma state_of_proto_wf:
  assumes "state_of_proto t p = Inr s"
  shows "state_wf s \<and> state_type s = t"
  using assms
proof (induction t p rule: state_of_proto.induct)
  case (1 c)
  then show ?case by (cases "gcounter_from_proto c") (auto simp: gcounter_from_proto_wf)
next
  case (2 p n)
  then show ?case
    by (cases "gcounter_from_proto p"; cases "gcounter_from_proto n") (auto simp: gcounter_from_proto_wf)
next
  case (3 adds removed)
  then obtain as ds where a: "rfold add_element [] adds = Inr as" "dots_from_proto removed = Inr ds"
    by (cases "rfold add_element [] adds"; cases "dots_from_proto removed") auto
  then show ?case using 3 elements_ok [OF a(1)] dots_from_proto_ok [OF a(2)]
    by (fastforce simp: ORSet_init_def or_ok_def canon_sort_key)
next
  case (4 items superseded)
  then obtain vs ds where v: "rfold add_register_value [] items = Inr vs" "dots_from_proto superseded = Inr ds"
    by (cases "rfold add_register_value [] items"; cases "dots_from_proto superseded") auto
  then show ?case using 4 register_values_ok [OF v(1)] dots_from_proto_ok [OF v(2)]
    by (fastforce simp: MVRegister_init_def mv_ok_def canon_sort_key)
qed simp_all

lemma state_from_proto_wf:
  assumes "state_from_proto p = Inr e"
  shows "entry_wf e"
proof -
  obtain t where t: "type_from_proto (ps_type p) = Inr t"
    using assms by (cases "type_from_proto (ps_type p)") (auto simp: state_from_proto_def split: if_splits)
  obtain s where s: "state_of_proto t (ps_state p) = Inr s"
    using assms t by (cases "state_of_proto t (ps_state p)") (auto simp: state_from_proto_def split: if_splits)
  obtain v where v: "version_from_proto (ps_version p) = Inr v"
    using assms t s by (cases "version_from_proto (ps_version p)") (auto simp: state_from_proto_def split: if_splits)
  obtain c where c: "version_from_proto (ps_context p) = Inr c"
    using assms t s v by (cases "version_from_proto (ps_context p)") (auto simp: state_from_proto_def split: if_splits)
  show ?thesis
    using assms t s v c state_of_proto_wf [OF s] version_from_proto_wf [OF v] version_from_proto_wf [OF c]
    by (auto simp: state_from_proto_def StoredCrdtEntry_init_def entry_wf_def split: if_splits)
qed

lemma token_from_proto_wf: "token_from_proto p = Inr t \<Longrightarrow> vv_wf (tok_version t)"
  by (cases "version_from_proto p") (auto simp: token_from_proto_def version_from_proto_wf)

lemma decode_mutation_request_wf:
  assumes "decode_mutation_request par data = Inr m"
  shows "md_key m \<noteq> [] \<and> vv_wf (tok_version (md_token m))"
proof (cases "par data")
  case (Some msg)
  then obtain t q tok where "type_from_proto (pm_type msg) = Inr t" "mutation_from_proto (pm_mutation msg) = Inr q"
    and tok: "token_from_proto (pm_token msg) = Inr tok"
    using assms by (cases "type_from_proto (pm_type msg)"; cases "mutation_from_proto (pm_mutation msg)";
        cases "token_from_proto (pm_token msg)") (auto simp: decode_mutation_request_def split: if_splits prod.splits)
  then show ?thesis using assms Some token_from_proto_wf [OF tok]
    by (auto simp: decode_mutation_request_def split: if_splits prod.splits)
qed (use assms in \<open>simp add: decode_mutation_request_def\<close>)

lemma decode_replication_wf: "decode_replication par data = Inr e \<Longrightarrow> entry_wf e"
  by (cases "par data") (auto simp: decode_replication_def state_from_proto_wf)

lemma decode_read_request_wf:
  assumes "decode_read_request par data = Inr q"
  shows "rq_key q \<noteq> [] \<and> vv_wf (tok_version (rq_token q))"
proof (cases "par data")
  case (Some msg)
  then show ?thesis using assms
    by (cases "token_from_proto (pq_token msg)") (auto simp: decode_read_request_def token_from_proto_wf split: if_splits)
qed (use assms in \<open>simp add: decode_read_request_def\<close>)

lemma digest_from_proto_wf: "digest_from_proto p = Inr d \<Longrightarrow> digest_wf d"
  by (auto simp: digest_from_proto_def digest_wf_def rbind_eq_Inr version_from_proto_wf)

lemma digests_from_proto_wf: "rmap digest_from_proto ps = Inr ds \<Longrightarrow> list_all digest_wf ds"
  by (induction ps arbitrary: ds) (auto simp: rbind_eq_Inr digest_from_proto_wf)

lemma decode_digest_request_wf: "decode_digest_request par data = Inr (r, ds, k) \<Longrightarrow> list_all digest_wf ds"
  by (cases "par data") (auto simp: decode_digest_request_def rbind_eq_Inr digests_from_proto_wf)

lemma decode_digest_response_wf: "decode_digest_response par data = Inr ds \<Longrightarrow> list_all digest_wf ds"
  by (cases "par data") (auto simp: decode_digest_response_def digests_from_proto_wf)

lemma decode_crdt_response_wf:
  assumes "decode_crdt_response par data = Inr r"
  shows "vv_wf (tok_version (rs_token r)) \<and> vv_wf (rs_frontier r) \<and> pred_option entry_wf (rs_state r)"
proof (cases "par data")
  case (Some msg)
  then show ?thesis using assms
    by (auto simp: decode_crdt_response_def rbind_eq_Inr token_from_proto_wf version_from_proto_wf state_from_proto_wf
        token_empty_def split: if_splits option.splits)
qed (use assms in \<open>simp add: decode_crdt_response_def\<close>)

text \<open>C36: Whatever the bytes and whatever the parser makes of them, what a decoder accepts is well
  formed. An entry that \<^verbatim>\<open>decode_replication\<close> or a response carries satisfies every
  invariant of the constructors: key, matching type, positive sorted counters, valid actors
  and dots, and readable register values. A token accepted with a request or a response, and
  the versions of a digest, are well-formed version vectors, so no message can feed the
  clock or a store a malformed frontier.\<close>

theorem crdt_decoders_validate:
  "(case decode_replication ps data of Inr e \<Rightarrow> entry_wf e | Inl e \<Rightarrow> True) \<and>
   (case decode_mutation_request pm data of
      Inr m \<Rightarrow> md_key m \<noteq> [] \<and> vv_wf (tok_version (md_token m)) | Inl e \<Rightarrow> True) \<and>
   (case decode_read_request pr data of
      Inr q \<Rightarrow> rq_key q \<noteq> [] \<and> vv_wf (tok_version (rq_token q)) | Inl e \<Rightarrow> True) \<and>
   (case decode_digest_request pd data of Inr (r, ds, k) \<Rightarrow> list_all digest_wf ds | Inl e \<Rightarrow> True) \<and>
   (case decode_digest_response pl data of Inr ds \<Rightarrow> list_all digest_wf ds | Inl e \<Rightarrow> True) \<and>
   (case decode_crdt_response po data of
      Inr r \<Rightarrow> vv_wf (tok_version (rs_token r)) \<and> vv_wf (rs_frontier r) \<and> pred_option entry_wf (rs_state r)
    | Inl e \<Rightarrow> True)"
  using decode_replication_wf [of ps data] decode_mutation_request_wf [of pm data] decode_read_request_wf [of pr data]
    decode_digest_request_wf [of pd data] decode_digest_response_wf [of pl data] decode_crdt_response_wf [of po data]
  by (simp split: sum.splits prod.splits)

end
