(* ===== verification/Sha256.thy ===== *)
theory Sha256
  imports Py_Text "HOL-Library.Word"
begin

text \<open>
  The digest \<^verbatim>\<open>hashlib.sha256\<close> of the standard library (FIPS 180-4), on which the
  consistent-hash ring and the deterministic values of the program stand. Bytes are
  characters; the digest is the list of its eight 32-bit words.
\<close>

unbundle bit_operations_syntax

type_synonym word32 = "32 word"

text \<open>
  The constants are the first 32 bits after the binary point of the cube roots of the first
  64 primes and of the square roots of the first eight. The \<open>k\<close>-th root of \<open>p * 2 ^ (32 * k)\<close>
  is found bit by bit; the largest prime is 311, so 37 bits are enough for either root.
\<close>

definition small_prime :: "nat \<Rightarrow> bool" where
  "small_prime n = (2 \<le> n \<and> list_all (\<lambda>d. n mod d \<noteq> 0) [2 ..< n])"

definition first_primes :: "nat list" where
  "first_primes = filter small_prime [2 ..< 312]"

fun root_bits :: "nat \<Rightarrow> nat \<Rightarrow> nat \<Rightarrow> nat \<Rightarrow> nat" where
  "root_bits k target 0 r = r"
| "root_bits k target (Suc b) r =
     root_bits k target b (if (r + 2 ^ b) ^ k \<le> target then r + 2 ^ b else r)"

definition root_fraction :: "nat \<Rightarrow> nat \<Rightarrow> word32" where
  "root_fraction k p = of_nat (root_bits k (p * 2 ^ (32 * k)) 37 0)"

definition sha_k :: "word32 list" where
  "sha_k = map (root_fraction 3) first_primes"

definition sha_h0 :: "word32 list" where
  "sha_h0 = map (root_fraction 2) (take 8 first_primes)"

definition small_sigma0 :: "word32 \<Rightarrow> word32" where
  "small_sigma0 x = word_rotr 7 x XOR word_rotr 18 x XOR drop_bit 3 x"

definition small_sigma1 :: "word32 \<Rightarrow> word32" where
  "small_sigma1 x = word_rotr 17 x XOR word_rotr 19 x XOR drop_bit 10 x"

definition big_sigma0 :: "word32 \<Rightarrow> word32" where
  "big_sigma0 x = word_rotr 2 x XOR word_rotr 13 x XOR word_rotr 22 x"

definition big_sigma1 :: "word32 \<Rightarrow> word32" where
  "big_sigma1 x = word_rotr 6 x XOR word_rotr 11 x XOR word_rotr 25 x"

definition sha_ch :: "word32 \<Rightarrow> word32 \<Rightarrow> word32 \<Rightarrow> word32" where
  "sha_ch x y z = (x AND y) XOR (NOT x AND z)"

definition sha_maj :: "word32 \<Rightarrow> word32 \<Rightarrow> word32 \<Rightarrow> word32" where
  "sha_maj x y z = (x AND y) XOR (x AND z) XOR (y AND z)"

definition sha_pad :: "char list \<Rightarrow> char list" where
  "sha_pad m = m @ [char_of (128 :: nat)] @ replicate ((119 - length m mod 64) mod 64) (char_of (0 :: nat)) @
     be_bytes 8 (8 * length m)"

function chunks :: "nat \<Rightarrow> 'a list \<Rightarrow> 'a list list" where
  "chunks n xs = (if n = 0 \<or> xs = [] then [] else take n xs # chunks n (drop n xs))"
  by pat_completeness auto
termination by (relation "measure (\<lambda>(n, xs). length xs)") (auto simp: length_greater_0_conv)

declare chunks.simps [simp del]

text \<open>The message schedule: sixteen words of the block, then forty-eight more, newest first.\<close>

fun sha_schedule :: "nat \<Rightarrow> word32 list \<Rightarrow> word32 list" where
  "sha_schedule 0 ws = ws"
| "sha_schedule (Suc n) ws =
     sha_schedule n ((small_sigma1 (ws ! 1) + ws ! 6 + small_sigma0 (ws ! 14) + ws ! 15) # ws)"

fun sha_round :: "word32 list \<Rightarrow> word32 \<times> word32 \<Rightarrow> word32 list" where
  "sha_round [a, b, c, d, e, f, g, h] (k, w) =
     (let t1 = h + big_sigma1 e + sha_ch e f g + k + w;
          t2 = big_sigma0 a + sha_maj a b c
      in [t1 + t2, a, b, c, d + t1, e, f, g])"
| "sha_round st kw = st"

definition sha_block :: "word32 list \<Rightarrow> char list \<Rightarrow> word32 list" where
  "sha_block st block =
     (let ws = map (\<lambda>bs. of_nat (be_value bs)) (chunks 4 block);
          schedule = rev (sha_schedule 48 (rev ws))
      in map2 (+) st (foldl sha_round st (zip sha_k schedule)))"

definition sha256 :: "char list \<Rightarrow> word32 list" where
  "sha256 m = foldl sha_block sha_h0 (chunks 64 (sha_pad m))"

text \<open>\<^verbatim>\<open>int.from_bytes(digest, "big")\<close>.\<close>

definition digest_int :: "word32 list \<Rightarrow> nat" where
  "digest_int ws = foldl (\<lambda>a w. 2 ^ 32 * a + unat w) 0 ws"

end
