(* ===== verification/Hash_Ring.thy ===== *)
theory Hash_Ring
  imports Membership Sha256
begin

text \<open>
  Placement: the consistent-hash ring of \<^verbatim>\<open>src/src/distsys/cluster/consistent_hash.py\<close>, the
  replica selector of \<^verbatim>\<open>replication/replica_selector.py\<close> and the keyed task router of
  \<^verbatim>\<open>cluster/cluster_router.py\<close>. The theorems: the candidates of a key are the ALIVE
  members, each once, starting at the clockwise successor of the key; when members leave,
  the remaining candidates keep their order, so a replica stays a replica; the router
  answers with the first candidate that does not fail over.
\<close>

section \<open>The ring\<close>

definition ring_hash :: "string \<Rightarrow> nat" where
  "ring_hash value = digest_int (sha256 (utf8 value))"

record ConsistentHashRing =
  hr_virtual :: int
  hr_positions :: "nat list"
  hr_owners :: "ClusterMember list"

definition ConsistentHashRing_init :: "int \<Rightarrow> ConsistentHashRing result" where
  "ConsistentHashRing_init virtual_nodes =
     (if virtual_nodes < 1 then raise ValueError ''virtual_nodes must be at least 1''
      else Inr \<lparr>hr_virtual = virtual_nodes, hr_positions = [], hr_owners = []\<rparr>)"

text \<open>The points in the order the two loops of \<^verbatim>\<open>rebuild\<close> append them, and their sort key.\<close>

definition ring_points :: "int \<Rightarrow> ClusterMember list \<Rightarrow> (nat \<times> ClusterMember) list" where
  "ring_points virtual_nodes members =
     [(ring_hash (cm_node m @ ''#'' @ str_nat i), m). m \<leftarrow> members, cm_status m = ALIVE, i \<leftarrow> [0 ..< nat virtual_nodes]]"

definition point_key :: "nat \<times> ClusterMember \<Rightarrow> nat \<times> string" where
  "point_key pt = (fst pt, cm_node (snd pt))"

definition rebuild :: "ConsistentHashRing \<Rightarrow> ClusterMember list \<Rightarrow> ConsistentHashRing" where
  "rebuild ring members =
     (let points = sort_key point_key (ring_points (hr_virtual ring) members)
      in ring\<lparr>hr_positions := map fst points, hr_owners := map snd points\<rparr>)"

text \<open>\<^verbatim>\<open>bisect.bisect_left\<close> of the standard library.\<close>

function bisect_loop :: "nat list \<Rightarrow> nat \<Rightarrow> nat \<Rightarrow> nat \<Rightarrow> nat" where
  "bisect_loop a x lo hi =
     (if lo < hi then
        (let mid = (lo + hi) div 2
         in if a ! mid < x then bisect_loop a x (mid + 1) hi else bisect_loop a x lo mid)
      else lo)"
  by pat_completeness auto
termination by (relation "measure (\<lambda>(a, x, lo, hi). hi - lo)") auto

declare bisect_loop.simps [simp del]

definition bisect_left :: "nat list \<Rightarrow> nat \<Rightarrow> nat" where
  "bisect_left a x = bisect_loop a x 0 (length a)"

text \<open>The loop of \<^verbatim>\<open>candidates\<close> over the members it visits.\<close>

fun first_visits :: "string set \<Rightarrow> ClusterMember list \<Rightarrow> ClusterMember list" where
  "first_visits seen [] = []"
| "first_visits seen (m # ms) =
     (if cm_node m \<in> seen then first_visits seen ms else m # first_visits (insert (cm_node m) seen) ms)"

definition candidates :: "ConsistentHashRing \<Rightarrow> string \<Rightarrow> ClusterMember list result" where
  "candidates ring key =
     (if hr_positions ring = [] then raise NoRouteError ''no ALIVE cluster members are available''
      else let start = bisect_left (hr_positions ring) (ring_hash key); n = length (hr_owners ring)
           in Inr (first_visits {} (map (\<lambda>offset. hr_owners ring ! ((start + offset) mod n)) [0 ..< n])))"

definition ring_owner :: "ConsistentHashRing \<Rightarrow> string \<Rightarrow> ClusterMember result" where
  "ring_owner ring key =
     rbind (candidates ring key) (\<lambda>ms. case ms of [] \<Rightarrow> raise IndexError ''list index out of range'' | m # _ \<Rightarrow> Inr m)"

section \<open>Replica placement\<close>

record ReplicaSelector =
  rsel_ring :: ConsistentHashRing
  rsel_factor :: int

definition ReplicaSelector_init :: "ConsistentHashRing \<Rightarrow> int \<Rightarrow> ReplicaSelector result" where
  "ReplicaSelector_init ring replication_factor =
     (if replication_factor < 1 then raise ValueError ''replication_factor must be >= 1''
      else Inr \<lparr>rsel_ring = ring, rsel_factor = replication_factor\<rparr>)"

definition replicas :: "ReplicaSelector \<Rightarrow> string \<Rightarrow> ClusterMember list result" where
  "replicas sel key = rbind (candidates (rsel_ring sel) key) (\<lambda>ms. Inr (take (nat (rsel_factor sel)) ms))"

definition is_replica :: "ReplicaSelector \<Rightarrow> string \<Rightarrow> string \<Rightarrow> bool result" where
  "is_replica sel node_id key =
     rbind (replicas sel key) (\<lambda>ms. Inr (list_ex (\<lambda>m. cm_node m = node_id) ms))"

definition first_remote_replica :: "ReplicaSelector \<Rightarrow> string \<Rightarrow> string \<Rightarrow> ClusterMember option result" where
  "first_remote_replica sel local_node_id key =
     rbind (replicas sel key) (\<lambda>ms. Inr (find (\<lambda>m. cm_node m \<noteq> local_node_id) ms))"

section \<open>The cluster router\<close>

text \<open>
  The two error codes of \<^verbatim>\<open>proto/messages.proto\<close> on which the router fails over, and the
  exceptions of a candidate that it catches; the local candidate only when it is overloaded.
\<close>

abbreviation "OVERLOADED \<equiv> (5 :: int)"
abbreviation "RATE_LIMITED \<equiv> (6 :: int)"

definition fails_over :: "string \<Rightarrow> ClusterMember \<Rightarrow> exn \<Rightarrow> bool" where
  "fails_over local_node_id candidate e =
     (if cm_node candidate = local_node_id then exn_cls e = LocalOverloadedError
      else exn_cls e \<in> {PeerTransportError, CircuitOpenError, PeerApplicationError OVERLOADED, PeerApplicationError RATE_LIMITED})"

text \<open>
  The loop of \<^verbatim>\<open>execute\<close>: \<open>expired i\<close> is the answer of \<^verbatim>\<open>deadline.expired()\<close> before the
  \<open>i\<close>-th candidate, and \<open>attempt i c\<close> what executing locally or forwarding to it gives.
\<close>

fun route_loop ::
  "string \<Rightarrow> (nat \<Rightarrow> bool) \<Rightarrow> (nat \<Rightarrow> ClusterMember \<Rightarrow> 'r result) \<Rightarrow> nat \<Rightarrow> bool \<Rightarrow> ClusterMember list \<Rightarrow> 'r result" where
  "route_loop local_node_id expired attempt i saw_failure [] =
     (if saw_failure then raise PeerUnavailableError ''all cluster routing candidates are unavailable''
      else raise PeerUnavailableError ''no usable cluster routing candidate'')"
| "route_loop local_node_id expired attempt i saw_failure (c # cs) =
     (if expired i then raise DeadlineExceeded ''request deadline exceeded during cluster routing''
      else case attempt i c of
             Inr v \<Rightarrow> Inr v
           | Inl e \<Rightarrow>
               if fails_over local_node_id c e then route_loop local_node_id expired attempt (Suc i) True cs else Inl e)"

definition cluster_execute ::
  "ConsistentHashRing \<Rightarrow> string \<Rightarrow> (nat \<Rightarrow> bool) \<Rightarrow> (nat \<Rightarrow> ClusterMember \<Rightarrow> 'r result) \<Rightarrow> string \<Rightarrow> 'r result" where
  "cluster_execute ring local_node_id expired attempt routing_key =
     rbind (candidates ring routing_key) (route_loop local_node_id expired attempt 0 False)"

section \<open>Lemmas on the ring\<close>

lemma bisect_loop_spec:
  "lo \<le> hi \<Longrightarrow> hi \<le> length a \<Longrightarrow> sorted a \<Longrightarrow> (\<And>i. i < lo \<Longrightarrow> a ! i < x) \<Longrightarrow>
   (\<And>i. hi \<le> i \<Longrightarrow> i < length a \<Longrightarrow> x \<le> a ! i) \<Longrightarrow>
     bisect_loop a x lo hi \<le> length a \<and> (\<forall>i < bisect_loop a x lo hi. a ! i < x) \<and>
     (\<forall>i. bisect_loop a x lo hi \<le> i \<longrightarrow> i < length a \<longrightarrow> x \<le> a ! i)"
proof (induction a x lo hi rule: bisect_loop.induct)
  case (1 a x lo hi)
  show ?case
  proof (cases "lo < hi")
    case True
    define mid where "mid = (lo + hi) div 2"
    have mid: "lo \<le> mid" "mid < hi" using True by (auto simp: mid_def)
    have unfold: "bisect_loop a x lo hi = (if a ! mid < x then bisect_loop a x (mid + 1) hi else bisect_loop a x lo mid)"
      by (subst bisect_loop.simps) (simp add: True mid_def)
    show ?thesis
    proof (cases "a ! mid < x")
      case less: True
      have "a ! i < x" if "i < mid + 1" for i
        using sorted_nth_mono [OF "1.prems"(3), of i mid] less that mid "1.prems"(2) by force
      then show ?thesis
        unfolding unfold using "1.IH"(1) [OF True mid_def less] less mid "1.prems" by simp
    next
      case False
      have above: "x \<le> a ! i" if "mid \<le> i" "i < length a" for i
        using sorted_nth_mono [OF "1.prems"(3), of mid i] False that by force
      have len: "mid \<le> length a" using mid "1.prems"(2) by simp
      note IH = "1.IH"(2) [OF True mid_def False mid(1) len "1.prems"(3,4) above]
      show ?thesis unfolding unfold using False by (simp only: if_False) (rule IH)
    qed
  next
    case False
    then have "bisect_loop a x lo hi = lo" by (subst bisect_loop.simps) simp
    then show ?thesis using "1.prems" False by simp
  qed
qed

lemma bisect_left_takeWhile:
  assumes "sorted a"
  shows "bisect_left a x = length (takeWhile (\<lambda>p. p < x) a)"
proof -
  let ?b = "bisect_left a x"
  have b: "?b \<le> length a" "\<forall>i < ?b. a ! i < x" "\<forall>i. ?b \<le> i \<longrightarrow> i < length a \<longrightarrow> x \<le> a ! i"
    unfolding bisect_left_def using bisect_loop_spec [of 0 "length a" a x] assms by auto
  have "takeWhile (\<lambda>p. p < x) a = take ?b a"
  proof (rule takeWhile_eq_take_P_nth)
    show "a ! i < x" if "i < ?b" "i < length a" for i using b(2) that by blast
    show "\<not> a ! ?b < x" if "?b < length a" using b(3) that by force
  qed
  then show ?thesis using b(1) by simp
qed

lemma rotate_visits:
  assumes "s \<le> length xs"
  shows "map (\<lambda>i. xs ! ((s + i) mod length xs)) [0 ..< length xs] = drop s xs @ take s xs"
proof -
  have "map (\<lambda>i. xs ! ((s + i) mod length xs)) [0 ..< length xs] = rotate s xs"
    by (rule nth_equalityI) (simp_all add: nth_rotate)
  also have "\<dots> = drop s xs @ take s xs"
    using assms by (cases "s = length xs") (simp_all add: rotate_drop_take)
  finally show ?thesis .
qed

text \<open>On a list sorted by position, taking and dropping while below is filtering.\<close>

lemma sorted_split:
  assumes "sorted (map fst pts)"
  shows "takeWhile (\<lambda>pt. fst pt < x) pts = filter (\<lambda>pt. fst pt < x) pts"
    and "dropWhile (\<lambda>pt. fst pt < x) pts = filter (\<lambda>pt. x \<le> fst pt) pts"
proof -
  have "takeWhile (\<lambda>pt. fst pt < x) pts = filter (\<lambda>pt. fst pt < x) pts \<and>
      dropWhile (\<lambda>pt. fst pt < x) pts = filter (\<lambda>pt. x \<le> fst pt) pts"
    using assms
  proof (induction pts)
    case (Cons pt pts)
    have "filter (\<lambda>q. fst q < x) pts = []" "filter (\<lambda>q. x \<le> fst q) pts = pts" if "\<not> fst pt < x"
      using Cons.prems that by (force simp: filter_empty_conv filter_id_conv)+
    with Cons show ?case by (auto simp: not_le)
  qed simp
  then show "takeWhile (\<lambda>pt. fst pt < x) pts = filter (\<lambda>pt. fst pt < x) pts"
    and "dropWhile (\<lambda>pt. fst pt < x) pts = filter (\<lambda>pt. x \<le> fst pt) pts" by simp_all
qed

lemma sorted_positions: "sorted (map fst (sort_key point_key pts))"
proof -
  have "sorted (map point_key qs) \<Longrightarrow> sorted (map fst qs)" for qs :: "(nat \<times> ClusterMember) list"
    by (induction qs) (auto simp: point_key_def)
  then show ?thesis by simp
qed

text \<open>The points in the order a key visits them.\<close>

definition visit_order :: "nat \<Rightarrow> (nat \<times> ClusterMember) list \<Rightarrow> (nat \<times> ClusterMember) list" where
  "visit_order h pts =
     (let ps = sort_key point_key pts in filter (\<lambda>pt. h \<le> fst pt) ps @ filter (\<lambda>pt. fst pt < h) ps)"

lemma candidates_visits:
  "candidates (rebuild ring members) key =
     (if ring_points (hr_virtual ring) members = [] then raise NoRouteError ''no ALIVE cluster members are available''
      else Inr (first_visits {} (map snd (visit_order (ring_hash key) (ring_points (hr_virtual ring) members)))))"
proof (cases "ring_points (hr_virtual ring) members = []")
  case True
  then show ?thesis by (simp add: candidates_def rebuild_def)
next
  case False
  let ?ps = "sort_key point_key (ring_points (hr_virtual ring) members)"
  let ?h = "ring_hash key" and ?below = "\<lambda>pt :: nat \<times> ClusterMember. fst pt < ring_hash key"
  let ?s = "length (takeWhile ?below ?ps)"
  have start: "bisect_left (map fst ?ps) ?h = ?s"
    by (simp add: bisect_left_takeWhile sorted_positions takeWhile_map comp_def)
  have le: "?s \<le> length (map snd ?ps)" by (metis length_map length_takeWhile_le)
  have cut: "drop ?s ?ps = dropWhile ?below ?ps" "take ?s ?ps = takeWhile ?below ?ps"
    by (simp_all add: dropWhile_eq_drop takeWhile_eq_take [symmetric])
  have "map (\<lambda>i. map snd ?ps ! ((?s + i) mod length (map snd ?ps))) [0 ..< length (map snd ?ps)] =
      drop ?s (map snd ?ps) @ take ?s (map snd ?ps)" by (rule rotate_visits [OF le])
  also have "\<dots> = map snd (dropWhile ?below ?ps @ takeWhile ?below ?ps)"
    by (simp only: drop_map take_map cut map_append)
  also have "\<dots> = map snd (visit_order ?h (ring_points (hr_virtual ring) members))"
    by (simp only: visit_order_def Let_def sorted_split [OF sorted_positions])
  finally have "map (\<lambda>i. map snd ?ps ! ((?s + i) mod length (map snd ?ps))) [0 ..< length (map snd ?ps)] =
      map snd (visit_order ?h (ring_points (hr_virtual ring) members))" .
  moreover have "?ps \<noteq> []" using False by (metis set_empty set_sort)
  ultimately show ?thesis using False start by (simp add: candidates_def rebuild_def Let_def)
qed

subsection \<open>First visits\<close>

lemma first_visits_nodes:
  "cm_node ` set (first_visits seen ms) = cm_node ` set ms - seen" "distinct (map cm_node (first_visits seen ms))"
  "set (first_visits seen ms) \<subseteq> set ms"
  by (induction seen ms rule: first_visits.induct) auto

lemma first_visits_filter:
  "first_visits seen (filter (\<lambda>m. cm_node m \<in> A) ms) = filter (\<lambda>m. cm_node m \<in> A) (first_visits seen ms)"
proof (induction ms arbitrary: seen)
  case (Cons m ms)
  have skip: "filter (\<lambda>m. cm_node m \<in> A) (first_visits (insert n seen) ms) = filter (\<lambda>m. cm_node m \<in> A) (first_visits seen ms)"
    if "n \<notin> A" for n seen
    using that by (induction ms arbitrary: seen) (auto simp: insert_commute)
  show ?case using Cons skip [of "cm_node m" seen] by simp
qed simp

lemma ring_points_filter:
  "ring_points v (filter (\<lambda>m. cm_node m \<in> A) members) = filter (\<lambda>pt. cm_node (snd pt) \<in> A) (ring_points v members)"
  by (induction members) (auto simp: ring_points_def filter_concat comp_def)

lemma visit_order_filter:
  "visit_order h (filter (\<lambda>pt. cm_node (snd pt) \<in> A) pts) = filter (\<lambda>pt. cm_node (snd pt) \<in> A) (visit_order h pts)"
  by (simp add: visit_order_def Let_def filter_sort [symmetric] conj_commute)

lemma set_visit_order [simp]: "set (visit_order h pts) = set pts"
  by (auto simp: visit_order_def Let_def)

lemma set_ring_points:
  "(p, m) \<in> set (ring_points v members) \<longleftrightarrow>
     m \<in> set members \<and> cm_status m = ALIVE \<and> (\<exists>i < nat v. p = ring_hash (cm_node m @ ''#'' @ str_nat i))"
  by (auto simp: ring_points_def image_iff)

lemma ring_points_members:
  assumes "1 \<le> v"
  shows "snd ` set (ring_points v members) = {m \<in> set members. cm_status m = ALIVE}"
proof (intro equalityI subsetI)
  fix m assume "m \<in> snd ` set (ring_points v members)"
  then show "m \<in> {m \<in> set members. cm_status m = ALIVE}" by (auto simp: set_ring_points)
next
  fix m assume m: "m \<in> {m \<in> set members. cm_status m = ALIVE}"
  have "0 < nat v" using assms by simp
  with m have "(ring_hash (cm_node m @ ''#'' @ str_nat 0), m) \<in> set (ring_points v members)"
    unfolding set_ring_points by blast
  then show "m \<in> snd ` set (ring_points v members)" by (metis image_eqI snd_conv)
qed

lemma ring_points_Nil: "1 \<le> v \<Longrightarrow> ring_points v members = [] \<longleftrightarrow> (\<forall>m \<in> set members. cm_status m \<noteq> ALIVE)"
  using ring_points_members [of v members] by (metis (mono_tags, lifting) empty_Collect_eq image_is_empty set_empty)

lemma distinct_nodes_eq: "distinct (map cm_node members) \<Longrightarrow> m \<in> set members \<Longrightarrow> m' \<in> set members \<Longrightarrow> cm_node m = cm_node m' \<Longrightarrow> m = m'"
  by (auto simp: distinct_map dest: inj_onD)

lemma candidates_members:
  assumes v: "1 \<le> hr_virtual ring" and d: "distinct (map cm_node members)" and c: "candidates (rebuild ring members) key = Inr cs"
  shows "set cs = {m \<in> set members. cm_status m = ALIVE}" "distinct (map cm_node cs)"
proof -
  let ?vs = "map snd (visit_order (ring_hash key) (ring_points (hr_virtual ring) members))"
  have cs: "cs = first_visits {} ?vs" using c by (auto simp: candidates_visits split: if_splits)
  have vs: "set ?vs = {m \<in> set members. cm_status m = ALIVE}" using ring_points_members [OF v, of members] by simp
  show "distinct (map cm_node cs)" unfolding cs by (rule first_visits_nodes(2))
  have sub: "set cs \<subseteq> {m \<in> set members. cm_status m = ALIVE}" using first_visits_nodes(3) [of "{}" ?vs] vs cs by blast
  moreover have "m \<in> set cs" if m: "m \<in> set members" "cm_status m = ALIVE" for m
  proof -
    have "cm_node m \<in> cm_node ` set cs" using first_visits_nodes(1) [of "{}" ?vs] vs cs m by auto
    then obtain m' where "m' \<in> set cs" "cm_node m' = cm_node m" by auto
    then show ?thesis using distinct_nodes_eq [OF d, of m' m] sub m by blast
  qed
  ultimately show "set cs = {m \<in> set members. cm_status m = ALIVE}" by blast
qed

lemma ring_init_virtual: "ConsistentHashRing_init v = Inr ring \<Longrightarrow> 1 \<le> hr_virtual ring"
  by (auto simp: ConsistentHashRing_init_def split: if_splits)

lemma candidates_raise:
  assumes "1 \<le> hr_virtual ring"
  shows "candidates (rebuild ring members) key = Inl e \<longleftrightarrow>
    (\<forall>m \<in> set members. cm_status m \<noteq> ALIVE) \<and> e = Exn NoRouteError ''no ALIVE cluster members are available''"
  using ring_points_Nil [OF assms, of members] by (auto simp: candidates_visits)

lemma candidates_exist:
  assumes "1 \<le> hr_virtual ring" "m \<in> set members" "cm_status m = ALIVE"
  shows "\<exists>c cs. candidates (rebuild ring members) key = Inr (c # cs)"
proof -
  let ?pts = "ring_points (hr_virtual ring) members"
  have "?pts \<noteq> []" using assms ring_points_Nil by blast
  then obtain pt rest where "visit_order (ring_hash key) ?pts = pt # rest"
    by (metis set_visit_order list.exhaust set_empty)
  then show ?thesis using \<open>?pts \<noteq> []\<close> by (simp add: candidates_visits)
qed

lemma visit_order_sorted: "sorted (map (\<lambda>pt. (fst pt < h, point_key pt)) (visit_order h pts))"
proof -
  have srt: "sorted (map point_key (filter P (sort_key point_key pts)))" for P :: "nat \<times> ClusterMember \<Rightarrow> bool"
    by (simp add: sorted_filter)
  have ext: "sorted (map point_key qs) \<Longrightarrow> (\<And>q. q \<in> set qs \<Longrightarrow> (fst q < h) = b) \<Longrightarrow>
      sorted (map (\<lambda>pt. (fst pt < h, point_key pt)) qs)" for qs b
    by (induction qs) auto
  have "sorted (map (\<lambda>pt. (fst pt < h, point_key pt)) (filter (\<lambda>pt. h \<le> fst pt) (sort_key point_key pts)))"
    by (rule ext [OF srt, of _ False]) auto
  moreover have "sorted (map (\<lambda>pt. (fst pt < h, point_key pt)) (filter (\<lambda>pt. fst pt < h) (sort_key point_key pts)))"
    by (rule ext [OF srt, of _ True]) auto
  ultimately show ?thesis by (auto simp: visit_order_def Let_def sorted_append)
qed

lemma candidates_filter:
  assumes "1 \<le> hr_virtual ring"
  shows "candidates (rebuild ring (filter (\<lambda>m. cm_node m \<in> A) members)) key =
    (case candidates (rebuild ring members) key of
       Inl e \<Rightarrow> Inl e
     | Inr cs \<Rightarrow> if filter (\<lambda>m. cm_node m \<in> A) cs = [] then raise NoRouteError ''no ALIVE cluster members are available''
                else Inr (filter (\<lambda>m. cm_node m \<in> A) cs))"
proof -
  let ?pts = "ring_points (hr_virtual ring) members" and ?h = "ring_hash key"
  let ?keep = "filter (\<lambda>m. cm_node m \<in> A)"
  have fv: "first_visits {} (map snd (visit_order ?h (filter (\<lambda>pt. cm_node (snd pt) \<in> A) ?pts))) =
      ?keep (first_visits {} (map snd (visit_order ?h ?pts)))"
    by (simp add: visit_order_filter first_visits_filter [symmetric] filter_map comp_def)
  have "filter (\<lambda>pt. cm_node (snd pt) \<in> A) ?pts = [] \<longleftrightarrow> ?keep (first_visits {} (map snd (visit_order ?h ?pts))) = []"
  proof -
    have "cm_node ` set (first_visits {} (map snd (visit_order ?h ?pts))) = (\<lambda>pt. cm_node (snd pt)) ` set ?pts"
      unfolding first_visits_nodes(1) by (simp add: image_image)
    then have "A \<inter> (\<lambda>pt. cm_node (snd pt)) ` set ?pts = {} \<longleftrightarrow>
        A \<inter> cm_node ` set (first_visits {} (map snd (visit_order ?h ?pts))) = {}" by simp
    then show ?thesis unfolding filter_empty_conv by (simp only: disjoint_iff image_iff) blast
  qed
  with fv show ?thesis by (auto simp: candidates_visits ring_points_filter visit_order_def)
qed

lemma route_loop_find:
  "route_loop l expired attempt i saw cs =
     (case find (\<lambda>j. expired (i + j) \<or> \<not> (\<exists>e. attempt (i + j) (cs ! j) = Inl e \<and> fails_over l (cs ! j) e)) [0 ..< length cs] of
        None \<Rightarrow> if saw \<or> cs \<noteq> [] then raise PeerUnavailableError ''all cluster routing candidates are unavailable''
                else raise PeerUnavailableError ''no usable cluster routing candidate''
      | Some j \<Rightarrow> if expired (i + j) then raise DeadlineExceeded ''request deadline exceeded during cluster routing''
                 else attempt (i + j) (cs ! j))"
proof (induction cs arbitrary: i saw)
  case (Cons c cs)
  let ?P = "\<lambda>i cs j. expired (i + j) \<or> \<not> (\<exists>e. attempt (i + j) (cs ! j) = Inl e \<and> fails_over l (cs ! j) e)"
  have shift: "find P (map Suc js) = map_option Suc (find (\<lambda>j. P (Suc j)) js)" for P js
    by (induction js) auto
  have upt: "[0 ..< length (c # cs)] = 0 # map Suc [0 ..< length cs]" by (metis length_Cons map_Suc_upt upt_conv_Cons zero_less_Suc)
  have "find (?P i (c # cs)) [0 ..< length (c # cs)] =
      (if ?P i (c # cs) 0 then Some 0 else map_option Suc (find (?P (Suc i) cs) [0 ..< length cs]))"
    unfolding upt by (auto simp: shift)
  then show ?case using Cons.IH [of "Suc i" True]
    by (cases "attempt i c") (auto split: option.splits)
qed simp

lemma take_filter: "m \<in> set (take n xs) \<Longrightarrow> P m \<Longrightarrow> m \<in> set (take n (filter P xs))"
proof (induction xs arbitrary: n)
  case (Cons x xs)
  have more: "set (take k ys) \<subseteq> set (take (Suc k) ys)" for k and ys :: "'a list" by (simp add: set_take_subset_set_take)
  from Cons show ?case using more by (cases n) (auto split: if_splits)
qed simp

section \<open>Properties\<close>

text \<open>Two members and a ring, for the witnesses.\<close>

definition example_member :: "string \<Rightarrow> MemberStatus \<Rightarrow> ClusterMember" where
  "example_member n st = \<lparr>cm_node = n, cm_host = ''h'', cm_port = 1, cm_status = st, cm_incarnation = 1\<rparr>"

definition example_ring :: ConsistentHashRing where
  "example_ring = \<lparr>hr_virtual = 64, hr_positions = [], hr_owners = []\<rparr>"

lemma example_member_sel [simp]: "cm_node (example_member n st) = n" "cm_status (example_member n st) = st"
  by (simp_all add: example_member_def)

lemma example_ring_init: "ConsistentHashRing_init 64 = Inr example_ring"
  by (simp add: ConsistentHashRing_init_def example_ring_def)

text \<open>Every key is routed to the ALIVE members and to no others: on a ring rebuilt from
  members with distinct ids, the candidates of a key are exactly the ALIVE ones, each once;
  the lookup raises \<^verbatim>\<open>NoRouteError\<close> exactly when no member is ALIVE.\<close>

theorem ring_routes_to_alive_members:
  assumes "ConsistentHashRing_init v = Inr ring" "distinct (map cm_node members)"
  shows "case candidates (rebuild ring members) key of
      Inl e \<Rightarrow> exn_cls e = NoRouteError \<and> {m \<in> set members. cm_status m = ALIVE} = {}
    | Inr cs \<Rightarrow> distinct (map cm_node cs) \<and> set cs = {m \<in> set members. cm_status m = ALIVE} \<and> cs \<noteq> []"
proof (cases "candidates (rebuild ring members) key")
  case (Inl e)
  then have "(\<forall>m \<in> set members. cm_status m \<noteq> ALIVE) \<and> e = Exn NoRouteError ''no ALIVE cluster members are available''"
    by (rule iffD1 [OF candidates_raise [OF ring_init_virtual [OF assms(1)]]])
  then show ?thesis unfolding Inl by auto
next
  case (Inr cs)
  note alive = candidates_members [OF ring_init_virtual [OF assms(1)] assms(2) Inr]
  have "\<exists>m \<in> set members. cm_status m = ALIVE"
    using Inr candidates_raise [OF ring_init_virtual [OF assms(1)], of members key] by fastforce
  then have "set cs \<noteq> {}" unfolding alive(1) by blast
  then show ?thesis using Inr alive by (cases cs) auto
qed

theorem ring_routes_to_alive_members_witness:
  "\<exists>cs. candidates (rebuild example_ring [example_member ''a'' ALIVE, example_member ''b'' DEAD, example_member ''c'' ALIVE]) ''k'' = Inr cs \<and>
     set cs = {example_member ''a'' ALIVE, example_member ''c'' ALIVE}"
proof -
  let ?ms = "[example_member ''a'' ALIVE, example_member ''b'' DEAD, example_member ''c'' ALIVE]"
  have "distinct (map cm_node ?ms)" by (simp add: example_member_def)
  moreover have "{m \<in> set ?ms. cm_status m = ALIVE} = {example_member ''a'' ALIVE, example_member ''c'' ALIVE}"
    by (auto simp: example_member_def)
  ultimately show ?thesis
    using ring_routes_to_alive_members [OF example_ring_init, of ?ms "''k''"]
    by (cases "candidates (rebuild example_ring ?ms) ''k''") auto
qed

text \<open>C19: The owner of a key is its clockwise successor: its point on the ring is the least one in
  the order that puts the positions from the key's hash on before the ones below it, and
  breaks equal positions by node id.\<close>

theorem ring_owner_is_successor:
  assumes "ring_owner (rebuild ring members) key = Inr m"
  shows "\<exists>p. (p, m) \<in> set (ring_points (hr_virtual ring) members) \<and>
    (\<forall>(q, m') \<in> set (ring_points (hr_virtual ring) members).
       (p < ring_hash key, p, cm_node m) \<le> (q < ring_hash key, q, cm_node m'))"
proof -
  let ?pts = "ring_points (hr_virtual ring) members" and ?h = "ring_hash key"
  obtain ms where ms: "candidates (rebuild ring members) key = Inr (m # ms)"
  proof -
    obtain cs where "candidates (rebuild ring members) key = Inr cs"
      "(case cs of [] \<Rightarrow> raise IndexError ''list index out of range'' | m # _ \<Rightarrow> Inr m) = Inr m"
      using assms unfolding ring_owner_def rbind_eq_Inr by blast
    then show thesis using that by (cases cs) simp_all
  qed
  have ne: "?pts \<noteq> []" and fv: "first_visits {} (map snd (visit_order ?h ?pts)) = m # ms"
    using ms unfolding candidates_visits by (simp_all split: if_splits)
  obtain pt rest where vo: "visit_order ?h ?pts = pt # rest"
    using fv by (cases "visit_order ?h ?pts") auto
  then have m: "snd pt = m" using fv by simp
  have "sorted (map (\<lambda>pt. (fst pt < ?h, point_key pt)) (pt # rest))" using visit_order_sorted [of ?h ?pts] vo by simp
  then have least: "(fst pt < ?h, point_key pt) \<le> (fst q < ?h, point_key q)" if "q \<in> set (pt # rest)" for q
    using that by auto
  have pts: "set (pt # rest) = set ?pts" using vo set_visit_order [of ?h ?pts] by simp
  show ?thesis
  proof (intro exI [of _ "fst pt"] conjI ballI case_prodI2)
    show "(fst pt, m) \<in> set ?pts" using m pts by (metis list.set_intros(1) prod.collapse)
    fix x q m' assume "x \<in> set ?pts" "x = (q, m')"
    then show "(fst pt < ?h, fst pt, cm_node m) \<le> (q < ?h, q, cm_node m')"
      using least [of "(q, m')"] m unfolding pts point_key_def by simp
  qed
qed

theorem ring_owner_is_successor_witness:
  "\<exists>m p. ring_owner (rebuild example_ring [example_member ''a'' ALIVE, example_member ''b'' ALIVE]) ''k'' = Inr m \<and>
     (p, m) \<in> set (ring_points 64 [example_member ''a'' ALIVE, example_member ''b'' ALIVE])"
proof -
  let ?ms = "[example_member ''a'' ALIVE, example_member ''b'' ALIVE]"
  have v: "1 \<le> hr_virtual example_ring" by (simp add: example_ring_def)
  obtain m cs where cs: "candidates (rebuild example_ring ?ms) ''k'' = Inr (m # cs)"
    using candidates_exist [OF v, of "example_member ''a'' ALIVE" ?ms "''k''"] by auto
  then have m: "ring_owner (rebuild example_ring ?ms) ''k'' = Inr m" by (simp add: ring_owner_def)
  with ring_owner_is_successor [OF m] show ?thesis by (auto simp: example_ring_def)
qed

text \<open>C20: Minimal disruption: when members leave the ring, the candidates of every key are the
  old candidates without them, in the same order; no other member moves.\<close>

theorem ring_minimal_disruption:
  assumes "ConsistentHashRing_init v = Inr ring"
  shows "candidates (rebuild ring (filter (\<lambda>m. cm_node m \<in> remaining) members)) key =
    (case candidates (rebuild ring members) key of
       Inl e \<Rightarrow> Inl e
     | Inr cs \<Rightarrow> if filter (\<lambda>m. cm_node m \<in> remaining) cs = []
                then raise NoRouteError ''no ALIVE cluster members are available''
                else Inr (filter (\<lambda>m. cm_node m \<in> remaining) cs))"
  by (rule candidates_filter [OF ring_init_virtual [OF assms]])

theorem ring_minimal_disruption_witness:
  "\<exists>cs. candidates (rebuild example_ring [example_member ''a'' ALIVE, example_member ''b'' ALIVE]) ''k'' = Inr cs \<and>
     candidates (rebuild example_ring [example_member ''b'' ALIVE]) ''k'' = Inr (filter (\<lambda>m. cm_node m \<in> {''b''}) cs)"
proof -
  let ?ms = "[example_member ''a'' ALIVE, example_member ''b'' ALIVE]"
  have v: "1 \<le> hr_virtual example_ring" by (simp add: example_ring_def)
  have keep: "filter (\<lambda>m. cm_node m \<in> {''b''}) ?ms = [example_member ''b'' ALIVE]" by (simp add: example_member_def)
  obtain m cs where cs: "candidates (rebuild example_ring ?ms) ''k'' = Inr (m # cs)"
    using candidates_exist [OF v, of "example_member ''a'' ALIVE" ?ms "''k''"] by auto
  obtain m' cs' where cs': "candidates (rebuild example_ring [example_member ''b'' ALIVE]) ''k'' = Inr (m' # cs')"
    using candidates_exist [OF v, of "example_member ''b'' ALIVE" "[example_member ''b'' ALIVE]" "''k''"] by auto
  have "candidates (rebuild example_ring [example_member ''b'' ALIVE]) ''k'' =
      (if filter (\<lambda>m. cm_node m \<in> {''b''}) (m # cs) = [] then raise NoRouteError ''no ALIVE cluster members are available''
       else Inr (filter (\<lambda>m. cm_node m \<in> {''b''}) (m # cs)))"
    using ring_minimal_disruption [OF example_ring_init, of "{''b''}" ?ms "''k''"] unfolding keep cs by (simp only: sum.case)
  then show ?thesis using cs cs' by (auto split: if_splits)
qed

text \<open>Replica sets are stable and of the right size: a key has as many replicas as the
  replication factor, or as there are ALIVE members when they are fewer, all distinct; and
  a node that replicates a key still does after any other members left.\<close>

theorem replicas_stable:
  assumes "ConsistentHashRing_init v = Inr ring" "distinct (map cm_node members)" "1 \<le> factor"
    and "replicas \<lparr>rsel_ring = rebuild ring members, rsel_factor = factor\<rparr> key = Inr rs"
  shows "length rs = min (nat factor) (card {m \<in> set members. cm_status m = ALIVE}) \<and> distinct (map cm_node rs) \<and>
    (\<forall>n remaining. n \<in> cm_node ` set rs \<and> n \<in> remaining \<longrightarrow>
       is_replica \<lparr>rsel_ring = rebuild ring (filter (\<lambda>m. cm_node m \<in> remaining) members), rsel_factor = factor\<rparr> n key = Inr True)"
proof -
  note v = ring_init_virtual [OF assms(1)]
  obtain cs where cs: "candidates (rebuild ring members) key = Inr cs" "rs = take (nat factor) cs"
    using assms(4) by (auto simp: replicas_def rbind_eq_Inr)
  note alive = candidates_members [OF v assms(2) cs(1)]
  have "length cs = card (set cs)" using alive(2) by (simp add: distinct_card distinct_map)
  then have "length rs = min (nat factor) (card {m \<in> set members. cm_status m = ALIVE})"
    using alive(1) cs(2) by simp
  moreover have "distinct (map cm_node rs)" using alive(2) cs(2) by (simp add: take_map [symmetric])
  moreover have "is_replica \<lparr>rsel_ring = rebuild ring (filter (\<lambda>m. cm_node m \<in> A) members), rsel_factor = factor\<rparr> n key = Inr True"
    if n: "n \<in> cm_node ` set rs" "n \<in> A" for n A
  proof -
    obtain m where m: "m \<in> set (take (nat factor) cs)" "cm_node m = n" using n(1) cs(2) by auto
    then have "m \<in> set (take (nat factor) (filter (\<lambda>m. cm_node m \<in> A) cs))" using n(2) m by (intro take_filter) simp_all
    then have "filter (\<lambda>m. cm_node m \<in> A) cs \<noteq> []" "list_ex (\<lambda>m. cm_node m = n) (take (nat factor) (filter (\<lambda>m. cm_node m \<in> A) cs))"
      using m(2) by (auto simp: list_ex_iff)
    then show ?thesis by (simp add: is_replica_def replicas_def candidates_filter [OF v] cs(1))
  qed
  ultimately show ?thesis by blast
qed

theorem replicas_stable_witness:
  "\<exists>rs. replicas \<lparr>rsel_ring = rebuild example_ring [example_member ''a'' ALIVE, example_member ''b'' ALIVE, example_member ''c'' DEAD],
        rsel_factor = 3\<rparr> ''k'' = Inr rs \<and> length rs = 2"
proof -
  let ?ms = "[example_member ''a'' ALIVE, example_member ''b'' ALIVE, example_member ''c'' DEAD]"
  have v: "1 \<le> hr_virtual example_ring" by (simp add: example_ring_def)
  have d: "distinct (map cm_node ?ms)" by (simp add: example_member_def)
  have alive: "{m \<in> set ?ms. cm_status m = ALIVE} = {example_member ''a'' ALIVE, example_member ''b'' ALIVE}"
    by (auto simp: example_member_def)
  obtain m cs where "candidates (rebuild example_ring ?ms) ''k'' = Inr (m # cs)"
    using candidates_exist [OF v, of "example_member ''a'' ALIVE" ?ms "''k''"] by auto
  then obtain rs where rs: "replicas \<lparr>rsel_ring = rebuild example_ring ?ms, rsel_factor = 3\<rparr> ''k'' = Inr rs"
    by (simp add: replicas_def)
  from replicas_stable [OF example_ring_init d _ rs] rs show ?thesis
    unfolding alive by (auto simp: example_member_def)
qed

text \<open>The router answers with the first candidate, in ring order, that does not fail over
  (the local node overloaded; a peer unreachable, its circuit open, overloaded or rate
  limited), whether that candidate gives a result or an error of its own; it stops with
  \<^verbatim>\<open>DeadlineExceeded\<close> when the deadline passes before that, and raises
  \<^verbatim>\<open>PeerUnavailableError\<close> exactly when every candidate failed over in time.\<close>

theorem router_takes_first_usable_candidate:
  assumes "candidates ring key = Inr cs" "cs \<noteq> []"
  shows "cluster_execute ring local_node_id expired attempt key =
    (case find (\<lambda>i. expired i \<or> \<not> (\<exists>e. attempt i (cs ! i) = Inl e \<and> fails_over local_node_id (cs ! i) e)) [0 ..< length cs] of
       None \<Rightarrow> raise PeerUnavailableError ''all cluster routing candidates are unavailable''
     | Some i \<Rightarrow> if expired i then raise DeadlineExceeded ''request deadline exceeded during cluster routing''
                else attempt i (cs ! i))"
  using assms by (simp add: cluster_execute_def route_loop_find split: option.split)

theorem router_takes_first_usable_candidate_witness:
  "cluster_execute (rebuild example_ring [example_member ''a'' ALIVE, example_member ''b'' ALIVE]) ''z'' (\<lambda>i. False)
     (\<lambda>i c. raise PeerTransportError [] :: unit result) ''k'' =
   raise PeerUnavailableError ''all cluster routing candidates are unavailable''"
proof -
  let ?ms = "[example_member ''a'' ALIVE, example_member ''b'' ALIVE]"
  let ?attempt = "\<lambda>(i :: nat) (c :: ClusterMember). raise PeerTransportError [] :: unit result"
  have v: "1 \<le> hr_virtual example_ring" by (simp add: example_ring_def)
  obtain m cs where cs: "candidates (rebuild example_ring ?ms) ''k'' = Inr (m # cs)"
    using candidates_exist [OF v, of "example_member ''a'' ALIVE" ?ms "''k''"] by auto
  have "set (m # cs) \<subseteq> set ?ms" using candidates_members(1) [OF v _ cs] by auto
  then have remote: "cm_node ((m # cs) ! i) \<noteq> ''z''" if "i < length (m # cs)" for i
  proof -
    have "(m # cs) ! i \<in> set ?ms" using \<open>set (m # cs) \<subseteq> set ?ms\<close> nth_mem [OF that] by blast
    then show ?thesis by (auto simp del: nth_Cons_Suc)
  qed
  have none: "find (\<lambda>i. False \<or> \<not> (\<exists>e. ?attempt i ((m # cs) ! i) = Inl e \<and> fails_over ''z'' ((m # cs) ! i) e))
      [0 ..< length (m # cs)] = None"
    unfolding find_None_iff using remote by (auto simp: fails_over_def simp del: length_Cons)
  show ?thesis
    unfolding router_takes_first_usable_candidate [OF cs list.distinct(2), of "''z''" "\<lambda>i. False" ?attempt] none by simp
qed

end
