(* ===== verification/Resilience.thy ===== *)
theory Resilience
  imports Distsys_Prelude "HOL-Library.Multiset"
begin

text \<open>
  The resilience primitives of \<^verbatim>\<open>src/src/distsys/resilience\<close>: admission control, the
  token bucket, deadlines, retries and the circuit breaker. Readings of the monotonic
  clock, outcomes of operations and random numbers are arguments; times and tokens are
  reals, so the rounding of floating-point arithmetic is left out.
\<close>

section \<open>Admission control\<close>

record BackpressureController =
  bp_capacity :: int
  bp_in_flight :: int

definition BackpressureController_init :: "int \<Rightarrow> BackpressureController result" where
  "BackpressureController_init capacity =
     (if capacity < 1 then raise ValueError ''capacity must be at least 1''
      else Inr \<lparr>bp_capacity = capacity, bp_in_flight = 0\<rparr>)"

definition try_acquire :: "BackpressureController \<Rightarrow> bool \<times> BackpressureController" where
  "try_acquire b =
     (if bp_in_flight b \<ge> bp_capacity b then (False, b) else (True, b\<lparr>bp_in_flight := bp_in_flight b + 1\<rparr>))"

definition release :: "BackpressureController \<Rightarrow> unit result \<times> BackpressureController" where
  "release b =
     (if bp_in_flight b \<le> 0 then (raise RuntimeError ''backpressure release underflow'', b)
      else (Inr (), b\<lparr>bp_in_flight := bp_in_flight b - 1\<rparr>))"

section \<open>The token bucket\<close>

record TokenBucketRateLimiter =
  tb_rate :: real
  tb_burst :: real
  tb_tokens :: real
  tb_last :: real

definition TokenBucketRateLimiter_init :: "real \<Rightarrow> int \<Rightarrow> real \<Rightarrow> TokenBucketRateLimiter result" where
  "TokenBucketRateLimiter_init rate_per_second burst now =
     (if rate_per_second \<le> 0 then raise ValueError ''rate_per_second must be greater than zero''
      else if burst < 1 then raise ValueError ''burst must be at least 1''
      else Inr \<lparr>tb_rate = rate_per_second, tb_burst = real_of_int burst, tb_tokens = real_of_int burst, tb_last = now\<rparr>)"

definition refill :: "TokenBucketRateLimiter \<Rightarrow> real \<Rightarrow> TokenBucketRateLimiter" where
  "refill b now =
     (let elapsed = max 0 (now - tb_last b)
      in b\<lparr>tb_last := now, tb_tokens := min (tb_burst b) (tb_tokens b + elapsed * tb_rate b)\<rparr>)"

definition available_tokens :: "TokenBucketRateLimiter \<Rightarrow> real \<Rightarrow> real \<times> TokenBucketRateLimiter" where
  "available_tokens b now = (let b' = refill b now in (tb_tokens b', b'))"

definition allow :: "TokenBucketRateLimiter \<Rightarrow> real \<Rightarrow> real \<Rightarrow> bool result \<times> TokenBucketRateLimiter" where
  "allow b now cost =
     (if cost \<le> 0 then (raise ValueError ''cost must be greater than zero'', b)
      else let b' = refill b now
           in if tb_tokens b' < cost then (Inr False, b') else (Inr True, b'\<lparr>tb_tokens := tb_tokens b' - cost\<rparr>))"

section \<open>Deadlines\<close>

record Deadline =
  dl_expires_at :: real

definition deadline_after :: "real \<Rightarrow> real \<Rightarrow> Deadline result" where
  "deadline_after seconds now =
     (if seconds \<le> 0 then raise ValueError ''deadline seconds must be greater than zero''
      else Inr \<lparr>dl_expires_at = now + seconds\<rparr>)"

definition remaining :: "Deadline \<Rightarrow> real \<Rightarrow> real" where
  "remaining d now = max 0 (dl_expires_at d - now)"

definition deadline_expired :: "Deadline \<Rightarrow> real \<Rightarrow> bool" where
  "deadline_expired d now = (remaining d now \<le> 0)"

text \<open>
  \<^verbatim>\<open>run\<close>: the awaitable as a function of the timeout it is given; \<open>None\<close> is
  \<^verbatim>\<open>wait_for\<close> giving up on it. A \<^verbatim>\<open>TimeoutError\<close> of the awaitable itself is converted too.
\<close>

definition deadline_run :: "Deadline \<Rightarrow> real \<Rightarrow> (real \<Rightarrow> 'a result option) \<Rightarrow> 'a result" where
  "deadline_run d now awaitable =
     (let timeout = remaining d now in
      if timeout \<le> 0 then raise DeadlineExceeded ''request deadline exceeded''
      else case awaitable timeout of
             None \<Rightarrow> raise DeadlineExceeded ''request deadline exceeded''
           | Some (Inr v) \<Rightarrow> Inr v
           | Some (Inl e) \<Rightarrow>
               (case exn_cls e of
                  Is_OSError (Is_TimeoutError _) \<Rightarrow> raise DeadlineExceeded ''request deadline exceeded''
                | _ \<Rightarrow> Inl e))"

section \<open>Retries\<close>

record RetryPolicy =
  rp_max_attempts :: int
  rp_base_delay :: real
  rp_max_delay :: real

definition RetryPolicy_init :: "int \<Rightarrow> real \<Rightarrow> real \<Rightarrow> RetryPolicy result" where
  "RetryPolicy_init max_attempts base_delay max_delay =
     (if max_attempts < 1 then raise ValueError ''max_attempts must be at least 1''
      else if base_delay < 0 then raise ValueError ''base_delay_seconds cannot be negative''
      else if max_delay < 0 then raise ValueError ''max_delay_seconds cannot be negative''
      else if max_delay < base_delay then raise ValueError ''max_delay_seconds cannot be less than base_delay_seconds''
      else Inr \<lparr>rp_max_attempts = max_attempts, rp_base_delay = base_delay, rp_max_delay = max_delay\<rparr>)"

text \<open>
  What the loop finds at its \<open>i\<close>-th turn: the clock before the attempt, the attempt's
  outcome, the answer of \<^verbatim>\<open>random_fn(0.0, cap)\<close> and the clock when the backoff is chosen.
\<close>

record 'a retry_env =
  re_before :: "nat \<Rightarrow> real"
  re_operation :: "nat \<Rightarrow> 'a result"
  re_random :: "nat \<Rightarrow> real \<Rightarrow> real"
  re_after :: "nat \<Rightarrow> real"

definition backoff_cap :: "RetryPolicy \<Rightarrow> nat \<Rightarrow> real" where
  "backoff_cap policy i = min (rp_max_delay policy) (rp_base_delay policy * 2 ^ i)"

text \<open>
  The loop from turn \<open>i\<close> with \<open>left\<close> turns to go; besides the result it gives the delays it
  slept, in order, and the number of operations it started.
\<close>

fun retry_loop ::
  "RetryPolicy \<Rightarrow> (exn \<Rightarrow> bool) \<Rightarrow> Deadline option \<Rightarrow> 'a retry_env \<Rightarrow> nat \<Rightarrow> nat \<Rightarrow> 'a result \<times> real list \<times> nat" where
  "retry_loop policy should_retry deadline env i 0 = (raise RuntimeError ''retry loop exhausted unexpectedly'', [], 0)"
| "retry_loop policy should_retry deadline env i (Suc left) =
     (if (case deadline of None \<Rightarrow> False | Some d \<Rightarrow> deadline_expired d (re_before env i))
      then (raise DeadlineExceeded ''request deadline exceeded before retry attempt'', [], 0)
      else case re_operation env i of
             Inr v \<Rightarrow> (Inr v, [], 1)
           | Inl e \<Rightarrow>
               if \<not> is_Exception e then (Inl e, [], 1)
               else if int (i + 1) \<ge> rp_max_attempts policy \<or> \<not> should_retry e then (Inl e, [], 1)
               else
                 let cap = backoff_cap policy i;
                     delay = (if cap > 0 then re_random env i cap else 0)
                 in if (case deadline of
                          None \<Rightarrow> False
                        | Some d \<Rightarrow> remaining d (re_after env i) \<le> 0 \<or> delay \<ge> remaining d (re_after env i))
                    then (raise DeadlineExceeded ''request deadline exceeded during retry backoff'', [], 1)
                    else let (r, delays, n) = retry_loop policy should_retry deadline env (Suc i) left
                         in (r, (if delay > 0 then delay # delays else delays), Suc n))"

definition retry_async ::
  "RetryPolicy \<Rightarrow> (exn \<Rightarrow> bool) \<Rightarrow> Deadline option \<Rightarrow> 'a retry_env \<Rightarrow> 'a result \<times> real list \<times> nat" where
  "retry_async policy should_retry deadline env =
     retry_loop policy should_retry deadline env 0 (nat (rp_max_attempts policy))"

section \<open>The circuit breaker\<close>

datatype CircuitState = CLOSED | OPEN | HALF_OPEN

record CircuitBreaker =
  cb_threshold :: int
  cb_recovery :: real
  cb_max_probes :: int
  cb_state :: CircuitState
  cb_failures :: int
  cb_opened_at :: "real option"
  cb_probes :: int

definition CircuitBreaker_init :: "int \<Rightarrow> real \<Rightarrow> int \<Rightarrow> CircuitBreaker result" where
  "CircuitBreaker_init failure_threshold recovery_timeout half_open_max_calls =
     (if failure_threshold < 1 then raise ValueError ''failure_threshold must be at least 1''
      else if recovery_timeout \<le> 0 then raise ValueError ''recovery_timeout_seconds must be greater than zero''
      else if half_open_max_calls < 1 then raise ValueError ''half_open_max_calls must be at least 1''
      else Inr \<lparr>cb_threshold = failure_threshold, cb_recovery = recovery_timeout, cb_max_probes = half_open_max_calls,
                cb_state = CLOSED, cb_failures = 0, cb_opened_at = None, cb_probes = 0\<rparr>)"

definition before_call :: "CircuitBreaker \<Rightarrow> real \<Rightarrow> CircuitState result \<times> CircuitBreaker" where
  "before_call b now =
     (let admit = (\<lambda>b. if cb_state b = HALF_OPEN then
                          (if cb_probes b \<ge> cb_max_probes b
                           then (raise CircuitOpenError ''circuit breaker half-open probe limit reached'', b)
                           else (Inr HALF_OPEN, b\<lparr>cb_probes := cb_probes b + 1\<rparr>))
                        else (Inr (cb_state b), b))
      in if cb_state b = OPEN then
           (case cb_opened_at b of
              None \<Rightarrow> (raise AssertionError [], b)
            | Some t \<Rightarrow>
                if now - t \<ge> cb_recovery b then admit (b\<lparr>cb_state := HALF_OPEN, cb_probes := 0\<rparr>)
                else (raise CircuitOpenError ''circuit breaker is open'', b))
         else admit b)"

definition record_success :: "CircuitBreaker \<Rightarrow> CircuitState \<Rightarrow> CircuitBreaker" where
  "record_success b state_at_start =
     (let b' = (if state_at_start = HALF_OPEN
                then b\<lparr>cb_probes := max 0 (cb_probes b - 1), cb_state := CLOSED, cb_opened_at := None\<rparr> else b)
      in b'\<lparr>cb_failures := 0\<rparr>)"

definition record_failure :: "CircuitBreaker \<Rightarrow> CircuitState \<Rightarrow> real \<Rightarrow> CircuitBreaker" where
  "record_failure b state_at_start now =
     (if state_at_start = HALF_OPEN
      then b\<lparr>cb_probes := max 0 (cb_probes b - 1), cb_state := OPEN, cb_opened_at := Some now, cb_failures := cb_threshold b\<rparr>
      else let b' = b\<lparr>cb_failures := cb_failures b + 1\<rparr>
           in if cb_failures b' \<ge> cb_threshold b' then b'\<lparr>cb_state := OPEN, cb_opened_at := Some now\<rparr> else b')"

text \<open>
  \<^verbatim>\<open>call\<close> when nothing else uses the breaker while the operation runs. A cancellation is no
  \<^verbatim>\<open>Exception\<close>, so neither record runs.
\<close>

definition breaker_call :: "CircuitBreaker \<Rightarrow> real \<Rightarrow> real \<Rightarrow> 'a result \<Rightarrow> 'a result \<times> CircuitBreaker" where
  "breaker_call b now_begin now_end outcome =
     (case before_call b now_begin of
        (Inl e, b') \<Rightarrow> (Inl e, b')
      | (Inr state_at_start, b') \<Rightarrow>
          (case outcome of
             Inr v \<Rightarrow> (Inr v, record_success b' state_at_start)
           | Inl e \<Rightarrow> (Inl e, if is_Exception e then record_failure b' state_at_start now_end else b')))"

section \<open>Histories\<close>

text \<open>Admission: \<open>n\<close> callers hold a slot; only a holder releases.\<close>

inductive admission_reach :: "int \<Rightarrow> BackpressureController \<Rightarrow> nat \<Rightarrow> bool" for capacity where
  Start: "BackpressureController_init capacity = Inr b \<Longrightarrow> admission_reach capacity b 0"
| Admit: "admission_reach capacity b n \<Longrightarrow> try_acquire b = (True, b') \<Longrightarrow> admission_reach capacity b' (Suc n)"
| Reject: "admission_reach capacity b n \<Longrightarrow> try_acquire b = (False, b') \<Longrightarrow> admission_reach capacity b' n"
| Leave: "admission_reach capacity b (Suc n) \<Longrightarrow> release b = (r, b') \<Longrightarrow> admission_reach capacity b' n"

lemma admission_in_flight:
  "admission_reach capacity b n \<Longrightarrow> bp_capacity b = capacity \<and> bp_in_flight b = int n \<and> int n \<le> capacity"
  by (induction rule: admission_reach.induct)
    (auto simp: BackpressureController_init_def try_acquire_def release_def split: if_splits)

text \<open>The bucket over a list of requests, each a time and a cost, and the cost it grants in all.\<close>

fun bucket_run :: "TokenBucketRateLimiter \<Rightarrow> (real \<times> real) list \<Rightarrow> TokenBucketRateLimiter" where
  "bucket_run b [] = b"
| "bucket_run b ((now, cost) # reqs) = bucket_run (snd (allow b now cost)) reqs"

fun granted :: "TokenBucketRateLimiter \<Rightarrow> (real \<times> real) list \<Rightarrow> real" where
  "granted b [] = 0"
| "granted b ((now, cost) # reqs) =
     (if fst (allow b now cost) = Inr True then cost else 0) + granted (snd (allow b now cost)) reqs"

definition bucket_ok :: "TokenBucketRateLimiter \<Rightarrow> bool" where
  "bucket_ok b \<longleftrightarrow> 0 < tb_rate b \<and> 0 \<le> tb_tokens b \<and> tb_tokens b \<le> tb_burst b"

lemma refill_ok:
  assumes "bucket_ok b"
  shows "bucket_ok (refill b now)" "tb_rate (refill b now) = tb_rate b" "tb_burst (refill b now) = tb_burst b"
    "tb_last (refill b now) = now"
    "tb_last b \<le> now \<Longrightarrow> tb_tokens (refill b now) \<le> tb_tokens b + tb_rate b * (now - tb_last b)"
  using assms by (auto simp: refill_def bucket_ok_def Let_def max_def min_def mult.commute)

lemma allow_ok:
  assumes "bucket_ok b"
  shows "bucket_ok (snd (allow b now cost))" "tb_rate (snd (allow b now cost)) = tb_rate b"
    "tb_burst (snd (allow b now cost)) = tb_burst b"
    "tb_last b \<le> now \<Longrightarrow> tb_last (snd (allow b now cost)) \<le> now \<and> tb_last b \<le> tb_last (snd (allow b now cost)) \<and>
       (if fst (allow b now cost) = Inr True then cost else 0) + tb_tokens (snd (allow b now cost)) \<le>
       tb_tokens b + tb_rate b * (tb_last (snd (allow b now cost)) - tb_last b)"
  using assms refill_ok [OF assms, of now] by (auto simp: allow_def Let_def bucket_ok_def)

lemma bucket_run_ok:
  "bucket_ok b \<Longrightarrow> bucket_ok (bucket_run b reqs) \<and> tb_rate (bucket_run b reqs) = tb_rate b \<and>
     tb_burst (bucket_run b reqs) = tb_burst b"
  by (induction b reqs rule: bucket_run.induct) (auto simp: allow_ok)

lemma granted_bound:
  "bucket_ok b \<Longrightarrow> sorted (tb_last b # map fst reqs) \<Longrightarrow>
     granted b reqs + tb_tokens (bucket_run b reqs) \<le>
       tb_tokens b + tb_rate b * (tb_last (bucket_run b reqs) - tb_last b)"
proof (induction b reqs rule: granted.induct)
  case (2 b now cost reqs)
  let ?b = "snd (allow b now cost)"
  have le: "tb_last b \<le> now" using "2.prems"(2) by simp
  note step = allow_ok [OF "2.prems"(1), of now cost]
  have "sorted (tb_last ?b # map fst reqs)" using "2.prems"(2) step(4) [OF le] by auto
  then have "granted ?b reqs + tb_tokens (bucket_run ?b reqs) \<le>
      tb_tokens ?b + tb_rate b * (tb_last (bucket_run ?b reqs) - tb_last ?b)"
    using "2.IH" step(1,2) by simp
  with step(4) [OF le] show ?case by (simp add: algebra_simps)
qed simp

lemma bucket_run_append: "bucket_run b (xs @ ys) = bucket_run (bucket_run b xs) ys"
  by (induction b xs rule: bucket_run.induct) auto

lemma bucket_run_last:
  "bucket_ok b \<Longrightarrow> sorted (tb_last b # map fst reqs) \<Longrightarrow> tb_last b \<le> tb_last (bucket_run b reqs) \<and>
     tb_last (bucket_run b reqs) \<le> last (tb_last b # map fst reqs)"
proof (induction b reqs rule: bucket_run.induct)
  case (2 b now cost reqs)
  let ?b = "snd (allow b now cost)"
  have le: "tb_last b \<le> now" using "2.prems"(2) by simp
  note step = allow_ok [OF "2.prems"(1), of now cost]
  have s: "sorted (tb_last ?b # map fst reqs)" using "2.prems"(2) step(4) [OF le] by auto
  have "last (tb_last ?b # map fst reqs) \<le> last (now # map fst reqs)" using step(4) [OF le] by simp
  with "2.IH" [OF step(1) s] step(4) [OF le] show ?case by auto
qed simp

text \<open>The retry loop: what it returns, how often it tried and how long it slept.\<close>

definition retryable :: "(exn \<Rightarrow> bool) \<Rightarrow> 'a result \<Rightarrow> bool" where
  "retryable should_retry r = (case r of Inr _ \<Rightarrow> False | Inl e \<Rightarrow> is_Exception e \<and> should_retry e)"

lemma retry_loop_spec:
  assumes random: "\<And>i cap. 0 < cap \<Longrightarrow> re_random env i cap \<le> cap"
  shows "rp_max_attempts policy = int (i + left) \<Longrightarrow> 0 < left \<Longrightarrow>
   retry_loop policy should_retry deadline env i left = (r, delays, n) \<Longrightarrow>
     n \<le> left \<and> (\<forall>j. Suc j < n \<longrightarrow> retryable should_retry (re_operation env (i + j))) \<and>
     (\<forall>d \<in> set delays. 0 < d \<and> d \<le> rp_max_delay policy) \<and>
     (0 < n \<and> r = re_operation env (i + n - 1) \<and> (n < left \<longrightarrow> \<not> retryable should_retry r) \<or>
      deadline \<noteq> None \<and> (\<exists>m. r = raise DeadlineExceeded m))"
proof (induction left arbitrary: i r delays n)
  case (Suc left)
  let ?late = "case deadline of None \<Rightarrow> False | Some d \<Rightarrow> deadline_expired d (re_before env i)"
  let ?delay = "if backoff_cap policy i > 0 then re_random env i (backoff_cap policy i) else 0"
  let ?stop = "case deadline of None \<Rightarrow> False
      | Some d \<Rightarrow> remaining d (re_after env i) \<le> 0 \<or> ?delay \<ge> remaining d (re_after env i)"
  have delay: "?delay \<le> rp_max_delay policy" if "0 < ?delay"
    using random [of "backoff_cap policy i" i] that by (auto simp: backoff_cap_def split: if_splits)
  show ?case
  proof (cases "?late")
    case True
    then show ?thesis using Suc.prems(3) by (auto split: option.splits)
  next
    case intime: False
    show ?thesis
    proof (cases "retryable should_retry (re_operation env i) \<and> 0 < left")
      case False
      then have "r = re_operation env i" "n = 1" "delays = []" if "0 < left"
        using Suc.prems(1,3) intime that by (auto simp: retryable_def split: sum.splits if_splits)
      moreover have "r = re_operation env i \<and> n = 1 \<and> delays = []" if "left = 0"
        using Suc.prems(1,3) intime that by (auto split: sum.splits if_splits)
      ultimately show ?thesis using False by (cases "left = 0") auto
    next
      case more: True
      then obtain e where e: "re_operation env i = Inl e" "is_Exception e" "should_retry e"
        by (auto simp: retryable_def split: sum.splits)
      have not_last: "\<not> int (i + 1) \<ge> rp_max_attempts policy" using Suc.prems(1) more by simp
      show ?thesis
      proof (cases "?stop")
        case True
        then have "(r, delays, n) = (raise DeadlineExceeded ''request deadline exceeded during retry backoff'', [], 1)"
          using Suc.prems(3) intime e not_last by (simp add: Let_def)
        then show ?thesis using True by (auto split: option.splits)
      next
        case False
        obtain r' ds k where rest: "retry_loop policy should_retry deadline env (Suc i) left = (r', ds, k)"
          by (metis prod_cases3)
        have out: "r = r'" "delays = (if 0 < ?delay then ?delay # ds else ds)" "n = Suc k"
          using Suc.prems(3) intime e not_last False rest by (simp_all add: Let_def split: if_splits)
        have "rp_max_attempts policy = int (Suc i + left)" "0 < left" using Suc.prems(1) more by simp_all
        note IH = Suc.IH [OF this rest]
        have "retryable should_retry (re_operation env (i + j))" if "Suc j < n" for j
          using IH more that out(3) by (cases j) auto
        then show ?thesis using IH delay unfolding out by (auto simp: Suc_diff_le split: if_splits)
      qed
    qed
  qed
qed simp

subsection \<open>The breaker in sequence and in parallel\<close>

text \<open>
  The specification of a breaker used by one caller after another: a count of consecutive
  failures, or the time it opened. A call is refused, or its outcome moves the state.
\<close>

datatype breaker_spec = Closed_after int | Opened_at real

fun spec_call :: "int \<Rightarrow> real \<Rightarrow> breaker_spec \<Rightarrow> real \<Rightarrow> real \<Rightarrow> 'a result \<Rightarrow> 'a result \<times> breaker_spec" where
  "spec_call threshold recovery (Closed_after k) now_begin now_end outcome =
     (outcome, if isl outcome then (if k + 1 \<ge> threshold then Opened_at now_end else Closed_after (k + 1)) else Closed_after 0)"
| "spec_call threshold recovery (Opened_at t) now_begin now_end outcome =
     (if now_begin - t \<ge> recovery then (outcome, if isl outcome then Opened_at now_end else Closed_after 0)
      else (raise CircuitOpenError ''circuit breaker is open'', Opened_at t))"

definition breaker_abs :: "CircuitBreaker \<Rightarrow> breaker_spec" where
  "breaker_abs b = (if cb_state b = CLOSED then Closed_after (cb_failures b) else Opened_at (the (cb_opened_at b)))"

fun breaker_run :: "CircuitBreaker \<Rightarrow> (real \<times> real \<times> 'a result) list \<Rightarrow> 'a result list" where
  "breaker_run b [] = []"
| "breaker_run b ((s, t, outcome) # calls) = (let (r, b') = breaker_call b s t outcome in r # breaker_run b' calls)"

fun spec_run :: "int \<Rightarrow> real \<Rightarrow> breaker_spec \<Rightarrow> (real \<times> real \<times> 'a result) list \<Rightarrow> 'a result list" where
  "spec_run threshold recovery st [] = []"
| "spec_run threshold recovery st ((s, t, outcome) # calls) =
     (let (r, st') = spec_call threshold recovery st s t outcome in r # spec_run threshold recovery st' calls)"

definition at_rest :: "int \<Rightarrow> real \<Rightarrow> CircuitBreaker \<Rightarrow> bool" where
  "at_rest threshold recovery b \<longleftrightarrow> cb_threshold b = threshold \<and> cb_recovery b = recovery \<and> 1 \<le> cb_max_probes b \<and>
     (cb_state b = CLOSED \<or> cb_state b = OPEN \<and> cb_opened_at b \<noteq> None)"

lemma breaker_call_refines:
  assumes "at_rest threshold recovery b" "\<forall>e. outcome = Inl e \<longrightarrow> is_Exception e"
    "breaker_call b s t outcome = (r, b')"
  shows "spec_call threshold recovery (breaker_abs b) s t outcome = (r, breaker_abs b') \<and> at_rest threshold recovery b'"
proof (cases "cb_state b = CLOSED")
  case True
  then show ?thesis using assms
    by (cases outcome)
      (auto simp: at_rest_def breaker_call_def before_call_def breaker_abs_def record_success_def record_failure_def Let_def
        split: if_splits)
next
  case False
  then obtain o' where "cb_state b = OPEN" "cb_opened_at b = Some o'" using assms(1) by (auto simp: at_rest_def)
  then show ?thesis using assms
    by (cases outcome)
      (auto simp: at_rest_def breaker_call_def before_call_def breaker_abs_def record_success_def record_failure_def Let_def
        split: if_splits)
qed

text \<open>
  The breaker with calls in flight: \<open>running\<close> holds what \<^verbatim>\<open>_before_call\<close> returned to each.
  A cancelled call ends without a record.
\<close>

inductive breaker_reach :: "CircuitBreaker \<Rightarrow> CircuitState multiset \<Rightarrow> bool" where
  Start: "CircuitBreaker_init threshold recovery probes = Inr b \<Longrightarrow> breaker_reach b {#}"
| Begin: "breaker_reach b running \<Longrightarrow> before_call b now = (Inr st, b') \<Longrightarrow> breaker_reach b' (add_mset st running)"
| Refuse: "breaker_reach b running \<Longrightarrow> before_call b now = (Inl e, b') \<Longrightarrow> breaker_reach b' running"
| Succeed: "breaker_reach b running \<Longrightarrow> st \<in># running \<Longrightarrow> breaker_reach (record_success b st) (running - {#st#})"
| Fail: "breaker_reach b running \<Longrightarrow> st \<in># running \<Longrightarrow> breaker_reach (record_failure b st now) (running - {#st#})"
| Cancelled: "breaker_reach b running \<Longrightarrow> st \<in># running \<Longrightarrow> breaker_reach b (running - {#st#})"

definition breaker_inv :: "CircuitBreaker \<Rightarrow> bool" where
  "breaker_inv b \<longleftrightarrow> 1 \<le> cb_threshold b \<and> 0 < cb_recovery b \<and> 1 \<le> cb_max_probes b \<and>
     0 \<le> cb_failures b \<and> 0 \<le> cb_probes b \<and> cb_probes b \<le> cb_max_probes b \<and>
     (cb_state b = OPEN \<longrightarrow> cb_opened_at b \<noteq> None) \<and> (cb_state b = CLOSED \<longrightarrow> cb_failures b < cb_threshold b)"

lemma breaker_reach_inv: "breaker_reach b running \<Longrightarrow> breaker_inv b"
proof (induction rule: breaker_reach.induct)
  case (Start threshold recovery probes b)
  then show ?case by (auto simp: CircuitBreaker_init_def breaker_inv_def split: if_splits)
next
  case (Begin b running now st b')
  then show ?case by (auto simp: breaker_inv_def before_call_def Let_def split: if_splits option.splits)
next
  case (Refuse b running now e b')
  then show ?case by (auto simp: breaker_inv_def before_call_def Let_def split: if_splits option.splits)
qed (auto simp: breaker_inv_def record_success_def record_failure_def Let_def)

text \<open>
  A cancelled probe is never accounted for: with one probe allowed, the breaker then stays
  half open with its probe slot taken and refuses every call at whatever time.
\<close>

theorem breaker_wedged_by_cancelled_probe:
  assumes "cb_state b = OPEN" "cb_opened_at b = Some t" "cb_max_probes b = 1" "cb_recovery b \<le> now - t"
    and "breaker_call b now now' (raise CancelledError [] :: 'a result) = (r, b')"
  shows "breaker_call b' s s' outcome = (raise CircuitOpenError ''circuit breaker half-open probe limit reached'', b')"
  using assms by (auto simp: breaker_call_def before_call_def is_Exception_def)

section \<open>Properties\<close>

text \<open>Admission control is exact: in every history the number of requests in flight equals
  the number of holders and never exceeds the capacity, a caller is admitted exactly when
  a slot is free, and a holder's release never raises.\<close>

theorem admission_bounded:
  assumes "admission_reach capacity b n"
  shows "bp_in_flight b = int n \<and> int n \<le> capacity \<and> (fst (try_acquire b) \<longleftrightarrow> int n < capacity) \<and>
    (0 < n \<longrightarrow> fst (release b) = Inr ())"
  using admission_in_flight [OF assms] by (auto simp: try_acquire_def release_def)

theorem admission_bounded_witness:
  "\<exists>b. admission_reach 1 b 1 \<and> fst (try_acquire b) = False \<and> fst (release b) = Inr ()"
proof -
  have "admission_reach 1 \<lparr>bp_capacity = 1, bp_in_flight = 0\<rparr> 0"
    by (rule admission_reach.Start) (simp add: BackpressureController_init_def)
  then have "admission_reach 1 \<lparr>bp_capacity = 1, bp_in_flight = 1\<rparr> (Suc 0)"
    by (rule admission_reach.Admit) (simp add: try_acquire_def)
  with admission_bounded [OF this] show ?thesis by auto
qed



text \<open>C33: Retrying is bounded and honest: \<^verbatim>\<open>retry_async\<close> starts at most \<^verbatim>\<open>max_attempts\<close>
  operations, every one but the last ended in an exception it may retry, it never sleeps
  longer than the maximal delay, and it returns the outcome of the last operation it
  started (a result or an exception, never the internal exhaustion error) unless a
  deadline was given and has passed; short of the limit it stops only at an outcome that
  is not to be retried.\<close>

theorem retry_bounded_and_honest:
  assumes "RetryPolicy_init max_attempts base_delay max_delay = Inr policy"
    and "\<forall>i cap. 0 < cap \<longrightarrow> re_random env i cap \<le> cap"
    and "retry_async policy should_retry deadline env = (r, delays, n)"
  shows "int n \<le> max_attempts \<and> (\<forall>j. Suc j < n \<longrightarrow> retryable should_retry (re_operation env j)) \<and>
    (\<forall>d \<in> set delays. d \<le> max_delay) \<and>
    (0 < n \<and> r = re_operation env (n - 1) \<and> (int n < max_attempts \<longrightarrow> \<not> retryable should_retry r) \<or>
     deadline \<noteq> None \<and> (\<exists>m. r = raise DeadlineExceeded m))"
proof -
  have p: "1 \<le> max_attempts" "rp_max_attempts policy = max_attempts" "rp_max_delay policy = max_delay"
    using assms(1) by (auto simp: RetryPolicy_init_def split: if_splits)
  have random: "re_random env i cap \<le> cap" if "0 < cap" for i cap using assms(2) that by blast
  have run: "retry_loop policy should_retry deadline env 0 (nat max_attempts) = (r, delays, n)"
    using assms(3) p by (simp add: retry_async_def)
  have "rp_max_attempts policy = int (0 + nat max_attempts)" "0 < nat max_attempts" using p by simp_all
  note spec = retry_loop_spec [OF random this run]
  have "n \<le> nat max_attempts \<longleftrightarrow> int n \<le> max_attempts" "n < nat max_attempts \<longleftrightarrow> int n < max_attempts"
    using p(1) by linarith+
  with spec show ?thesis unfolding p(3) by auto
qed

theorem retry_bounded_and_honest_witness:
  "\<exists>policy r delays n. RetryPolicy_init 3 (1 / 20) 1 = Inr policy \<and>
     retry_async policy (\<lambda>e. True) None
       \<lparr>re_before = (\<lambda>i. 0), re_operation = (\<lambda>i. if i < 1 then raise ConnectionError [] else Inr ()),
        re_random = (\<lambda>i cap. cap / 2), re_after = (\<lambda>i. 0)\<rparr> = (r, delays, n) \<and> int n \<le> 3 \<and> r = Inr ()"
proof -
  let ?env = "\<lparr>re_before = (\<lambda>i. 0), re_operation = (\<lambda>i. if i < 1 then raise ConnectionError [] else Inr ()),
        re_random = (\<lambda>i cap. cap / 2), re_after = (\<lambda>i. 0)\<rparr>"
  let ?p = "\<lparr>rp_max_attempts = 3, rp_base_delay = 1 / 20, rp_max_delay = 1\<rparr>"
  have p: "RetryPolicy_init 3 (1 / 20) 1 = Inr ?p" by (simp add: RetryPolicy_init_def)
  obtain r delays n where run: "retry_async ?p (\<lambda>e. True) None ?env = (r, delays, n)" by (metis prod_cases3)
  moreover have "r = Inr ()"
    using run by (auto simp: retry_async_def numeral_3_eq_3 is_Exception_def Let_def split: if_splits)
  ultimately show ?thesis
    using retry_bounded_and_honest [OF p _ run] p by auto
qed

text \<open>C21: Used by one caller after another, the breaker is the two-state specification: it opens
  after the threshold of consecutive failures, refuses every call until the recovery time
  has passed, then lets one call through, which closes it or opens it again.\<close>

theorem breaker_refines_spec:
  assumes "CircuitBreaker_init threshold recovery probes = Inr b"
    "\<forall>(s, t, outcome) \<in> set calls. \<forall>e. outcome = Inl e \<longrightarrow> is_Exception e"
  shows "breaker_run b calls = spec_run threshold recovery (Closed_after 0) calls"
proof -
  have b: "at_rest threshold recovery b" "breaker_abs b = Closed_after 0"
    using assms(1) by (auto simp: CircuitBreaker_init_def at_rest_def breaker_abs_def split: if_splits)
  have run: "at_rest threshold recovery b \<Longrightarrow> \<forall>(s, t, outcome) \<in> set calls. \<forall>e. outcome = Inl e \<longrightarrow> is_Exception e \<Longrightarrow>
      breaker_run b calls = spec_run threshold recovery (breaker_abs b) calls" for b
  proof (induction b calls rule: breaker_run.induct)
    case (2 b s t outcome calls)
    obtain r b' where call: "breaker_call b s t outcome = (r, b')" by fastforce
    have "\<forall>e. outcome = Inl e \<longrightarrow> is_Exception e" using "2.prems"(2) by simp
    note step = breaker_call_refines [OF "2.prems"(1) this call]
    show ?case using "2.IH" [OF call [symmetric] refl] step "2.prems"(2) call by simp
  qed simp
  from run [OF b(1) assms(2)] show ?thesis unfolding b(2) .
qed

theorem breaker_refines_spec_witness:
  "\<exists>b. CircuitBreaker_init 2 10 1 = Inr b \<and>
     breaker_run b [(0, 1, raise ConnectionError [] :: unit result), (2, 3, raise ConnectionError []), (5, 6, Inr ()), (13, 14, Inr ())] =
       [raise ConnectionError [], raise ConnectionError [], raise CircuitOpenError ''circuit breaker is open'', Inr ()]"
proof -
  obtain b where b: "CircuitBreaker_init 2 10 1 = Inr b" by (simp add: CircuitBreaker_init_def)
  show ?thesis
    using breaker_refines_spec [OF b, of "[(0, 1, raise ConnectionError [] :: unit result), (2, 3, raise ConnectionError []), (5, 6, Inr ()), (13, 14, Inr ())]"] b
    by (simp add: is_Exception_def)
qed



end
