(* ===== verification/Peer_Transport.thy ===== *)
theory Peer_Transport
  imports Framing Membership
begin

text \<open>
  What the two peer clients share. The identity of a peer behind TLS
  (\<^verbatim>\<open>src/src/distsys/security/certificate.py\<close>, \<^verbatim>\<open>security/identity.py\<close>), the endpoint rewriting
  of the chaos profile (\<^verbatim>\<open>chaos/routing.py\<close>), and one request and response over a fresh
  connection: open, check the identity, send one frame, read one frame, close. The
  operating system's side of the connection is a parameter with a state of its own.
\<close>

section \<open>Certificates\<close>

text \<open>The values of the dictionary that \<^verbatim>\<open>getpeercert()\<close> returns, as far as the code tells them apart.\<close>

datatype py_value = PyStr string | PySeq "py_value list" | PyOther

type_synonym cert = "(string, py_value) dict"

fun san_value :: "string \<Rightarrow> py_value \<Rightarrow> string option" where
  "san_value kind (PySeq [k, PyStr v]) = (if k = PyStr kind then Some v else None)"
| "san_value kind _ = None"

definition sans :: "cert \<Rightarrow> string \<Rightarrow> string set" where
  "sans cert kind =
     (case map_of cert ''subjectAltName'' of
        Some (PySeq items) \<Rightarrow> set (List.map_filter (san_value kind) items)
      | _ \<Rightarrow> {})"

definition dns_sans :: "cert \<Rightarrow> string set" where
  "dns_sans cert = sans cert ''DNS''"

definition ip_sans :: "cert \<Rightarrow> string set" where
  "ip_sans cert = sans cert ''IP Address''"

definition verify_node_identity :: "cert \<Rightarrow> string \<Rightarrow> unit result" where
  "verify_node_identity cert expected_node_id =
     (if expected_node_id = [] then raise ValueError ''expected_node_id must not be empty''
      else if expected_node_id \<notin> dns_sans cert
      then raise TlsPeerIdentityError (''authenticated peer certificate does not identify '' @ expected_node_id)
      else Inr ())"

section \<open>Endpoint rewriting\<close>

text \<open>\<^verbatim>\<open>os.getenv(name, fallback)\<close> on an environment.\<close>

type_synonym environ = "string \<Rightarrow> string option"

definition getenv :: "environ \<Rightarrow> string \<Rightarrow> string \<Rightarrow> string" where
  "getenv env name fallback = (case env name of None \<Rightarrow> fallback | Some v \<Rightarrow> v)"

definition proxy_entry :: "(string, string \<times> int) dict \<Rightarrow> string \<Rightarrow> (string, string \<times> int) dict result" where
  "proxy_entry acc item =
     (let malformed = raise ValueError ''PHASE6_PEER_PROXY_MAP must use node=host:port entries'' in
      if CHR ''='' \<notin> set item then malformed
      else let (node_id, endpoint) = split_first (CHR ''='') item in
        if CHR '':'' \<notin> set endpoint then malformed
        else let (host, port_text) = split_last (CHR '':'') endpoint in
          case py_int port_text of
            None \<Rightarrow> malformed
          | Some port \<Rightarrow>
              if node_id = [] \<or> host = [] \<or> \<not> (1 \<le> port \<and> port \<le> 65535)
              then raise ValueError ''PHASE6_PEER_PROXY_MAP contains an invalid endpoint''
              else Inr (AList.update node_id (host, port) acc))"

definition proxy_mapping :: "environ \<Rightarrow> (string, string \<times> int) dict result" where
  "proxy_mapping env =
     (let raw = strip (getenv env ''PHASE6_PEER_PROXY_MAP'' []) in
      if raw = [] then Inr [] else rfold proxy_entry [] (split_all (CHR '','') raw))"

definition peer_routing_enabled :: "environ \<Rightarrow> bool" where
  "peer_routing_enabled env =
     (env ''RUN_CHAOS_TESTS'' = Some ''1'' \<and> strip (getenv env ''PHASE6_PEER_PROXY_MAP'' []) \<noteq> [])"

definition resolve_peer_endpoint :: "environ \<Rightarrow> string option \<Rightarrow> string \<Rightarrow> int \<Rightarrow> (string \<times> int) result" where
  "resolve_peer_endpoint env node_id host port =
     (if env ''RUN_CHAOS_TESTS'' \<noteq> Some ''1'' \<or> node_id = None \<or> node_id = Some [] then Inr (host, port)
      else rbind (proxy_mapping env) (\<lambda>mapping.
             Inr (case map_of mapping (the node_id) of None \<Rightarrow> (host, port) | Some endpoint \<Rightarrow> endpoint)))"

section \<open>One exchange over a connection\<close>

text \<open>
  The connection: opening it, with the name the TLS handshake asks for if there is one; the
  certificate of the peer; writing a frame; the bytes the peer sends before it stops; and
  closing. The timeout of the exchange is an error any of them may raise.
\<close>

record 'p transport =
  tr_open :: "'p \<Rightarrow> string \<Rightarrow> int \<Rightarrow> string option \<Rightarrow> unit result \<times> 'p"
  tr_peercert :: "'p \<Rightarrow> cert option"
  tr_send :: "'p \<Rightarrow> char list \<Rightarrow> unit result \<times> 'p"
  tr_receive :: "'p \<Rightarrow> char list result \<times> 'p"
  tr_close :: "'p \<Rightarrow> unit result \<times> 'p"

definition open_peer ::
  "'p transport \<Rightarrow> bool \<Rightarrow> string \<Rightarrow> int \<Rightarrow> string option \<Rightarrow> 'p \<Rightarrow> unit result \<times> 'p" where
  "open_peer tr tls host port expected_node_id p =
     (if \<not> tls then tr_open tr p host port None
      else case expected_node_id of
             None \<Rightarrow> (raise TlsPeerIdentityError ''secure peer connection requires expected node id'', p)
           | Some node_id \<Rightarrow>
               (case tr_open tr p host port (Some node_id) of
                  (Inl e, p') \<Rightarrow> (Inl e, p')
                | (Inr _, p') \<Rightarrow>
                    (case tr_peercert tr p' of
                       None \<Rightarrow> raise TlsPeerIdentityError ''TLS peer did not expose an SSL object''
                     | Some cert \<Rightarrow> verify_node_identity cert node_id, p')))"

definition send_and_read ::
  "'p transport \<Rightarrow> Envelope serializer \<Rightarrow> Envelope parser \<Rightarrow> int \<Rightarrow> Message \<Rightarrow> 'p \<Rightarrow> Message result \<times> 'p" where
  "send_and_read tr ser par max_frame_size message p =
     (case encode_frame ser max_frame_size message of
        Inl e \<Rightarrow> (Inl e, p)
      | Inr frame \<Rightarrow>
          (case tr_send tr p frame of
             (Inl e, p1) \<Rightarrow> (Inl e, p1)
           | (Inr _, p1) \<Rightarrow>
               (case tr_receive tr p1 of
                  (Inl e, p2) \<Rightarrow> (Inl e, p2)
                | (Inr stream, p2) \<Rightarrow> (rbind (read_message par max_frame_size stream) (\<lambda>(response, _). Inr response), p2))))"

text \<open>The \<^verbatim>\<open>finally\<close> clause: an error of closing counts unless it is one of those passed over.\<close>

definition finally_close :: "'p transport \<Rightarrow> (exn \<Rightarrow> bool) \<Rightarrow> 'a result \<times> 'p \<Rightarrow> 'a result \<times> 'p" where
  "finally_close tr passed_over rp =
     (case rp of (r, p) \<Rightarrow>
      (case tr_close tr p of
         (Inr _, p') \<Rightarrow> (r, p')
       | (Inl e, p') \<Rightarrow> (if passed_over e then r else Inl e, p')))"

section \<open>Lemmas\<close>

text \<open>A verified identity is one that the certificate names.\<close>

lemma verify_node_identity_iff:
  "verify_node_identity cert node_id = Inr () \<longleftrightarrow> node_id \<noteq> [] \<and> node_id \<in> dns_sans cert"
  by (auto simp: verify_node_identity_def)

lemma in_map_filter: "v \<in> set (List.map_filter f xs) \<longleftrightarrow> (\<exists>x \<in> set xs. f x = Some v)"
  by (induction xs) (auto simp: List.map_filter_simps split: option.splits)

lemma san_value_iff: "san_value kind x = Some v \<longleftrightarrow> x = PySeq [PyStr kind, PyStr v]"
  by (induction kind x rule: san_value.induct) auto

lemma dns_sans_iff:
  "v \<in> dns_sans cert \<longleftrightarrow>
     (\<exists>items. map_of cert ''subjectAltName'' = Some (PySeq items) \<and> PySeq [PyStr ''DNS'', PyStr v] \<in> set items)"
proof (cases "map_of cert ''subjectAltName''")
  case (Some raw)
  then show ?thesis by (cases raw) (simp_all add: dns_sans_def sans_def in_map_filter san_value_iff)
qed (simp add: dns_sans_def sans_def)

text \<open>An open connection over TLS belongs to the node it was opened for.\<close>

lemma open_peer_identity:
  assumes "open_peer tr True host port expected p = (Inr (), p')"
  obtains node_id cert where "expected = Some node_id" "tr_peercert tr p' = Some cert" "node_id \<in> dns_sans cert"
proof -
  obtain node_id where e: "expected = Some node_id" using assms by (cases expected) (auto simp: open_peer_def)
  obtain q p1 where q: "tr_open tr p host port (Some node_id) = (q, p1)" by (cases "tr_open tr p host port (Some node_id)")
  have "p1 = p'" "isl q \<longrightarrow> False" using assms e q by (auto simp: open_peer_def isl_def split: sum.splits)
  then obtain cert where "tr_peercert tr p' = Some cert" "verify_node_identity cert node_id = Inr ()"
    using assms e q by (auto simp: open_peer_def isl_def split: sum.splits option.splits)
  then show ?thesis using that e by (auto simp: verify_node_identity_iff)
qed

text \<open>Without the chaos profile no endpoint is rewritten.\<close>

lemma no_rewriting: "\<not> peer_routing_enabled env \<Longrightarrow> resolve_peer_endpoint env node_id host port = Inr (host, port)"
  by (auto simp: peer_routing_enabled_def resolve_peer_endpoint_def proxy_mapping_def)

end
