(* ===== verification/Peer_Rpc.thy ===== *)
theory Peer_Rpc
  imports Crdt_Wire Hash_Ring Resilience Peer_Transport
begin

text \<open>
  The CRDT peer client of \<^verbatim>\<open>src/src/distsys/replication/peer_client.py\<close>: one request and its
  response over a fresh connection, the calls built on it, and the adapters through which
  replication, repair and anti-entropy use them.
\<close>

section \<open>Parameters\<close>

text \<open>The protobuf codec of every CRDT message.\<close>

record codecs =
  co_state_ser :: "CrdtStateProto serializer"
  co_state_par :: "CrdtStateProto parser"
  co_fetch_ser :: "string serializer"
  co_fetch_par :: "string parser"
  co_digest_request_ser :: "DigestRequestProto serializer"
  co_digest_request_par :: "DigestRequestProto parser"
  co_digest_ser :: "DigestProto list serializer"
  co_digest_par :: "DigestProto list parser"
  co_mutation_ser :: "MutationRequestProto serializer"
  co_mutation_par :: "MutationRequestProto parser"
  co_read_ser :: "ReadRequestProto serializer"
  co_read_par :: "ReadRequestProto parser"
  co_response_ser :: "ResponseProto serializer"
  co_response_par :: "ResponseProto parser"

text \<open>
  The client: \<open>pc_transport\<close> is the network with the peers behind it, \<open>pc_environ\<close> the process
  environment, \<open>pc_fresh\<close> gives the next \<^verbatim>\<open>uuid4()\<close> and the clock, and \<open>pc_trace\<close> the trace
  headers of the current span, if tracing is on.
\<close>

record 'p peer_client =
  pc_node_id :: string
  pc_max_frame_size :: int
  pc_tls :: bool
  pc_env_ser :: "Envelope serializer"
  pc_env_par :: "Envelope parser"
  pc_transport :: "'p transport"
  pc_environ :: environ
  pc_fresh :: "'p \<Rightarrow> string \<times> int"
  pc_trace :: "'p \<Rightarrow> (string \<times> string) option"

section \<open>One exchange\<close>

definition complete_response :: "'a result \<Rightarrow> 'a result" where
  "complete_response r =
     (case r of
        Inl e \<Rightarrow>
          if exn_cls e = IncompleteReadError
          then raise CrdtPeerProtocolError ''peer closed connection before sending a complete response'' else Inl e
      | Inr x \<Rightarrow> Inr x)"

definition exchange_raw ::
  "'p peer_client \<Rightarrow> 'p \<Rightarrow> ClusterMember \<Rightarrow> Message \<Rightarrow> real \<Rightarrow> Message result \<times> 'p" where
  "exchange_raw c p peer message timeout_seconds =
     (if timeout_seconds \<le> 0 then (raise TimeoutError ''CRDT peer exchange timeout exhausted'', p)
      else case open_peer (pc_transport c) (pc_tls c) (cm_host peer) (cm_port peer) (Some (cm_node peer)) p of
             (Inl e, p') \<Rightarrow> (Inl e, p')
           | (Inr _, p') \<Rightarrow>
               (case finally_close (pc_transport c) is_connection
                       (apfst complete_response
                          (send_and_read (pc_transport c) (pc_env_ser c) (pc_env_par c) (pc_max_frame_size c) message p')) of
                  (r, p'') \<Rightarrow>
                    (rbind r (\<lambda>response.
                       if msg_correlation_id response \<noteq> msg_correlation_id message
                       then raise CrdtPeerProtocolError ''CRDT peer correlation mismatch'' else Inr response), p'')))"

definition exchange ::
  "'p peer_client \<Rightarrow> 'p \<Rightarrow> ClusterMember \<Rightarrow> Message \<Rightarrow> real \<Rightarrow> Message result \<times> 'p" where
  "exchange c p peer message timeout_seconds =
     (case resolve_peer_endpoint (pc_environ c) (Some (cm_node peer)) (cm_host peer) (cm_port peer) of
        Inl e \<Rightarrow> (Inl e, p)
      | Inr (host, port) \<Rightarrow>
          exchange_raw c p (peer\<lparr>cm_host := host, cm_port := port\<rparr>)
            (case pc_trace c p of
               None \<Rightarrow> message
             | Some (traceparent, tracestate) \<Rightarrow> message\<lparr>msg_traceparent := traceparent, msg_tracestate := tracestate\<rparr>)
            timeout_seconds)"

definition request_message :: "'p peer_client \<Rightarrow> 'p \<Rightarrow> MessageType \<Rightarrow> char list \<Rightarrow> Message" where
  "request_message c p type payload =
     (let (fresh_uuid, now_ms) = pc_fresh c p in new_request fresh_uuid now_ms (pc_node_id c) payload None 8 type [] [])"

definition type_name :: "MessageType \<Rightarrow> string" where
  "type_name t =
     (case t of REQUEST \<Rightarrow> ''REQUEST'' | RESPONSE \<Rightarrow> ''RESPONSE'' | ERROR \<Rightarrow> ''ERROR'' | HEARTBEAT \<Rightarrow> ''HEARTBEAT''
      | JOIN_REQUEST \<Rightarrow> ''JOIN_REQUEST'' | JOIN_RESPONSE \<Rightarrow> ''JOIN_RESPONSE'' | PING \<Rightarrow> ''PING'' | ACK \<Rightarrow> ''ACK''
      | PING_REQ \<Rightarrow> ''PING_REQ'' | GOSSIP \<Rightarrow> ''GOSSIP'' | FORWARDED_REQUEST \<Rightarrow> ''FORWARDED_REQUEST''
      | CRDT_MUTATE_REQUEST \<Rightarrow> ''CRDT_MUTATE_REQUEST'' | CRDT_READ_REQUEST \<Rightarrow> ''CRDT_READ_REQUEST''
      | CRDT_REPLICATE \<Rightarrow> ''CRDT_REPLICATE'' | CRDT_FETCH \<Rightarrow> ''CRDT_FETCH'' | CRDT_DIGEST \<Rightarrow> ''CRDT_DIGEST''
      | CRDT_DIGEST_RESPONSE \<Rightarrow> ''CRDT_DIGEST_RESPONSE'' | CRDT_RESPONSE \<Rightarrow> ''CRDT_RESPONSE'')"

definition crdt_round_trip ::
  "codecs \<Rightarrow> 'p peer_client \<Rightarrow> 'p \<Rightarrow> ClusterMember \<Rightarrow> MessageType \<Rightarrow> char list \<Rightarrow> real \<Rightarrow> bool \<Rightarrow>
     CrdtResponseData result \<times> 'p" where
  "crdt_round_trip co c p peer type payload timeout_seconds raise_remote =
     (case exchange c p peer (request_message c p type payload) timeout_seconds of
        (Inl e, p') \<Rightarrow> (Inl e, p')
      | (Inr response, p') \<Rightarrow>
          (if msg_type response \<noteq> CRDT_RESPONSE
           then raise CrdtPeerProtocolError (''expected CRDT_RESPONSE, got '' @ type_name (msg_type response))
           else rbind (decode_crdt_response (co_response_par co) (msg_payload response)) (\<lambda>decoded.
                if raise_remote \<and> \<not> rs_success decoded
                then raise (CrdtRemoteError (rs_error_code decoded)) (rs_error_message decoded)
                else Inr decoded), p'))"

section \<open>The calls\<close>

definition peer_replicate ::
  "codecs \<Rightarrow> 'p peer_client \<Rightarrow> 'p \<Rightarrow> ClusterMember \<Rightarrow> StoredCrdtEntry \<Rightarrow> real \<Rightarrow> unit result \<times> 'p" where
  "peer_replicate co c p peer state timeout_seconds =
     (case encode_replication (co_state_ser co) state of
        Inl e \<Rightarrow> (Inl e, p)
      | Inr payload \<Rightarrow>
          (let (r, p') = crdt_round_trip co c p peer CRDT_REPLICATE payload timeout_seconds True
           in (rbind r (\<lambda>_. Inr ()), p')))"

definition peer_fetch ::
  "codecs \<Rightarrow> 'p peer_client \<Rightarrow> 'p \<Rightarrow> ClusterMember \<Rightarrow> string \<Rightarrow> real \<Rightarrow> CrdtResponseData result \<times> 'p" where
  "peer_fetch co c p peer key timeout_seconds =
     (case encode_fetch_request (co_fetch_ser co) key of
        Inl e \<Rightarrow> (Inl e, p)
      | Inr payload \<Rightarrow> crdt_round_trip co c p peer CRDT_FETCH payload timeout_seconds False)"

definition peer_digest ::
  "codecs \<Rightarrow> 'p peer_client \<Rightarrow> 'p \<Rightarrow> ClusterMember \<Rightarrow> CrdtDigestEntry list \<Rightarrow> int \<Rightarrow> real \<Rightarrow>
     CrdtDigestEntry list result \<times> 'p" where
  "peer_digest co c p peer entries batch_size timeout_seconds =
     (case encode_digest_request (co_digest_request_ser co) (pc_node_id c) entries batch_size of
        Inl e \<Rightarrow> (Inl e, p)
      | Inr payload \<Rightarrow>
          (case exchange c p peer (request_message c p CRDT_DIGEST payload) timeout_seconds of
             (Inl e, p') \<Rightarrow> (Inl e, p')
           | (Inr response, p') \<Rightarrow>
               (if msg_type response \<noteq> CRDT_DIGEST_RESPONSE
                then raise CrdtPeerProtocolError (''expected CRDT_DIGEST_RESPONSE, got '' @ type_name (msg_type response))
                else decode_digest_response (co_digest_par co) (msg_payload response), p')))"

text \<open>
  Forwarding: \<open>time_left\<close> and \<open>left\<close> are the two readings of \<^verbatim>\<open>deadline.remaining()\<close>, before
  and after the request is encoded.
\<close>

definition remaining_ms :: "real \<Rightarrow> int" where
  "remaining_ms seconds = max 1 \<lfloor>seconds * 1000\<rfloor>"

definition forward_mutation ::
  "codecs \<Rightarrow> 'p peer_client \<Rightarrow> 'p \<Rightarrow> ClusterMember \<Rightarrow> CrdtMutationData \<Rightarrow> real \<Rightarrow> real \<Rightarrow> CrdtResponseData result \<times> 'p" where
  "forward_mutation co c p peer request time_left left =
     (if time_left \<le> 0 then (raise DeadlineExceeded ''CRDT request deadline exceeded before forwarding'', p)
      else let forwarded = request\<lparr>md_forwarded := True,
                 md_origin := (if md_origin request = [] then pc_node_id c else md_origin request),
                 md_remaining_ms := remaining_ms time_left\<rparr>
           in case encode_mutation_request (co_mutation_ser co) forwarded of
                Inl e \<Rightarrow> (Inl e, p)
              | Inr payload \<Rightarrow> crdt_round_trip co c p peer CRDT_MUTATE_REQUEST payload left True)"

definition forward_read ::
  "codecs \<Rightarrow> 'p peer_client \<Rightarrow> 'p \<Rightarrow> ClusterMember \<Rightarrow> CrdtReadData \<Rightarrow> real \<Rightarrow> real \<Rightarrow> CrdtResponseData result \<times> 'p" where
  "forward_read co c p peer request time_left left =
     (if time_left \<le> 0 then (raise DeadlineExceeded ''CRDT request deadline exceeded before forwarding'', p)
      else let forwarded = request\<lparr>rq_forwarded := True,
                 rq_origin := (if rq_origin request = [] then pc_node_id c else rq_origin request),
                 rq_remaining_ms := remaining_ms time_left\<rparr>
           in case encode_read_request (co_read_ser co) forwarded of
                Inl e \<Rightarrow> (Inl e, p)
              | Inr payload \<Rightarrow> crdt_round_trip co c p peer CRDT_READ_REQUEST payload left True)"

section \<open>Adapters\<close>

text \<open>
  The calls towards one peer that the adapters need (the protocols \<^verbatim>\<open>ReplicationClient\<close>,
  \<^verbatim>\<open>FetchClient\<close> and \<^verbatim>\<open>AntiEntropyClient\<close>), and the client that implements them.
\<close>

record 'p crdt_calls =
  cl_replicate :: "'p \<Rightarrow> StoredCrdtEntry \<Rightarrow> unit result \<times> 'p"
  cl_fetch :: "'p \<Rightarrow> string \<Rightarrow> CrdtResponseData result \<times> 'p"
  cl_digest :: "'p \<Rightarrow> CrdtDigestEntry list \<Rightarrow> int \<Rightarrow> CrdtDigestEntry list result \<times> 'p"

definition client_calls :: "codecs \<Rightarrow> 'p peer_client \<Rightarrow> ClusterMember \<Rightarrow> real \<Rightarrow> 'p crdt_calls" where
  "client_calls co c peer timeout_seconds =
     \<lparr>cl_replicate = \<lambda>p state. peer_replicate co c p peer state timeout_seconds,
      cl_fetch = \<lambda>p key. peer_fetch co c p peer key timeout_seconds,
      cl_digest = \<lambda>p entries batch_size. peer_digest co c p peer entries batch_size timeout_seconds\<rparr>"

definition transport_send_state ::
  "codecs \<Rightarrow> 'p peer_client \<Rightarrow> (string \<Rightarrow> ClusterMember option) \<Rightarrow> real \<Rightarrow> 'p \<Rightarrow> string \<Rightarrow> StoredCrdtEntry \<Rightarrow> unit result \<times> 'p" where
  "transport_send_state co c resolver timeout_seconds p peer_node_id state =
     (case resolver peer_node_id of
        None \<Rightarrow> (raise ConnectionError (''peer '' @ peer_node_id @ '' is not currently ALIVE''), p)
      | Some peer \<Rightarrow> peer_replicate co c p peer state timeout_seconds)"

record PeerCrdtFetch =
  pf_peer_node_id :: string
  pf_entry :: "StoredCrdtEntry option"
  pf_frontier :: VersionVector

definition repair_fetch_state ::
  "codecs \<Rightarrow> 'p peer_client \<Rightarrow> real \<Rightarrow> real \<Rightarrow> 'p \<Rightarrow> ClusterMember \<Rightarrow> string \<Rightarrow> PeerCrdtFetch result \<times> 'p" where
  "repair_fetch_state co c timeout_cap time_left p peer key =
     (let timeout = min timeout_cap time_left in
      if timeout \<le> 0 then (raise DeadlineExceeded ''causal repair deadline exhausted'', p)
      else let (r, p') = peer_fetch co c p peer key timeout
           in (rbind r (\<lambda>response.
                 Inr \<lparr>pf_peer_node_id = cm_node peer, pf_entry = (if rs_success response then rs_state response else None),
                      pf_frontier = rs_frontier response\<rparr>), p'))"

definition ae_exchange_digest ::
  "'p crdt_calls \<Rightarrow> 'p \<Rightarrow> CrdtDigestEntry list \<Rightarrow> CrdtDigestEntry list result \<times> 'p" where
  "ae_exchange_digest cl p entries = cl_digest cl p entries (max 1 (int (length entries)))"

definition ae_fetch_state :: "'p crdt_calls \<Rightarrow> 'p \<Rightarrow> string \<Rightarrow> StoredCrdtEntry option result \<times> 'p" where
  "ae_fetch_state cl p key =
     (let (r, p') = cl_fetch cl p key
      in (rbind r (\<lambda>response. Inr (if rs_success response then rs_state response else None)), p'))"

definition ae_send_state :: "'p crdt_calls \<Rightarrow> 'p \<Rightarrow> StoredCrdtEntry \<Rightarrow> unit result \<times> 'p" where
  "ae_send_state cl p state = cl_replicate cl p state"

text \<open>\<open>stored\<close> is the local entry of the key at the time of the call.\<close>

definition ae_send_metadata ::
  "'p crdt_calls \<Rightarrow> 'p \<Rightarrow> StoredCrdtEntry option \<Rightarrow> VersionVector \<Rightarrow> unit result \<times> 'p" where
  "ae_send_metadata cl p stored causal_context =
     (case stored of
        None \<Rightarrow> (Inr (), p)
      | Some e \<Rightarrow>
          (let (r, p') = cl_digest cl p
             [\<lparr>dg_key = se_key e, dg_type = se_type e, dg_version = se_version e, dg_context = causal_context\<rparr>] 1
           in (rbind r (\<lambda>_. Inr ()), p')))"

section \<open>What the client accepts\<close>

text \<open>A response to another request, or of another type, is never taken as the answer.\<close>

lemma crdt_round_trip_accepts:
  assumes "crdt_round_trip co c p peer type payload timeout raise_remote = (Inr d, p')"
  obtains response :: Message where "0 < timeout" "msg_type response = CRDT_RESPONSE"
    "msg_correlation_id response = fst (pc_fresh c p)"
    "decode_crdt_response (co_response_par co) (msg_payload response) = Inr d" "raise_remote \<longrightarrow> rs_success d"
proof -
  obtain response where r: "exchange c p peer (request_message c p type payload) timeout = (Inr response, p')"
    using assms by (auto simp: crdt_round_trip_def split: prod.splits sum.splits if_splits)
  have "0 < timeout" "msg_correlation_id response = fst (pc_fresh c p)"
    using r by (auto simp: exchange_def exchange_raw_def request_message_def new_request_def case_prod_unfold Let_def
        rbind_eq_Inr
        split: if_splits prod.splits sum.splits option.splits)
  moreover have "msg_type response = CRDT_RESPONSE"
    "decode_crdt_response (co_response_par co) (msg_payload response) = Inr d" "raise_remote \<longrightarrow> rs_success d"
    using assms r by (auto simp: crdt_round_trip_def rbind_eq_Inr split: if_splits)
  ultimately show ?thesis using that by blast
qed

text \<open>A forwarded request never carries more time than was left, rounded up to one millisecond.\<close>

lemma remaining_ms_bound: "0 < s \<Longrightarrow> 1 \<le> remaining_ms s \<and> real_of_int (remaining_ms s) \<le> max 1 (s * 1000)"
  by (auto simp: remaining_ms_def max_def)

end
