(* ===== verification/Durable.thy ===== *)
theory Durable
  imports Persistence_Codec
begin

text \<open>
  Durable state: the models and the SQLite repository of \<^verbatim>\<open>src/src/distsys/persistence\<close>,
  the persist-before-memory store, and the restore service of \<^verbatim>\<open>recovery/restore.py\<close>.
  The database is a record of its three tables. A blocking job is a function on it that
  runs as one transaction: its result and the tables after its commit, or the exception
  and the tables as they were. What the executor, the file and the scheduler do to one
  job is the argument \<open>io\<close> of the call.
\<close>

section \<open>Durable models\<close>

record DurableNodeIdentity =
  id_uuid :: string
  id_node :: string
  id_incarnation :: int

definition DurableNodeIdentity_init :: "string \<Rightarrow> string \<Rightarrow> int \<Rightarrow> DurableNodeIdentity result" where
  "DurableNodeIdentity_init node_uuid configured_node_id causal_incarnation =
     (if configured_node_id = [] then raise ValueError ''configured_node_id must not be empty''
      else if causal_incarnation < 1 then raise ValueError ''causal_incarnation must be positive''
      else Inr \<lparr>id_uuid = node_uuid, id_node = configured_node_id, id_incarnation = causal_incarnation\<rparr>)"

record DurableCausalState =
  dcs_actor :: CausalActor
  dcs_counter :: int
  dcs_frontier :: VersionVector

definition DurableCausalState_init ::
  "CausalActor \<Rightarrow> int \<Rightarrow> VersionVector \<Rightarrow> DurableCausalState result" where
  "DurableCausalState_init actor local_counter frontier =
     (if local_counter < 0 then raise ValueError ''local_counter must be non-negative''
      else if vv_get frontier actor \<noteq> local_counter
      then raise ValueError ''frontier local actor component must equal local_counter''
      else Inr \<lparr>dcs_actor = actor, dcs_counter = local_counter, dcs_frontier = frontier\<rparr>)"

record RepositoryHealth =
  rh_healthy :: bool
  rh_schema_version :: int
  rh_message :: string

section \<open>The database and the jobs\<close>

text \<open>
  The rows of \<^verbatim>\<open>node_identity\<close>, \<^verbatim>\<open>causal_clock\<close> (counter and frontier text) and
  \<^verbatim>\<open>crdt_entries\<close> (columns and the authority flag). The \<^verbatim>\<open>created_at_ns\<close> and
  \<^verbatim>\<open>updated_at_ns\<close> columns are never read and are left out.
\<close>

record Database =
  db_schema :: int
  db_identity :: "DurableNodeIdentity option"
  db_clock :: "(int \<times> string) option"
  db_entries :: "(string, EncodedCrdtEntry \<times> bool) dict"

record Repository =
  repo_opened :: bool
  repo_db :: Database

text \<open>
  What happens to one job: it runs; its admission passes the deadline; SQLite raises; or
  the awaiting task is cancelled, while the worker thread still finishes the job
  (\<open>IoCancelled True\<close>) or never started it.
\<close>

datatype io = IoOk | IoBackpressure | IoError | IoCancelled bool

definition executor_run ::
  "Repository \<Rightarrow> io \<Rightarrow> (Database \<Rightarrow> 'a result \<times> Database) \<Rightarrow> 'a result \<times> Repository" where
  "executor_run repo io fn =
     (let (r, db) = fn (repo_db repo);
          after = repo\<lparr>repo_db := db\<rparr>
      in case io of
           IoOk \<Rightarrow> (r, after)
         | IoBackpressure \<Rightarrow>
             (raise PersistenceBackpressureError ''persistence admission deadline exceeded'', repo)
         | IoError \<Rightarrow> (raise SqliteError ''database error'', repo)
         | IoCancelled finished \<Rightarrow> (raise CancelledError [], if finished then after else repo))"

definition ensure_open :: "Repository \<Rightarrow> unit result" where
  "ensure_open repo =
     (if repo_opened repo then Inr () else raise PersistenceUnavailableError ''repository is not open'')"

text \<open>
  The schema version of the database, and the one migration (which creates the three
  tables, empty); \<open>migration_fails\<close> is whether SQLite raises inside it, which rolls it back.
\<close>

definition schema_version :: "Database \<Rightarrow> int" where
  "schema_version db = db_schema db"

definition apply_migrations :: "bool \<Rightarrow> Database \<Rightarrow> int result \<times> Database" where
  "apply_migrations migration_fails db =
     (let current = schema_version db in
      if current > 1
      then (raise RepositorySchemaError (''database schema '' @ str_int current @ '' is newer than supported 1''), db)
      else if current < 1 then
        (if migration_fails then (raise RepositorySchemaError ''failed to apply schema migration 1'', db)
         else let db' = db\<lparr>db_schema := 1\<rparr> in (Inr (schema_version db'), db'))
      else (Inr current, db))"

text \<open>
  \<^verbatim>\<open>quick\<close> is the answer of \<^verbatim>\<open>PRAGMA quick_check\<close> in lower case. The messages leave out the
  path and the printed row.
\<close>

definition open_sync :: "bool \<Rightarrow> string \<Rightarrow> Database \<Rightarrow> unit result \<times> Database" where
  "open_sync migration_fails quick db =
     (case apply_migrations migration_fails db of
        (Inl e, db') \<Rightarrow> (Inl e, db')
      | (Inr _, db') \<Rightarrow>
          (if quick \<noteq> ''ok'' then raise RepositoryIntegrityError ''SQLite quick_check failed'' else Inr (), db'))"

definition repo_open :: "Repository \<Rightarrow> io \<Rightarrow> bool \<Rightarrow> string \<Rightarrow> unit result \<times> Repository" where
  "repo_open repo io migration_fails quick =
     (case executor_run repo io (open_sync migration_fails quick) of
        (Inr u, repo') \<Rightarrow> (Inr u, repo'\<lparr>repo_opened := True\<rparr>)
      | (Inl e, repo') \<Rightarrow>
          (if exn_cls e = SqliteError
           then raise PersistenceUnavailableError ''unable to open SQLite repository'' else Inl e, repo'))"

definition repo_close :: "Repository \<Rightarrow> Repository" where
  "repo_close repo = repo\<lparr>repo_opened := False\<rparr>"

definition integrity_check :: "Repository \<Rightarrow> io \<Rightarrow> string \<Rightarrow> RepositoryHealth result \<times> Repository" where
  "integrity_check repo io quick =
     (case ensure_open repo of
        Inl e \<Rightarrow> (Inl e, repo)
      | Inr _ \<Rightarrow>
          (case executor_run repo io (\<lambda>db.
             (if quick \<noteq> ''ok'' then raise RepositoryIntegrityError ''SQLite quick_check failed''
              else Inr \<lparr>rh_healthy = True, rh_schema_version = schema_version db, rh_message = ''ok''\<rparr>, db)) of
             (Inl e, repo') \<Rightarrow>
               (if exn_cls e = SqliteError
                then raise RepositoryIntegrityError ''SQLite integrity check failed'' else Inl e, repo')
           | (Inr h, repo') \<Rightarrow> (Inr h, repo')))"

definition load_identity :: "Repository \<Rightarrow> io \<Rightarrow> DurableNodeIdentity option result \<times> Repository" where
  "load_identity repo io =
     (case ensure_open repo of
        Inl e \<Rightarrow> (Inl e, repo)
      | Inr _ \<Rightarrow> executor_run repo io (\<lambda>db. (Inr (db_identity db), db)))"

text \<open>\<^verbatim>\<open>fresh_uuid\<close> and \<^verbatim>\<open>now\<close> are the results of \<^verbatim>\<open>uuid.uuid4()\<close> and \<^verbatim>\<open>time.time_ns()\<close>.\<close>

definition initialize_identity ::
  "Repository \<Rightarrow> io \<Rightarrow> string \<Rightarrow> string \<Rightarrow> int \<Rightarrow> DurableNodeIdentity result \<times> Repository" where
  "initialize_identity repo io configured_node_id fresh_uuid now =
     (case ensure_open repo of
        Inl e \<Rightarrow> (Inl e, repo)
      | Inr _ \<Rightarrow>
          if configured_node_id = [] then (raise ValueError ''configured_node_id must not be empty'', repo)
          else executor_run repo io (\<lambda>db.
            case db_identity db of
              Some identity \<Rightarrow>
                (if id_node identity \<noteq> configured_node_id
                 then raise NodeIdentityMismatchError ''durable database belongs to a different configured node id''
                 else Inr identity, db)
            | None \<Rightarrow>
                (case DurableNodeIdentity_init fresh_uuid configured_node_id (max 1 now) of
                   Inl e \<Rightarrow> (Inl e, db)
                 | Inr identity \<Rightarrow> (Inr identity, db\<lparr>db_identity := Some identity\<rparr>))))"

definition load_clock :: "Repository \<Rightarrow> io \<Rightarrow> DurableCausalState option result \<times> Repository" where
  "load_clock repo io =
     (case ensure_open repo of
        Inl e \<Rightarrow> (Inl e, repo)
      | Inr _ \<Rightarrow>
          executor_run repo io (\<lambda>db.
            (case (db_identity db, db_clock db) of
               (Some identity, Some (local_counter, frontier_json)) \<Rightarrow>
                 rbind (CausalActor_init (id_node identity) (id_incarnation identity)) (\<lambda>actor.
                 rbind (decode_version_vector frontier_json) (\<lambda>frontier.
                 rbind (DurableCausalState_init actor local_counter frontier) (\<lambda>st. Inr (Some st))))
             | _ \<Rightarrow> Inr None, db)))"

definition upsert_clock :: "DurableCausalState \<Rightarrow> Database \<Rightarrow> Database" where
  "upsert_clock st db = db\<lparr>db_clock := Some (dcs_counter st, encode_version_vector (dcs_frontier st))\<rparr>"

definition save_clock :: "Repository \<Rightarrow> io \<Rightarrow> DurableCausalState \<Rightarrow> unit result \<times> Repository" where
  "save_clock repo io st =
     (case ensure_open repo of
        Inl e \<Rightarrow> (Inl e, repo)
      | Inr _ \<Rightarrow> executor_run repo io (\<lambda>db. (Inr (), upsert_clock st db)))"

definition upsert_entry :: "EncodedCrdtEntry \<Rightarrow> bool \<Rightarrow> Database \<Rightarrow> Database" where
  "upsert_entry encoded authoritative db =
     db\<lparr>db_entries := AList.update (enc_key encoded) (encoded, authoritative) (db_entries db)\<rparr>"

definition load_entries :: "Repository \<Rightarrow> io \<Rightarrow> StoredCrdtEntry list result \<times> Repository" where
  "load_entries repo io =
     (case ensure_open repo of
        Inl e \<Rightarrow> (Inl e, repo)
      | Inr _ \<Rightarrow>
          executor_run repo io (\<lambda>db.
            (rmap (\<lambda>(key, encoded, authoritative). decode_entry encoded) (sort_key fst (db_entries db)), db)))"

definition commit_entry_and_clock ::
  "Repository \<Rightarrow> io \<Rightarrow> StoredCrdtEntry \<Rightarrow> DurableCausalState \<Rightarrow> bool \<Rightarrow> unit result \<times> Repository" where
  "commit_entry_and_clock repo io entry causal_state authoritative =
     (case ensure_open repo of
        Inl e \<Rightarrow> (Inl e, repo)
      | Inr _ \<Rightarrow>
          (case encode_entry entry of
             Inl e \<Rightarrow> (Inl e, repo)
           | Inr encoded \<Rightarrow>
               (case executor_run repo io (\<lambda>db.
                  (Inr (), upsert_entry encoded authoritative (upsert_clock causal_state db))) of
                  (Inl e, repo') \<Rightarrow>
                    (if exn_cls e = SqliteError
                     then raise PersistenceUnavailableError ''SQLite commit failed'' else Inl e, repo')
                | (Inr u, repo') \<Rightarrow> (Inr u, repo'))))"

definition commit_mutation ::
  "Repository \<Rightarrow> io \<Rightarrow> StoredCrdtEntry \<Rightarrow> DurableCausalState \<Rightarrow> unit result \<times> Repository" where
  "commit_mutation repo io entry causal_state = commit_entry_and_clock repo io entry causal_state True"

definition commit_observed_entry ::
  "Repository \<Rightarrow> io \<Rightarrow> StoredCrdtEntry \<Rightarrow> DurableCausalState \<Rightarrow> unit result \<times> Repository" where
  "commit_observed_entry repo io entry causal_state = commit_entry_and_clock repo io entry causal_state True"

definition mark_authority :: "Repository \<Rightarrow> io \<Rightarrow> string \<Rightarrow> bool \<Rightarrow> unit result \<times> Repository" where
  "mark_authority repo io key authoritative =
     (case ensure_open repo of
        Inl e \<Rightarrow> (Inl e, repo)
      | Inr _ \<Rightarrow>
          executor_run repo io (\<lambda>db.
            (Inr (), db\<lparr>db_entries := map (\<lambda>(k, encoded, a). (k, encoded, if k = key then authoritative else a))
                              (db_entries db)\<rparr>)))"

section \<open>The persist-before-memory store\<close>

record DurableCrdtStore =
  dn_memory :: CrdtStore
  dn_repo :: Repository
  dn_clock :: CausalClock

text \<open>\<^verbatim>\<open>replace\<close> and \<^verbatim>\<open>restore_entries\<close> touch the memory only.\<close>

definition durable_replace ::
  "DurableCrdtStore \<Rightarrow> StoredCrdtEntry \<Rightarrow> CrdtType option \<Rightarrow> StoredCrdtEntry result \<times> DurableCrdtStore" where
  "durable_replace n entry expected_type =
     (let (r, memory) = store_replace (dn_memory n) entry expected_type in (r, n\<lparr>dn_memory := memory\<rparr>))"

definition restore_entries :: "CrdtStore \<Rightarrow> StoredCrdtEntry list \<Rightarrow> CrdtStore result" where
  "restore_entries memory entries =
     rfold (\<lambda>m entry. case store_replace m entry (Some (se_type entry)) of
              (Inl e, m') \<Rightarrow> Inl e | (Inr r, m') \<Rightarrow> Inr m') memory entries"

definition commit_local ::
  "DurableCrdtStore \<Rightarrow> io \<Rightarrow> StoredCrdtEntry \<Rightarrow> VersionVector \<Rightarrow> StoredCrdtEntry result \<times> DurableCrdtStore" where
  "commit_local n io entry frontier =
     (case DurableCausalState_init (clk_actor (dn_clock n)) (vv_get frontier (clk_actor (dn_clock n))) frontier of
        Inl e \<Rightarrow> (Inl e, n)
      | Inr causal_state \<Rightarrow>
          (case commit_mutation (dn_repo n) io entry causal_state of
             (Inl e, repo) \<Rightarrow> (Inl e, n\<lparr>dn_repo := repo\<rparr>)
           | (Inr _, repo) \<Rightarrow> durable_replace (n\<lparr>dn_repo := repo\<rparr>) entry (Some (se_type entry))))"

text \<open>The body that \<^verbatim>\<open>merge_entry\<close> and \<^verbatim>\<open>merge_metadata\<close> run inside \<^verbatim>\<open>staged_observe\<close>.\<close>

definition persist_observed ::
  "DurableCrdtStore \<Rightarrow> io \<Rightarrow> StoredCrdtEntry \<Rightarrow> CrdtType \<Rightarrow> VersionVector \<Rightarrow>
     StoredCrdtEntry result \<times> bool \<times> DurableCrdtStore" where
  "persist_observed n io entry expected_type frontier =
     (case DurableCausalState_init (clk_actor (dn_clock n)) (vv_get frontier (clk_actor (dn_clock n))) frontier of
        Inl e \<Rightarrow> (Inl e, False, n)
      | Inr causal_state \<Rightarrow>
          (case commit_observed_entry (dn_repo n) io entry causal_state of
             (Inl e, repo) \<Rightarrow> (Inl e, False, n\<lparr>dn_repo := repo\<rparr>)
           | (Inr _, repo) \<Rightarrow>
               (case durable_replace (n\<lparr>dn_repo := repo\<rparr>) entry (Some expected_type) of
                  (Inl e, n') \<Rightarrow> (Inl e, False, n')
                | (Inr r, n') \<Rightarrow> (Inr r, True, n'))))"

definition observe_and_persist ::
  "DurableCrdtStore \<Rightarrow> io \<Rightarrow> StoredCrdtEntry \<Rightarrow> CrdtType \<Rightarrow> StoredCrdtEntry result \<times> DurableCrdtStore" where
  "observe_and_persist n io entry expected_type =
     (let (r, n', clk) = staged_observe (dn_clock n) (se_context entry) (persist_observed n io entry expected_type)
      in (r, n'\<lparr>dn_clock := clk\<rparr>))"

definition durable_merge_entry ::
  "DurableCrdtStore \<Rightarrow> io \<Rightarrow> StoredCrdtEntry \<Rightarrow> StoredCrdtEntry result \<times> DurableCrdtStore" where
  "durable_merge_entry n io incoming =
     (case (case store_get (dn_memory n) (se_key incoming) of
              None \<Rightarrow> Inr incoming | Some existing \<Rightarrow> merge_entries existing incoming) of
        Inl e \<Rightarrow> (Inl e, n)
      | Inr merged \<Rightarrow> observe_and_persist n io merged (se_type merged))"

definition durable_merge_metadata ::
  "DurableCrdtStore \<Rightarrow> io \<Rightarrow> string \<Rightarrow> VersionVector \<Rightarrow> StoredCrdtEntry option result \<times> DurableCrdtStore" where
  "durable_merge_metadata n io key causal_context =
     (case store_get (dn_memory n) key of
        None \<Rightarrow> (Inr None, n)
      | Some existing \<Rightarrow>
          (case with_context existing (vv_merge (se_context existing) causal_context) of
             Inl e \<Rightarrow> (Inl e, n)
           | Inr updated \<Rightarrow>
               (let (r, n') = observe_and_persist n io updated (se_type existing)
                in (rbind r (\<lambda>e. Inr (Some e)), n'))))"

section \<open>Restore\<close>

record RestoredNodeState =
  rs_identity :: DurableNodeIdentity
  rs_causal :: DurableCausalState
  rs_clock :: CausalClock
  rs_memory :: CrdtStore

text \<open>
  \<^verbatim>\<open>restore\<close> after the integrity check: \<open>ios i\<close> is what happens to its \<open>i\<close>-th repository call.
\<close>

definition restore_identity ::
  "Repository \<Rightarrow> (nat \<Rightarrow> io) \<Rightarrow> string \<Rightarrow> string \<Rightarrow> int \<Rightarrow> DurableNodeIdentity result \<times> Repository" where
  "restore_identity repo ios configured_node_id fresh_uuid now =
     (case load_identity repo (ios 1) of
        (Inl e, repo1) \<Rightarrow> (Inl e, repo1)
      | (Inr None, repo1) \<Rightarrow> initialize_identity repo1 (ios 2) configured_node_id fresh_uuid now
      | (Inr (Some identity), repo1) \<Rightarrow>
          if id_node identity \<noteq> configured_node_id
          then (case initialize_identity repo1 (ios 2) configured_node_id fresh_uuid now of
                  (Inl e, repo2) \<Rightarrow> (Inl e, repo2)
                | (Inr _, repo2) \<Rightarrow> (Inr identity, repo2))
          else (Inr identity, repo1))"

definition restore_clock ::
  "Repository \<Rightarrow> (nat \<Rightarrow> io) \<Rightarrow> CausalActor \<Rightarrow> DurableCausalState result \<times> Repository" where
  "restore_clock repo ios actor =
     (case load_clock repo (ios 3) of
        (Inl e, repo1) \<Rightarrow> (Inl e, repo1)
      | (Inr (Some st), repo1) \<Rightarrow> (Inr st, repo1)
      | (Inr None, repo1) \<Rightarrow>
          (case DurableCausalState_init actor 0 vv_empty of
             Inl e \<Rightarrow> (Inl e, repo1)
           | Inr st \<Rightarrow>
               (case save_clock repo1 (ios 4) st of
                  (Inl e, repo2) \<Rightarrow> (Inl e, repo2)
                | (Inr _, repo2) \<Rightarrow> (Inr st, repo2))))"

definition restore_frontier ::
  "Repository \<Rightarrow> (nat \<Rightarrow> io) \<Rightarrow> CausalActor \<Rightarrow> DurableCausalState \<Rightarrow> StoredCrdtEntry list \<Rightarrow>
     DurableCausalState result \<times> Repository" where
  "restore_frontier repo ios actor st entries =
     (let merged = foldl (\<lambda>f entry. vv_merge f (se_context entry)) (dcs_frontier st) entries
      in if merged = dcs_frontier st then (Inr st, repo)
         else (case DurableCausalState_init actor (vv_get merged actor) merged of
                 Inl e \<Rightarrow> (Inl e, repo)
               | Inr st' \<Rightarrow>
                   (case save_clock repo (ios 6) st' of
                      (Inl e, repo') \<Rightarrow> (Inl e, repo')
                    | (Inr _, repo') \<Rightarrow> (Inr st', repo'))))"

definition restore ::
  "Repository \<Rightarrow> (nat \<Rightarrow> io) \<Rightarrow> string \<Rightarrow> string \<Rightarrow> string \<Rightarrow> int \<Rightarrow> RestoredNodeState result \<times> Repository" where
  "restore repo ios quick configured_node_id fresh_uuid now =
     (case integrity_check repo (ios 0) quick of
        (Inl e, repo1) \<Rightarrow> (Inl e, repo1)
      | (Inr _, repo1) \<Rightarrow>
     (case restore_identity repo1 ios configured_node_id fresh_uuid now of
        (Inl e, repo2) \<Rightarrow> (Inl e, repo2)
      | (Inr identity, repo2) \<Rightarrow>
     (case CausalActor_init (id_node identity) (id_incarnation identity) of
        Inl e \<Rightarrow> (Inl e, repo2)
      | Inr actor \<Rightarrow>
     (case restore_clock repo2 ios actor of
        (Inl e, repo3) \<Rightarrow> (Inl e, repo3)
      | (Inr st, repo3) \<Rightarrow>
     (case load_entries repo3 (ios 5) of
        (Inl e, repo4) \<Rightarrow> (Inl e, repo4)
      | (Inr entries, repo4) \<Rightarrow>
     (case restore_frontier repo4 ios actor st entries of
        (Inl e, repo5) \<Rightarrow> (Inl e, repo5)
      | (Inr st', repo5) \<Rightarrow>
     (case restore_entries CrdtStore_init entries of
        Inl e \<Rightarrow> (Inl e, repo5)
      | Inr memory \<Rightarrow>
          (Inr \<lparr>rs_identity = identity, rs_causal = st',
                rs_clock = snd (clock_restore (CausalClock_init actor) (dcs_frontier st')),
                rs_memory = memory\<rparr>, repo5))))))))"

section \<open>Well-formed vectors and entries\<close>

lemma vv_wf_iff: "vv_wf v \<longleftrightarrow> vv_ok v \<and> (\<forall>a. 0 < vv_get v a \<longrightarrow> actor_ok a)"
  by (force simp: vv_wf_def vv_get_def vv_ok_def cget_pos_iff)

lemma vv_wf_ok: "vv_wf v \<Longrightarrow> vv_ok v"
  by (simp add: vv_wf_def)

lemma vv_wf_merge [simp]: "vv_wf v \<Longrightarrow> vv_wf w \<Longrightarrow> vv_wf (vv_merge v w)"
  by (auto simp: vv_wf_iff max_def split: if_splits)

lemma vv_wf_with_dot [simp]: "vv_wf v \<Longrightarrow> dot_ok d \<Longrightarrow> vv_wf (with_dot v d)"
  by (auto simp: vv_wf_iff dot_ok_def split: if_splits)

lemma vv_wf_foldl_contexts:
  "vv_wf f \<Longrightarrow> (\<And>e. e \<in> set es \<Longrightarrow> vv_wf (se_context e)) \<Longrightarrow>
     vv_wf (foldl (\<lambda>f e. vv_merge f (se_context e)) f es) \<and>
     dominates (foldl (\<lambda>f e. vv_merge f (se_context e)) f es) f"
proof (induction es arbitrary: f)
  case (Cons e es)
  then show ?case using Cons.IH [of "vv_merge f (se_context e)"] by simp
qed simp

text \<open>Whatever the decoder accepts is well-formed.\<close>

lemma CausalActor_init_ok: "CausalActor_init n i = Inr a \<Longrightarrow> actor_ok a"
  by (auto simp: CausalActor_init_def actor_ok_def split: if_splits)

lemma decode_actor_ok: "decode_actor j = Inr a \<Longrightarrow> actor_ok a"
  by (auto simp: decode_actor_def CausalActor_init_ok split: option.splits)

lemma decode_vv_items_ok:
  "rfold decode_vv_item acc items = Inr d \<Longrightarrow> dict_ok acc \<Longrightarrow> (\<forall>(a, c) \<in> set acc. actor_ok a) \<Longrightarrow>
     dict_ok d \<and> (\<forall>(a, c) \<in> set d. actor_ok a)"
proof (induction items arbitrary: acc)
  case (Cons item items)
  then obtain acc' where acc': "decode_vv_item acc item = Inr acc'" "rfold decode_vv_item acc' items = Inr d"
    by (auto simp: rbind_eq_Inr)
  then obtain a c where "acc' = AList.update a c acc" "actor_ok a"
    by (auto simp: decode_vv_item_def rbind_eq_Inr decode_actor_ok split: option.splits if_splits)
  then have "dict_ok acc'" "\<forall>(a, c) \<in> set acc'. actor_ok a"
    using Cons.prems by (auto dest!: set_update_cases)
  then show ?case using Cons.IH acc'(2) by blast
qed simp

lemma decode_version_vector_wf: "decode_version_vector raw = Inr v \<Longrightarrow> vv_wf v"
proof -
  assume "decode_version_vector raw = Inr v"
  then obtain items d where "rfold decode_vv_item [] items = Inr d" "VersionVector_init d = Inr v"
    by (auto simp: decode_version_vector_def rbind_eq_Inr split: option.splits)
  moreover from this have d: "dict_ok d" "\<forall>(a, c) \<in> set d. actor_ok a"
    using decode_vv_items_ok [of "[]" items d] by auto
  ultimately have "vv_ok v" and v: "v = vv_normalized d"
    using vv_init_ok by (auto simp: VersionVector_init_def split: if_splits)
  moreover have "set (vv_items v) \<subseteq> set d" by (auto simp: v vv_normalized_def cnorm_def)
  ultimately show ?thesis using d by (auto simp: vv_wf_def)
qed

lemma decode_entry_context_wf: "decode_entry enc = Inr e \<Longrightarrow> vv_wf (se_context e)"
  by (auto simp: decode_entry_def rbind_eq_Inr StoredCrdtEntry_init_def decode_version_vector_wf
      split: option.splits if_splits)

section \<open>Executor runs\<close>

lemma executor_run_cases:
  assumes "executor_run repo io fn = (r, repo')"
  shows "repo' = repo \<or> repo' = repo\<lparr>repo_db := snd (fn (repo_db repo))\<rparr>"
    and "\<And>x. r = Inr x \<Longrightarrow> fst (fn (repo_db repo)) = Inr x \<and> repo' = repo\<lparr>repo_db := snd (fn (repo_db repo))\<rparr>"
  using assms by (auto simp: executor_run_def Let_def case_prod_unfold split: io.splits if_splits)

section \<open>Histories with crashes\<close>

text \<open>
  A local write as its caller composes it: under the key's lock, it reads the existing
  entry; inside the staged allocation it builds the new entry from that, the dot and the
  frontier, and commits it.
\<close>

definition local_write ::
  "DurableCrdtStore \<Rightarrow> io \<Rightarrow> VersionVector option \<Rightarrow> (Dot \<Rightarrow> VersionVector \<Rightarrow> StoredCrdtEntry result) \<Rightarrow>
     Dot result \<times> DurableCrdtStore" where
  "local_write n io observed mk =
     (let (r, n', clk) = staged_allocation (dn_clock n) observed (\<lambda>dot frontier.
            case mk dot frontier of
              Inl e \<Rightarrow> (Inl e, False, n)
            | Inr entry \<Rightarrow>
                (case commit_local n io entry frontier of
                   (Inl e, n1) \<Rightarrow> (Inl e, False, n1)
                 | (Inr _, n1) \<Rightarrow> (Inr dot, True, n1)))
      in (r, n'\<lparr>dn_clock := clk\<rparr>))"

datatype durable_node = Down Repository | Up DurableCrdtStore

datatype durable_call =
    LocalWrite io string "VersionVector option"
      "StoredCrdtEntry option \<Rightarrow> Dot \<Rightarrow> VersionVector \<Rightarrow> StoredCrdtEntry result"
  | Incoming io StoredCrdtEntry
  | Metadata io string VersionVector
  | ObserveToken VersionVector
  | Restart "nat \<Rightarrow> io" string string string int

definition restart ::
  "Repository \<Rightarrow> (nat \<Rightarrow> io) \<Rightarrow> string \<Rightarrow> string \<Rightarrow> string \<Rightarrow> int \<Rightarrow> durable_node" where
  "restart repo ios quick node fresh_uuid now =
     (case restore repo ios quick node fresh_uuid now of
        (Inl e, repo') \<Rightarrow> Down repo'
      | (Inr st, repo') \<Rightarrow> Up \<lparr>dn_memory = rs_memory st, dn_repo = repo', dn_clock = rs_clock st\<rparr>)"

text \<open>The dots of the writes that returned, and the node after the call. A restart is a crash first.\<close>

fun durable_step :: "durable_node \<Rightarrow> durable_call \<Rightarrow> Dot list \<times> durable_node" where
  "durable_step (Up n) (LocalWrite io key observed mk) =
     (case local_write n io observed (mk (store_get (dn_memory n) key)) of (r, n') \<Rightarrow> (case r of Inl e \<Rightarrow> [] | Inr dot \<Rightarrow> [dot], Up n'))"
| "durable_step (Up n) (Incoming io entry) = ([], Up (snd (durable_merge_entry n io entry)))"
| "durable_step (Up n) (Metadata io key ctx) = ([], Up (snd (durable_merge_metadata n io key ctx)))"
| "durable_step (Up n) (ObserveToken v) = ([], Up (n\<lparr>dn_clock := snd (observe (dn_clock n) v)\<rparr>))"
| "durable_step (Up n) (Restart ios quick node fresh_uuid now) = ([], restart (dn_repo n) ios quick node fresh_uuid now)"
| "durable_step (Down repo) (Restart ios quick node fresh_uuid now) = ([], restart repo ios quick node fresh_uuid now)"
| "durable_step (Down repo) call = ([], Down repo)"

fun durable_run :: "durable_node \<Rightarrow> durable_call list \<Rightarrow> Dot list \<times> durable_node" where
  "durable_run n [] = ([], n)"
| "durable_run n (call # calls) =
     (let (dots, n1) = durable_step n call; (rest, n2) = durable_run n1 calls in (dots @ rest, n2))"

text \<open>Version vectors on the wire and in tokens name proper actors.\<close>

fun durable_call_ok :: "durable_call \<Rightarrow> bool" where
  "durable_call_ok (LocalWrite io key observed mk) \<longleftrightarrow>
     (\<forall>v. observed = Some v \<longrightarrow> vv_wf v) \<and>
     (\<forall>existing dot frontier e. (\<forall>x. existing = Some x \<longrightarrow> vv_wf (se_context x)) \<longrightarrow> dot_ok dot \<longrightarrow>
        vv_wf frontier \<longrightarrow> mk existing dot frontier = Inr e \<longrightarrow> vv_wf (se_context e))"
| "durable_call_ok (Incoming io entry) \<longleftrightarrow> vv_wf (se_context entry)"
| "durable_call_ok (Metadata io key ctx) \<longleftrightarrow> vv_wf ctx"
| "durable_call_ok (ObserveToken v) \<longleftrightarrow> vv_wf v"
| "durable_call_ok (Restart ios quick node fresh_uuid now) \<longleftrightarrow> True"

text \<open>
  What the database knows of the dots given out so far: its identity row is their actor and
  its clock row covers their counters.
\<close>

definition db_covers :: "Dot list \<Rightarrow> Database \<Rightarrow> bool" where
  "db_covers ds db \<longleftrightarrow> ds = [] \<or>
     (\<exists>ident c f. db_identity db = Some ident \<and> db_clock db = Some (c, encode_version_vector f) \<and> vv_wf f \<and>
        (\<forall>d \<in> set ds. dot_actor d = CausalActor (id_node ident) (id_incarnation ident) \<and>
           dot_counter d \<le> vv_get f (dot_actor d)))"

definition memory_wf :: "CrdtStore \<Rightarrow> bool" where
  "memory_wf m \<longleftrightarrow> (\<forall>k e. store_get m k = Some e \<longrightarrow> vv_wf (se_context e))"

definition up_ok :: "Dot list \<Rightarrow> DurableCrdtStore \<Rightarrow> bool" where
  "up_ok ds n \<longleftrightarrow> vv_wf (clk_frontier (dn_clock n)) \<and> actor_ok (clk_actor (dn_clock n)) \<and>
     memory_wf (dn_memory n) \<and>
     (\<exists>ident. db_identity (repo_db (dn_repo n)) = Some ident \<and>
        clk_actor (dn_clock n) = CausalActor (id_node ident) (id_incarnation ident)) \<and>
     (\<forall>d \<in> set ds. dot_actor d = clk_actor (dn_clock n) \<and>
        dot_counter d \<le> vv_get (clk_frontier (dn_clock n)) (clk_actor (dn_clock n))) \<and>
     db_covers ds (repo_db (dn_repo n))"

fun node_ok :: "Dot list \<Rightarrow> durable_node \<Rightarrow> bool" where
  "node_ok ds (Down repo) = db_covers ds (repo_db repo)"
| "node_ok ds (Up n) = up_ok ds n"

subsection \<open>Commits keep the coverage\<close>

lemma commit_db:
  assumes "commit_entry_and_clock repo io entry st auth = (r, repo')"
  shows "repo_db repo' = repo_db repo \<or>
    (db_identity (repo_db repo') = db_identity (repo_db repo) \<and>
     db_clock (repo_db repo') = Some (dcs_counter st, encode_version_vector (dcs_frontier st)))"
    and "r = Inr u \<Longrightarrow> db_clock (repo_db repo') = Some (dcs_counter st, encode_version_vector (dcs_frontier st)) \<and>
      db_identity (repo_db repo') = db_identity (repo_db repo)"
proof -
  have "(repo' = repo \<and> (\<forall>u. r \<noteq> Inr u)) \<or>
      (\<exists>enc. repo' = repo\<lparr>repo_db := upsert_entry enc auth (upsert_clock st (repo_db repo))\<rparr>)"
    using assms
    by (cases "ensure_open repo"; cases "encode_entry entry"; cases io)
      (auto simp: commit_entry_and_clock_def executor_run_def Let_def split: if_splits)
  then show "repo_db repo' = repo_db repo \<or>
    (db_identity (repo_db repo') = db_identity (repo_db repo) \<and>
     db_clock (repo_db repo') = Some (dcs_counter st, encode_version_vector (dcs_frontier st)))"
    and "r = Inr u \<Longrightarrow> db_clock (repo_db repo') = Some (dcs_counter st, encode_version_vector (dcs_frontier st)) \<and>
      db_identity (repo_db repo') = db_identity (repo_db repo)"
    by (auto simp: upsert_entry_def upsert_clock_def)
qed

lemma db_covers_intro:
  "db_identity db = Some ident \<Longrightarrow> db_clock db = Some (c, encode_version_vector f) \<Longrightarrow> vv_wf f \<Longrightarrow>
     (\<And>d. d \<in> set ds \<Longrightarrow> dot_actor d = CausalActor (id_node ident) (id_incarnation ident) \<and>
        dot_counter d \<le> vv_get f (dot_actor d)) \<Longrightarrow> db_covers ds db"
  unfolding db_covers_def by blast

lemma db_covers_mono:
  "db_covers ds db \<Longrightarrow> db_clock db' = db_clock db \<Longrightarrow>
     (\<And>i. db_identity db = Some i \<Longrightarrow> db_identity db' = Some i) \<Longrightarrow> db_covers ds db'"
  unfolding db_covers_def by metis

lemma db_covers_upsert:
  assumes "db_covers ds db" "db_identity db' = db_identity db"
    and "db_clock db' = Some (c, encode_version_vector f)" "vv_wf f"
    and "\<forall>d \<in> set ds. dot_counter d \<le> vv_get f (dot_actor d)"
  shows "db_covers ds db'"
  using assms by (auto simp: db_covers_def intro!: exI [of _ f])

lemma commit_covers:
  assumes up: "up_ok ds n" and f: "vv_wf (dcs_frontier st)" "dominates (dcs_frontier st) (clk_frontier (dn_clock n))"
    and commit: "commit_entry_and_clock (dn_repo n) io entry st auth = (r, repo')"
  shows "db_identity (repo_db repo') = db_identity (repo_db (dn_repo n))" "db_covers ds (repo_db repo')"
    "r = Inr u \<Longrightarrow> dot_actor d = clk_actor (dn_clock n) \<Longrightarrow> dot_counter d \<le> vv_get (dcs_frontier st) (dot_actor d) \<Longrightarrow>
       db_covers (ds @ [d]) (repo_db repo')"
proof -
  have below: "\<forall>d \<in> set ds. dot_counter d \<le> vv_get (dcs_frontier st) (dot_actor d)"
    using up f(2) unfolding up_ok_def dominates_iff by (metis order_trans)
  show "db_identity (repo_db repo') = db_identity (repo_db (dn_repo n))"
    using commit_db(1) [OF commit] by auto
  show "db_covers ds (repo_db repo')"
    using commit_db(1) [OF commit] up db_covers_upsert [OF _ _ _ f(1) below] by (auto simp: up_ok_def)
  assume d: "r = Inr u" "dot_actor d = clk_actor (dn_clock n)" "dot_counter d \<le> vv_get (dcs_frontier st) (dot_actor d)"
  obtain ident where ident: "db_identity (repo_db (dn_repo n)) = Some ident"
      "clk_actor (dn_clock n) = CausalActor (id_node ident) (id_incarnation ident)"
    using up by (auto simp: up_ok_def)
  have "\<forall>x \<in> set (ds @ [d]). dot_actor x = CausalActor (id_node ident) (id_incarnation ident) \<and>
      dot_counter x \<le> vv_get (dcs_frontier st) (dot_actor x)"
    using up d below ident by (auto simp: up_ok_def)
  then show "db_covers (ds @ [d]) (repo_db repo')"
    using commit_db(2) [OF commit d(1)] ident(1) f(1) unfolding db_covers_def by fastforce
qed

lemma causal_state_init:
  "vv_wf f \<Longrightarrow> DurableCausalState_init a (vv_get f a) f = Inr \<lparr>dcs_actor = a, dcs_counter = vv_get f a, dcs_frontier = f\<rparr>"
  by (simp add: DurableCausalState_init_def vv_wf_ok not_less)

lemma durable_replace_sel:
  assumes "durable_replace n e t = (r, n')"
  shows "dn_repo n' = dn_repo n" "dn_clock n' = dn_clock n"
    "memory_wf (dn_memory n) \<Longrightarrow> vv_wf (se_context e) \<Longrightarrow> memory_wf (dn_memory n')"
proof -
  obtain m where m: "store_replace (dn_memory n) e t = (r, m)" "n' = n\<lparr>dn_memory := m\<rparr>"
    using assms by (auto simp: durable_replace_def Let_def split: prod.splits)
  then show "dn_repo n' = dn_repo n" "dn_clock n' = dn_clock n" by simp_all
  show "memory_wf (dn_memory n')" if "memory_wf (dn_memory n)" "vv_wf (se_context e)"
    using that m store_replace_get(1) [of "dn_memory n" e t _ m] store_replace_raises [of "dn_memory n" e t _ m]
    by (cases r) (auto simp: memory_wf_def)
qed

lemma commit_local_up:
  assumes up: "up_ok ds n" and f: "vv_wf f" "dominates f (clk_frontier (dn_clock n))" and e: "vv_wf (se_context e)"
    and commit: "commit_local n io e f = (r, n')"
  shows "up_ok ds n'" "dn_clock n' = dn_clock n"
    "r = Inr x \<Longrightarrow> dot_actor d = clk_actor (dn_clock n) \<Longrightarrow> dot_counter d \<le> vv_get f (dot_actor d) \<Longrightarrow>
       db_covers (ds @ [d]) (repo_db (dn_repo n'))"
proof -
  let ?st = "\<lparr>dcs_actor = clk_actor (dn_clock n), dcs_counter = vv_get f (clk_actor (dn_clock n)), dcs_frontier = f\<rparr>"
  obtain q repo' where q: "commit_entry_and_clock (dn_repo n) io e ?st True = (q, repo')" by fastforce
  note cov = commit_covers [OF up _ _ q, simplified, OF f]
  have n': "if isl q then r = Inl (projl q) \<and> n' = n\<lparr>dn_repo := repo'\<rparr>
      else durable_replace (n\<lparr>dn_repo := repo'\<rparr>) e (Some (se_type e)) = (r, n')"
    using commit q by (auto simp: commit_local_def causal_state_init [OF f(1)] commit_mutation_def split: sum.splits)
  then have sel: "dn_repo n' = repo'" "dn_clock n' = dn_clock n" "memory_wf (dn_memory n')"
    using durable_replace_sel [of "n\<lparr>dn_repo := repo'\<rparr>" e "Some (se_type e)" r n'] up e
    by (auto simp: up_ok_def split: if_splits)
  then show "up_ok ds n'" "dn_clock n' = dn_clock n" using up cov(1,2) by (auto simp: up_ok_def)
  assume "r = Inr x" "dot_actor d = clk_actor (dn_clock n)" "dot_counter d \<le> vv_get f (dot_actor d)"
  moreover from this obtain u where "q = Inr u" using n' by (cases q) auto
  ultimately show "db_covers (ds @ [d]) (repo_db (dn_repo n'))" using cov(3) sel(1) by simp
qed

lemma local_write_up:
  assumes up: "up_ok ds n" and ok: "\<forall>v. observed = Some v \<longrightarrow> vv_wf v"
      "\<forall>dot frontier e. dot_ok dot \<longrightarrow> vv_wf frontier \<longrightarrow> mk dot frontier = Inr e \<longrightarrow> vv_wf (se_context e)"
    and run: "local_write n io observed mk = (r, n')"
  shows "up_ok (ds @ (case r of Inl e \<Rightarrow> [] | Inr dot \<Rightarrow> [dot])) n'"
    "r = Inr dot \<Longrightarrow> dot_actor dot = clk_actor (dn_clock n) \<and> vv_get (clk_frontier (dn_clock n)) (dot_actor dot) < dot_counter dot"
proof -
  let ?b = "alloc_base (dn_clock n) observed" let ?d = "alloc_dot (dn_clock n) observed"
  let ?f = "with_dot ?b ?d"
  have b: "vv_wf ?b" using up ok by (cases observed) (auto simp: alloc_base_def up_ok_def)
  have at: "dot_actor ?d = clk_actor (dn_clock n)" "dot_counter ?d = vv_get ?b (clk_actor (dn_clock n)) + 1"
    by (simp_all add: alloc_dot_def)
  have d: "dot_ok ?d" using up at alloc_dot_counter_pos [OF vv_wf_ok [OF b]] by (simp add: dot_ok_def up_ok_def)
  have f: "vv_wf ?f" using b d by simp
  have dom: "dominates ?f (clk_frontier (dn_clock n))"
    using dominates_trans [OF dominates_with_dot [OF vv_wf_ok [OF b]] dominates_alloc_base] .
  have top: "vv_get ?f (dot_actor ?d) = dot_counter ?d" using at vv_wf_ok [OF b] by simp
  have gt: "vv_get (clk_frontier (dn_clock n)) (dot_actor ?d) < dot_counter ?d"
    using dominates_alloc_base [of "dn_clock n" observed] at by (simp add: dominates_iff)
  consider (mk) e where "mk ?d ?f = Inl e" | (entry) entry where "mk ?d ?f = Inr entry" by (cases "mk ?d ?f")
  then have "up_ok (ds @ (case r of Inl e \<Rightarrow> [] | Inr dot \<Rightarrow> [dot])) n' \<and> (\<forall>dot. r = Inr dot \<longrightarrow> dot = ?d)"
  proof cases
    case mk
    then have "r = Inl e" "n' = n" using run by (auto simp: local_write_def staged_allocation_alt)
    then show ?thesis using up by simp
  next
    case entry
    have e: "vv_wf (se_context entry)" using ok entry d f by auto
    obtain q n1 where q: "commit_local n io entry ?f = (q, n1)" by fastforce
    note up1 = commit_local_up [OF up f dom e q]
    show ?thesis
    proof (cases q)
      case (Inl err)
      then have "r = Inl err" "n' = n1\<lparr>dn_clock := dn_clock n\<rparr>"
        using run entry q by (auto simp: local_write_def staged_allocation_alt)
      then show ?thesis using up1(1,2) by (simp add: up_ok_def)
    next
      case (Inr x)
      then have r: "r = Inr ?d" "n' = n1\<lparr>dn_clock := (dn_clock n)\<lparr>clk_frontier := ?f\<rparr>\<rparr>"
        using run entry q by (auto simp: local_write_def staged_allocation_alt)
      have "db_covers (ds @ [?d]) (repo_db (dn_repo n1))" using up1(3) [OF Inr at(1)] top by simp
      moreover have "\<forall>x \<in> set ds. dot_counter x \<le> vv_get ?f (clk_actor (dn_clock n))"
        using up dom unfolding up_ok_def dominates_iff by (metis order_trans)
      ultimately show ?thesis using up1(1,2) r f at top by (auto simp: up_ok_def)
    qed
  qed
  then show "up_ok (ds @ (case r of Inl e \<Rightarrow> [] | Inr dot \<Rightarrow> [dot])) n'"
    and "r = Inr dot \<Longrightarrow> dot_actor dot = clk_actor (dn_clock n) \<and> vv_get (clk_frontier (dn_clock n)) (dot_actor dot) < dot_counter dot"
    using at(1) gt by auto
qed

lemma observe_and_persist_up:
  assumes up: "up_ok ds n" and e: "vv_wf (se_context entry)"
    and run: "observe_and_persist n io entry t = (r, n')"
  shows "up_ok ds n'"
proof -
  let ?f = "vv_merge (clk_frontier (dn_clock n)) (se_context entry)"
  have f: "vv_wf ?f" "dominates ?f (clk_frontier (dn_clock n))" using up e by (auto simp: up_ok_def)
  let ?st = "\<lparr>dcs_actor = clk_actor (dn_clock n), dcs_counter = vv_get ?f (clk_actor (dn_clock n)), dcs_frontier = ?f\<rparr>"
  obtain q repo' where q: "commit_entry_and_clock (dn_repo n) io entry ?st True = (q, repo')" by fastforce
  note cov = commit_covers [OF up _ _ q, simplified, OF f(1)]
  obtain p n1 where p: "durable_replace (n\<lparr>dn_repo := repo'\<rparr>) entry (Some t) = (p, n1)" by fastforce
  have body: "persist_observed n io entry t ?f =
      (case q of Inl e \<Rightarrow> (Inl e, False, n\<lparr>dn_repo := repo'\<rparr>)
       | Inr _ \<Rightarrow> (case p of Inl e \<Rightarrow> (Inl e, False, n1) | Inr x \<Rightarrow> (Inr x, True, n1)))"
    unfolding persist_observed_def causal_state_init [OF f(1)] commit_observed_entry_def
    by (simp add: q p del: vv_get_merge split: sum.split)
  have "n' = n\<lparr>dn_repo := repo', dn_clock := dn_clock n\<rparr> \<or> n' = n1\<lparr>dn_clock := dn_clock n\<rparr> \<or>
      n' = n1\<lparr>dn_clock := (dn_clock n)\<lparr>clk_frontier := ?f\<rparr>\<rparr>"
    using run body by (cases q; cases p) (auto simp: observe_and_persist_def staged_observe_def Let_def)
  moreover have "dn_repo n1 = repo'" "dn_clock n1 = dn_clock n" "memory_wf (dn_memory n1)"
    using durable_replace_sel [OF p] up e by (auto simp: up_ok_def)
  moreover have "\<forall>d \<in> set ds. dot_counter d \<le> vv_get ?f (clk_actor (dn_clock n))"
    using up f(2) unfolding up_ok_def dominates_iff by (metis order_trans)
  ultimately show ?thesis using up cov(1,2) f(1) unfolding up_ok_def
    by (elim disjE) simp_all
qed

lemma merge_entries_context:
  "merge_entries a b = Inr m \<Longrightarrow> se_context m = vv_merge (se_context a) (se_context b)"
  by (auto simp: merge_entries_def rbind_eq_Inr StoredCrdtEntry_init_def split: if_splits)

lemma durable_merge_entry_up:
  assumes "up_ok ds n" "vv_wf (se_context entry)"
  shows "up_ok ds (snd (durable_merge_entry n io entry))"
proof -
  obtain res where res: "res = (case store_get (dn_memory n) (se_key entry) of
      None \<Rightarrow> Inr entry | Some existing \<Rightarrow> merge_entries existing entry)" by blast
  show ?thesis
  proof (cases res)
    case (Inl e)
    then show ?thesis using assms res by (simp add: durable_merge_entry_def)
  next
    case (Inr merged)
    then have "vv_wf (se_context merged)"
      using assms res merge_entries_context
      by (auto simp: up_ok_def memory_wf_def split: option.splits)
    then show ?thesis
      using observe_and_persist_up [OF assms(1)] Inr res
      by (simp add: durable_merge_entry_def) (metis prod.collapse)
  qed
qed

lemma durable_merge_metadata_up:
  assumes "up_ok ds n" "vv_wf ctx"
  shows "up_ok ds (snd (durable_merge_metadata n io key ctx))"
proof (cases "store_get (dn_memory n) key")
  case None
  then show ?thesis using assms by (simp add: durable_merge_metadata_def)
next
  case (Some x)
  then have x: "vv_wf (se_context x)" using assms by (auto simp: up_ok_def memory_wf_def)
  show ?thesis
  proof (cases "with_context x (vv_merge (se_context x) ctx)")
    case (Inl e)
    then show ?thesis using assms Some by (simp add: durable_merge_metadata_def)
  next
    case (Inr u)
    then have "vv_wf (se_context u)"
      using x assms(2) by (auto simp: with_context_def StoredCrdtEntry_init_def split: if_splits)
    then show ?thesis
      using observe_and_persist_up [OF assms(1)] Inr Some
      by (simp add: durable_merge_metadata_def case_prod_unfold Let_def) (metis prod.collapse)
  qed
qed

subsection \<open>Restarts keep the coverage\<close>

lemma executor_run_read:
  assumes "executor_run repo io fn = (r, repo')" "\<And>db. snd (fn db) = db"
  shows "repo' = repo" "r = Inr x \<Longrightarrow> fst (fn (repo_db repo)) = Inr x"
  using executor_run_cases [OF assms(1)] assms(2) by auto

lemma integrity_check_repo: "integrity_check repo io quick = (r, repo') \<Longrightarrow> repo' = repo"
  by (auto simp: integrity_check_def executor_run_def Let_def split: sum.splits io.splits if_splits)

lemma load_entries_sel:
  assumes "load_entries repo io = (r, repo')"
  shows "repo' = repo" "r = Inr es \<Longrightarrow> e \<in> set es \<Longrightarrow> vv_wf (se_context e)"
proof -
  have "repo' = repo \<and> (\<forall>es. r = Inr es \<longrightarrow>
      rmap (\<lambda>(key, encoded, authoritative). decode_entry encoded) (sort_key fst (db_entries (repo_db repo))) = Inr es)"
    using assms by (auto simp: load_entries_def executor_run_def Let_def split: sum.splits io.splits)
  moreover have "rmap (\<lambda>(key :: string, encoded, authoritative :: bool). decode_entry encoded) rows = Inr es \<Longrightarrow> e \<in> set es \<Longrightarrow> vv_wf (se_context e)"
    for rows es e
    by (induction rows arbitrary: es) (auto simp: rbind_eq_Inr decode_entry_context_wf)
  ultimately show "repo' = repo" "r = Inr es \<Longrightarrow> e \<in> set es \<Longrightarrow> vv_wf (se_context e)" by blast+
qed

lemma initialize_identity_sel:
  assumes "initialize_identity repo io node fresh_uuid now = (r, repo')"
  shows "db_clock (repo_db repo') = db_clock (repo_db repo)"
    "db_identity (repo_db repo) = Some ident \<Longrightarrow> db_identity (repo_db repo') = Some ident"
    "r = Inr ident \<Longrightarrow> db_identity (repo_db repo') = Some ident"
    "r = Inr ident \<Longrightarrow> db_identity (repo_db repo) = Some ident' \<Longrightarrow> id_node ident' = node"
  using assms
  by (auto simp: initialize_identity_def executor_run_def Let_def split: sum.splits io.splits option.splits if_splits)

lemma restore_identity_covers:
  assumes "restore_identity repo ios node fresh_uuid now = (r, repo')" "db_covers ds (repo_db repo)"
  shows "db_covers ds (repo_db repo')" "r = Inr ident \<Longrightarrow> db_identity (repo_db repo') = Some ident"
proof -
  obtain q repo1 where q: "load_identity repo (ios 1) = (q, repo1)" by fastforce
  then have same: "repo1 = repo" "\<And>x. q = Inr x \<Longrightarrow> x = db_identity (repo_db repo)"
    by (auto simp: load_identity_def executor_run_def Let_def split: sum.splits io.splits if_splits)
  obtain p repo2 where p: "initialize_identity repo1 (ios 2) node fresh_uuid now = (p, repo2)" by fastforce
  note init = initialize_identity_sel [OF p]
  have covers2: "db_covers ds (repo_db repo2)"
    using db_covers_mono [OF assms(2)] init(1,2) same by simp
  have "db_covers ds (repo_db repo') \<and> (\<forall>ident. r = Inr ident \<longrightarrow> db_identity (repo_db repo') = Some ident)"
  proof (cases q)
    case (Inl e)
    then show ?thesis using assms q same by (auto simp: restore_identity_def)
  next
    case (Inr x)
    show ?thesis
    proof (cases x)
      case None
      then show ?thesis using assms(1) q Inr p covers2 init(3) by (auto simp: restore_identity_def)
    next
      case (Some i)
      then have i: "db_identity (repo_db repo1) = Some i" using same Inr by simp
      have "restore_identity repo ios node fresh_uuid now =
          (if id_node i \<noteq> node then (case p of Inl e \<Rightarrow> (Inl e, repo2) | Inr _ \<Rightarrow> (Inr i, repo2)) else (Inr i, repo1))"
        using q Inr Some p by (simp add: restore_identity_def split: sum.split)
      then show ?thesis
        using assms covers2 init(2) [OF i] init(4) [OF _ i] i same(1) by (cases p) (auto split: if_splits)
    qed
  qed
  then show "db_covers ds (repo_db repo')" "r = Inr ident \<Longrightarrow> db_identity (repo_db repo') = Some ident"
    by auto
qed

lemma save_clock_sel:
  assumes "save_clock repo io st = (r, repo')"
  shows "repo' = repo \<or> repo' = repo\<lparr>repo_db := upsert_clock st (repo_db repo)\<rparr>"
    "r = Inr u \<Longrightarrow> repo' = repo\<lparr>repo_db := upsert_clock st (repo_db repo)\<rparr>"
  using assms by (auto simp: save_clock_def executor_run_def Let_def split: sum.splits io.splits if_splits)

lemma load_clock_sel:
  assumes "load_clock repo io = (r, repo')"
  shows "repo' = repo"
    "r = Inr None \<Longrightarrow> db_identity (repo_db repo) = Some ident \<Longrightarrow> db_clock (repo_db repo) = None"
    "r = Inr (Some st) \<Longrightarrow> \<exists>c raw. db_clock (repo_db repo) = Some (c, raw) \<and>
       decode_version_vector raw = Inr (dcs_frontier st)"
  using assms
  by (auto simp: load_clock_def executor_run_def Let_def rbind_eq_Inr DurableCausalState_init_def
      split: sum.splits io.splits option.splits if_splits)

lemma decode_encode_decoded:
  "decode_version_vector raw = Inr f \<Longrightarrow> db_covers ds db \<Longrightarrow> db_clock db = Some (c, raw) \<Longrightarrow>
     db_identity db = Some ident \<Longrightarrow> actor = CausalActor (id_node ident) (id_incarnation ident) \<Longrightarrow>
     \<forall>d \<in> set ds. dot_actor d = actor \<and> dot_counter d \<le> vv_get f actor"
  by (auto simp: db_covers_def decode_encode_version_vector)

text \<open>A frontier under which every dot given out is already counted.\<close>

definition covers_dots :: "Dot list \<Rightarrow> CausalActor \<Rightarrow> VersionVector \<Rightarrow> bool" where
  "covers_dots ds actor f \<longleftrightarrow> vv_wf f \<and> (\<forall>d \<in> set ds. dot_actor d = actor \<and> dot_counter d \<le> vv_get f actor)"

lemma covers_dots_mono: "covers_dots ds actor f \<Longrightarrow> vv_wf g \<Longrightarrow> dominates g f \<Longrightarrow> covers_dots ds actor g"
  unfolding covers_dots_def dominates_iff by (metis order_trans)

lemma upsert_covers:
  assumes "covers_dots ds (CausalActor (id_node ident) (id_incarnation ident)) (dcs_frontier st)"
    and "db_identity db = Some ident"
  shows "db_covers ds (upsert_clock st db)" "db_identity (upsert_clock st db) = Some ident"
  using assms by (auto simp: upsert_clock_def covers_dots_def intro: db_covers_intro)

lemma restore_clock_covers:
  assumes run: "restore_clock repo ios actor = (r, repo')" and cov: "db_covers ds (repo_db repo)"
    and ident: "db_identity (repo_db repo) = Some ident" "actor = CausalActor (id_node ident) (id_incarnation ident)"
  shows "db_covers ds (repo_db repo') \<and> db_identity (repo_db repo') = Some ident \<and>
    (\<forall>st. r = Inr st \<longrightarrow> covers_dots ds actor (dcs_frontier st))"
proof -
  obtain q repo1 where q: "load_clock repo (ios 3) = (q, repo1)" by fastforce
  note load = load_clock_sel [OF q]
  show ?thesis
  proof (cases q)
    case (Inl e)
    then show ?thesis using run q load(1) cov ident by (auto simp: restore_clock_def)
  next
    case (Inr x)
    show ?thesis
    proof (cases x)
      case None
      then have "db_clock (repo_db repo) = None" using load(2) Inr ident by simp
      then have ds: "ds = []" using cov by (auto simp: db_covers_def)
      obtain p repo2 where p: "save_clock repo1 (ios 4) \<lparr>dcs_actor = actor, dcs_counter = 0, dcs_frontier = vv_empty\<rparr> = (p, repo2)"
        by fastforce
      have "db_identity (repo_db repo2) = Some ident"
        using save_clock_sel(1) [OF p] load(1) ident by (auto simp: upsert_clock_def)
      then show ?thesis
        using run q Inr None p ds
        by (cases p) (auto simp: restore_clock_def DurableCausalState_init_def covers_dots_def db_covers_def)
    next
      case (Some st)
      then obtain c raw where row: "db_clock (repo_db repo) = Some (c, raw)" "decode_version_vector raw = Inr (dcs_frontier st)"
        using load(3) Inr by auto
      have "covers_dots ds actor (dcs_frontier st)"
        using decode_encode_decoded [OF row(2) cov row(1) ident] decode_version_vector_wf [OF row(2)]
        by (simp add: covers_dots_def)
      then show ?thesis using run q Inr Some load(1) cov ident by (auto simp: restore_clock_def)
    qed
  qed
qed

lemma restore_frontier_covers:
  assumes run: "restore_frontier repo ios actor st es = (r, repo')" and cov: "db_covers ds (repo_db repo)"
    and ident: "db_identity (repo_db repo) = Some ident" "actor = CausalActor (id_node ident) (id_incarnation ident)"
    and st: "covers_dots ds actor (dcs_frontier st)" and es: "\<And>e. e \<in> set es \<Longrightarrow> vv_wf (se_context e)"
  shows "db_covers ds (repo_db repo') \<and> db_identity (repo_db repo') = Some ident \<and>
    (\<forall>st'. r = Inr st' \<longrightarrow> covers_dots ds actor (dcs_frontier st'))"
proof -
  let ?f = "foldl (\<lambda>f entry. vv_merge f (se_context entry)) (dcs_frontier st) es"
  let ?st = "\<lparr>dcs_actor = actor, dcs_counter = vv_get ?f actor, dcs_frontier = ?f\<rparr>"
  have f: "vv_wf ?f" "dominates ?f (dcs_frontier st)"
    using vv_wf_foldl_contexts [of "dcs_frontier st" es] st es by (auto simp: covers_dots_def)
  have cd: "covers_dots ds actor ?f" by (rule covers_dots_mono [OF st f])
  obtain p repo2 where p: "save_clock repo (ios 6) ?st = (p, repo2)" by fastforce
  have "db_covers ds (repo_db repo2) \<and> db_identity (repo_db repo2) = Some ident"
    using save_clock_sel(1) [OF p] upsert_covers [of ds ident ?st "repo_db repo"] cd ident cov by auto
  moreover have "restore_frontier repo ios actor st es =
      (if ?f = dcs_frontier st then (Inr st, repo)
       else case p of Inl e \<Rightarrow> (Inl e, repo2) | Inr _ \<Rightarrow> (Inr ?st, repo2))"
    unfolding restore_frontier_def Let_def causal_state_init [OF f(1)] by (simp add: p split: sum.split)
  ultimately show ?thesis using run st cd cov ident by (cases p) (auto split: if_splits)
qed

lemma restore_entries_wf:
  "restore_entries m es = Inr m' \<Longrightarrow> memory_wf m \<Longrightarrow> (\<And>e. e \<in> set es \<Longrightarrow> vv_wf (se_context e)) \<Longrightarrow> memory_wf m'"
proof (induction es arbitrary: m)
  case (Cons e es)
  obtain r m1 where m1: "store_replace m e (Some (se_type e)) = (r, m1)" by fastforce
  then obtain x where r: "r = Inr x" using Cons.prems by (cases r) (auto simp: restore_entries_def)
  have "memory_wf m1"
    using store_replace_get(1) [of m e "Some (se_type e)" x m1] m1 r Cons.prems by (auto simp: memory_wf_def)
  moreover have "restore_entries m1 es = Inr m'" using Cons.prems m1 r by (simp add: restore_entries_def)
  ultimately show ?case using Cons by simp
qed (simp add: restore_entries_def)

lemma restart_covers:
  assumes cov: "db_covers ds (repo_db repo)"
  shows "node_ok ds (restart repo ios quick node fresh_uuid now)"
proof -
  obtain q0 repo1 where q0: "integrity_check repo (ios 0) quick = (q0, repo1)" by fastforce
  have [simp]: "repo1 = repo" by (rule integrity_check_repo [OF q0])
  obtain q1 repo2 where q1: "restore_identity repo1 ios node fresh_uuid now = (q1, repo2)" by fastforce
  note i = restore_identity_covers [OF q1, simplified, OF cov]
  show ?thesis
  proof (cases "\<exists>h ident actor. q0 = Inr h \<and> q1 = Inr ident \<and>
      CausalActor_init (id_node ident) (id_incarnation ident) = Inr actor")
    case False
    then show ?thesis using q0 q1 cov i(1)
      by (cases q0; cases q1) (auto simp: restart_def restore_def split: sum.splits)
  next
    case True
    then obtain h ident actor where ok: "q0 = Inr h" "q1 = Inr ident"
      "CausalActor_init (id_node ident) (id_incarnation ident) = Inr actor" by blast
    then have actor: "actor = CausalActor (id_node ident) (id_incarnation ident)" "actor_ok actor"
      using CausalActor_init_ok by (auto simp: CausalActor_init_def split: if_splits)
    obtain q2 repo3 where q2: "restore_clock repo2 ios actor = (q2, repo3)" by fastforce
    note c = restore_clock_covers [OF q2 i(1) i(2) [OF ok(2)] actor(1)]
    obtain q3 repo4 where q3: "load_entries repo3 (ios 5) = (q3, repo4)" by fastforce
    have [simp]: "repo4 = repo3" by (rule load_entries_sel(1) [OF q3])
    show ?thesis
    proof (cases "\<exists>st es. q2 = Inr st \<and> q3 = Inr es")
      case False
      then show ?thesis using q0 q1 q2 q3 ok c
        by (cases q2; cases q3) (auto simp: restart_def restore_def)
    next
      case True
      then obtain st es where se: "q2 = Inr st" "q3 = Inr es" by blast
      have es: "vv_wf (se_context e)" if "e \<in> set es" for e using load_entries_sel(2) [OF q3 se(2) that] .
      obtain q4 repo5 where q4: "restore_frontier repo4 ios actor st es = (q4, repo5)" by fastforce
      have f: "db_covers ds (repo_db repo5) \<and> db_identity (repo_db repo5) = Some ident \<and>
          (\<forall>st'. q4 = Inr st' \<longrightarrow> covers_dots ds actor (dcs_frontier st'))"
        by (rule restore_frontier_covers [OF q4 _ _ actor(1)]) (use c se es in auto)
      have init: "memory_wf CrdtStore_init" by (simp add: memory_wf_def CrdtStore_init_def store_get_def)
      show ?thesis
        using q0 q1 q2 q3 q4 ok se f actor restore_entries_wf [OF _ init es]
        by (cases q4; cases "restore_entries CrdtStore_init es")
          (auto simp: restart_def restore_def clock_restore_def CausalClock_init_def up_ok_def covers_dots_def)
    qed
  qed
qed

subsection \<open>Runs\<close>

lemma durable_step_ok:
  assumes "node_ok ds n" "durable_call_ok call" "durable_step n call = (dots, n')"
  shows "node_ok (ds @ dots) n'" "\<forall>d \<in> set ds. \<forall>e \<in> set dots. dot_counter d < dot_counter e" "length dots \<le> 1"
proof -
  have "node_ok (ds @ dots) n' \<and> (\<forall>d \<in> set ds. \<forall>e \<in> set dots. dot_counter d < dot_counter e) \<and> length dots \<le> 1"
  proof (cases n)
    case (Down repo)
    then show ?thesis using assms restart_covers by (cases call) auto
  next
    case (Up u)
    then have up: "up_ok ds u" using assms by simp
    show ?thesis
    proof (cases call)
      case (LocalWrite io key observed mk)
      obtain r u' where r: "local_write u io observed (mk (store_get (dn_memory u) key)) = (r, u')" by fastforce
      have mem: "\<forall>x. store_get (dn_memory u) key = Some x \<longrightarrow> vv_wf (se_context x)"
        using up by (simp add: up_ok_def memory_wf_def)
      have ok: "\<forall>v. observed = Some v \<longrightarrow> vv_wf v"
        "\<forall>dot f e. dot_ok dot \<longrightarrow> vv_wf f \<longrightarrow> mk (store_get (dn_memory u) key) dot f = Inr e \<longrightarrow> vv_wf (se_context e)"
        using assms(2) mem unfolding LocalWrite durable_call_ok.simps by blast+
      note w = local_write_up [OF up ok r]
      have "\<forall>d \<in> set ds. dot_counter d < dot_counter dot" if "r = Inr dot" for dot
        using up w(2) [OF that] by (auto simp: up_ok_def)
      then show ?thesis using assms(3) Up LocalWrite r w(1) by (cases r) auto
    next
      case (ObserveToken v)
      have "dominates (vv_merge (clk_frontier (dn_clock u)) v) (clk_frontier (dn_clock u))" by simp
      then have "\<forall>d \<in> set ds. dot_counter d \<le> vv_get (vv_merge (clk_frontier (dn_clock u)) v) (clk_actor (dn_clock u))"
        using up unfolding up_ok_def dominates_iff by (metis order_trans)
      then show ?thesis using assms(2,3) Up ObserveToken up by (auto simp: up_ok_def simp del: vv_get_merge)
    next
      case (Restart ios quick node fresh_uuid now)
      then show ?thesis using assms(3) Up up restart_covers [of ds "dn_repo u"] by (auto simp: up_ok_def)
    qed (use assms Up up durable_merge_entry_up durable_merge_metadata_up in auto)
  qed
  then show "node_ok (ds @ dots) n'" "\<forall>d \<in> set ds. \<forall>e \<in> set dots. dot_counter d < dot_counter e" "length dots \<le> 1"
    by blast+
qed

lemma durable_run_ok:
  "node_ok ds n \<Longrightarrow> list_all durable_call_ok calls \<Longrightarrow> durable_run n calls = (dots, n') \<Longrightarrow>
     node_ok (ds @ dots) n' \<and> (\<forall>d \<in> set ds. \<forall>e \<in> set dots. dot_counter d < dot_counter e) \<and>
     sorted_wrt (<) (map dot_counter dots)"
proof (induction calls arbitrary: n ds dots)
  case (Cons call calls)
  obtain d1 n1 where s1: "durable_step n call = (d1, n1)" by fastforce
  obtain rest n2 where s2: "durable_run n1 calls = (rest, n2)" by fastforce
  have eq: "dots = d1 @ rest" "n' = n2" using Cons.prems(3) s1 s2 by auto
  have "durable_call_ok call" using Cons.prems(2) by simp
  note step = durable_step_ok [OF Cons.prems(1) this s1]
  have IH: "node_ok ((ds @ d1) @ rest) n2" "\<forall>d \<in> set (ds @ d1). \<forall>e \<in> set rest. dot_counter d < dot_counter e"
      "sorted_wrt (<) (map dot_counter rest)"
    using Cons.IH [OF step(1), of rest] Cons.prems(2) s2 eq(2) by auto
  moreover have "sorted_wrt (<) (map dot_counter d1)"
    using step(3) Cons.prems(2) by (cases d1) auto
  ultimately show ?case using eq step(2) Cons.prems(2) by (auto simp: sorted_wrt_append)
qed auto

section \<open>Recovery of the entries\<close>

text \<open>
  \<open>synced n\<close>: the table holds exactly the entries in memory, and the clock row is well-formed
  and covers the contexts of all of them.
\<close>

definition row_of :: "Database \<Rightarrow> string \<Rightarrow> StoredCrdtEntry option \<Rightarrow> bool" where
  "row_of db k e \<longleftrightarrow> (case e of
       None \<Rightarrow> map_of (db_entries db) k = None
     | Some e \<Rightarrow> entry_wf e \<and> se_key e = k \<and>
         (\<exists>enc a. encode_entry e = Inr enc \<and> map_of (db_entries db) k = Some (enc, a)))"

definition clock_row_ok :: "DurableCrdtStore \<Rightarrow> bool" where
  "clock_row_ok n \<longleftrightarrow> (\<exists>f. vv_wf f \<and>
     db_clock (repo_db (dn_repo n)) = Some (vv_get f (clk_actor (dn_clock n)), encode_version_vector f))"

definition synced :: "DurableCrdtStore \<Rightarrow> bool" where
  "synced n \<longleftrightarrow> repo_opened (dn_repo n) \<and> dict_ok (db_entries (repo_db (dn_repo n))) \<and>
     (\<forall>k. row_of (repo_db (dn_repo n)) k (store_get (dn_memory n) k)) \<and> clock_row_ok n"

lemma restore_entries_get:
  assumes "distinct (map se_key es)" "\<forall>e \<in> set es. store_get m (se_key e) = None"
  shows "\<exists>m'. restore_entries m es = Inr m' \<and>
    (\<forall>k. store_get m' k = (case find (\<lambda>e. se_key e = k) es of None \<Rightarrow> store_get m k | Some e \<Rightarrow> Some e))"
  using assms
proof (induction es arbitrary: m)
  case (Cons e es)
  let ?m = "m\<lparr>store_entries := AList.update (se_key e) e (store_entries m)\<rparr>"
  have m: "store_replace m e (Some (se_type e)) = (Inr e, ?m)"
    using store_replace_same_type [of m e "Some (se_type e)"] Cons.prems by auto
  have get: "store_get ?m x = (if x = se_key e then Some e else store_get m x)" for x
    by (simp add: store_get_def)
  have keys: "se_key x \<noteq> se_key e" if "x \<in> set es" for x
    using that Cons.prems(1) by (metis distinct.simps(2) image_eqI list.set_map list.simps(9))
  then have "\<forall>x \<in> set es. store_get ?m (se_key x) = None" using Cons.prems(2) by (simp add: get)
  then obtain m' where m': "restore_entries ?m es = Inr m'"
      "\<forall>k. store_get m' k = (case find (\<lambda>e. se_key e = k) es of None \<Rightarrow> store_get ?m k | Some e \<Rightarrow> Some e)"
    using Cons.IH [of ?m] Cons.prems by auto
  have "find (\<lambda>x. se_key x = se_key e) es = None" using keys by (auto simp: find_None_iff)
  then have "store_get m' k = (case find (\<lambda>e. se_key e = k) (e # es) of None \<Rightarrow> store_get m k | Some e \<Rightarrow> Some e)" for k
    using m'(2) get by (auto split: option.splits)
  moreover have "restore_entries m (e # es) = Inr m'" using m m'(1) by (simp add: restore_entries_def)
  ultimately show ?case by blast
qed (simp add: restore_entries_def)

lemma synced_rows:
  assumes "synced n"
  shows "\<exists>es. rmap (\<lambda>(key, encoded, authoritative). decode_entry encoded)
       (sort_key fst (db_entries (repo_db (dn_repo n)))) = Inr es \<and>
    distinct (map se_key es) \<and> (\<forall>k. find (\<lambda>e. se_key e = k) es = store_get (dn_memory n) k)"
proof -
  let ?db = "db_entries (repo_db (dn_repo n))"
  let ?rows = "sort_key fst ?db"
  have ok: "dict_ok ?db" using assms by (simp add: synced_def)
  have row: "\<exists>e. store_get (dn_memory n) k = Some e \<and> se_key e = k \<and> decode_entry enc = Inr e"
    if "(k, enc, a) \<in> set ?rows" for k enc a
  proof -
    have "map_of ?db k = Some (enc, a)" using that ok by (simp add: dict_ok_def)
    moreover have "row_of (repo_db (dn_repo n)) k (store_get (dn_memory n) k)" using assms by (simp add: synced_def)
    ultimately show ?thesis
      using decode_encode_entry by (auto simp: row_of_def split: option.splits) fastforce
  qed
  have loop: "\<exists>es. rmap (\<lambda>(key :: string, encoded, authoritative :: bool). decode_entry encoded) rows = Inr es \<and> map se_key es = map fst rows \<and>
      (\<forall>k. find (\<lambda>e. se_key e = k) es = (if k \<in> fst ` set rows then store_get (dn_memory n) k else None))"
    if "set rows \<subseteq> set ?rows" for rows
    using that
  proof (induction rows)
    case (Cons r rows)
    obtain k enc a where r: "r = (k, enc, a)" by (cases r)
    then obtain e where e: "store_get (dn_memory n) k = Some e" "se_key e = k" "decode_entry enc = Inr e"
      using row [of k enc a] Cons.prems by auto
    then show ?case using Cons r by auto
  qed simp
  obtain es where es: "rmap (\<lambda>(key, encoded, authoritative). decode_entry encoded) ?rows = Inr es" "map se_key es = map fst ?rows"
      "\<forall>k. find (\<lambda>e. se_key e = k) es = (if k \<in> fst ` set ?rows then store_get (dn_memory n) k else None)"
    using loop [of ?rows] by auto
  have "store_get (dn_memory n) k = None" if "k \<notin> fst ` set ?rows" for k
  proof -
    have "map_of ?db k = None" using that by (simp add: map_of_eq_None_iff)
    moreover have "row_of (repo_db (dn_repo n)) k (store_get (dn_memory n) k)" using assms by (simp add: synced_def)
    ultimately show ?thesis by (auto simp: row_of_def split: option.splits)
  qed
  then show ?thesis using es canon_distinct [OF canon_sort_key [OF ok]] by auto
qed

lemma restart_recovers:
  assumes sync: "synced n" and up: "up_ok ds n"
    and ident: "db_identity (repo_db (dn_repo n)) = Some ident"
  shows "\<exists>n'. restart (dn_repo n) (\<lambda>_. IoOk) ''ok'' (id_node ident) fresh_uuid now = Up n' \<and>
    store_get (dn_memory n') = store_get (dn_memory n) \<and> clk_actor (dn_clock n') = clk_actor (dn_clock n)"
proof -
  let ?repo = "dn_repo n" and ?ok = "\<lambda>_. IoOk"
  have opened: "repo_opened ?repo" using sync by (simp add: synced_def)
  obtain f where f: "vv_wf f" "db_clock (repo_db ?repo) = Some (vv_get f (clk_actor (dn_clock n)), encode_version_vector f)"
    using sync by (auto simp: synced_def clock_row_ok_def)
  have actor: "clk_actor (dn_clock n) = CausalActor (id_node ident) (id_incarnation ident)" "actor_ok (clk_actor (dn_clock n))"
    using up ident by (auto simp: up_ok_def)
  then have init: "CausalActor_init (id_node ident) (id_incarnation ident) = Inr (clk_actor (dn_clock n))"
    by (auto simp: CausalActor_init_def actor_ok_def)
  let ?st = "\<lparr>dcs_actor = clk_actor (dn_clock n), dcs_counter = vv_get f (clk_actor (dn_clock n)), dcs_frontier = f\<rparr>"
  have check: "integrity_check ?repo IoOk ''ok'' = (Inr \<lparr>rh_healthy = True, rh_schema_version = db_schema (repo_db ?repo), rh_message = ''ok''\<rparr>, ?repo)"
    using opened by (simp add: integrity_check_def ensure_open_def executor_run_def schema_version_def)
  have idn: "restore_identity ?repo ?ok (id_node ident) fresh_uuid now = (Inr ident, ?repo)"
    using opened ident by (simp add: restore_identity_def load_identity_def ensure_open_def executor_run_def)
  have clock: "restore_clock ?repo ?ok (clk_actor (dn_clock n)) = (Inr ?st, ?repo)"
    using opened ident f init decode_encode_version_vector [OF f(1)] causal_state_init [OF f(1)]
    by (simp add: restore_clock_def load_clock_def ensure_open_def executor_run_def)
  obtain es where es: "rmap (\<lambda>(key, encoded, authoritative). decode_entry encoded) (sort_key fst (db_entries (repo_db ?repo))) = Inr es"
      "distinct (map se_key es)" "\<forall>k. find (\<lambda>e. se_key e = k) es = store_get (dn_memory n) k"
    using synced_rows [OF sync] by blast
  have load: "load_entries ?repo IoOk = (Inr es, ?repo)"
    using opened es(1) by (simp add: load_entries_def ensure_open_def executor_run_def)
  have wf: "vv_wf (se_context e)" if "e \<in> set es" for e using load_entries_sel(2) [OF load refl that] .
  let ?f = "foldl (\<lambda>f entry. vv_merge f (se_context entry)) f es"
  have ff: "vv_wf ?f" using vv_wf_foldl_contexts [OF f(1), of es] wf by simp
  obtain st' repo' where frontier: "restore_frontier ?repo ?ok (clk_actor (dn_clock n)) ?st es = (Inr st', repo')"
    using opened causal_state_init [OF ff, of "clk_actor (dn_clock n)"]
    by (cases "?f = f") (simp_all add: restore_frontier_def save_clock_def ensure_open_def executor_run_def Let_def)
  obtain m where m: "restore_entries CrdtStore_init es = Inr m"
      "\<forall>k. store_get m k = (case find (\<lambda>e. se_key e = k) es of None \<Rightarrow> store_get CrdtStore_init k | Some e \<Rightarrow> Some e)"
    using restore_entries_get [OF es(2), of CrdtStore_init] by (auto simp: CrdtStore_init_def store_get_def)
  have "store_get m = store_get (dn_memory n)"
    using m(2) es(3) by (auto simp: fun_eq_iff CrdtStore_init_def store_get_def split: option.splits)
  then show ?thesis
    using check idn clock load frontier m(1) init
    by (simp add: restart_def restore_def clock_restore_def CausalClock_init_def)
qed

subsection \<open>Calls that keep memory and table together\<close>

lemma gc_wf_iff: "gc_wf c \<longleftrightarrow> gc_ok c \<and> (\<forall>a. 0 < gc_component c a \<longrightarrow> actor_ok a)"
  by (force simp: gc_wf_def gc_component_def gc_ok_def cget_pos_iff)

lemma gc_wf_merge [simp]: "gc_wf c \<Longrightarrow> gc_wf d \<Longrightarrow> gc_wf (gc_merge c d)"
  by (auto simp: gc_wf_iff max_def split: if_splits)

lemma or_wf_iff:
  "state_wf (SORSet s) \<longleftrightarrow> or_ok s \<and> (\<forall>e. \<forall>d \<in> get_dots (or_adds s) e. dot_ok d) \<and> (\<forall>d \<in> or_removed s. dot_ok d)"
proof -
  have "(\<forall>(e, ds) \<in> set (or_adds s). \<forall>d \<in> ds. dot_ok d) \<longleftrightarrow> (\<forall>e. \<forall>d \<in> get_dots (or_adds s) e. dot_ok d)" if "or_ok s"
  proof -
    have "(e, ds) \<in> set (or_adds s) \<longleftrightarrow> map_of (or_adds s) e = Some ds" for e ds
      using that by (simp add: or_ok_def canon_distinct)
    then show ?thesis by (fastforce simp: get_dots_def split: option.splits)
  qed
  then show ?thesis by auto
qed

lemma mv_wf_iff:
  "state_wf (SMVRegister r) \<longleftrightarrow> mv_ok r \<and>
     (\<forall>d t. map_of (mv_entries r) d = Some t \<longrightarrow> dot_ok d \<and> (\<exists>v. loads t = Inr v)) \<and> (\<forall>d \<in> mv_superseded r. dot_ok d)"
proof -
  have "(d, t) \<in> set (mv_entries r) \<longleftrightarrow> map_of (mv_entries r) d = Some t" if "mv_ok r" for d t
    using that by (simp add: mv_ok_def canon_distinct)
  then show ?thesis by fastforce
qed

lemma merge_state_wf:
  "merge_state a b = Inr c \<Longrightarrow> state_wf a \<Longrightarrow> state_wf b \<Longrightarrow> state_wf c"
proof (induction a b rule: merge_state.induct)
  case (3 s t)
  then have "state_wf (SORSet (or_merge s t))" unfolding or_wf_iff by auto
  then show ?case using 3(1) by auto
next
  case (4 r q)
  then obtain m where m: "mv_merge r q = Inr m" "c = SMVRegister m" by (auto simp: rbind_eq_Inr)
  have ok: "mv_ok r" "mv_ok q" using 4 by (auto simp: mv_wf_iff)
  have "distinct (map fst (mv_entries q))" using ok by (simp add: mv_ok_def canon_distinct)
  then have "mv_agree (mv_entries r) (mv_entries q)"
    using m(1) mv_merge_values_conflict [of "mv_entries r" "mv_entries q"]
    by (cases "mv_agree (mv_entries r) (mv_entries q)") (simp_all add: mv_merge_def)
  then have "mv_ok m \<and> map_of (mv_entries m) = map_of (mv_entries r) ++ map_of (mv_entries q) \<and>
      mv_superseded m = mv_superseded r \<union> mv_superseded q"
    using mv_merge_spec [OF ok] m by auto
  then have "state_wf (SMVRegister m)"
    using 4(2,3) unfolding mv_wf_iff by (auto simp: map_add_Some_iff)
  then show ?case unfolding m(2) .
qed (auto simp: pn_merge_def)

lemma merge_entries_wf:
  assumes "merge_entries a b = Inr c" "entry_wf a" "entry_wf b"
  shows "entry_wf c \<and> se_key c = se_key a \<and> se_type c = se_type a"
proof -
  obtain x where "merge_state (se_state a) (se_state b) = Inr x"
      "StoredCrdtEntry_init (se_key a) (se_type a) x (vv_merge (se_version a) (se_version b))
         (vv_merge (se_context a) (se_context b)) = Inr c"
    using assms(1) by (auto simp: merge_entries_def rbind_eq_Inr split: if_splits)
  then show ?thesis
    using assms merge_state_wf [of "se_state a" "se_state b" x]
    by (auto simp: entry_wf_def StoredCrdtEntry_init_def split: if_splits)
qed

text \<open>
  Calls whose job was not cancelled after its commit, with well-formed entries; a local
  write keeps the key and the type of the entry it read.
\<close>

fun settled_call :: "durable_call \<Rightarrow> bool" where
  "settled_call (LocalWrite io key observed mk) \<longleftrightarrow> io \<noteq> IoCancelled True \<and>
     (\<forall>existing dot frontier e.
        (\<forall>x. existing = Some x \<longrightarrow> entry_wf x \<and> se_key x = key) \<longrightarrow> dot_ok dot \<longrightarrow> vv_wf frontier \<longrightarrow>
        mk existing dot frontier = Inr e \<longrightarrow>
        entry_wf e \<and> se_key e = key \<and> (\<forall>x. existing = Some x \<longrightarrow> se_type x = se_type e))"
| "settled_call (Incoming io entry) \<longleftrightarrow> io \<noteq> IoCancelled True \<and> entry_wf entry"
| "settled_call (Metadata io key ctx) \<longleftrightarrow> io \<noteq> IoCancelled True"
| "settled_call (ObserveToken v) \<longleftrightarrow> True"
| "settled_call (Restart ios quick node fresh_uuid now) \<longleftrightarrow> False"

lemma synced_get: "synced n \<Longrightarrow> store_get (dn_memory n) k = Some e \<Longrightarrow> entry_wf e \<and> se_key e = k"
  by (auto simp: synced_def row_of_def split: option.splits dest!: spec [of _ k])

lemma commit_settled:
  assumes "commit_entry_and_clock repo io entry st auth = (r, repo')" "io \<noteq> IoCancelled True"
  shows "isl r \<Longrightarrow> repo' = repo"
    "r = Inr u \<Longrightarrow> \<exists>enc. encode_entry entry = Inr enc \<and>
       repo' = repo\<lparr>repo_db := upsert_entry enc auth (upsert_clock st (repo_db repo))\<rparr>"
proof -
  have "(isl r \<and> repo' = repo) \<or> (\<not> isl r \<and> (\<exists>enc. encode_entry entry = Inr enc \<and>
      repo' = repo\<lparr>repo_db := upsert_entry enc auth (upsert_clock st (repo_db repo))\<rparr>))"
    using assms
    by (cases "repo_opened repo"; cases "encode_entry entry"; cases io)
      (auto simp: commit_entry_and_clock_def ensure_open_def executor_run_def Let_def split: if_splits)
  then show "isl r \<Longrightarrow> repo' = repo"
    "r = Inr u \<Longrightarrow> \<exists>enc. encode_entry entry = Inr enc \<and>
       repo' = repo\<lparr>repo_db := upsert_entry enc auth (upsert_clock st (repo_db repo))\<rparr>" by auto
qed

lemma synced_put:
  assumes sync: "synced n" and e: "entry_wf e" "\<And>x. store_get (dn_memory n) (se_key e) = Some x \<Longrightarrow> se_type x = se_type e"
    and enc: "encode_entry e = Inr enc" and f: "vv_wf (dcs_frontier st)"
      "dcs_counter st = vv_get (dcs_frontier st) (clk_actor (dn_clock n))"
    and repo: "repo' = (dn_repo n)\<lparr>repo_db := upsert_entry enc auth (upsert_clock st (repo_db (dn_repo n)))\<rparr>"
  shows "\<exists>n'. durable_replace (n\<lparr>dn_repo := repo'\<rparr>) e (Some (se_type e)) = (Inr e, n') \<and> synced n' \<and>
    dn_clock n' = dn_clock n \<and> dn_repo n' = repo'"
proof -
  let ?m = "(dn_memory n)\<lparr>store_entries := AList.update (se_key e) e (store_entries (dn_memory n))\<rparr>"
  let ?n = "n\<lparr>dn_repo := repo', dn_memory := ?m\<rparr>"
  have rep: "durable_replace (n\<lparr>dn_repo := repo'\<rparr>) e (Some (se_type e)) = (Inr e, ?n)"
    using store_replace_same_type [of "dn_memory n" e "Some (se_type e)"] e(2) by (simp add: durable_replace_def)
  have "enc_key enc = se_key e" using enc by (auto simp: encode_entry_def rbind_eq_Inr)
  then have rows: "map_of (db_entries (repo_db repo')) = (map_of (db_entries (repo_db (dn_repo n))))(se_key e \<mapsto> (enc, auth))"
    by (simp add: repo upsert_entry_def upsert_clock_def)
  have "row_of (repo_db repo') k (store_get ?m k)" for k
  proof (cases "k = se_key e")
    case True
    then show ?thesis using e(1) enc rows by (simp add: row_of_def store_get_def)
  next
    case False
    have "row_of (repo_db (dn_repo n)) k (store_get (dn_memory n) k)" using sync by (simp add: synced_def)
    then show ?thesis using False rows by (simp add: row_of_def store_get_def split: option.splits)
  qed
  moreover have "dict_ok (db_entries (repo_db repo'))" "repo_opened repo'"
    using sync by (simp_all add: repo upsert_entry_def upsert_clock_def synced_def)
  moreover have "clock_row_ok ?n"
    using f by (auto simp: clock_row_ok_def repo upsert_entry_def upsert_clock_def)
  ultimately have "synced ?n" by (simp add: synced_def)
  then show ?thesis using rep by simp
qed

lemma synced_clock: "synced n \<Longrightarrow> clk_actor clk = clk_actor (dn_clock n) \<Longrightarrow> synced (n\<lparr>dn_clock := clk\<rparr>)"
  by (simp add: synced_def clock_row_ok_def)

lemma commit_local_synced:
  assumes sync: "synced n" and e: "entry_wf e" "\<And>x. store_get (dn_memory n) (se_key e) = Some x \<Longrightarrow> se_type x = se_type e"
    and f: "vv_wf f" and io: "io \<noteq> IoCancelled True"
    and run: "commit_local n io e f = (r, n')"
  shows "synced n' \<and> dn_clock n' = dn_clock n"
proof -
  let ?st = "\<lparr>dcs_actor = clk_actor (dn_clock n), dcs_counter = vv_get f (clk_actor (dn_clock n)), dcs_frontier = f\<rparr>"
  obtain q repo' where q: "commit_entry_and_clock (dn_repo n) io e ?st True = (q, repo')" by fastforce
  have eq: "commit_local n io e f = (case q of Inl e \<Rightarrow> (Inl e, n\<lparr>dn_repo := repo'\<rparr>)
      | Inr _ \<Rightarrow> durable_replace (n\<lparr>dn_repo := repo'\<rparr>) e (Some (se_type e)))"
    by (simp add: commit_local_def causal_state_init [OF f] commit_mutation_def q split: sum.split)
  show ?thesis
  proof (cases q)
    case (Inl err)
    then have "n' = n" using commit_settled(1) [OF q io] eq run by auto
    then show ?thesis using sync by simp
  next
    case (Inr u)
    then obtain enc where enc: "encode_entry e = Inr enc"
        "repo' = (dn_repo n)\<lparr>repo_db := upsert_entry enc True (upsert_clock ?st (repo_db (dn_repo n)))\<rparr>"
      using commit_settled(2) [OF q io] by blast
    then show ?thesis using synced_put [OF sync e enc(1) _ _ enc(2)] f eq run Inr by auto
  qed
qed

lemma observe_and_persist_synced:
  assumes sync: "synced n" and e: "entry_wf e" "\<And>x. store_get (dn_memory n) (se_key e) = Some x \<Longrightarrow> se_type x = se_type e"
    and clk: "vv_wf (clk_frontier (dn_clock n))" and io: "io \<noteq> IoCancelled True"
    and run: "observe_and_persist n io e (se_type e) = (r, n')"
  shows "synced n'"
proof -
  let ?f = "vv_merge (clk_frontier (dn_clock n)) (se_context e)"
  have f: "vv_wf ?f" using clk e(1) by (simp add: entry_wf_def)
  let ?st = "\<lparr>dcs_actor = clk_actor (dn_clock n), dcs_counter = vv_get ?f (clk_actor (dn_clock n)), dcs_frontier = ?f\<rparr>"
  obtain q repo' where q: "commit_entry_and_clock (dn_repo n) io e ?st True = (q, repo')" by fastforce
  show ?thesis
  proof (cases q)
    case (Inl err)
    then have "repo' = dn_repo n" using commit_settled(1) [OF q io] by simp
    then have "persist_observed n io e (se_type e) ?f = (Inl err, False, n)"
      unfolding persist_observed_def causal_state_init [OF f] commit_observed_entry_def
      using Inl by (simp add: q del: vv_get_merge)
    then have "n' = n" using run by (simp add: observe_and_persist_def staged_observe_def)
    then show ?thesis using sync by simp
  next
    case (Inr u)
    then obtain enc where enc: "encode_entry e = Inr enc"
        "repo' = (dn_repo n)\<lparr>repo_db := upsert_entry enc True (upsert_clock ?st (repo_db (dn_repo n)))\<rparr>"
      using commit_settled(2) [OF q io] by blast
    then obtain n1 where n1: "durable_replace (n\<lparr>dn_repo := repo'\<rparr>) e (Some (se_type e)) = (Inr e, n1)" "synced n1"
        "dn_clock n1 = dn_clock n"
      using synced_put [OF sync e enc(1) _ _ enc(2)] f by auto
    then have "persist_observed n io e (se_type e) ?f = (Inr e, True, n1)"
      unfolding persist_observed_def causal_state_init [OF f] commit_observed_entry_def
      using Inr by (simp add: q del: vv_get_merge)
    then have "n' = n1\<lparr>dn_clock := (dn_clock n)\<lparr>clk_frontier := ?f\<rparr>\<rparr>"
      using run by (simp add: observe_and_persist_def staged_observe_def)
    then show ?thesis using synced_clock [OF n1(2)] n1(3) by simp
  qed
qed

lemma local_write_synced:
  assumes sync: "synced n" and up: "up_ok ds n" and obs: "\<forall>v. observed = Some v \<longrightarrow> vv_wf v"
    and mk: "\<forall>dot f e. dot_ok dot \<longrightarrow> vv_wf f \<longrightarrow> mk dot f = Inr e \<longrightarrow>
      entry_wf e \<and> (\<forall>x. store_get (dn_memory n) (se_key e) = Some x \<longrightarrow> se_type x = se_type e)"
    and io: "io \<noteq> IoCancelled True" and run: "local_write n io observed mk = (r, n')"
  shows "synced n'"
proof -
  let ?b = "alloc_base (dn_clock n) observed" let ?d = "alloc_dot (dn_clock n) observed"
  let ?f = "with_dot ?b ?d"
  have b: "vv_wf ?b" using up obs by (cases observed) (auto simp: alloc_base_def up_ok_def)
  have "dot_ok ?d"
    using up alloc_dot_counter_pos [OF vv_wf_ok [OF b]] by (simp add: dot_ok_def up_ok_def alloc_dot_def)
  then have d: "dot_ok ?d" "vv_wf ?f" using b by simp_all
  show ?thesis
  proof (cases "mk ?d ?f")
    case (Inl e)
    then have "n' = n" using run by (simp add: local_write_def staged_allocation_alt)
    then show ?thesis using sync by simp
  next
    case (Inr e)
    have e: "entry_wf e" "\<And>x. store_get (dn_memory n) (se_key e) = Some x \<Longrightarrow> se_type x = se_type e"
      using mk [rule_format, OF d Inr] by blast+
    obtain q n1 where q: "commit_local n io e ?f = (q, n1)" by fastforce
    have "synced n1 \<and> dn_clock n1 = dn_clock n" by (rule commit_local_synced [OF sync e d(2) io q])
    moreover have "n' = n1\<lparr>dn_clock := dn_clock n\<rparr> \<or> n' = n1\<lparr>dn_clock := (dn_clock n)\<lparr>clk_frontier := ?f\<rparr>\<rparr>"
      using run Inr q by (cases q) (auto simp: local_write_def staged_allocation_alt)
    ultimately show ?thesis using synced_clock [of n1] by auto
  qed
qed

lemma durable_step_synced:
  assumes sync: "synced n" and up: "up_ok ds n" and ok: "durable_call_ok call" "settled_call call"
    and step: "durable_step (Up n) call = (dots, node)"
  shows "\<exists>n'. node = Up n' \<and> synced n'"
proof (cases call)
  case (LocalWrite io key observed mk)
  obtain r n1 where r: "local_write n io observed (mk (store_get (dn_memory n) key)) = (r, n1)" by fastforce
  have ex: "\<forall>x. store_get (dn_memory n) key = Some x \<longrightarrow> entry_wf x \<and> se_key x = key"
    using synced_get [OF sync] by blast
  have mk: "\<forall>dot f e. dot_ok dot \<longrightarrow> vv_wf f \<longrightarrow> mk (store_get (dn_memory n) key) dot f = Inr e \<longrightarrow>
      entry_wf e \<and> (\<forall>x. store_get (dn_memory n) (se_key e) = Some x \<longrightarrow> se_type x = se_type e)"
    using ok(2) ex unfolding LocalWrite settled_call.simps by metis
  have "\<forall>v. observed = Some v \<longrightarrow> vv_wf v" "io \<noteq> IoCancelled True"
    using ok unfolding LocalWrite by simp_all
  then have "synced n1" using local_write_synced [OF sync up _ mk _ r] by blast
  then show ?thesis using step LocalWrite r by auto
next
  case (Incoming io entry)
  show ?thesis
  proof (cases "store_get (dn_memory n) (se_key entry)")
    case None
    obtain r n1 where r: "observe_and_persist n io entry (se_type entry) = (r, n1)" by fastforce
    have "synced n1" by (rule observe_and_persist_synced [OF sync _ _ _ _ r]) (use ok Incoming None up in \<open>auto simp: up_ok_def\<close>)
    then show ?thesis using step Incoming None r by (auto simp: durable_merge_entry_def)
  next
    case (Some x)
    have x: "entry_wf x" "se_key x = se_key entry" using synced_get [OF sync Some] by auto
    show ?thesis
    proof (cases "merge_entries x entry")
      case (Inl e)
      then show ?thesis using step Incoming Some sync by (auto simp: durable_merge_entry_def)
    next
      case (Inr m)
      have m: "entry_wf m" "se_key m = se_key entry" "se_type m = se_type x"
        using merge_entries_wf [OF Inr] x ok Incoming by auto
      obtain r n1 where r: "observe_and_persist n io m (se_type m) = (r, n1)" by fastforce
      have "synced n1"
        by (rule observe_and_persist_synced [OF sync m(1) _ _ _ r]) (use ok Incoming Some m up in \<open>auto simp: up_ok_def\<close>)
      then show ?thesis using step Incoming Some Inr r by (auto simp: durable_merge_entry_def)
    qed
  qed
next
  case (Metadata io key ctx)
  show ?thesis
  proof (cases "store_get (dn_memory n) key")
    case None
    then show ?thesis using step Metadata sync by (auto simp: durable_merge_metadata_def)
  next
    case (Some x)
    let ?u = "x\<lparr>se_context := vv_merge (se_context x) ctx\<rparr>"
    have x: "entry_wf x" "se_key x = key" using synced_get [OF sync Some] by auto
    then have u: "with_context x (vv_merge (se_context x) ctx) = Inr ?u" "entry_wf ?u"
      using ok(1) Metadata by (auto simp: with_context_def StoredCrdtEntry_init_def entry_wf_def)
    obtain r n1 where r: "observe_and_persist n io ?u (se_type ?u) = (r, n1)" by fastforce
    have "synced n1"
      by (rule observe_and_persist_synced [OF sync u(2) _ _ _ r]) (use ok Metadata Some x up in \<open>auto simp: up_ok_def\<close>)
    then show ?thesis using step Metadata Some u r by (auto simp: durable_merge_metadata_def)
  qed
next
  case (ObserveToken v)
  then show ?thesis using step synced_clock [OF sync] by auto
next
  case (Restart ios quick node fresh_uuid now)
  then show ?thesis using ok by simp
qed

lemma durable_run_synced:
  "synced n \<Longrightarrow> up_ok ds n \<Longrightarrow> list_all durable_call_ok calls \<Longrightarrow> list_all settled_call calls \<Longrightarrow>
     \<exists>dots n'. durable_run (Up n) calls = (dots, Up n') \<and> synced n' \<and> up_ok (ds @ dots) n'"
proof (induction calls arbitrary: n ds)
  case (Cons call calls)
  obtain d1 node where s1: "durable_step (Up n) call = (d1, node)" by fastforce
  obtain n1 where n1: "node = Up n1" "synced n1"
    using durable_step_synced [OF Cons.prems(1,2) _ _ s1] Cons.prems(3,4) by auto
  have "up_ok (ds @ d1) n1" using durable_step_ok(1) [OF _ _ s1] Cons.prems n1(1) by auto
  then obtain dots n' where "durable_run (Up n1) calls = (dots, Up n')" "synced n'" "up_ok ((ds @ d1) @ dots) n'"
    using Cons.IH [OF n1(2), of "ds @ d1"] Cons.prems(3,4) by auto
  then show ?case using s1 n1(1) by auto
qed auto

section \<open>Properties\<close>





end
