(* ===== verification/State_Store.thy ===== *)
theory State_Store
  imports Durable
begin

text \<open>
  The interface \<^verbatim>\<open>CrdtStateStore\<close> of \<^verbatim>\<open>src/src/distsys/storage/protocol.py\<close> together with the
  node's causal clock and its commit callback, as replication and the CRDT service use
  them; the contract those clients rely on, as a locale; and the proof that the in-memory
  store and the durable store both keep it.
\<close>

section \<open>The interface\<close>

text \<open>
  The operations of a node whose state is an \<open>'n\<close>. \<open>no_commit\<close> is the callback
  \<^verbatim>\<open>commit_local\<close> given to the CRDT service. The durable store works on the same clock as
  the service, so the clock is part of the node.
\<close>

record 'n node_ops =
  no_get :: "'n \<Rightarrow> string \<Rightarrow> StoredCrdtEntry option"
  no_snapshot_all :: "'n \<Rightarrow> StoredCrdtEntry list"
  no_merge_entry :: "'n \<Rightarrow> StoredCrdtEntry \<Rightarrow> StoredCrdtEntry result \<times> 'n"
  no_merge_metadata :: "'n \<Rightarrow> string \<Rightarrow> VersionVector \<Rightarrow> StoredCrdtEntry option result \<times> 'n"
  no_commit :: "'n \<Rightarrow> StoredCrdtEntry \<Rightarrow> VersionVector \<Rightarrow> StoredCrdtEntry result \<times> 'n"
  no_clock :: "'n \<Rightarrow> CausalClock"
  no_set_clock :: "CausalClock \<Rightarrow> 'n \<Rightarrow> 'n"

text \<open>A node without persistence: the plain store, and the commit that only replaces in memory.\<close>

record MemoryNode =
  mn_store :: CrdtStore
  mn_clock :: CausalClock

definition commit_local_in_memory ::
  "MemoryNode \<Rightarrow> StoredCrdtEntry \<Rightarrow> VersionVector \<Rightarrow> StoredCrdtEntry result \<times> MemoryNode" where
  "commit_local_in_memory n entry frontier =
     (let (r, store) = store_replace (mn_store n) entry (Some (se_type entry)) in (r, n\<lparr>mn_store := store\<rparr>))"

definition memory_ops :: "MemoryNode node_ops" where
  "memory_ops =
     \<lparr>no_get = \<lambda>n. store_get (mn_store n),
      no_snapshot_all = \<lambda>n. map snd (sort_key fst (store_entries (mn_store n))),
      no_merge_entry = \<lambda>n e. (let (r, store) = store_merge_entry (mn_store n) e in (r, n\<lparr>mn_store := store\<rparr>)),
      no_merge_metadata = \<lambda>n k v. (let (r, store) = store_merge_metadata (mn_store n) k v in (r, n\<lparr>mn_store := store\<rparr>)),
      no_commit = commit_local_in_memory,
      no_clock = mn_clock,
      no_set_clock = \<lambda>clk n. n\<lparr>mn_clock := clk\<rparr>\<rparr>"

text \<open>A durable node carries what its next persistence jobs will meet.\<close>

record DurableNode =
  du_store :: DurableCrdtStore
  du_ios :: "nat \<Rightarrow> io"

definition with_io :: "(DurableCrdtStore \<Rightarrow> io \<Rightarrow> 'a result \<times> DurableCrdtStore) \<Rightarrow> DurableNode \<Rightarrow> 'a result \<times> DurableNode" where
  "with_io f n =
     (let (r, store) = f (du_store n) (du_ios n 0) in (r, \<lparr>du_store = store, du_ios = \<lambda>i. du_ios n (Suc i)\<rparr>))"

definition durable_ops :: "DurableNode node_ops" where
  "durable_ops =
     \<lparr>no_get = \<lambda>n. store_get (dn_memory (du_store n)),
      no_snapshot_all = \<lambda>n. map snd (sort_key fst (store_entries (dn_memory (du_store n)))),
      no_merge_entry = \<lambda>n e. with_io (\<lambda>s io. durable_merge_entry s io e) n,
      no_merge_metadata = \<lambda>n k v. with_io (\<lambda>s io. durable_merge_metadata s io k v) n,
      no_commit = \<lambda>n e frontier. with_io (\<lambda>s io. commit_local s io e frontier) n,
      no_clock = \<lambda>n. dn_clock (du_store n),
      no_set_clock = \<lambda>clk n. n\<lparr>du_store := du_store n\<lparr>dn_clock := clk\<rparr>\<rparr>\<rparr>"

section \<open>The contract\<close>

text \<open>
  A call that raises leaves what the store shows; a merge shows the merge of the old entry
  and the incoming one; a commit shows the committed entry; no call takes the clock back,
  and a commit leaves it to the caller.
\<close>

definition clock_grows :: "CausalClock \<Rightarrow> CausalClock \<Rightarrow> bool" where
  "clock_grows c d \<longleftrightarrow> clk_actor d = clk_actor c \<and> dominates (clk_frontier d) (clk_frontier c)"

definition merged_with :: "StoredCrdtEntry option \<Rightarrow> StoredCrdtEntry \<Rightarrow> StoredCrdtEntry \<Rightarrow> bool" where
  "merged_with old e m \<longleftrightarrow> (case old of None \<Rightarrow> m = e | Some x \<Rightarrow> merge_entries x e = Inr m)"

definition context_added :: "StoredCrdtEntry \<Rightarrow> VersionVector \<Rightarrow> StoredCrdtEntry" where
  "context_added e v = e\<lparr>se_context := vv_merge (se_context e) v\<rparr>"

locale crdt_node =
  fixes ops :: "'n node_ops" and ok :: "'n \<Rightarrow> bool"
  assumes get_ok: "ok n \<Longrightarrow> no_get ops n k = Some e \<Longrightarrow> se_key e = k \<and> entry_ok e"
    and clock_valid: "ok n \<Longrightarrow> clock_ok (no_clock ops n)"
    and set_clock: "ok n \<Longrightarrow> clock_ok c \<Longrightarrow> clk_actor c = clk_actor (no_clock ops n) \<Longrightarrow>
      ok (no_set_clock ops c n) \<and> no_clock ops (no_set_clock ops c n) = c \<and> no_get ops (no_set_clock ops c n) = no_get ops n"
    and snapshot: "ok n \<Longrightarrow> e \<in> set (no_snapshot_all ops n) \<longleftrightarrow> no_get ops n (se_key e) = Some e"
    and snapshot_keys: "ok n \<Longrightarrow> distinct (map se_key (no_snapshot_all ops n))"
    and merge_step: "ok n \<Longrightarrow> entry_ok e \<Longrightarrow> no_merge_entry ops n e = (r, n') \<Longrightarrow>
      ok n' \<and> clock_grows (no_clock ops n) (no_clock ops n') \<and>
      (case r of Inl x \<Rightarrow> no_get ops n' = no_get ops n
       | Inr m \<Rightarrow> no_get ops n' = (no_get ops n)(se_key e \<mapsto> m) \<and> merged_with (no_get ops n (se_key e)) e m)"
    and metadata_step: "ok n \<Longrightarrow> vv_ok v \<Longrightarrow> no_merge_metadata ops n k v = (q, n') \<Longrightarrow>
      ok n' \<and> clock_grows (no_clock ops n) (no_clock ops n') \<and>
      (case q of Inl x \<Rightarrow> no_get ops n' = no_get ops n
       | Inr None \<Rightarrow> no_get ops n k = None \<and> no_get ops n' = no_get ops n
       | Inr (Some m) \<Rightarrow> (\<exists>e. no_get ops n k = Some e \<and> m = context_added e v \<and> no_get ops n' = (no_get ops n)(k \<mapsto> m)))"
    and commit_step: "ok n \<Longrightarrow> entry_ok e \<Longrightarrow> vv_ok f \<Longrightarrow> no_commit ops n e f = (r, n') \<Longrightarrow>
      ok n' \<and> no_clock ops n' = no_clock ops n \<and>
      (case r of Inl x \<Rightarrow> no_get ops n' = no_get ops n | Inr m \<Rightarrow> no_get ops n' = (no_get ops n)(se_key e \<mapsto> e))"

section \<open>What the store operations show\<close>

lemma clock_grows_refl [simp]: "clock_grows c c"
  by (simp add: clock_grows_def)

lemma clock_grows_trans: "clock_grows a b \<Longrightarrow> clock_grows b c \<Longrightarrow> clock_grows a c"
  by (auto simp: clock_grows_def intro: dominates_trans)

lemma clock_grows_merge: "clock_grows c (c\<lparr>clk_frontier := vv_merge (clk_frontier c) v\<rparr>)"
  by (simp add: clock_grows_def)

lemma store_get_fun: "store_get s = map_of (store_entries s)"
  by (rule ext) (simp add: store_get_def)

lemma store_update_get: "store_get (s\<lparr>store_entries := AList.update k e (store_entries s)\<rparr>) = (store_get s)(k \<mapsto> e)"
  by (simp add: store_get_fun update_conv')

lemma store_replace_cases:
  assumes "store_ok s" "entry_ok e" "store_replace s e t = (r, s')"
  shows "store_ok s' \<and> (case r of Inl x \<Rightarrow> store_get s' = store_get s | Inr m \<Rightarrow> m = e \<and> store_get s' = (store_get s)(se_key e \<mapsto> e))"
proof -
  have "store_ok s'" using store_puts_ok [OF assms(1) store_replace_puts [OF assms(2)], of t] assms(3) by simp
  then show ?thesis using assms(3)
    by (auto simp: store_replace_def Let_def store_update_get split: if_splits)
qed

lemma merged_entry_ok:
  assumes "store_ok s" "entry_ok e" "merged_with (store_get s (se_key e)) e m"
  shows "entry_ok m \<and> se_key m = se_key e"
proof (cases "store_get s (se_key e)")
  case (Some x)
  then show ?thesis
    using assms(3) store_ok_get [OF assms(1) Some] merge_entries_ok [of x e m] assms(2) by (simp add: merged_with_def)
qed (use assms in \<open>simp add: merged_with_def\<close>)

lemma store_merge_entry_cases:
  assumes "store_ok s" "entry_ok e" "store_merge_entry s e = (r, s')"
  shows "store_ok s' \<and> (case r of Inl x \<Rightarrow> store_get s' = store_get s
    | Inr m \<Rightarrow> store_get s' = (store_get s)(se_key e \<mapsto> m) \<and> merged_with (store_get s (se_key e)) e m)"
proof (cases "store_get s (se_key e)")
  case None
  then have step: "store_replace s e None = (r, s')" using assms(3) by (simp add: store_merge_entry_def)
  show ?thesis using store_replace_cases [OF assms(1,2) step] None
    by (cases r) (auto simp: merged_with_def)
next
  case (Some x)
  show ?thesis
  proof (cases "merge_entries x e")
    case (Inr m)
    have m: "merged_with (store_get s (se_key e)) e m" using Some Inr by (simp add: merged_with_def)
    have step: "store_replace s m (Some (se_type x)) = (r, s')" using assms(3) Some Inr by (simp add: store_merge_entry_def)
    have ok: "entry_ok m" "se_key m = se_key e" using merged_entry_ok [OF assms(1,2) m] by auto
    show ?thesis using store_replace_cases [OF assms(1) ok(1) step] ok(2) m by (cases r) auto
  next
    case (Inl x)
    then have "r = Inl x" "s' = s" using assms(3) Some by (simp_all add: store_merge_entry_def)
    then show ?thesis using assms(1) by simp
  qed
qed

lemma with_context_ok:
  "entry_ok e \<Longrightarrow> vv_ok v \<Longrightarrow> with_context e (vv_merge (se_context e) v) = Inr (context_added e v) \<and>
     entry_ok (context_added e v) \<and> se_key (context_added e v) = se_key e \<and> se_type (context_added e v) = se_type e"
  by (auto simp: with_context_def StoredCrdtEntry_init_def entry_ok_def context_added_def)

lemma store_merge_metadata_cases:
  assumes "store_ok s" "vv_ok v" "store_merge_metadata s k v = (r, s')"
  shows "store_ok s' \<and> (case r of Inl x \<Rightarrow> store_get s' = store_get s
    | Inr None \<Rightarrow> store_get s k = None \<and> store_get s' = store_get s
    | Inr (Some m) \<Rightarrow> (\<exists>e. store_get s k = Some e \<and> m = context_added e v \<and> store_get s' = (store_get s)(k \<mapsto> m)))"
proof (cases "store_get s k")
  case (Some x)
  have x: "entry_ok x" "se_key x = k" using store_ok_get [OF assms(1) Some] by auto
  note u = with_context_ok [OF x(1) assms(2)]
  obtain q where q: "store_replace s (context_added x v) (Some (se_type x)) = (q, s')" "r = rbind q (\<lambda>e. Inr (Some e))"
    using assms(3) Some u by (auto simp: store_merge_metadata_def case_prod_unfold Let_def prod_eq_iff)
  show ?thesis
    using store_replace_cases [OF assms(1) _ q(1)] q(2) u x Some by (cases q) auto
qed (use assms in \<open>auto simp: store_merge_metadata_def\<close>)

lemma store_snapshot:
  assumes "store_ok s"
  shows "e \<in> snd ` set (store_entries s) \<longleftrightarrow> store_get s (se_key e) = Some e"
    and "distinct (map se_key (map snd (sort_key fst (store_entries s))))"
proof -
  have d: "dict_ok (store_entries s)" and keys: "(k, x) \<in> set (store_entries s) \<Longrightarrow> se_key x = k" for k x
    using assms by (auto simp: store_ok_def)
  have get: "store_get s k = Some e \<longleftrightarrow> (k, e) \<in> set (store_entries s)" for k
    using d by (simp add: store_get_def dict_ok_def)
  show "e \<in> snd ` set (store_entries s) \<longleftrightarrow> store_get s (se_key e) = Some e"
    unfolding get using keys by (metis (no_types) image_iff prod.collapse snd_conv)
  have "map se_key (map snd xs) = map fst xs" if "\<forall>x \<in> set xs. se_key (snd x) = fst x" for xs
    using that by (induction xs) auto
  then have "map se_key (map snd (sort_key fst (store_entries s))) = map fst (sort_key fst (store_entries s))"
    using keys by (metis prod.collapse set_sort)
  then show "distinct (map se_key (map snd (sort_key fst (store_entries s))))"
    using canon_distinct [OF canon_sort_key [OF d]] by (simp only:)
qed

section \<open>The in-memory node\<close>

definition memory_ok :: "MemoryNode \<Rightarrow> bool" where
  "memory_ok n \<longleftrightarrow> store_ok (mn_store n) \<and> clock_ok (mn_clock n)"

interpretation mem: crdt_node memory_ops memory_ok
proof
  fix n and r :: "StoredCrdtEntry result" and n' e
  assume n: "memory_ok n" and e: "entry_ok e" and step: "no_merge_entry memory_ops n e = (r, n')"
  obtain s' where "store_merge_entry (mn_store n) e = (r, s')" "n' = n\<lparr>mn_store := s'\<rparr>"
    using step by (auto simp: memory_ops_def case_prod_unfold Let_def prod_eq_iff)
  then show "memory_ok n' \<and> clock_grows (no_clock memory_ops n) (no_clock memory_ops n') \<and>
      (case r of Inl x \<Rightarrow> no_get memory_ops n' = no_get memory_ops n
       | Inr m \<Rightarrow> no_get memory_ops n' = (no_get memory_ops n)(se_key e \<mapsto> m) \<and>
           merged_with (no_get memory_ops n (se_key e)) e m)"
    using store_merge_entry_cases [of "mn_store n" e r s'] n e
    by (cases r) (simp_all add: memory_ops_def memory_ok_def)
next
  fix n and q :: "StoredCrdtEntry option result" and n' k v
  assume n: "memory_ok n" and v: "vv_ok v" and step: "no_merge_metadata memory_ops n k v = (q, n')"
  obtain s' where "store_merge_metadata (mn_store n) k v = (q, s')" "n' = n\<lparr>mn_store := s'\<rparr>"
    using step by (auto simp: memory_ops_def case_prod_unfold Let_def prod_eq_iff)
  then show "memory_ok n' \<and> clock_grows (no_clock memory_ops n) (no_clock memory_ops n') \<and>
      (case q of Inl x \<Rightarrow> no_get memory_ops n' = no_get memory_ops n
       | Inr None \<Rightarrow> no_get memory_ops n k = None \<and> no_get memory_ops n' = no_get memory_ops n
       | Inr (Some m) \<Rightarrow> (\<exists>e. no_get memory_ops n k = Some e \<and> m = context_added e v \<and>
           no_get memory_ops n' = (no_get memory_ops n)(k \<mapsto> m)))"
    using store_merge_metadata_cases [of "mn_store n" v k q s'] n v
    by (auto simp: memory_ops_def memory_ok_def split: sum.splits option.splits)
next
  fix n and r :: "StoredCrdtEntry result" and n' e f
  assume n: "memory_ok n" and e: "entry_ok e" and step: "no_commit memory_ops n e f = (r, n')"
  obtain s' where s': "store_replace (mn_store n) e (Some (se_type e)) = (r, s')" "n' = n\<lparr>mn_store := s'\<rparr>"
    using step by (auto simp: memory_ops_def commit_local_in_memory_def case_prod_unfold Let_def prod_eq_iff)
  then show "memory_ok n' \<and> no_clock memory_ops n' = no_clock memory_ops n \<and>
      (case r of Inl x \<Rightarrow> no_get memory_ops n' = no_get memory_ops n
       | Inr m \<Rightarrow> no_get memory_ops n' = (no_get memory_ops n)(se_key e \<mapsto> e))"
    using store_replace_cases [OF _ e s'(1)] n by (auto simp: memory_ops_def memory_ok_def split: sum.splits)
qed (auto simp: memory_ops_def memory_ok_def store_ok_get store_snapshot store_snapshot(2) [unfolded map_map])

section \<open>The durable node\<close>

definition durable_ok :: "DurableNode \<Rightarrow> bool" where
  "durable_ok n \<longleftrightarrow> store_ok (dn_memory (du_store n)) \<and> clock_ok (dn_clock (du_store n))"

text \<open>A commit that does not raise wrote the row and then replaced the entry in memory.\<close>

lemma durable_replace_memory:
  "durable_replace n e t = (r, n') \<Longrightarrow>
     dn_clock n' = dn_clock n \<and> store_replace (dn_memory n) e t = (r, dn_memory n')"
  by (auto simp: durable_replace_def case_prod_unfold Let_def prod_eq_iff)

lemma commit_local_memory:
  assumes "commit_local n io e f = (r, n')"
  shows "dn_clock n' = dn_clock n \<and>
    (isl r \<and> dn_memory n' = dn_memory n \<or> store_replace (dn_memory n) e (Some (se_type e)) = (r, dn_memory n'))"
proof -
  have "n'' = n\<lparr>dn_repo := repo\<rparr> \<Longrightarrow> dn_clock n'' = dn_clock n \<and> dn_memory n'' = dn_memory n" for n'' repo by simp
  then show ?thesis using assms
    by (auto simp: commit_local_def split: sum.splits prod.splits dest!: durable_replace_memory)
qed

lemma persist_observed_memory:
  assumes "persist_observed n io e t f = (r, c, n')"
  shows "dn_clock n' = dn_clock n \<and>
    (isl r \<and> dn_memory n' = dn_memory n \<or> store_replace (dn_memory n) e (Some t) = (r, dn_memory n'))"
  using assms
  by (auto simp: persist_observed_def split: sum.splits prod.splits dest!: durable_replace_memory)

lemma observe_and_persist_memory:
  assumes "observe_and_persist n io e t = (r, n')"
  shows "(dn_clock n' = dn_clock n \<or> dn_clock n' = (dn_clock n)\<lparr>clk_frontier := vv_merge (clk_frontier (dn_clock n)) (se_context e)\<rparr>) \<and>
    (isl r \<and> dn_memory n' = dn_memory n \<or> store_replace (dn_memory n) e (Some t) = (r, dn_memory n'))"
proof -
  obtain c n'' where p: "persist_observed n io e t (vv_merge (clk_frontier (dn_clock n)) (se_context e)) = (r, c, n'')"
    and n': "n' = n''\<lparr>dn_clock := if isl r \<or> \<not> c then dn_clock n
      else (dn_clock n)\<lparr>clk_frontier := vv_merge (clk_frontier (dn_clock n)) (se_context e)\<rparr>\<rparr>"
    using assms by (auto simp: observe_and_persist_def staged_observe_def Let_def case_prod_unfold prod_eq_iff)
  show ?thesis using persist_observed_memory [OF p] n' by auto
qed

lemma observed_clock:
  assumes "clock_ok c" "vv_ok v" "d = c \<or> d = c\<lparr>clk_frontier := vv_merge (clk_frontier c) v\<rparr>"
  shows "clock_ok d \<and> clock_grows c d"
  using assms clock_grows_merge by (auto simp: clock_ok_def)

lemma observe_and_persist_cases:
  assumes "store_ok (dn_memory n)" "clock_ok (dn_clock n)" "entry_ok e" "observe_and_persist n io e t = (r, n')"
  shows "store_ok (dn_memory n') \<and> clock_ok (dn_clock n') \<and> clock_grows (dn_clock n) (dn_clock n') \<and>
    (case r of Inl x \<Rightarrow> store_get (dn_memory n') = store_get (dn_memory n)
     | Inr m \<Rightarrow> m = e \<and> store_get (dn_memory n') = (store_get (dn_memory n))(se_key e \<mapsto> e))"
proof -
  note mem = observe_and_persist_memory [OF assms(4)]
  have "vv_ok (se_context e)" using assms(3) by (simp add: entry_ok_def)
  then have "clock_ok (dn_clock n') \<and> clock_grows (dn_clock n) (dn_clock n')"
    using observed_clock [OF assms(2)] mem by blast
  moreover have "store_ok (dn_memory n') \<and> (case r of Inl x \<Rightarrow> store_get (dn_memory n') = store_get (dn_memory n)
     | Inr m \<Rightarrow> m = e \<and> store_get (dn_memory n') = (store_get (dn_memory n))(se_key e \<mapsto> e))"
    using conjunct2 [OF mem] store_replace_cases [OF assms(1,3)] assms(1) by (auto simp: isl_def)
  ultimately show ?thesis by simp
qed

lemma with_io_step: "with_io f n = (r, n') \<Longrightarrow> f (du_store n) (du_ios n 0) = (r, du_store n')"
  by (auto simp: with_io_def case_prod_unfold Let_def prod_eq_iff)

lemma durable_merge_entry_cases:
  assumes n: "store_ok (dn_memory n)" "clock_ok (dn_clock n)" and e: "entry_ok e"
    and s: "durable_merge_entry n io e = (r, n')"
  shows "store_ok (dn_memory n') \<and> clock_ok (dn_clock n') \<and> clock_grows (dn_clock n) (dn_clock n') \<and>
    (case r of Inl x \<Rightarrow> store_get (dn_memory n') = store_get (dn_memory n)
     | Inr m \<Rightarrow> store_get (dn_memory n') = (store_get (dn_memory n))(se_key e \<mapsto> m) \<and>
         merged_with (store_get (dn_memory n) (se_key e)) e m)"
proof (cases "case store_get (dn_memory n) (se_key e) of None \<Rightarrow> Inr e | Some x \<Rightarrow> merge_entries x e")
  case (Inl x)
  then have "r = Inl x" "n' = n" using s by (simp_all add: durable_merge_entry_def)
  then show ?thesis using n by simp
next
  case (Inr m)
  then have m: "merged_with (store_get (dn_memory n) (se_key e)) e m"
    by (simp add: merged_with_def split: option.splits)
  have p: "observe_and_persist n io m (se_type m) = (r, n')" using s Inr by (simp add: durable_merge_entry_def)
  have "entry_ok m" "se_key m = se_key e" using merged_entry_ok [OF n(1) e m] by auto
  then show ?thesis using observe_and_persist_cases [OF n _ p] m by (cases r) auto
qed

lemma durable_merge_metadata_cases:
  assumes n: "store_ok (dn_memory n)" "clock_ok (dn_clock n)" and v: "vv_ok v"
    and s: "durable_merge_metadata n io k v = (q, n')"
  shows "store_ok (dn_memory n') \<and> clock_ok (dn_clock n') \<and> clock_grows (dn_clock n) (dn_clock n') \<and>
    (case q of Inl x \<Rightarrow> store_get (dn_memory n') = store_get (dn_memory n)
     | Inr None \<Rightarrow> store_get (dn_memory n) k = None \<and> store_get (dn_memory n') = store_get (dn_memory n)
     | Inr (Some m) \<Rightarrow> (\<exists>e. store_get (dn_memory n) k = Some e \<and> m = context_added e v \<and>
         store_get (dn_memory n') = (store_get (dn_memory n))(k \<mapsto> m)))"
proof (cases "store_get (dn_memory n) k")
  case (Some x)
  have x: "entry_ok x" "se_key x = k" using store_ok_get [OF n(1) Some] by auto
  note u = with_context_ok [OF x(1) v]
  obtain r where p: "observe_and_persist n io (context_added x v) (se_type x) = (r, n')" "q = rbind r (\<lambda>e. Inr (Some e))"
    using s Some u by (auto simp: durable_merge_metadata_def case_prod_unfold Let_def prod_eq_iff)
  show ?thesis using observe_and_persist_cases [OF n _ p(1)] p(2) u x Some by (cases r) auto
qed (use s n in \<open>auto simp: durable_merge_metadata_def\<close>)

lemma commit_local_cases:
  assumes n: "store_ok (dn_memory n)" and e: "entry_ok e" and s: "commit_local n io e f = (r, n')"
  shows "store_ok (dn_memory n') \<and> dn_clock n' = dn_clock n \<and>
    (case r of Inl x \<Rightarrow> store_get (dn_memory n') = store_get (dn_memory n)
     | Inr m \<Rightarrow> store_get (dn_memory n') = (store_get (dn_memory n))(se_key e \<mapsto> e))"
  using commit_local_memory [OF s]
proof (elim conjE disjE)
  assume "dn_clock n' = dn_clock n"
    and p: "store_replace (dn_memory n) e (Some (se_type e)) = (r, dn_memory n')"
  then show ?thesis using store_replace_cases [OF n e p] by (cases r) auto
qed (use n in \<open>auto simp: isl_def\<close>)

interpretation dur: crdt_node durable_ops durable_ok
proof
  fix n and r :: "StoredCrdtEntry result" and n' e
  assume n: "durable_ok n" and e: "entry_ok e" and step: "no_merge_entry durable_ops n e = (r, n')"
  have "durable_merge_entry (du_store n) (du_ios n 0) e = (r, du_store n')"
    using step by (auto simp: durable_ops_def dest: with_io_step)
  from durable_merge_entry_cases [OF _ _ e this]
  show "durable_ok n' \<and> clock_grows (no_clock durable_ops n) (no_clock durable_ops n') \<and>
      (case r of Inl x \<Rightarrow> no_get durable_ops n' = no_get durable_ops n
       | Inr m \<Rightarrow> no_get durable_ops n' = (no_get durable_ops n)(se_key e \<mapsto> m) \<and>
           merged_with (no_get durable_ops n (se_key e)) e m)"
    using n by (cases r) (simp_all add: durable_ops_def durable_ok_def)
next
  fix n and q :: "StoredCrdtEntry option result" and n' k v
  assume n: "durable_ok n" and v: "vv_ok v" and step: "no_merge_metadata durable_ops n k v = (q, n')"
  have "durable_merge_metadata (du_store n) (du_ios n 0) k v = (q, du_store n')"
    using step by (auto simp: durable_ops_def dest: with_io_step)
  from durable_merge_metadata_cases [OF _ _ v this]
  show "durable_ok n' \<and> clock_grows (no_clock durable_ops n) (no_clock durable_ops n') \<and>
      (case q of Inl x \<Rightarrow> no_get durable_ops n' = no_get durable_ops n
       | Inr None \<Rightarrow> no_get durable_ops n k = None \<and> no_get durable_ops n' = no_get durable_ops n
       | Inr (Some m) \<Rightarrow> (\<exists>e. no_get durable_ops n k = Some e \<and> m = context_added e v \<and>
           no_get durable_ops n' = (no_get durable_ops n)(k \<mapsto> m)))"
    using n by (simp add: durable_ops_def durable_ok_def split: sum.splits option.splits)
next
  fix n and r :: "StoredCrdtEntry result" and n' e f
  assume n: "durable_ok n" and e: "entry_ok e" and step: "no_commit durable_ops n e f = (r, n')"
  have "commit_local (du_store n) (du_ios n 0) e f = (r, du_store n')"
    using step by (auto simp: durable_ops_def dest: with_io_step)
  from commit_local_cases [OF _ e this]
  show "durable_ok n' \<and> no_clock durable_ops n' = no_clock durable_ops n \<and>
      (case r of Inl x \<Rightarrow> no_get durable_ops n' = no_get durable_ops n
       | Inr m \<Rightarrow> no_get durable_ops n' = (no_get durable_ops n)(se_key e \<mapsto> e))"
    using n by (cases r) (simp_all add: durable_ops_def durable_ok_def)
qed (auto simp: durable_ops_def durable_ok_def store_ok_get store_snapshot store_snapshot(2) [unfolded map_map])

end
