(* ===== verification/Outbox.thy ===== *)
theory Outbox
  imports Storage "HOL-Library.Multiset"
begin

text \<open>
  The bounded coalescing outbox of \<^verbatim>\<open>src/src/distsys/replication/outbox.py\<close>. Every
  method holds the lock for its whole effect, so it is one step. The history of an outbox
  adds the callers: the reservations not yet published or cancelled, and the items the
  replication workers hold.
\<close>

section \<open>The outbox\<close>

type_synonym Pair = "string \<times> string"

record OutboxReservation =
  rv_pairs :: "Pair list"
  rv_created :: "Pair list"

record PendingReplication =
  pr_peer :: string
  pr_key :: string
  pr_generation :: int
  pr_state :: StoredCrdtEntry

record Pending =
  pe_generation :: int
  pe_state :: "StoredCrdtEntry option"
  pe_queued :: bool
  pe_in_flight :: bool
  pe_reservations :: int

definition Pending_init :: Pending where
  "Pending_init = \<lparr>pe_generation = 0, pe_state = None, pe_queued = False, pe_in_flight = False, pe_reservations = 0\<rparr>"

record ReplicationOutbox =
  ob_capacity :: int
  ob_pending :: "(Pair, Pending) dict"
  ob_ready :: "Pair list"

definition ReplicationOutbox_init :: "int \<Rightarrow> ReplicationOutbox result" where
  "ReplicationOutbox_init capacity =
     (if capacity < 1 then raise ValueError ''capacity must be >= 1''
      else Inr \<lparr>ob_capacity = capacity, ob_pending = [], ob_ready = []\<rparr>)"

text \<open>\<^verbatim>\<open>tuple(dict.fromkeys(pairs))\<close>: the first occurrence of each pair.\<close>

definition from_keys :: "'a list \<Rightarrow> 'a list" where
  "from_keys xs = rev (remdups (rev xs))"

fun insert_new :: "Pair list \<Rightarrow> (Pair, Pending) dict \<Rightarrow> (Pair, Pending) dict" where
  "insert_new [] d = d"
| "insert_new (p # ps) d = insert_new ps (AList.update p Pending_init d)"

fun add_reservations :: "Pair list \<Rightarrow> (Pair, Pending) dict \<Rightarrow> (Pair, Pending) dict" where
  "add_reservations [] d = d"
| "add_reservations (p # ps) d =
     add_reservations ps
       (case map_of d p of
          None \<Rightarrow> d
        | Some e \<Rightarrow> AList.update p (e\<lparr>pe_reservations := pe_reservations e + 1\<rparr>) d)"

definition reserve :: "ReplicationOutbox \<Rightarrow> Pair list \<Rightarrow> OutboxReservation result \<times> ReplicationOutbox" where
  "reserve box pairs =
     (let unique = from_keys pairs;
          new_pairs = filter (\<lambda>p. map_of (ob_pending box) p = None) unique
      in if int (length (ob_pending box)) + int (length new_pairs) > ob_capacity box
         then (raise ReplicationBackpressureError ''replication outbox capacity exhausted'', box)
         else (Inr \<lparr>rv_pairs = unique, rv_created = new_pairs\<rparr>,
               box\<lparr>ob_pending := add_reservations unique (insert_new new_pairs (ob_pending box))\<rparr>))"

definition cancel_pair :: "Pair \<Rightarrow> (Pair, Pending) dict \<Rightarrow> (Pair, Pending) dict" where
  "cancel_pair p d =
     (case map_of d p of
        None \<Rightarrow> d
      | Some e \<Rightarrow>
          (let e' = (if pe_reservations e > 0 then e\<lparr>pe_reservations := pe_reservations e - 1\<rparr> else e)
           in if pe_reservations e' = 0 \<and> pe_state e' = None \<and> \<not> pe_queued e' \<and> \<not> pe_in_flight e'
              then AList.delete p d else AList.update p e' d))"

definition cancel :: "ReplicationOutbox \<Rightarrow> OutboxReservation \<Rightarrow> ReplicationOutbox" where
  "cancel box r = box\<lparr>ob_pending := fold cancel_pair (rv_pairs r) (ob_pending box)\<rparr>"

text \<open>
  The loop of \<^verbatim>\<open>publish\<close>; an exception leaves the pairs before it updated and skips the
  enqueueing after the loop.
\<close>

fun publish_loop ::
  "(string \<Rightarrow> StoredCrdtEntry option) \<Rightarrow> Pair list \<Rightarrow> (Pair, Pending) dict \<Rightarrow> Pair list \<Rightarrow>
     Pair list result \<times> (Pair, Pending) dict" where
  "publish_loop states [] d to_queue = (Inr to_queue, d)"
| "publish_loop states (p # ps) d to_queue =
     (case states (snd p) of
        None \<Rightarrow> (raise KeyError (''missing published state for key '' @ snd p), d)
      | Some state \<Rightarrow>
          (case map_of d p of
             None \<Rightarrow> (raise RuntimeError ''outbox reservation no longer exists'', d)
           | Some e \<Rightarrow>
               if pe_reservations e < 1 then (raise RuntimeError ''outbox reservation no longer exists'', d)
               else let e' = e\<lparr>pe_generation := pe_generation e + 1, pe_state := Some state,
                              pe_reservations := pe_reservations e - 1\<rparr>
                    in if \<not> pe_queued e' \<and> \<not> pe_in_flight e'
                       then publish_loop states ps (AList.update p (e'\<lparr>pe_queued := True\<rparr>) d) (to_queue @ [p])
                       else publish_loop states ps (AList.update p e' d) to_queue))"

definition publish ::
  "ReplicationOutbox \<Rightarrow> OutboxReservation \<Rightarrow> (string \<Rightarrow> StoredCrdtEntry option) \<Rightarrow> unit result \<times> ReplicationOutbox" where
  "publish box r states =
     (case publish_loop states (rv_pairs r) (ob_pending box) [] of
        (Inl e, d) \<Rightarrow> (Inl e, box\<lparr>ob_pending := d\<rparr>)
      | (Inr to_queue, d) \<Rightarrow> (Inr (), box\<lparr>ob_pending := d, ob_ready := ob_ready box @ to_queue\<rparr>))"

text \<open>\<^verbatim>\<open>next_ready\<close> takes pairs off the queue until one is ready; \<open>None\<close> is waiting on the empty queue.\<close>

fun next_loop :: "(Pair, Pending) dict \<Rightarrow> Pair list \<Rightarrow> (PendingReplication \<times> (Pair, Pending) dict) option \<times> Pair list" where
  "next_loop d [] = (None, [])"
| "next_loop d (p # ready) =
     (case map_of d p of
        None \<Rightarrow> next_loop d ready
      | Some e \<Rightarrow>
          (case pe_state e of
             None \<Rightarrow> next_loop d ready
           | Some state \<Rightarrow>
               if pe_in_flight e then next_loop d ready
               else (Some (\<lparr>pr_peer = fst p, pr_key = snd p, pr_generation = pe_generation e, pr_state = state\<rparr>,
                           AList.update p (e\<lparr>pe_queued := False, pe_in_flight := True\<rparr>) d), ready)))"

definition next_ready :: "ReplicationOutbox \<Rightarrow> PendingReplication option \<times> ReplicationOutbox" where
  "next_ready box =
     (case next_loop (ob_pending box) (ob_ready box) of
        (None, ready) \<Rightarrow> (None, box\<lparr>ob_ready := ready\<rparr>)
      | (Some (item, d), ready) \<Rightarrow> (Some item, box\<lparr>ob_pending := d, ob_ready := ready\<rparr>))"

definition complete :: "ReplicationOutbox \<Rightarrow> string \<Rightarrow> string \<Rightarrow> int \<Rightarrow> ReplicationOutbox" where
  "complete box peer_node_id key sent_generation =
     (let p = (peer_node_id, key); d = ob_pending box in
      case map_of d p of
        None \<Rightarrow> box
      | Some current \<Rightarrow>
          (let e = current\<lparr>pe_in_flight := False\<rparr> in
           if pe_generation e = sent_generation
           then (if pe_reservations e = 0 then box\<lparr>ob_pending := AList.delete p d\<rparr>
                 else box\<lparr>ob_pending := AList.update p (e\<lparr>pe_state := None, pe_queued := False\<rparr>) d\<rparr>)
           else if \<not> pe_queued e
           then box\<lparr>ob_pending := AList.update p (e\<lparr>pe_queued := True\<rparr>) d, ob_ready := ob_ready box @ [p]\<rparr>
           else box\<lparr>ob_pending := AList.update p e d\<rparr>))"

text \<open>\<^verbatim>\<open>abandon\<close> has the same body as \<^verbatim>\<open>complete\<close> in the source.\<close>

definition abandon :: "ReplicationOutbox \<Rightarrow> string \<Rightarrow> string \<Rightarrow> int \<Rightarrow> ReplicationOutbox" where
  "abandon box peer_node_id key sent_generation =
     (let p = (peer_node_id, key); d = ob_pending box in
      case map_of d p of
        None \<Rightarrow> box
      | Some current \<Rightarrow>
          (let e = current\<lparr>pe_in_flight := False\<rparr> in
           if pe_generation e = sent_generation
           then (if pe_reservations e = 0 then box\<lparr>ob_pending := AList.delete p d\<rparr>
                 else box\<lparr>ob_pending := AList.update p (e\<lparr>pe_state := None, pe_queued := False\<rparr>) d\<rparr>)
           else if \<not> pe_queued e
           then box\<lparr>ob_pending := AList.update p (e\<lparr>pe_queued := True\<rparr>) d, ob_ready := ob_ready box @ [p]\<rparr>
           else box\<lparr>ob_pending := AList.update p e d\<rparr>))"

definition pending_count :: "ReplicationOutbox \<Rightarrow> nat" where
  "pending_count box = length (ob_pending box)"

section \<open>Histories\<close>

text \<open>
  \<open>sy_open\<close>: reservations handed out and not yet published or cancelled; \<open>sy_flight\<close>: items
  the workers hold; \<open>sy_last\<close> and \<open>sy_done\<close>: the state last published for a pair, and the
  state of the item a worker last finished (sent or given up) for it.
\<close>

record outbox_sys =
  sy_box :: ReplicationOutbox
  sy_open :: "OutboxReservation multiset"
  sy_flight :: "PendingReplication list"
  sy_last :: "Pair \<Rightarrow> StoredCrdtEntry option"
  sy_done :: "Pair \<Rightarrow> StoredCrdtEntry option"

abbreviation item_pair :: "PendingReplication \<Rightarrow> Pair" where
  "item_pair i \<equiv> (pr_peer i, pr_key i)"

inductive outbox_step :: "outbox_sys \<Rightarrow> outbox_sys \<Rightarrow> bool" where
  Reserve: "reserve (sy_box s) pairs = (Inr r, box) \<Longrightarrow>
     outbox_step s (s\<lparr>sy_box := box, sy_open := add_mset r (sy_open s)\<rparr>)"
| ReserveFails: "reserve (sy_box s) pairs = (Inl e, box) \<Longrightarrow> outbox_step s (s\<lparr>sy_box := box\<rparr>)"
| Cancel: "r \<in># sy_open s \<Longrightarrow>
     outbox_step s (s\<lparr>sy_box := cancel (sy_box s) r, sy_open := sy_open s - {#r#}\<rparr>)"
| Publish: "r \<in># sy_open s \<Longrightarrow> \<forall>p \<in> set (rv_pairs r). states (snd p) \<noteq> None \<Longrightarrow>
     publish (sy_box s) r states = (res, box) \<Longrightarrow>
     outbox_step s (s\<lparr>sy_box := box, sy_open := sy_open s - {#r#},
       sy_last := (\<lambda>p. if p \<in> set (rv_pairs r) then states (snd p) else sy_last s p)\<rparr>)"
| Take: "next_ready (sy_box s) = (Some item, box) \<Longrightarrow>
     outbox_step s (s\<lparr>sy_box := box, sy_flight := item # sy_flight s\<rparr>)"
| Wait: "next_ready (sy_box s) = (None, box) \<Longrightarrow> outbox_step s (s\<lparr>sy_box := box\<rparr>)"
| Finish: "item \<in> set (sy_flight s) \<Longrightarrow>
     box = (if sent then complete (sy_box s) (pr_peer item) (pr_key item) (pr_generation item)
            else abandon (sy_box s) (pr_peer item) (pr_key item) (pr_generation item)) \<Longrightarrow>
     outbox_step s (s\<lparr>sy_box := box, sy_flight := remove1 item (sy_flight s),
       sy_done := (sy_done s)(item_pair item := Some (pr_state item))\<rparr>)"

inductive outbox_reach :: "int \<Rightarrow> outbox_sys \<Rightarrow> bool" for capacity where
  Start: "ReplicationOutbox_init capacity = Inr box \<Longrightarrow>
     outbox_reach capacity \<lparr>sy_box = box, sy_open = {#}, sy_flight = [], sy_last = (\<lambda>_. None), sy_done = (\<lambda>_. None)\<rparr>"
| Step: "outbox_reach capacity s \<Longrightarrow> outbox_step s t \<Longrightarrow> outbox_reach capacity t"

section \<open>The invariant\<close>

text \<open>
  What holds of one pair, given the number of open reservations on it, whether it is in
  the ready queue, the items held for it, the state last published and last finished for
  it, and its record.
\<close>

definition pair_ok ::
  "nat \<Rightarrow> bool \<Rightarrow> PendingReplication list \<Rightarrow> StoredCrdtEntry option \<Rightarrow> StoredCrdtEntry option \<Rightarrow> Pending option \<Rightarrow> bool" where
  "pair_ok n queued held newest finished rec \<longleftrightarrow> length held \<le> 1 \<and>
     (case rec of
        None \<Rightarrow> n = 0 \<and> \<not> queued \<and> held = [] \<and> (newest = None \<or> newest = finished)
      | Some e \<Rightarrow>
          pe_reservations e = int n \<and> pe_queued e = queued \<and> pe_in_flight e = (held \<noteq> []) \<and>
          \<not> (queued \<and> held \<noteq> []) \<and> (pe_state e \<noteq> None \<longleftrightarrow> queued \<or> held \<noteq> []) \<and>
          (pe_state e = None \<longrightarrow> 0 < n) \<and> (pe_state e \<noteq> None \<longrightarrow> pe_state e = newest) \<and>
          (newest = None \<or> pe_state e = newest \<or> newest = finished) \<and>
          (\<forall>i \<in> set held. pr_generation i \<le> pe_generation e \<and>
             (pr_generation i = pe_generation e \<longrightarrow> pe_state e = Some (pr_state i))))"

definition open_on :: "OutboxReservation multiset \<Rightarrow> Pair \<Rightarrow> nat" where
  "open_on rs p = size {# r \<in># rs. p \<in> set (rv_pairs r) #}"

definition held_for :: "PendingReplication list \<Rightarrow> Pair \<Rightarrow> PendingReplication list" where
  "held_for items p = filter (\<lambda>i. item_pair i = p) items"

definition sys_pair_ok :: "outbox_sys \<Rightarrow> Pair \<Rightarrow> bool" where
  "sys_pair_ok s p = pair_ok (open_on (sy_open s) p) (p \<in> set (ob_ready (sy_box s))) (held_for (sy_flight s) p)
     (sy_last s p) (sy_done s p) (map_of (ob_pending (sy_box s)) p)"

definition outbox_inv :: "int \<Rightarrow> outbox_sys \<Rightarrow> bool" where
  "outbox_inv capacity s \<longleftrightarrow>
     ob_capacity (sy_box s) = capacity \<and> dict_ok (ob_pending (sy_box s)) \<and>
     int (length (ob_pending (sy_box s))) \<le> capacity \<and> distinct (ob_ready (sy_box s)) \<and>
     (\<forall>r \<in># sy_open s. distinct (rv_pairs r)) \<and> (\<forall>p. sys_pair_ok s p)"

subsection \<open>What the loops do to each pair\<close>

lemma from_keys_set [simp]: "set (from_keys xs) = set xs" "distinct (from_keys xs)"
  by (simp_all add: from_keys_def)

lemma length_update_old: "map_of d k \<noteq> None \<Longrightarrow> length (AList.update k v d) = length d"
  by (induction d) auto

lemma length_update_new: "map_of d k = None \<Longrightarrow> length (AList.update k v d) = Suc (length d)"
  by (induction d) (auto split: if_splits)

lemma length_delete_le: "length (AList.delete k d) \<le> length d"
  by (simp add: AList.length_delete_le)

lemma insert_new_spec:
  "distinct ps \<Longrightarrow> (\<And>p. p \<in> set ps \<Longrightarrow> map_of d p = None) \<Longrightarrow>
     map_of (insert_new ps d) q = (if q \<in> set ps then Some Pending_init else map_of d q) \<and>
     length (insert_new ps d) = length d + length ps \<and> (dict_ok d \<longrightarrow> dict_ok (insert_new ps d))"
proof (induction ps arbitrary: d)
  case (Cons p ps)
  let ?d = "AList.update p Pending_init d"
  have new: "map_of d x = None" if "x \<in> set (p # ps)" for x using Cons.prems(2) that by blast
  have fresh: "map_of ?d x = None" if "x \<in> set ps" for x using Cons.prems(1) new [of x] that by auto
  have "length ?d = Suc (length d)" using new [of p] by (simp add: length_update_new)
  then show ?case using Cons.IH [OF _ fresh] Cons.prems(1) by auto
qed simp

definition add_one :: "Pending \<Rightarrow> Pending" where
  "add_one e = e\<lparr>pe_reservations := pe_reservations e + 1\<rparr>"

lemma add_reservations_spec:
  "distinct ps \<Longrightarrow>
     map_of (add_reservations ps d) q = (if q \<in> set ps then map_option add_one (map_of d q) else map_of d q) \<and>
     length (add_reservations ps d) = length d \<and> (dict_ok d \<longrightarrow> dict_ok (add_reservations ps d))"
proof (induction ps arbitrary: d)
  case (Cons p ps)
  show ?case
  proof (cases "map_of d p")
    case None
    then show ?thesis using Cons by auto
  next
    case (Some e)
    then show ?thesis
      using Cons.IH [of "AList.update p (e\<lparr>pe_reservations := pe_reservations e + 1\<rparr>) d"] Cons.prems
      by (auto simp: length_update_old add_one_def)
  qed
qed simp

text \<open>What \<^verbatim>\<open>cancel\<close> makes of one record: nothing when it was the last reservation of an empty record.\<close>

definition cancel_one :: "Pending \<Rightarrow> Pending option" where
  "cancel_one e =
     (let e' = (if pe_reservations e > 0 then e\<lparr>pe_reservations := pe_reservations e - 1\<rparr> else e)
      in if pe_reservations e' = 0 \<and> pe_state e' = None \<and> \<not> pe_queued e' \<and> \<not> pe_in_flight e'
         then None else Some e')"

lemma cancel_pair_spec:
  "map_of (cancel_pair p d) q = (if q = p then Option.bind (map_of d p) cancel_one else map_of d q)"
  "dict_ok d \<Longrightarrow> dict_ok (cancel_pair p d)" "length (cancel_pair p d) \<le> length d"
  by (auto simp: cancel_pair_def cancel_one_def Let_def length_delete_le length_update_old split: option.splits)

lemma fold_cancel_spec:
  "distinct ps \<Longrightarrow>
     map_of (fold cancel_pair ps d) q = (if q \<in> set ps then Option.bind (map_of d q) cancel_one else map_of d q) \<and>
     length (fold cancel_pair ps d) \<le> length d \<and> (dict_ok d \<longrightarrow> dict_ok (fold cancel_pair ps d))"
proof (induction ps arbitrary: d)
  case (Cons p ps)
  then have "length (fold cancel_pair ps (cancel_pair p d)) \<le> length (cancel_pair p d)" by simp
  then have "length (fold cancel_pair (p # ps) d) \<le> length d" using cancel_pair_spec(3) [of p d] by simp
  then show ?case using Cons by (auto simp: cancel_pair_spec)
qed simp

definition publish_one :: "StoredCrdtEntry option \<Rightarrow> Pending \<Rightarrow> Pending" where
  "publish_one st e =
     (let e' = e\<lparr>pe_generation := pe_generation e + 1, pe_state := st, pe_reservations := pe_reservations e - 1\<rparr>
      in if \<not> pe_queued e' \<and> \<not> pe_in_flight e' then e'\<lparr>pe_queued := True\<rparr> else e')"

abbreviation idle :: "(Pair, Pending) dict \<Rightarrow> Pair \<Rightarrow> bool" where
  "idle d p \<equiv> (\<exists>e. map_of d p = Some e \<and> \<not> pe_queued e \<and> \<not> pe_in_flight e)"

lemma publish_loop_spec:
  "distinct ps \<Longrightarrow> (\<And>p. p \<in> set ps \<Longrightarrow> states (snd p) \<noteq> None \<and> (\<exists>e. map_of d p = Some e \<and> 1 \<le> pe_reservations e)) \<Longrightarrow>
     \<exists>d'. publish_loop states ps d qs = (Inr (qs @ filter (idle d) ps), d') \<and> length d' = length d \<and>
       (dict_ok d \<longrightarrow> dict_ok d') \<and>
       (\<forall>q. map_of d' q = (if q \<in> set ps then map_option (publish_one (states (snd q))) (map_of d q) else map_of d q))"
proof (induction ps arbitrary: d qs)
  case (Cons p ps)
  obtain st e where p: "states (snd p) = Some st" "map_of d p = Some e" "1 \<le> pe_reservations e"
    using Cons.prems(2) [of p] by auto
  let ?d = "AList.update p (publish_one (Some st) e) d"
  let ?qs = "if idle d p then qs @ [p] else qs"
  have step: "publish_loop states (p # ps) d qs = publish_loop states ps ?d ?qs"
    using p by (auto simp: publish_one_def Let_def)
  have other: "map_of ?d q = map_of d q" if "q \<in> set ps" for q using that Cons.prems(1) by auto
  have "filter (idle ?d) ps = filter (idle d) ps" using other by (intro filter_cong) simp_all
  moreover obtain d' where "publish_loop states ps ?d ?qs = (Inr (?qs @ filter (idle ?d) ps), d')"
      "length d' = length ?d" "dict_ok ?d \<longrightarrow> dict_ok d'"
      "\<forall>q. map_of d' q = (if q \<in> set ps then map_option (publish_one (states (snd q))) (map_of ?d q) else map_of ?d q)"
    using Cons.IH [of ?d ?qs] Cons.prems other by auto
  ultimately show ?case using step p Cons.prems(1) other by (auto simp: length_update_old)
qed simp

subsection \<open>Steps on one pair\<close>

lemma pair_ok_reserve:
  "pair_ok n q h nw fin rec \<Longrightarrow>
     pair_ok (Suc n) q h nw fin (Some (add_one (case rec of None \<Rightarrow> Pending_init | Some e \<Rightarrow> e)))"
  by (auto simp: pair_ok_def add_one_def Pending_init_def split: option.splits)

lemma pair_ok_open: "pair_ok (Suc n) q h nw fin rec \<Longrightarrow> \<exists>e. rec = Some e \<and> 1 \<le> pe_reservations e"
  by (auto simp: pair_ok_def split: option.splits)

lemma pair_ok_cancel:
  "pair_ok (Suc n) q h nw fin rec \<Longrightarrow> pair_ok n q h nw fin (Option.bind rec cancel_one)"
  by (auto simp: pair_ok_def cancel_one_def Let_def split: option.splits)

lemma pair_ok_publish:
  "pair_ok (Suc n) q h nw fin (Some e) \<Longrightarrow>
     pair_ok n (q \<or> \<not> pe_queued e \<and> \<not> pe_in_flight e) h (Some st) fin (Some (publish_one (Some st) e))"
  by (force simp: pair_ok_def publish_one_def Let_def)

lemma pair_ok_take:
  "pair_ok n True h nw fin rec \<Longrightarrow>
     h = [] \<and> (\<exists>e st. rec = Some e \<and> pe_state e = Some st \<and> \<not> pe_in_flight e \<and>
       pair_ok n False [\<lparr>pr_peer = a, pr_key = b, pr_generation = pe_generation e, pr_state = st\<rparr>] nw fin
         (Some (e\<lparr>pe_queued := False, pe_in_flight := True\<rparr>)))"
  by (auto simp: pair_ok_def split: option.splits)

lemma pair_ok_held: "pair_ok n q [i] nw fin rec \<Longrightarrow> \<exists>e. rec = Some e \<and> \<not> q \<and> \<not> pe_queued e"
  by (cases rec) (auto simp: pair_ok_def)

lemma pair_ok_finish_last:
  "pair_ok n q [i] nw fin (Some e) \<Longrightarrow> pe_generation e = pr_generation i \<Longrightarrow>
     pair_ok n False [] nw (Some (pr_state i))
       (if pe_reservations e = 0 then None
        else Some (e\<lparr>pe_in_flight := False, pe_state := None, pe_queued := False\<rparr>))"
  by (auto simp: pair_ok_def)

lemma pair_ok_finish_newer:
  "pair_ok n q [i] nw fin (Some e) \<Longrightarrow> pe_generation e \<noteq> pr_generation i \<Longrightarrow>
     pair_ok n True [] nw (Some (pr_state i)) (Some (e\<lparr>pe_in_flight := False, pe_queued := True\<rparr>))"
  by (auto simp: pair_ok_def)

subsection \<open>Steps of the system\<close>

lemma open_on_add [simp]: "open_on (add_mset r rs) p = open_on rs p + (if p \<in> set (rv_pairs r) then 1 else 0)"
  by (simp add: open_on_def)

lemma open_on_remove:
  "r \<in># rs \<Longrightarrow> open_on rs p = open_on (rs - {#r#}) p + (if p \<in> set (rv_pairs r) then 1 else 0)"
  using open_on_add [of r "rs - {#r#}" p] by simp

lemma held_for_Cons [simp]: "held_for (i # is) p = (if item_pair i = p then i # held_for is p else held_for is p)"
  by (simp add: held_for_def)

lemma held_for_empty: "held_for is p = [] \<longleftrightarrow> p \<notin> item_pair ` set is"
  unfolding held_for_def filter_empty_conv by blast

lemma held_for_remove1:
  assumes "distinct (map item_pair is)" "i \<in> set is"
  shows "held_for is (item_pair i) = [i]"
    and "held_for (remove1 i is) p = (if item_pair i = p then [] else held_for is p)"
proof -
  obtain as bs where [simp]: "is = as @ i # bs" using assms(2) by (meson split_list)
  have none: "held_for as (item_pair i) = []" "held_for bs (item_pair i) = []"
    using assms(1) by (auto simp: held_for_empty)
  have "i \<notin> set as" using assms(1) by auto
  then have rm: "remove1 i is = as @ bs" by (simp add: remove1_append)
  have app: "held_for (xs @ ys) q = held_for xs q @ held_for ys q" for xs ys q by (simp add: held_for_def)
  show "held_for is (item_pair i) = [i]" using none by (simp add: app)
  show "held_for (remove1 i is) p = (if item_pair i = p then [] else held_for is p)"
    unfolding rm using none by (auto simp: app)
qed

lemma distinct_held: "(\<And>p. length (held_for is p) \<le> 1) \<Longrightarrow> distinct (map item_pair is)"
proof (induction "is")
  case (Cons i js)
  have "held_for js (item_pair i) = []" using Cons.prems [of "item_pair i"] by simp
  then have "item_pair i \<notin> item_pair ` set js" by (simp only: held_for_empty simp_thms)
  moreover have "length (held_for js p) \<le> 1" for p using Cons.prems [of p] by (auto split: if_splits)
  ultimately show ?case using Cons.IH by simp
qed simp

lemma outbox_invI:
  "\<lbrakk>ob_capacity (sy_box s) = capacity; dict_ok (ob_pending (sy_box s));
    int (length (ob_pending (sy_box s))) \<le> capacity; distinct (ob_ready (sy_box s));
    \<And>r. r \<in># sy_open s \<Longrightarrow> distinct (rv_pairs r); \<And>p. sys_pair_ok s p\<rbrakk> \<Longrightarrow> outbox_inv capacity s"
  by (simp add: outbox_inv_def)

lemma outbox_invD:
  assumes "outbox_inv capacity s"
  shows "ob_capacity (sy_box s) = capacity" "dict_ok (ob_pending (sy_box s))"
    "int (length (ob_pending (sy_box s))) \<le> capacity" "distinct (ob_ready (sy_box s))"
    "r \<in># sy_open s \<Longrightarrow> distinct (rv_pairs r)"
    "pair_ok (open_on (sy_open s) p) (p \<in> set (ob_ready (sy_box s))) (held_for (sy_flight s) p)
       (sy_last s p) (sy_done s p) (map_of (ob_pending (sy_box s)) p)"
  using assms unfolding outbox_inv_def sys_pair_ok_def by blast+

lemma inv_flight_distinct: "outbox_inv capacity s \<Longrightarrow> distinct (map item_pair (sy_flight s))"
  using outbox_invD(6) [of capacity s] by (intro distinct_held) (simp add: pair_ok_def del: split_paired_All)

lemma reserve_inv:
  assumes inv: "outbox_inv capacity s" and res: "reserve (sy_box s) pairs = (Inr r, box)"
  shows "outbox_inv capacity (s\<lparr>sy_box := box, sy_open := add_mset r (sy_open s)\<rparr>)"
proof -
  let ?d = "ob_pending (sy_box s)"
  define u where "u = from_keys pairs"
  define new where "new = filter (\<lambda>p. map_of ?d p = None) u"
  let ?d' = "add_reservations u (insert_new new ?d)"
  note D = outbox_invD [OF inv]
  from res have room: "int (length ?d) + int (length new) \<le> capacity"
    and r: "rv_pairs r = u" and box: "box = (sy_box s)\<lparr>ob_pending := ?d'\<rparr>"
    using D(1) by (auto simp: reserve_def Let_def u_def new_def split: if_splits)
  have u: "distinct u" "distinct new" "\<And>p. p \<in> set new \<Longrightarrow> map_of ?d p = None" "set new \<subseteq> set u"
    by (auto simp: u_def new_def)
  have ins: "map_of (insert_new new ?d) q = (if q \<in> set new then Some Pending_init else map_of ?d q) \<and>
     length (insert_new new ?d) = length ?d + length new \<and> (dict_ok ?d \<longrightarrow> dict_ok (insert_new new ?d))" for q
    by (rule insert_new_spec [OF u(2)]) (rule u(3))
  note add = add_reservations_spec [OF u(1), of "insert_new new ?d"]
  have size: "length ?d' = length ?d + length new" "dict_ok ?d'"
    using ins add D(2) by simp_all
  have rec: "map_of ?d' q = (if q \<in> set u then Some (add_one (case map_of ?d q of None \<Rightarrow> Pending_init | Some e \<Rightarrow> e))
               else map_of ?d q)" for q
  proof -
    have "q \<in> set new \<longleftrightarrow> q \<in> set u \<and> map_of ?d q = None" by (simp add: new_def)
    then show ?thesis
      using conjunct1 [OF add [of q]] conjunct1 [OF ins [of q]] by (cases "map_of ?d q") simp_all
  qed
  show ?thesis
  proof (rule outbox_invI)
    fix p
    show "sys_pair_ok (s\<lparr>sy_box := box, sy_open := add_mset r (sy_open s)\<rparr>) p"
      unfolding sys_pair_ok_def using D(6) [of p] pair_ok_reserve [OF D(6) [of p]]
      by (simp add: box rec r)
  qed (use D room size u(1) r box in auto)
qed

lemma cancel_inv:
  assumes inv: "outbox_inv capacity s" and r: "r \<in># sy_open s"
  shows "outbox_inv capacity (s\<lparr>sy_box := cancel (sy_box s) r, sy_open := sy_open s - {#r#}\<rparr>)"
proof -
  let ?d = "ob_pending (sy_box s)"
  note D = outbox_invD [OF inv]
  have rec: "map_of (fold cancel_pair (rv_pairs r) ?d) q =
      (if q \<in> set (rv_pairs r) then Option.bind (map_of ?d q) cancel_one else map_of ?d q)"
    "length (fold cancel_pair (rv_pairs r) ?d) \<le> length ?d" "dict_ok (fold cancel_pair (rv_pairs r) ?d)" for q
    using fold_cancel_spec [OF D(5) [OF r], of ?d q] D(2) by simp_all
  show ?thesis
  proof (rule outbox_invI)
    fix p
    show "sys_pair_ok (s\<lparr>sy_box := cancel (sy_box s) r, sy_open := sy_open s - {#r#}\<rparr>) p"
      unfolding sys_pair_ok_def using D(6) [of p]
      by (cases "p \<in> set (rv_pairs r)") (simp_all add: cancel_def rec pair_ok_cancel open_on_remove [OF r])
  qed (use D rec in \<open>auto simp: cancel_def dest: in_diffD\<close>)
qed

lemma publish_succeeds:
  assumes inv: "outbox_inv capacity s" and r: "r \<in># sy_open s"
    and states: "\<forall>p \<in> set (rv_pairs r). states (snd p) \<noteq> None"
  obtains d' where
    "publish (sy_box s) r states = (Inr (), (sy_box s)\<lparr>ob_pending := d',
       ob_ready := ob_ready (sy_box s) @ filter (idle (ob_pending (sy_box s))) (rv_pairs r)\<rparr>)"
    "length d' = length (ob_pending (sy_box s))" "dict_ok d'"
    "\<And>q. map_of d' q = (if q \<in> set (rv_pairs r) then map_option (publish_one (states (snd q))) (map_of (ob_pending (sy_box s)) q)
       else map_of (ob_pending (sy_box s)) q)"
proof -
  note D = outbox_invD [OF inv]
  have open1: "\<exists>e. map_of (ob_pending (sy_box s)) p = Some e \<and> 1 \<le> pe_reservations e" if "p \<in> set (rv_pairs r)" for p
    by (rule pair_ok_open) (use D(6) [of p] open_on_remove [OF r, of p] that in simp)
  from publish_loop_spec [OF D(5) [OF r], of states "ob_pending (sy_box s)" "[]"] states open1 D(2) that
  show ?thesis by (force simp: publish_def)
qed

lemma publish_inv:
  assumes inv: "outbox_inv capacity s" and r: "r \<in># sy_open s"
    and states: "\<forall>p \<in> set (rv_pairs r). states (snd p) \<noteq> None"
    and pub: "publish (sy_box s) r states = (res, box)"
  shows "outbox_inv capacity (s\<lparr>sy_box := box, sy_open := sy_open s - {#r#},
       sy_last := (\<lambda>p. if p \<in> set (rv_pairs r) then states (snd p) else sy_last s p)\<rparr>)"
    (is "outbox_inv _ ?t")
proof -
  let ?d = "ob_pending (sy_box s)"
  note D = outbox_invD [OF inv]
  obtain d' where
    pub': "publish (sy_box s) r states = (Inr (), (sy_box s)\<lparr>ob_pending := d',
       ob_ready := ob_ready (sy_box s) @ filter (idle ?d) (rv_pairs r)\<rparr>)"
    and len: "length d' = length ?d" and ok: "dict_ok d'"
    and rec: "\<And>q. map_of d' q = (if q \<in> set (rv_pairs r) then map_option (publish_one (states (snd q))) (map_of ?d q)
       else map_of ?d q)" by (rule publish_succeeds [OF inv r states]) auto
  have box: "box = (sy_box s)\<lparr>ob_pending := d', ob_ready := ob_ready (sy_box s) @ filter (idle ?d) (rv_pairs r)\<rparr>"
    using pub pub' by simp
  have fresh: "p \<notin> set (ob_ready (sy_box s))" if "idle ?d p" for p
    using D(6) [of p] that by (auto simp: pair_ok_def split: option.splits)
  show ?thesis
  proof (rule outbox_invI)
    fix p
    show "sys_pair_ok ?t p"
    proof (cases "p \<in> set (rv_pairs r)")
      case True
      from bspec [OF states True] obtain st where st: "states (snd p) = Some st" by blast
      have ok1: "pair_ok (Suc (open_on (sy_open s - {#r#}) p)) (p \<in> set (ob_ready (sy_box s))) (held_for (sy_flight s) p)
          (sy_last s p) (sy_done s p) (map_of ?d p)" using D(6) [of p] open_on_remove [OF r, of p] True by simp
      from pair_ok_open [OF this] obtain e where e: "map_of ?d p = Some e" by blast
      from pair_ok_publish [OF ok1 [unfolded e], of st] show ?thesis
        unfolding sys_pair_ok_def using True st e by (simp add: box rec)
    next
      case False
      then show ?thesis
        unfolding sys_pair_ok_def using D(6) [of p] open_on_remove [OF r, of p] by (simp add: box rec)
    qed
  qed (use D len ok fresh box r in \<open>auto dest: in_diffD\<close>)
qed

lemma next_loop_Nil: "next_loop d (ready :: Pair list) = (None, ready') \<Longrightarrow> ready' = []"
  by (induction ready) (auto split: option.splits if_splits)

lemma next_loop_ready:
  "(\<And>p. p \<in> set ready \<Longrightarrow> \<exists>e st. map_of d p = Some e \<and> pe_state e = Some st \<and> \<not> pe_in_flight e) \<Longrightarrow>
     next_loop d ready =
       (case ready of
          [] \<Rightarrow> (None, [])
        | p # ps \<Rightarrow> (Some (\<lparr>pr_peer = fst p, pr_key = snd p, pr_generation = pe_generation (the (map_of d p)),
                            pr_state = the (pe_state (the (map_of d p)))\<rparr>,
                     AList.update p ((the (map_of d p))\<lparr>pe_queued := False, pe_in_flight := True\<rparr>) d), ps))"
  by (cases ready) force+

lemma ready_records:
  assumes inv: "outbox_inv capacity s" and p: "p \<in> set (ob_ready (sy_box s))"
  shows "\<exists>e st. map_of (ob_pending (sy_box s)) p = Some e \<and> pe_state e = Some st \<and> \<not> pe_in_flight e"
proof -
  have "pair_ok (open_on (sy_open s) p) True (held_for (sy_flight s) p)
       (sy_last s p) (sy_done s p) (map_of (ob_pending (sy_box s)) p)" using outbox_invD(6) [OF inv, of p] p by simp
  from pair_ok_take [OF this] show ?thesis by blast
qed

lemma take_inv:
  assumes inv: "outbox_inv capacity s" and nxt: "next_ready (sy_box s) = (Some item, box)"
  shows "outbox_inv capacity (s\<lparr>sy_box := box, sy_flight := item # sy_flight s\<rparr>)"
proof -
  let ?d = "ob_pending (sy_box s)"
  note D = outbox_invD [OF inv]
  note nl = next_loop_ready [of "ob_ready (sy_box s)" ?d, OF ready_records [OF inv]]
  obtain p ps where ready: "ob_ready (sy_box s) = p # ps"
    using nxt nl by (cases "ob_ready (sy_box s)") (simp_all add: next_ready_def)
  obtain e st where e: "map_of ?d p = Some e" "pe_state e = Some st" "\<not> pe_in_flight e"
    using ready_records [OF inv, of p] ready by auto
  let ?i = "\<lparr>pr_peer = fst p, pr_key = snd p, pr_generation = pe_generation e, pr_state = st\<rparr>"
  let ?e = "e\<lparr>pe_queued := False, pe_in_flight := True\<rparr>"
  have item: "item = ?i" and box: "box = (sy_box s)\<lparr>ob_pending := AList.update p ?e ?d, ob_ready := ps\<rparr>"
    using nxt nl ready e by (simp_all add: next_ready_def)
  have ok1: "pair_ok (open_on (sy_open s) p) True (held_for (sy_flight s) p) (sy_last s p) (sy_done s p) (Some e)"
    using D(6) [of p] e ready by simp
  have "p \<notin> set ps" using D(4) ready by simp
  show ?thesis
  proof (rule outbox_invI)
    fix q
    show "sys_pair_ok (s\<lparr>sy_box := box, sy_flight := item # sy_flight s\<rparr>) q"
    proof (cases "q = p")
      case True
      then show ?thesis
        unfolding sys_pair_ok_def using pair_ok_take [OF ok1, of "fst p" "snd p"] e \<open>p \<notin> set ps\<close>
        by (auto simp: box item)
    next
      case False
      then show ?thesis unfolding sys_pair_ok_def using D(6) [of q] ready by (auto simp: box item)
    qed
  qed (use D ready e box in \<open>auto simp: length_update_old\<close>)
qed

lemma wait_inv:
  assumes inv: "outbox_inv capacity s" and nxt: "next_ready (sy_box s) = (None, box)"
  shows "box = sy_box s" "ob_ready (sy_box s) = []"
proof -
  note nl = next_loop_ready [of "ob_ready (sy_box s)" "ob_pending (sy_box s)", OF ready_records [OF inv]]
  show empty: "ob_ready (sy_box s) = []"
    using nxt nl by (cases "ob_ready (sy_box s)") (simp_all add: next_ready_def)
  then show "box = sy_box s" using nxt by (cases "sy_box s") (auto simp: next_ready_def)
qed

lemma abandon_eq_complete: "abandon box peer key gen = complete box peer key gen"
  by (simp add: abandon_def complete_def)

lemma complete_inv:
  assumes inv: "outbox_inv capacity s" and i: "i \<in> set (sy_flight s)"
  shows "outbox_inv capacity (s\<lparr>sy_box := complete (sy_box s) (pr_peer i) (pr_key i) (pr_generation i),
       sy_flight := remove1 i (sy_flight s), sy_done := (sy_done s)(item_pair i := Some (pr_state i))\<rparr>)"
    (is "outbox_inv _ ?t")
proof -
  let ?d = "ob_pending (sy_box s)" and ?p = "item_pair i"
  note D = outbox_invD [OF inv]
  note held = held_for_remove1 [OF inv_flight_distinct [OF inv] i]
  have ok: "pair_ok (open_on (sy_open s) ?p) (?p \<in> set (ob_ready (sy_box s))) [i] (sy_last s ?p) (sy_done s ?p) (map_of ?d ?p)"
    using D(6) [of ?p] held(1) by simp
  obtain e where e: "map_of ?d ?p = Some e" "?p \<notin> set (ob_ready (sy_box s))" "\<not> pe_queued e"
    using pair_ok_held [OF ok] by blast
  have other: "sys_pair_ok ?t q" if "q \<noteq> ?p" for q
    unfolding sys_pair_ok_def using D(6) [of q] that held(2) [of q] e by (auto simp: complete_def Let_def)
  have same: "sys_pair_ok ?t ?p"
    unfolding sys_pair_ok_def using e held(2) [of ?p]
      pair_ok_finish_last [OF ok [unfolded e(1)]] pair_ok_finish_newer [OF ok [unfolded e(1)]]
    by (auto simp: complete_def Let_def)
  have len: "length (AList.delete ?p ?d) \<le> length ?d" by (rule length_delete_le)
  show ?thesis
  proof (rule outbox_invI)
    show "sys_pair_ok ?t q" for q using same other by (cases "q = ?p") simp_all
  qed (use D e len in \<open>auto simp: complete_def Let_def length_update_old\<close>)
qed

lemma outbox_start_inv:
  "ReplicationOutbox_init capacity = Inr box \<Longrightarrow>
     outbox_inv capacity \<lparr>sy_box = box, sy_open = {#}, sy_flight = [], sy_last = (\<lambda>_. None), sy_done = (\<lambda>_. None)\<rparr>"
  by (auto simp: ReplicationOutbox_init_def outbox_inv_def sys_pair_ok_def pair_ok_def open_on_def held_for_def
      dict_ok_def split: if_splits)

lemma outbox_step_inv: "outbox_step s t \<Longrightarrow> outbox_inv capacity s \<Longrightarrow> outbox_inv capacity t"
proof (induction rule: outbox_step.induct)
  case (ReserveFails s pairs e box)
  then have "box = sy_box s" by (auto simp: reserve_def Let_def split: if_splits)
  then show ?case using ReserveFails by simp
next
  case (Wait s box)
  then have "box = sy_box s" by (blast intro: wait_inv)
  then show ?case using Wait by simp
next
  case (Finish item s box sent)
  then show ?case using complete_inv [of capacity s item] by (simp add: abandon_eq_complete)
qed (blast intro: reserve_inv cancel_inv publish_inv take_inv)+

lemma outbox_reach_inv: "outbox_reach capacity s \<Longrightarrow> outbox_inv capacity s"
  by (induction rule: outbox_reach.induct) (blast intro: outbox_start_inv outbox_step_inv)+

text \<open>A reachable system with one reservation open, for the witnesses.\<close>

definition example_reserved :: outbox_sys where
  "example_reserved =
     \<lparr>sy_box = \<lparr>ob_capacity = 1,
        ob_pending = [((''b'', ''k''), \<lparr>pe_generation = 0, pe_state = None, pe_queued = False, pe_in_flight = False, pe_reservations = 1\<rparr>)],
        ob_ready = []\<rparr>,
      sy_open = {# \<lparr>rv_pairs = [(''b'', ''k'')], rv_created = [(''b'', ''k'')]\<rparr> #},
      sy_flight = [], sy_last = (\<lambda>_. None), sy_done = (\<lambda>_. None)\<rparr>"

lemma example_reserved_reach: "outbox_reach 1 example_reserved"
proof -
  let ?b = "\<lparr>ob_capacity = 1, ob_pending = [], ob_ready = []\<rparr>"
  have "ReplicationOutbox_init 1 = Inr ?b" by (simp add: ReplicationOutbox_init_def)
  note start = outbox_reach.Start [OF this]
  have "reserve ?b [(''b'', ''k'')] =
      (Inr \<lparr>rv_pairs = [(''b'', ''k'')], rv_created = [(''b'', ''k'')]\<rparr>, sy_box example_reserved)"
    by (simp add: reserve_def from_keys_def Pending_init_def example_reserved_def Let_def)
  with outbox_reach.Step [OF start outbox_step.Reserve, of "[(''b'', ''k'')]"] show ?thesis
    by (simp add: example_reserved_def)
qed

section \<open>Properties\<close>

text \<open>C14: No update published to the outbox is lost or held up. In every reachable state, the
  state last published for a (peer, key) pair is either the one a worker last finished
  for that pair, or it is still the pending state of the pair, and then the pair is in
  the ready queue or a worker holds an item for it.\<close>

theorem outbox_keeps_every_update:
  assumes "outbox_reach capacity s" "sy_last s p = Some st"
  shows "sy_done s p = Some st \<or>
    (\<exists>e. map_of (ob_pending (sy_box s)) p = Some e \<and> pe_state e = Some st \<and>
       (p \<in> set (ob_ready (sy_box s)) \<or> p \<in> item_pair ` set (sy_flight s)))"
  using outbox_invD(6) [OF outbox_reach_inv [OF assms(1)], of p] assms(2)
  unfolding pair_ok_def held_for_empty by (cases "map_of (ob_pending (sy_box s)) p") auto

theorem outbox_keeps_every_update_witness:
  "\<exists>s st. outbox_reach 1 s \<and> sy_last s (''b'', ''k'') = Some st \<and> sy_done s (''b'', ''k'') = None \<and>
     (\<exists>e. map_of (ob_pending (sy_box s)) (''b'', ''k'') = Some e \<and> pe_state e = Some st \<and>
       ((''b'', ''k'') \<in> set (ob_ready (sy_box s)) \<or> (''b'', ''k'') \<in> item_pair ` set (sy_flight s)))"
proof -
  let ?st = "\<lparr>se_key = ''k'', se_type = ORSET, se_state = SORSet or_empty, se_version = vv_empty, se_context = vv_empty\<rparr>"
  let ?r = "\<lparr>rv_pairs = [(''b'', ''k'')], rv_created = [(''b'', ''k'')]\<rparr>"
  obtain res box where pub: "publish (sy_box example_reserved) ?r (\<lambda>_. Some ?st) = (res, box)" by (meson surj_pair)
  have r: "?r \<in># sy_open example_reserved" by (simp add: example_reserved_def)
  from outbox_reach.Step [OF example_reserved_reach outbox_step.Publish [OF r _ pub]]
  obtain s where s: "outbox_reach 1 s" "sy_last s (''b'', ''k'') = Some ?st" "sy_done s (''b'', ''k'') = None"
    by (fastforce simp: example_reserved_def)
  with outbox_keeps_every_update [OF s(1,2)] show ?thesis by fastforce
qed

text \<open>Publishing an open reservation never fails: in every reachable state, a caller that
  holds a reservation and passes a state for each of its keys gets no exception, whatever
  the workers and the other callers did in between.\<close>

theorem outbox_publish_never_fails:
  assumes "outbox_reach capacity s" "r \<in># sy_open s" "\<forall>p \<in> set (rv_pairs r). states (snd p) \<noteq> None"
  shows "fst (publish (sy_box s) r states) = Inr ()"
  by (rule publish_succeeds [OF outbox_reach_inv [OF assms(1)] assms(2,3)]) simp

theorem outbox_publish_never_fails_witness:
  "\<exists>r. r \<in># sy_open example_reserved \<and>
     fst (publish (sy_box example_reserved) r
       (\<lambda>_. Some \<lparr>se_key = ''k'', se_type = ORSET, se_state = SORSet or_empty, se_version = vv_empty, se_context = vv_empty\<rparr>)) = Inr ()"
  using outbox_publish_never_fails [OF example_reserved_reach]
  by (intro exI [of _ "\<lparr>rv_pairs = [(''b'', ''k'')], rv_created = [(''b'', ''k'')]\<rparr>"]) (simp add: example_reserved_def)

text \<open>C26: Memory is bounded and workers never collide: in every reachable state the outbox
  holds at most its capacity of pairs, no pair is twice in the ready queue, no two workers
  hold items for the same pair, and a pair in the ready queue is held by no worker.\<close>

theorem outbox_bounded:
  assumes "outbox_reach capacity s"
  shows "int (pending_count (sy_box s)) \<le> capacity \<and> distinct (ob_ready (sy_box s)) \<and>
    distinct (map item_pair (sy_flight s)) \<and> set (ob_ready (sy_box s)) \<inter> item_pair ` set (sy_flight s) = {}"
proof -
  note inv = outbox_reach_inv [OF assms]
  note D = outbox_invD [OF inv]
  have "p \<notin> item_pair ` set (sy_flight s)" if "p \<in> set (ob_ready (sy_box s))" for p
    using D(6) [of p] that unfolding pair_ok_def held_for_empty [symmetric]
    by (cases "map_of (ob_pending (sy_box s)) p") auto
  then show ?thesis
    using D(3,4) inv_flight_distinct [OF inv] by (auto simp: pending_count_def)
qed

theorem outbox_bounded_witness:
  "outbox_reach 1 example_reserved \<and> pending_count (sy_box example_reserved) = 1 \<and>
   int (pending_count (sy_box example_reserved)) \<le> 1"
  using outbox_bounded [OF example_reserved_reach] example_reserved_reach
  by (simp add: pending_count_def example_reserved_def)

end
