(* ===== verification/Replication.thy ===== *)
theory Replication
  imports Peer_Rpc State_Store Outbox
begin

text \<open>
  The replication layer of \<^verbatim>\<open>src/src/distsys/replication\<close>: targeted causal repair
  (\<^verbatim>\<open>causal_repair.py\<close>), digest-driven anti-entropy (\<^verbatim>\<open>anti_entropy.py\<close>), the workers of the
  fast path (\<^verbatim>\<open>replicator.py\<close>) and the facade (\<^verbatim>\<open>service.py\<close>). A node is given by its
  operations; what the lemmas need of it is the contract \<open>crdt_node\<close>.
\<close>

section \<open>Causal repair\<close>

record CausalRepairResult =
  cr_satisfied :: bool
  cr_merged :: VersionVector
  cr_contacted :: "string list"
  cr_successful :: "string list"

text \<open>The loop over the gathered results; a failed fetch is an exception in the list.\<close>

fun repair_merge ::
  "'n node_ops \<Rightarrow> PeerCrdtFetch result list \<Rightarrow> VersionVector \<Rightarrow> string list \<Rightarrow> 'n \<Rightarrow>
     (VersionVector \<times> string list) result \<times> 'n" where
  "repair_merge ops [] merged successful n = (Inr (merged, successful), n)"
| "repair_merge ops (Inl e # results) merged successful n = repair_merge ops results merged successful n"
| "repair_merge ops (Inr f # results) merged successful n =
     (let merged1 = vv_merge merged (pf_frontier f); successful1 = successful @ [pf_peer_node_id f] in
      case pf_entry f of
        None \<Rightarrow> repair_merge ops results merged1 successful1 n
      | Some entry \<Rightarrow>
          (case no_merge_entry ops n entry of
             (Inl e, n') \<Rightarrow> (Inl e, n')
           | (Inr m, n') \<Rightarrow> repair_merge ops results (vv_merge merged1 (se_context m)) successful1 n'))"

definition repair_context :: "'n node_ops \<Rightarrow> string \<Rightarrow> VersionVector \<Rightarrow> 'n \<Rightarrow> VersionVector result \<times> 'n" where
  "repair_context ops key merged n =
     (case no_get ops n key of
        None \<Rightarrow> (Inr merged, n)
      | Some current \<Rightarrow>
          (let merged1 = vv_merge merged (se_context current) in
           if se_context current \<noteq> merged1
           then (case no_merge_metadata ops n key merged1 of
                   (Inl e, n') \<Rightarrow> (Inl e, n')
                 | (Inr None, n') \<Rightarrow> (Inr merged1, n')
                 | (Inr (Some updated), n') \<Rightarrow> (Inr (se_context updated), n'))
           else (Inr merged1, n)))"

text \<open>What \<^verbatim>\<open>ensure\<close> does with the gathered results.\<close>

definition repair_round ::
  "'n node_ops \<Rightarrow> string \<Rightarrow> VersionVector \<Rightarrow> string list \<Rightarrow> PeerCrdtFetch result list \<Rightarrow> VersionVector \<Rightarrow> 'n \<Rightarrow>
     CausalRepairResult result \<times> 'n" where
  "repair_round ops key required contacted results local_version n =
     (case repair_merge ops results local_version [] n of
        (Inl e, n1) \<Rightarrow> (Inl e, n1)
      | (Inr (merged, successful), n1) \<Rightarrow>
          (case repair_context ops key merged n1 of
             (Inl e, n2) \<Rightarrow> (Inl e, n2)
           | (Inr final, n2) \<Rightarrow>
               (if \<not> dominates final required
                then raise CausalUnavailableError ''required causal frontier is unavailable''
                else Inr \<lparr>cr_satisfied = True, cr_merged = final, cr_contacted = contacted, cr_successful = successful\<rparr>,
                n2)))"

text \<open>
  \<open>gather peers\<close> is what \<^verbatim>\<open>deadline.run(asyncio.gather(\<dots>, return_exceptions=True))\<close> gives
  for the fetches from the peers, and \<open>others\<close> what other tasks do to the node meanwhile.
\<close>

definition ensure ::
  "'n node_ops \<Rightarrow> ReplicaSelector \<Rightarrow> string \<Rightarrow> (ClusterMember list \<Rightarrow> PeerCrdtFetch result list result) \<Rightarrow>
     ('n \<Rightarrow> 'n) \<Rightarrow> string \<Rightarrow> VersionVector \<Rightarrow> 'n \<Rightarrow> CausalRepairResult result \<times> 'n" where
  "ensure ops selector local_node_id gather others key required n =
     (let local_version = (case no_get ops n key of None \<Rightarrow> vv_empty | Some e \<Rightarrow> se_context e) in
      if dominates local_version required
      then (Inr \<lparr>cr_satisfied = True, cr_merged = local_version, cr_contacted = [], cr_successful = []\<rparr>, n)
      else case replicas selector key of
             Inl e \<Rightarrow> (Inl e, n)
           | Inr members \<Rightarrow>
               (let peers = filter (\<lambda>m. cm_node m \<noteq> local_node_id) members in
                if peers = [] then (raise CausalUnavailableError ''required causal frontier is unavailable'', n)
                else case gather peers of
                       Inl e \<Rightarrow>
                         (if exn_cls e = DeadlineExceeded
                          then raise CausalUnavailableError
                                 ''required causal frontier was not obtained before the request deadline''
                          else Inl e, others n)
                     | Inr results \<Rightarrow>
                         repair_round ops key required (map cm_node peers) results local_version (others n)))"

section \<open>Anti-entropy\<close>

record ReconcileStats =
  st_keys_checked :: int
  st_repairs :: int
  st_failures :: int

definition alive_peers :: "string \<Rightarrow> ClusterMember list \<Rightarrow> ClusterMember list" where
  "alive_peers local_node_id members = filter (\<lambda>m. cm_node m \<noteq> local_node_id \<and> cm_status m = ALIVE) members"

definition shared_replica :: "ReplicaSelector \<Rightarrow> string \<Rightarrow> string \<Rightarrow> string \<Rightarrow> bool result" where
  "shared_replica selector local_node_id key peer_node_id =
     rbind (replicas selector key) (\<lambda>members.
       let ids = set (map cm_node members) in Inr (local_node_id \<in> ids \<and> peer_node_id \<in> ids))"

text \<open>A comprehension whose condition can raise.\<close>

fun rfilter :: "('a \<Rightarrow> bool result) \<Rightarrow> 'a list \<Rightarrow> 'a list result" where
  "rfilter P [] = Inr []"
| "rfilter P (x # xs) =
     rbind (P x) (\<lambda>b. rbind (rfilter P xs) (\<lambda>ys. Inr (if b then x # ys else ys)))"

lemma rfilter_Inr: "rfilter P xs = Inr ys \<Longrightarrow> ys = filter (\<lambda>x. P x = Inr True) xs"
  by (induction xs arbitrary: ys) (auto simp: rbind_eq_Inr split: if_splits)

definition shared_digest ::
  "'n node_ops \<Rightarrow> ReplicaSelector \<Rightarrow> string \<Rightarrow> string \<Rightarrow> (string \<Rightarrow> bool) \<Rightarrow> 'n \<Rightarrow> CrdtDigestEntry list result" where
  "shared_digest ops selector local_node_id peer_node_id wanted n =
     rbind (rfilter (\<lambda>e. rbind (shared_replica selector local_node_id (se_key e) peer_node_id) (\<lambda>b. Inr (b \<and> wanted (se_key e))))
              (no_snapshot_all ops n))
       (\<lambda>entries. Inr (map digest_from_entry entries))"

definition local_digest_for ::
  "'n node_ops \<Rightarrow> ReplicaSelector \<Rightarrow> string \<Rightarrow> int \<Rightarrow> string \<Rightarrow> 'n \<Rightarrow> CrdtDigestEntry list result" where
  "local_digest_for ops selector local_node_id batch_size peer_node_id n =
     rbind (shared_digest ops selector local_node_id peer_node_id (\<lambda>_. True) n) (\<lambda>ds. Inr (take (nat batch_size) ds))"

text \<open>Fetching the peer's state and merging it, and sending the local state, of one key.\<close>

definition pull_state ::
  "'n node_ops \<Rightarrow> 'p crdt_calls \<Rightarrow> string \<Rightarrow> 'n \<Rightarrow> 'p \<Rightarrow> StoredCrdtEntry option result \<times> 'n \<times> 'p" where
  "pull_state ops cl key n p =
     (case ae_fetch_state cl p key of
        (Inl e, p') \<Rightarrow> (Inl e, n, p')
      | (Inr None, p') \<Rightarrow> (Inr None, n, p')
      | (Inr (Some state), p') \<Rightarrow>
          (case no_merge_entry ops n state of
             (Inl e, n') \<Rightarrow> (Inl e, n', p')
           | (Inr merged, n') \<Rightarrow> (Inr (Some merged), n', p')))"

definition push_state ::
  "'p crdt_calls \<Rightarrow> StoredCrdtEntry option \<Rightarrow> 'n \<Rightarrow> 'p \<Rightarrow> bool result \<times> 'n \<times> 'p" where
  "push_state cl stored n p =
     (case stored of
        None \<Rightarrow> (Inr False, n, p)
      | Some state \<Rightarrow>
          (case ae_send_state cl p state of (Inl e, p') \<Rightarrow> (Inl e, n, p') | (Inr _, p') \<Rightarrow> (Inr True, n, p')))"

definition push_metadata ::
  "'n node_ops \<Rightarrow> 'p crdt_calls \<Rightarrow> string \<Rightarrow> VersionVector \<Rightarrow> 'n \<Rightarrow> 'p \<Rightarrow> bool result \<times> 'n \<times> 'p" where
  "push_metadata ops cl key merged_context n p =
     (case no_merge_metadata ops n key merged_context of
        (Inl e, n') \<Rightarrow> (Inl e, n', p)
      | (Inr _, n') \<Rightarrow>
          (case ae_send_metadata cl p (no_get ops n' key) merged_context of
             (Inl e, p') \<Rightarrow> (Inl e, n', p') | (Inr _, p') \<Rightarrow> (Inr True, n', p')))"

text \<open>The body of the loop for one key; the result is whether it counts as a repair.\<close>

definition reconcile_key ::
  "'n node_ops \<Rightarrow> 'p crdt_calls \<Rightarrow> string \<Rightarrow> CrdtDigestEntry option \<Rightarrow> CrdtDigestEntry option \<Rightarrow> 'n \<Rightarrow> 'p \<Rightarrow>
     bool result \<times> 'n \<times> 'p" where
  "reconcile_key ops cl key local remote n p =
     (let pull = (case pull_state ops cl key n p of (r, n', p') \<Rightarrow> (rbind r (\<lambda>m. Inr (m \<noteq> None)), n', p'));
          push = push_state cl (no_get ops n key) n p
      in case (local, remote) of
           (None, None) \<Rightarrow> (raise AssertionError [], n, p)
         | (None, Some r) \<Rightarrow> pull
         | (Some l, None) \<Rightarrow> push
         | (Some l, Some r) \<Rightarrow>
             (case compare_digest l r of
                Inl e \<Rightarrow> (Inl e, n, p)
              | Inr DIGEST_EQUAL \<Rightarrow> (Inr False, n, p)
              | Inr METADATA_ONLY \<Rightarrow> push_metadata ops cl key (vv_merge (dg_context l) (dg_context r)) n p
              | Inr LOCAL_AHEAD \<Rightarrow> push
              | Inr REMOTE_AHEAD \<Rightarrow> pull
              | Inr DIGEST_CONCURRENT \<Rightarrow>
                  (case pull_state ops cl key n p of
                     (Inl e, n', p') \<Rightarrow> (Inl e, n', p')
                   | (Inr None, n', p') \<Rightarrow> (Inr False, n', p')
                   | (Inr (Some merged), n', p') \<Rightarrow> push_state cl (Some merged) n' p')))"

fun reconcile_keys ::
  "'n node_ops \<Rightarrow> 'p crdt_calls \<Rightarrow> (string \<rightharpoonup> CrdtDigestEntry) \<Rightarrow> (string \<rightharpoonup> CrdtDigestEntry) \<Rightarrow> string list \<Rightarrow> int \<Rightarrow>
     'n \<Rightarrow> 'p \<Rightarrow> int result \<times> 'n \<times> 'p" where
  "reconcile_keys ops cl local_map remote_map [] repairs n p = (Inr repairs, n, p)"
| "reconcile_keys ops cl local_map remote_map (key # keys) repairs n p =
     (case reconcile_key ops cl key (local_map key) (remote_map key) n p of
        (Inl e, n', p') \<Rightarrow> (Inl e, n', p')
      | (Inr repaired, n', p') \<Rightarrow>
          reconcile_keys ops cl local_map remote_map keys (if repaired then repairs + 1 else repairs) n' p')"

text \<open>The dictionary \<^verbatim>\<open>{item.key: item for item in \<dots>}\<close>: a later item replaces an earlier one.\<close>

definition digest_map :: "CrdtDigestEntry list \<Rightarrow> string \<rightharpoonup> CrdtDigestEntry" where
  "digest_map ds = map_of (rev (map (\<lambda>d. (dg_key d, d)) ds))"

definition reconcile_digest ::
  "'n node_ops \<Rightarrow> ReplicaSelector \<Rightarrow> string \<Rightarrow> 'p crdt_calls \<Rightarrow> string \<Rightarrow> CrdtDigestEntry list \<Rightarrow> int option \<Rightarrow> 'n \<Rightarrow> 'p \<Rightarrow>
     ReconcileStats result \<times> 'n \<times> 'p" where
  "reconcile_digest ops selector local_node_id cl target local_digest limit n p =
     (case ae_exchange_digest cl p local_digest of
        (Inl e, p') \<Rightarrow>
          (if is_transport e then Inr \<lparr>st_keys_checked = 0, st_repairs = 0, st_failures = 1\<rparr> else Inl e, n, p')
      | (Inr remote_digest, p') \<Rightarrow>
          (case rfilter (\<lambda>d. shared_replica selector local_node_id (dg_key d) target) remote_digest of
             Inl e \<Rightarrow> (Inl e, n, p')
           | Inr remote_shared \<Rightarrow>
               (let keys = sorted_list_of_set (set (map dg_key local_digest) \<union> set (map dg_key remote_shared));
                    all_keys = (case limit of None \<Rightarrow> keys | Some k \<Rightarrow> take (nat k) keys)
                in case reconcile_keys ops cl (digest_map local_digest) (digest_map remote_shared) all_keys 0 n p' of
                     (r, n', p'') \<Rightarrow>
                       (rbind r (\<lambda>repairs. Inr \<lparr>st_keys_checked = int (length all_keys), st_repairs = repairs, st_failures = 0\<rparr>),
                        n', p''))))"

definition reconcile_peer ::
  "'n node_ops \<Rightarrow> ReplicaSelector \<Rightarrow> string \<Rightarrow> 'p crdt_calls \<Rightarrow> string \<Rightarrow> string set option \<Rightarrow> 'n \<Rightarrow> 'p \<Rightarrow>
     ReconcileStats result \<times> 'n \<times> 'p" where
  "reconcile_peer ops selector local_node_id cl target keys n p =
     (case shared_digest ops selector local_node_id target (\<lambda>k. case keys of None \<Rightarrow> True | Some ks \<Rightarrow> k \<in> ks) n of
        Inl e \<Rightarrow> (Inl e, n, p)
      | Inr local_digest \<Rightarrow> reconcile_digest ops selector local_node_id cl target local_digest None n p)"

text \<open>
  One round: \<open>pick\<close> is the peer that \<^verbatim>\<open>random.choice\<close> picks, and \<open>calls\<close> the client calls
  towards a peer.
\<close>

definition run_once ::
  "'n node_ops \<Rightarrow> ReplicaSelector \<Rightarrow> string \<Rightarrow> (ClusterMember \<Rightarrow> 'p crdt_calls) \<Rightarrow> ClusterMember list \<Rightarrow>
     (ClusterMember list \<Rightarrow> ClusterMember) \<Rightarrow> int \<Rightarrow> 'n \<Rightarrow> 'p \<Rightarrow> unit result \<times> 'n \<times> 'p" where
  "run_once ops selector local_node_id calls provided pick batch_size n p =
     (let peers = alive_peers local_node_id provided in
      if peers = [] then (Inr (), n, p)
      else let target = pick peers in
           case local_digest_for ops selector local_node_id batch_size (cm_node target) n of
             Inl e \<Rightarrow> (Inl e, n, p)
           | Inr local_digest \<Rightarrow>
               (case reconcile_digest ops selector local_node_id (calls target) (cm_node target) local_digest (Some batch_size) n p of
                  (r, n', p') \<Rightarrow> (rbind r (\<lambda>_. Inr ()), n', p')))"

section \<open>The replication workers\<close>

text \<open>
  One turn of \<^verbatim>\<open>_worker\<close> with the item it took: \<open>outcome\<close> is what sending with retries gives.
  The result is whether the worker goes on.
\<close>

definition retryable_send :: "exn \<Rightarrow> bool" where
  "retryable_send e = is_transport e"

definition expected_send_failure :: "exn \<Rightarrow> bool" where
  "expected_send_failure e =
     (is_transport e \<or> (case exn_cls e of Is_RuntimeError (CrdtRemoteErrorR c) \<Rightarrow> True | _ \<Rightarrow> False) \<or> is_ProtocolError (exn_cls e))"

definition send_with_retry :: "RetryPolicy \<Rightarrow> unit retry_env \<Rightarrow> unit result" where
  "send_with_retry policy env = fst (retry_async policy retryable_send None env)"

definition worker_turn :: "PendingReplication \<Rightarrow> unit result \<Rightarrow> ReplicationOutbox \<Rightarrow> unit result \<times> ReplicationOutbox" where
  "worker_turn item outcome box =
     (case outcome of
        Inr _ \<Rightarrow> (Inr (), complete box (pr_peer item) (pr_key item) (pr_generation item))
      | Inl e \<Rightarrow>
          if exn_cls e = CancelledError
          then (Inl e, abandon box (pr_peer item) (pr_key item) (pr_generation item))
          else if expected_send_failure e
          then (Inr (), abandon box (pr_peer item) (pr_key item) (pr_generation item))
          else (Inl e, box))"

section \<open>The facade\<close>

definition reserve_write ::
  "string \<Rightarrow> ReplicationOutbox \<Rightarrow> string \<Rightarrow> string list \<Rightarrow> OutboxReservation result \<times> ReplicationOutbox" where
  "reserve_write local_node_id box key replica_ids =
     reserve box (map (\<lambda>node_id. (node_id, key)) (filter (\<lambda>node_id. node_id \<noteq> local_node_id) replica_ids))"

definition cancel_write :: "ReplicationOutbox \<Rightarrow> OutboxReservation \<Rightarrow> ReplicationOutbox" where
  "cancel_write box reservation = cancel box reservation"

definition publish_write ::
  "ReplicationOutbox \<Rightarrow> OutboxReservation \<Rightarrow> StoredCrdtEntry \<Rightarrow> unit result \<times> ReplicationOutbox" where
  "publish_write box reservation entry = publish box reservation [se_key entry \<mapsto> entry]"

definition digest_snapshot ::
  "'n node_ops \<Rightarrow> ReplicaSelector \<Rightarrow> string \<Rightarrow> string \<Rightarrow> 'n \<Rightarrow> CrdtDigestEntry list result" where
  "digest_snapshot ops selector local_node_id peer_node_id n =
     shared_digest ops selector local_node_id peer_node_id (\<lambda>_. True) n"

section \<open>Nothing known is lost\<close>

text \<open>
  From one state of a node to a later one the clock does not go back, no entry disappears
  or changes its type, and no version or context goes back.
\<close>

definition entry_grows :: "StoredCrdtEntry \<Rightarrow> StoredCrdtEntry \<Rightarrow> bool" where
  "entry_grows e e' \<longleftrightarrow> se_type e' = se_type e \<and> dominates (se_version e') (se_version e) \<and>
     dominates (se_context e') (se_context e)"

definition node_grows :: "'n node_ops \<Rightarrow> 'n \<Rightarrow> 'n \<Rightarrow> bool" where
  "node_grows ops n n' \<longleftrightarrow> clock_grows (no_clock ops n) (no_clock ops n') \<and>
     (\<forall>k e. no_get ops n k = Some e \<longrightarrow> (\<exists>e'. no_get ops n' k = Some e' \<and> entry_grows e e'))"

lemma entry_grows_refl [simp]: "entry_grows e e"
  by (simp add: entry_grows_def)

lemma entry_grows_trans: "entry_grows a b \<Longrightarrow> entry_grows b c \<Longrightarrow> entry_grows a c"
  by (auto simp: entry_grows_def intro: dominates_trans)

lemma node_grows_refl [simp]: "node_grows ops n n"
  by (simp add: node_grows_def)

lemma node_growsD:
  "node_grows ops n n' \<Longrightarrow> no_get ops n k = Some e \<Longrightarrow> \<exists>e'. no_get ops n' k = Some e' \<and> entry_grows e e'"
  by (simp add: node_grows_def)

lemma node_grows_trans:
  assumes "node_grows ops a b" "node_grows ops b c"
  shows "node_grows ops a c"
proof -
  have "\<exists>e'. no_get ops c k = Some e' \<and> entry_grows e e'" if "no_get ops a k = Some e" for k e
    using node_growsD [OF assms(1) that] node_growsD [OF assms(2)] entry_grows_trans by blast
  then show ?thesis using assms clock_grows_trans by (auto simp: node_grows_def)
qed

lemma node_grows_put:
  assumes "clock_grows (no_clock ops n) (no_clock ops n')" "no_get ops n' = (no_get ops n)(k \<mapsto> m)"
    and "\<And>e. no_get ops n k = Some e \<Longrightarrow> entry_grows e m"
  shows "node_grows ops n n'"
  using assms by (auto simp: node_grows_def)

lemma node_grows_same:
  "clock_grows (no_clock ops n) (no_clock ops n') \<Longrightarrow> no_get ops n' = no_get ops n \<Longrightarrow> node_grows ops n n'"
  by (auto simp: node_grows_def)

lemma merged_fields:
  assumes "merged_with old e m"
  shows "dominates (se_version m) (se_version e)" "dominates (se_context m) (se_context e)"
    and "old = Some x \<Longrightarrow> entry_grows x m"
  using assms
  by (auto simp: entry_grows_def merged_with_def merge_entries_def StoredCrdtEntry_init_def rbind_eq_Inr dominates_iff
      split: option.splits if_splits)

text \<open>What a task may rely on of the others: they keep the node well formed and take nothing back.\<close>

definition others_keep :: "'n node_ops \<Rightarrow> ('n \<Rightarrow> bool) \<Rightarrow> ('n \<Rightarrow> 'n) \<Rightarrow> bool" where
  "others_keep ops ok others \<longleftrightarrow> (\<forall>n. ok n \<longrightarrow> ok (others n) \<and> node_grows ops n (others n))"

lemma others_keepD: "others_keep ops ok others \<Longrightarrow> ok n \<Longrightarrow> ok (others n) \<and> node_grows ops n (others n)"
  by (simp add: others_keep_def)

lemma others_keep_id: "others_keep ops ok (\<lambda>n. n)"
  by (simp add: others_keep_def)

text \<open>A fetched answer whose entry and frontier are well formed.\<close>

fun fetch_ok :: "PeerCrdtFetch result \<Rightarrow> bool" where
  "fetch_ok (Inl e) = True"
| "fetch_ok (Inr f) = (vv_ok (pf_frontier f) \<and> (\<forall>e \<in> set_option (pf_entry f). entry_ok e))"

context crdt_node
begin

lemma merge_grows:
  assumes "ok n" "entry_ok e" "no_merge_entry ops n e = (r, n')"
  shows "ok n' \<and> node_grows ops n n' \<and> (\<forall>m. r = Inr m \<longrightarrow> no_get ops n' (se_key e) = Some m \<and> entry_ok m \<and>
    dominates (se_version m) (se_version e) \<and> dominates (se_context m) (se_context e))"
proof (cases r)
  case (Inl x)
  then show ?thesis using merge_step [OF assms] by (auto intro: node_grows_same)
next
  case (Inr m)
  note step = merge_step [OF assms, unfolded Inr sum.case]
  then have ok': "ok n'" and get: "no_get ops n' = (no_get ops n)(se_key e \<mapsto> m)"
    and w: "merged_with (no_get ops n (se_key e)) e m" by auto
  have "node_grows ops n n'"
    using step merged_fields(3) [OF w] by (intro node_grows_put [OF _ get]) auto
  moreover have "no_get ops n' (se_key e) = Some m" using get by simp
  ultimately show ?thesis using ok' merged_fields(1,2) [OF w] get_ok [OF ok'] Inr by auto
qed

lemma metadata_grows:
  assumes "ok n" "vv_ok v" "no_merge_metadata ops n k v = (q, n')"
  shows "ok n' \<and> node_grows ops n n'"
proof -
  note step = metadata_step [OF assms]
  show ?thesis
  proof (cases "\<exists>m. q = Inr (Some m)")
    case True
    then obtain m e where e: "no_get ops n k = Some e" "m = context_added e v" "no_get ops n' = (no_get ops n)(k \<mapsto> m)"
      using step by auto
    then have "node_grows ops n n'"
      using step by (intro node_grows_put [OF _ e(3)]) (auto simp: context_added_def entry_grows_def)
    then show ?thesis using step by simp
  next
    case False
    then have "no_get ops n' = no_get ops n" using step by (cases q) (auto split: option.splits)
    then show ?thesis using step by (auto intro: node_grows_same)
  qed
qed

lemma repair_merge_grows:
  assumes "ok n" "vv_ok merged" "list_all fetch_ok results" "repair_merge ops results merged successful n = (r, n')"
  shows "ok n' \<and> node_grows ops n n' \<and> (\<forall>v ss. r = Inr (v, ss) \<longrightarrow> vv_ok v \<and> dominates v merged)"
  using assms
proof (induction results arbitrary: merged successful n)
  case (Cons x results)
  show ?case
  proof (cases x)
    case (Inl e)
    then show ?thesis using Cons by simp
  next
    case (Inr f)
    let ?v = "vv_merge merged (pf_frontier f)" and ?s = "successful @ [pf_peer_node_id f]"
    have v: "vv_ok ?v" "dominates ?v merged" and rest: "list_all fetch_ok results" using Cons.prems Inr by auto
    show ?thesis
    proof (cases "pf_entry f")
      case None
      then have "repair_merge ops results ?v ?s n = (r, n')" using Cons.prems(4) Inr by (simp add: Let_def)
      from Cons.IH [OF Cons.prems(1) v(1) rest this] show ?thesis using dominates_trans [OF _ v(2)] by blast
    next
      case (Some e)
      obtain q n1 where m: "no_merge_entry ops n e = (q, n1)" by (cases "no_merge_entry ops n e")
      have e: "entry_ok e" using Cons.prems(3) Inr Some by simp
      note g = merge_grows [OF Cons.prems(1) e m]
      show ?thesis
      proof (cases q)
        case (Inl err)
        then show ?thesis using Cons.prems(4) Inr Some m g by (auto simp: Let_def)
      next
        case w: (Inr w)
        let ?w = "vv_merge ?v (se_context w)"
        have ok: "vv_ok ?w" "dominates ?w merged" using v g w by (auto simp: entry_ok_def intro: dominates_mono1)
        have "repair_merge ops results ?w ?s n1 = (r, n')" using Cons.prems(4) Inr Some m w by (simp add: Let_def)
        note ih = Cons.IH [OF conjunct1 [OF g] ok(1) rest this]
        have "node_grows ops n n'" by (rule node_grows_trans [of _ _ n1]) (use g ih in auto)
        then show ?thesis using ih dominates_trans [OF _ ok(2)] by auto
      qed
    qed
  qed
qed auto

lemma repair_context_spec:
  assumes "ok n" "vv_ok merged" "repair_context ops key merged n = (r, n')"
  shows "ok n' \<and> node_grows ops n n' \<and> (\<forall>v. r = Inr v \<longrightarrow> vv_ok v \<and> dominates v merged \<and>
    (\<forall>e. no_get ops n' key = Some e \<longrightarrow> se_context e = v))"
proof (cases "no_get ops n key")
  case None
  then show ?thesis using assms by (auto simp: repair_context_def)
next
  case (Some cur)
  let ?m = "vv_merge merged (se_context cur)"
  have m: "vv_ok ?m" using assms(2) get_ok [OF assms(1) Some] by (simp add: entry_ok_def)
  show ?thesis
  proof (cases "se_context cur = ?m")
    case True
    then have "r = Inr ?m" "n' = n" using assms(3) Some by (simp_all add: repair_context_def)
    moreover have "dominates (se_context cur) merged" using dominates_merge1 [of merged "se_context cur"] True by simp
    ultimately show ?thesis using assms(1) m True Some by simp
  next
    case False
    obtain q n1 where q: "no_merge_metadata ops n key ?m = (q, n1)" by (cases "no_merge_metadata ops n key ?m")
    note g = metadata_grows [OF assms(1) m q] and step = metadata_step [OF assms(1) m q]
    have r: "n' = n1" "r = (case q of Inl e \<Rightarrow> Inl e | Inr None \<Rightarrow> Inr ?m | Inr (Some u) \<Rightarrow> Inr (se_context u))"
      using assms(3) Some False q by (auto simp: repair_context_def split: sum.splits option.splits)
    have "vv_ok v \<and> dominates v merged \<and> (\<forall>e. no_get ops n1 key = Some e \<longrightarrow> se_context e = v)" if v: "r = Inr v" for v
    proof -
      obtain u where u: "q = Inr (Some u)" using v step Some r(2) by (auto split: sum.splits option.splits)
      then have "u = context_added cur ?m" "no_get ops n1 key = Some u" "v = se_context u"
        using step Some v r(2) by auto
      moreover have "vv_ok (se_context u)"
        using get_ok [OF conjunct1 [OF g] \<open>no_get ops n1 key = Some u\<close>] by (simp add: entry_ok_def)
      moreover have "dominates (vv_merge (se_context cur) ?m) merged" by (simp add: dominates_iff)
      ultimately show ?thesis by (simp add: context_added_def)
    qed
    then show ?thesis using g r(1) by blast
  qed
qed

lemma repair_round_spec:
  assumes "ok n" "vv_ok local" "list_all fetch_ok results" "repair_round ops key required contacted results local n = (r, n')"
  shows "ok n' \<and> node_grows ops n n' \<and> (\<forall>res. r = Inr res \<longrightarrow> dominates (cr_merged res) required \<and>
    (\<forall>e. no_get ops n' key = Some e \<longrightarrow> se_context e = cr_merged res))"
proof -
  obtain q n1 where q: "repair_merge ops results local [] n = (q, n1)" by (cases "repair_merge ops results local [] n")
  note g = repair_merge_grows [OF assms(1-3) q]
  show ?thesis
  proof (cases q)
    case (Inl e)
    then show ?thesis using assms(4) q g by (auto simp: repair_round_def)
  next
    case (Inr vs)
    obtain merged ss where vs: "vs = (merged, ss)" by (cases vs)
    obtain c n2 where c: "repair_context ops key merged n1 = (c, n2)" by (cases "repair_context ops key merged n1")
    have "vv_ok merged" using g Inr vs by simp
    note h = repair_context_spec [OF conjunct1 [OF g] this c]
    have "node_grows ops n n2" by (rule node_grows_trans [of _ _ n1]) (use g h in auto)
    moreover have "n' = n2" using assms(4) q Inr vs c by (simp add: repair_round_def split: sum.splits)
    moreover have "\<exists>v. c = Inr v \<and> dominates v required \<and> cr_merged res = v" if "r = Inr res" for res
      using that assms(4) q Inr vs c by (auto simp: repair_round_def split: sum.splits if_splits)
    ultimately show ?thesis using h by fastforce
  qed
qed

lemma ensure_spec:
  assumes "ok n" and fetched: "\<forall>peers results. gather peers = Inr results \<longrightarrow> list_all fetch_ok results"
    and others: "others_keep ops ok others" and run: "ensure ops selector local_node_id gather others key required n = (r, n')"
  shows "ok n' \<and> node_grows ops n n' \<and> (\<forall>res. r = Inr res \<longrightarrow> dominates (cr_merged res) required \<and>
    (\<forall>e. no_get ops n' key = Some e \<longrightarrow> dominates (se_context e) required))"
proof -
  let ?local = "case no_get ops n key of None \<Rightarrow> vv_empty | Some e \<Rightarrow> se_context e"
  have local: "vv_ok ?local" using get_ok [OF assms(1)] by (auto simp: entry_ok_def split: option.splits)
  show ?thesis
  proof (cases "dominates ?local required")
    case True
    then have "n' = n" "r = Inr \<lparr>cr_satisfied = True, cr_merged = ?local, cr_contacted = [], cr_successful = []\<rparr>"
      using run by (auto simp: ensure_def Let_def)
    then show ?thesis using assms(1) True by (auto split: option.splits)
  next
    case False
    then have "(\<exists>e. r = Inl e \<and> (n' = n \<or> n' = others n)) \<or> (\<exists>peers results. gather peers = Inr results \<and>
        repair_round ops key required (map cm_node peers) results ?local (others n) = (r, n'))"
      using run by (auto simp: ensure_def Let_def split: sum.splits if_splits)
    then consider (stop) e where "r = Inl e" "n' = n \<or> n' = others n"
      | (round) contacted results where "list_all fetch_ok results"
          "repair_round ops key required contacted results ?local (others n) = (r, n')"
      using fetched by blast
    then show ?thesis
    proof cases
      case round
      note o = others_keepD [OF others assms(1)]
      note g = repair_round_spec [OF conjunct1 [OF o] local round]
      have "node_grows ops n n'" by (rule node_grows_trans [of _ _ "others n"]) (use o g in auto)
      then show ?thesis using g by auto
    qed (use assms(1) others_keepD [OF others assms(1)] in auto)
  qed
qed

end

section \<open>Repair on the node's stores\<close>


definition repair_actor :: CausalActor where
  "repair_actor = CausalActor ''a'' 1"

definition repair_entry :: StoredCrdtEntry where
  "repair_entry =
     \<lparr>se_key = ''k'', se_type = GCOUNTER, se_state = SGCounter (GCounter [(repair_actor, 1)]),
      se_version = VersionVector [(repair_actor, 1)], se_context = VersionVector [(repair_actor, 1)]\<rparr>"

definition repair_peer :: ClusterMember where
  "repair_peer = \<lparr>cm_node = ''c'', cm_host = ''h'', cm_port = 1, cm_status = ALIVE, cm_incarnation = 1\<rparr>"

definition repair_selector :: ReplicaSelector where
  "repair_selector = \<lparr>rsel_ring = \<lparr>hr_virtual = 1, hr_positions = [0], hr_owners = [repair_peer]\<rparr>, rsel_factor = 2\<rparr>"

definition repair_node :: DurableNode where
  "repair_node =
     \<lparr>du_store = \<lparr>dn_memory = CrdtStore_init,
        dn_repo = \<lparr>repo_opened = True, repo_db = \<lparr>db_schema = 1, db_identity = None, db_clock = None, db_entries = []\<rparr>\<rparr>,
        dn_clock = CausalClock_init (CausalActor ''b'' 1)\<rparr>,
      du_ios = \<lambda>_. IoOk\<rparr>"

definition repair_answers :: "PeerCrdtFetch result list" where
  "repair_answers = [Inr \<lparr>pf_peer_node_id = ''c'', pf_entry = Some repair_entry, pf_frontier = VersionVector [(repair_actor, 1)]\<rparr>]"


text \<open>
  What repair does not ensure: a peer that has seen the required version on its clock, but
  holds no state of the key, is enough. The context of the stored entry is then raised to
  the required version while its state stays as it was.
\<close>

theorem repair_satisfied_without_state:
  assumes "memory_ok n" "no_get memory_ops n key = Some e" "vv_ok f" "dominates f required"
  shows "\<exists>res n' e'. repair_round memory_ops key required contacted
      [Inr \<lparr>pf_peer_node_id = peer, pf_entry = None, pf_frontier = f\<rparr>] (se_context e) n = (Inr res, n') \<and>
    no_get memory_ops n' key = Some e' \<and> se_state e' = se_state e \<and> se_version e' = se_version e \<and>
    dominates (se_context e') required"
proof -
  let ?m = "vv_merge (vv_merge (se_context e) f) (se_context e)"
  have e: "entry_ok e" "se_key e = key" "vv_ok (se_context e)"
    using mem.get_ok [OF assms(1,2)] by (auto simp: entry_ok_def)
  have get: "store_get (mn_store n) key = Some e" using assms(2) by (simp add: memory_ops_def)
  have req: "dominates ?m required" using assms(4) by (auto simp: dominates_iff max.coboundedI1 max.coboundedI2)
  show ?thesis
  proof (cases "se_context e = ?m")
    case True
    then show ?thesis using assms(2) req by (simp add: repair_round_def repair_context_def)
  next
    case False
    let ?u = "context_added e ?m"
    let ?n' = "n\<lparr>mn_store := (mn_store n)\<lparr>store_entries := AList.update key ?u (store_entries (mn_store n))\<rparr>\<rparr>"
    have u: "with_context e (vv_merge (se_context e) ?m) = Inr ?u" "se_key ?u = key" "se_type ?u = se_type e"
      using with_context_ok [OF e(1), of ?m] e(2,3) assms(3) by auto
    have "store_replace (mn_store n) ?u (Some (se_type e)) =
        (Inr ?u, (mn_store n)\<lparr>store_entries := AList.update key ?u (store_entries (mn_store n))\<rparr>)"
      using store_replace_same_type [of "mn_store n" ?u "Some (se_type e)"] get u by simp
    then have meta: "no_merge_metadata memory_ops n key ?m = (Inr (Some ?u), ?n')"
      using get u(1) by (simp add: memory_ops_def store_merge_metadata_def)
    have ctx: "repair_context memory_ops key (vv_merge (se_context e) f) n = (Inr (se_context ?u), ?n')"
      using assms(2) False meta by (simp add: repair_context_def Let_def)
    have "no_get memory_ops ?n' key = Some ?u" by (simp add: memory_ops_def store_update_get)
    moreover have "dominates (se_context ?u) required"
      using req by (auto simp: context_added_def dominates_iff max.coboundedI2)
    ultimately show ?thesis using ctx by (simp add: repair_round_def) (simp add: context_added_def)
  qed
qed

end
