(* ===== verification/Crdt_Service.thy ===== *)
theory Crdt_Service
  imports Replication
begin

text \<open>
  The CRDT service of \<^verbatim>\<open>src/src/distsys/crdt_service.py\<close>: routing to a replica, causal
  admission, mutation, reads, and the message handlers. What the awaits of a handler on other
  nodes give, and what other tasks do meanwhile, is in the environment of the call.
\<close>

section \<open>State\<close>

abbreviation (input) "INVALID_REQUEST \<equiv> (2 :: int)"
abbreviation (input) "INTERNAL_ERROR \<equiv> (3 :: int)"
abbreviation (input) "TIMEOUT \<equiv> (4 :: int)"
abbreviation (input) "NO_ROUTE \<equiv> (7 :: int)"
abbreviation (input) "PEER_UNAVAILABLE \<equiv> (8 :: int)"
abbreviation (input) "CAUSAL_UNAVAILABLE \<equiv> (9 :: int)"
abbreviation (input) "REPLICATION_BACKPRESSURE \<equiv> (10 :: int)"
abbreviation (input) "KEY_NOT_FOUND \<equiv> (11 :: int)"
abbreviation (input) "PERSISTENCE_UNAVAILABLE \<equiv> (12 :: int)"
abbreviation (input) "PERSISTENCE_BACKPRESSURE \<equiv> (13 :: int)"

record 'n CrdtService =
  sv_node :: 'n
  sv_outbox :: ReplicationOutbox
  sv_peer_cache :: "(string, ClusterMember) dict"

text \<open>What does not change during a call: the node id, the ring of the moment, and settings.\<close>

record service_config =
  sc_node_id :: string
  sc_selector :: ReplicaSelector
  sc_batch_size :: int

text \<open>
  What the peers answer: a forwarded request, and the fetches of a repair; and what other
  tasks do to the node while this one waits for the peers or for the lock of a key.
\<close>

record 'n service_env =
  ev_forward :: "ClusterMember \<Rightarrow> CrdtResponseData result"
  ev_gather :: "ClusterMember list \<Rightarrow> PeerCrdtFetch result list result"
  ev_others :: "'n \<Rightarrow> 'n"

section \<open>Helpers\<close>

definition remember :: "ClusterMember list \<Rightarrow> 'n CrdtService \<Rightarrow> 'n CrdtService" where
  "remember members s = s\<lparr>sv_peer_cache := fold (\<lambda>m. AList.update (cm_node m) m) members (sv_peer_cache s)\<rparr>"

definition service_alive_peers :: "ClusterMember list \<Rightarrow> 'n CrdtService \<Rightarrow> ClusterMember list \<times> 'n CrdtService" where
  "service_alive_peers members s = (members, remember members s)"

definition resolve_peer :: "'n CrdtService \<Rightarrow> string \<Rightarrow> ClusterMember option" where
  "resolve_peer s node_id = map_of (sv_peer_cache s) node_id"

definition service_replicas :: "service_config \<Rightarrow> string \<Rightarrow> 'n CrdtService \<Rightarrow> ClusterMember list result \<times> 'n CrdtService" where
  "service_replicas cfg key s =
     (case replicas (sc_selector cfg) key of Inl e \<Rightarrow> (Inl e, s) | Inr members \<Rightarrow> (Inr members, remember members s))"

fun materialize :: "CrdtState \<Rightarrow> json result" where
  "materialize (SGCounter c) = Inr (JInt (gc_value c))"
| "materialize (SPNCounter c) = Inr (JInt (pn_value c))"
| "materialize (SORSet t) = Inr (JArr (map JStr (sorted_list_of_set (or_value t))))"
| "materialize (SMVRegister r) = rbind (mv_values r) (\<lambda>vs. Inr (JArr vs))"

definition service_frontier :: "'n node_ops \<Rightarrow> 'n CrdtService \<Rightarrow> VersionVector" where
  "service_frontier ops s = clk_frontier (no_clock ops (sv_node s))"

definition error_response :: "'n node_ops \<Rightarrow> service_config \<Rightarrow> int \<Rightarrow> string \<Rightarrow> 'n CrdtService \<Rightarrow> CrdtResponseData" where
  "error_response ops cfg code message s =
     \<lparr>rs_success = False, rs_type = None, rs_value = JNull, rs_token = token_empty, rs_served_by = sc_node_id cfg,
      rs_repair = False, rs_error_code = code, rs_error_message = message, rs_state = None,
      rs_frontier = service_frontier ops s\<rparr>"

definition observe_context :: "'n node_ops \<Rightarrow> VersionVector \<Rightarrow> 'n CrdtService \<Rightarrow> 'n CrdtService" where
  "observe_context ops version s =
     s\<lparr>sv_node := no_set_clock ops (snd (observe (no_clock ops (sv_node s)) version)) (sv_node s)\<rparr>"

definition success_response ::
  "'n node_ops \<Rightarrow> service_config \<Rightarrow> StoredCrdtEntry \<Rightarrow> bool \<Rightarrow> bool \<Rightarrow> 'n CrdtService \<Rightarrow> CrdtResponseData result \<times> 'n CrdtService" where
  "success_response ops cfg entry repair_performed include_state s =
     (let s' = observe_context ops (se_context entry) s;
          frontier = vv_merge (service_frontier ops s') (se_context entry)
      in (rbind (materialize (se_state entry)) (\<lambda>value.
            Inr \<lparr>rs_success = True, rs_type = Some (se_type entry), rs_value = value, rs_token = CausalToken frontier,
                 rs_served_by = sc_node_id cfg, rs_repair = repair_performed, rs_error_code = 0, rs_error_message = [],
                 rs_state = (if include_state then Some entry else None), rs_frontier = frontier\<rparr>), s'))"

section \<open>Routing\<close>

text \<open>
  \<open>Inr None\<close>: this node is a replica and serves the request itself.
\<close>

definition route_request ::
  "string \<Rightarrow> 'n node_ops \<Rightarrow> service_config \<Rightarrow> 'n service_env \<Rightarrow> string \<Rightarrow> bool \<Rightarrow> 'n CrdtService \<Rightarrow>
     CrdtResponseData option result \<times> 'n CrdtService" where
  "route_request label ops cfg env key forwarded s =
     (case service_replicas cfg key s of
        (Inl e, s') \<Rightarrow> (Inl e, s')
      | (Inr [], s') \<Rightarrow> (raise NoRouteError ''no ALIVE CRDT replica is available'', s')
      | (Inr (target # members), s') \<Rightarrow>
          if list_ex (\<lambda>m. cm_node m = sc_node_id cfg) (target # members) then (Inr None, s')
          else if forwarded
          then (Inr (Some (error_response ops cfg NO_ROUTE (''forwarded CRDT '' @ label @ '' reached a non-replica'') s')), s')
          else (case ev_forward env target of
                  Inr response \<Rightarrow> (Inr (Some response), s')
                | Inl e \<Rightarrow>
                    (case exn_cls e of
                       Is_RuntimeError (CrdtRemoteErrorR code) \<Rightarrow> (Inr (Some (error_response ops cfg code (exn_msg e) s')), s')
                     | _ \<Rightarrow>
                         if exn_cls e = DeadlineExceeded then (Inl e, s')
                         else if is_transport e
                         then (Inr (Some (error_response ops cfg PEER_UNAVAILABLE (exn_msg e) s')), s')
                         else (Inl e, s'))))"

definition route_mutation ::
  "'n node_ops \<Rightarrow> service_config \<Rightarrow> 'n service_env \<Rightarrow> CrdtMutationData \<Rightarrow> 'n CrdtService \<Rightarrow>
     CrdtResponseData option result \<times> 'n CrdtService" where
  "route_mutation ops cfg env request s = route_request ''mutation'' ops cfg env (md_key request) (md_forwarded request) s"

definition route_read ::
  "'n node_ops \<Rightarrow> service_config \<Rightarrow> 'n service_env \<Rightarrow> CrdtReadData \<Rightarrow> 'n CrdtService \<Rightarrow>
     CrdtResponseData option result \<times> 'n CrdtService" where
  "route_read ops cfg env request s = route_request ''read'' ops cfg env (rq_key request) (rq_forwarded request) s"

section \<open>Causal admission\<close>

text \<open>The end of \<^verbatim>\<open>_ensure_causal\<close>: repair, and look again.\<close>

definition ensure_by_repair ::
  "'n node_ops \<Rightarrow> service_config \<Rightarrow> 'n service_env \<Rightarrow> string \<Rightarrow> VersionVector \<Rightarrow> 'n CrdtService \<Rightarrow>
     (StoredCrdtEntry option \<times> bool) result \<times> 'n CrdtService" where
  "ensure_by_repair ops cfg env key required s =
     (case ensure ops (sc_selector cfg) (sc_node_id cfg) (ev_gather env) (ev_others env) key required (sv_node s) of
        (Inl e, n) \<Rightarrow> (Inl e, s\<lparr>sv_node := n\<rparr>)
      | (Inr result, n) \<Rightarrow>
          (case no_get ops n key of
             Some repaired \<Rightarrow>
               if dominates (se_context repaired) required then Inr (Some repaired, cr_contacted result \<noteq> [])
               else raise CausalUnavailableError ''required causal frontier is unavailable''
           | None \<Rightarrow>
               if dominates (cr_merged result) required then Inr (None, cr_contacted result \<noteq> [])
               else raise CausalUnavailableError ''required causal frontier is unavailable'',
           s\<lparr>sv_node := n\<rparr>))"

definition ensure_causal ::
  "'n node_ops \<Rightarrow> service_config \<Rightarrow> 'n service_env \<Rightarrow> string \<Rightarrow> CausalToken \<Rightarrow> bool \<Rightarrow> 'n CrdtService \<Rightarrow>
     (StoredCrdtEntry option \<times> bool) result \<times> 'n CrdtService" where
  "ensure_causal ops cfg env key token require_existing s =
     (let current = no_get ops (sv_node s) key; required = tok_version token in
      if (case current of None \<Rightarrow> False | Some e \<Rightarrow> dominates (se_context e) required) then (Inr (current, False), s)
      else if current = None \<and> \<not> vv_bool required \<and> \<not> require_existing then (Inr (None, False), s)
      else case service_replicas cfg key s of
             (Inl e, s') \<Rightarrow> (Inl e, s')
           | (Inr members, s') \<Rightarrow>
               if current = None \<and> \<not> require_existing \<and> dominates (service_frontier ops s') required
               then (Inr (None, False), s')
               else if current = None \<and> filter (\<lambda>m. cm_node m \<noteq> sc_node_id cfg) members = [] \<and>
                       dominates (service_frontier ops s') required
               then (Inr (None, False), s')
               else ensure_by_repair ops cfg env key required s')"

section \<open>Mutations\<close>

fun empty_state :: "CrdtType \<Rightarrow> CrdtState" where
  "empty_state GCOUNTER = SGCounter gc_empty"
| "empty_state PNCOUNTER = SPNCounter pn_empty"
| "empty_state ORSET = SORSet or_empty"
| "empty_state MVREGISTER = SMVRegister mv_empty"

definition apply_mutation :: "CausalActor \<Rightarrow> CrdtState \<Rightarrow> CrdtMutationData \<Rightarrow> Dot \<Rightarrow> CrdtState result" where
  "apply_mutation actor state request dot =
     (case md_type request of
        GCOUNTER \<Rightarrow>
          if md_operation request \<noteq> ''increment'' \<or> md_amount request < 1
          then raise ValueError ''GCounter requires increment amount >= 1''
          else (case state of
                  SGCounter c \<Rightarrow> rbind (gc_increment c actor (md_amount request)) (\<lambda>c. Inr (SGCounter c))
                | _ \<Rightarrow> raise AssertionError [])
      | PNCOUNTER \<Rightarrow>
          (case state of
             SPNCounter c \<Rightarrow>
               if md_operation request = ''increment'' \<and> md_amount request \<ge> 1
               then rbind (pn_increment c actor (md_amount request)) (\<lambda>c. Inr (SPNCounter c))
               else if md_operation request = ''decrement'' \<and> md_amount request \<ge> 1
               then rbind (pn_decrement c actor (md_amount request)) (\<lambda>c. Inr (SPNCounter c))
               else raise ValueError ''PNCounter requires increment/decrement amount >= 1''
           | _ \<Rightarrow> raise AssertionError [])
      | ORSET \<Rightarrow>
          (case state of
             SORSet t \<Rightarrow>
               (case md_value request of
                  JStr element \<Rightarrow>
                    if md_operation request = ''add'' then Inr (SORSet (or_add t element dot))
                    else if md_operation request = ''remove'' then Inr (SORSet (or_remove t element))
                    else raise ValueError ''ORSet requires add/remove''
                | _ \<Rightarrow> raise ValueError ''ORSet value must be a string'')
           | _ \<Rightarrow> raise AssertionError [])
      | MVREGISTER \<Rightarrow>
          (case state of
             SMVRegister r \<Rightarrow>
               if md_operation request \<noteq> ''write'' then raise ValueError ''MVRegister requires write''
               else Inr (SMVRegister (mv_write r (md_value request) dot))
           | _ \<Rightarrow> raise AssertionError []))"

text \<open>
  The body of \<^verbatim>\<open>mutate\<close> under the key lock: a staged dot, the next state, the commit, and
  only then the clock.
\<close>

definition mutate_locked ::
  "'n node_ops \<Rightarrow> CrdtMutationData \<Rightarrow> 'n \<Rightarrow> StoredCrdtEntry result \<times> 'n" where
  "mutate_locked ops request n =
     (let existing = no_get ops n (md_key request);
          previous_version = (case existing of None \<Rightarrow> vv_empty | Some e \<Rightarrow> se_version e);
          previous_context = (case existing of None \<Rightarrow> vv_empty | Some e \<Rightarrow> se_context e);
          state = (case existing of None \<Rightarrow> empty_state (md_type request) | Some e \<Rightarrow> se_state e);
          seen = vv_merge previous_context (tok_version (md_token request))
      in if (case existing of None \<Rightarrow> False | Some e \<Rightarrow> se_type e \<noteq> md_type request)
         then (raise TypeError ''cannot change CRDT type for existing key'', n)
         else let (r, n', clk) = staged_allocation (no_clock ops n) (Some seen) (\<lambda>dot frontier.
                    case rbind (apply_mutation (clk_actor (no_clock ops n)) state request dot) (\<lambda>next_state.
                           StoredCrdtEntry_init (md_key request) (md_type request) next_state
                             (with_dot previous_version dot) (with_dot (vv_merge seen frontier) dot)) of
                      Inl e \<Rightarrow> (Inl e, False, n)
                    | Inr next_entry \<Rightarrow>
                        (case no_commit ops n next_entry frontier of
                           (Inl e, n') \<Rightarrow> (Inl e, False, n')
                         | (Inr _, n') \<Rightarrow> (Inr next_entry, True, n')))
              in (r, no_set_clock ops clk n'))"

text \<open>The reservation around it: on an exception it is cancelled, on a cancellation of the task it is not.\<close>

definition mutate_reserved ::
  "'n node_ops \<Rightarrow> CrdtMutationData \<Rightarrow> OutboxReservation \<Rightarrow> 'n CrdtService \<Rightarrow> StoredCrdtEntry result \<times> 'n CrdtService" where
  "mutate_reserved ops request reservation s =
     (let (r, n) = mutate_locked ops request (sv_node s);
          s1 = s\<lparr>sv_node := n\<rparr>;
          (q, box) = (case r of
                        Inl e \<Rightarrow> (Inl e, sv_outbox s1)
                      | Inr entry \<Rightarrow>
                          (let (u, box) = publish_write (sv_outbox s1) reservation entry in (rbind u (\<lambda>_. Inr entry), box)))
      in case q of
           Inr entry \<Rightarrow> (Inr entry, s1\<lparr>sv_outbox := box\<rparr>)
         | Inl e \<Rightarrow> (Inl e, s1\<lparr>sv_outbox := (if is_Exception e then cancel_write box reservation else box)\<rparr>))"

definition mutate_body ::
  "'n node_ops \<Rightarrow> service_config \<Rightarrow> 'n service_env \<Rightarrow> CrdtMutationData \<Rightarrow> 'n CrdtService \<Rightarrow> CrdtResponseData result \<times> 'n CrdtService" where
  "mutate_body ops cfg env request s =
     (case ensure_causal ops cfg env (md_key request) (md_token request) (md_operation request = ''remove'') s of
        (Inl e, s1) \<Rightarrow> (Inl e, s1)
      | (Inr (existing, repair_performed), s1) \<Rightarrow>
          if (case existing of None \<Rightarrow> False | Some e \<Rightarrow> se_type e \<noteq> md_type request)
          then (raise TypeError ''cannot change CRDT type for existing key'', s1)
          else
            (case service_replicas cfg (md_key request) s1 of
               (Inl e, s2) \<Rightarrow> (Inl e, s2)
             | (Inr members, s2) \<Rightarrow>
                 (case reserve_write (sc_node_id cfg) (sv_outbox s2) (md_key request) (map cm_node members) of
                    (Inl e, box) \<Rightarrow> (Inl e, s2\<lparr>sv_outbox := box\<rparr>)
                  | (Inr reservation, box) \<Rightarrow>
                      (case mutate_reserved ops request reservation
                              (s2\<lparr>sv_outbox := box, sv_node := ev_others env (sv_node s2)\<rparr>) of
                         (Inl e, s3) \<Rightarrow> (Inl e, s3)
                       | (Inr entry, s3) \<Rightarrow> success_response ops cfg entry repair_performed False s3))))"

text \<open>The \<^verbatim>\<open>except\<close> clauses of \<^verbatim>\<open>mutate\<close> in their order.\<close>

definition mutate_error :: "exn \<Rightarrow> (int \<times> string) option" where
  "mutate_error e =
     (if exn_cls e = PersistenceBackpressureError then Some (PERSISTENCE_BACKPRESSURE, exn_msg e)
      else if exn_cls e = PersistenceUnavailableError then Some (PERSISTENCE_UNAVAILABLE, exn_msg e)
      else if exn_cls e = ReplicationBackpressureError then Some (REPLICATION_BACKPRESSURE, exn_msg e)
      else if exn_cls e = CausalUnavailableError then Some (CAUSAL_UNAVAILABLE, exn_msg e)
      else if exn_cls e = NoRouteError then Some (NO_ROUTE, exn_msg e)
      else if exn_cls e = DeadlineExceeded then Some (TIMEOUT, ''request deadline exceeded'')
      else if exn_cls e = TypeError \<or> is_ValueError (exn_cls e) then Some (INVALID_REQUEST, exn_msg e)
      else None)"

definition answer_error ::
  "'n node_ops \<Rightarrow> service_config \<Rightarrow> (exn \<Rightarrow> (int \<times> string) option) \<Rightarrow> CrdtResponseData result \<times> 'n CrdtService \<Rightarrow>
     CrdtResponseData result \<times> 'n CrdtService" where
  "answer_error ops cfg catch rs =
     (case rs of
        (Inr response, s) \<Rightarrow> (Inr response, s)
      | (Inl e, s) \<Rightarrow>
          (case catch e of
             None \<Rightarrow> (Inl e, s)
           | Some (code, message) \<Rightarrow> (Inr (error_response ops cfg code message s), s)))"

definition mutate ::
  "'n node_ops \<Rightarrow> service_config \<Rightarrow> 'n service_env \<Rightarrow> CrdtMutationData \<Rightarrow> 'n CrdtService \<Rightarrow> CrdtResponseData result \<times> 'n CrdtService" where
  "mutate ops cfg env request s =
     answer_error ops cfg mutate_error
       (case route_mutation ops cfg env request s of
          (Inl e, s') \<Rightarrow> (Inl e, s')
        | (Inr (Some routed), s') \<Rightarrow> (Inr routed, s')
        | (Inr None, s') \<Rightarrow> mutate_body ops cfg env request s')"

section \<open>Reads\<close>

definition read_error :: "exn \<Rightarrow> (int \<times> string) option" where
  "read_error e =
     (if exn_cls e = CausalUnavailableError then Some (CAUSAL_UNAVAILABLE, exn_msg e)
      else if exn_cls e = NoRouteError then Some (NO_ROUTE, exn_msg e)
      else if exn_cls e = DeadlineExceeded then Some (TIMEOUT, ''request deadline exceeded'')
      else None)"

definition read_body ::
  "'n node_ops \<Rightarrow> service_config \<Rightarrow> 'n service_env \<Rightarrow> CrdtReadData \<Rightarrow> 'n CrdtService \<Rightarrow> CrdtResponseData result \<times> 'n CrdtService" where
  "read_body ops cfg env request s =
     (if no_get ops (sv_node s) (rq_key request) = None \<and> \<not> vv_bool (tok_version (rq_token request))
      then (Inr (error_response ops cfg KEY_NOT_FOUND ''CRDT key not found'' s), s)
      else case ensure_causal ops cfg env (rq_key request) (rq_token request) True s of
             (Inl e, s1) \<Rightarrow> (Inl e, s1)
           | (Inr (None, repair_performed), s1) \<Rightarrow>
               (Inr (error_response ops cfg KEY_NOT_FOUND ''CRDT key not found'' s1), s1)
           | (Inr (Some current, repair_performed), s1) \<Rightarrow> success_response ops cfg current repair_performed False s1)"

definition service_read ::
  "'n node_ops \<Rightarrow> service_config \<Rightarrow> 'n service_env \<Rightarrow> CrdtReadData \<Rightarrow> 'n CrdtService \<Rightarrow> CrdtResponseData result \<times> 'n CrdtService" where
  "service_read ops cfg env request s =
     answer_error ops cfg read_error
       (case route_read ops cfg env request s of
          (Inl e, s') \<Rightarrow> (Inl e, s')
        | (Inr (Some routed), s') \<Rightarrow> (Inr routed, s')
        | (Inr None, s') \<Rightarrow> read_body ops cfg env request s')"

section \<open>Message handlers\<close>

definition replicate_response ::
  "'n node_ops \<Rightarrow> service_config \<Rightarrow> StoredCrdtEntry \<Rightarrow> 'n CrdtService \<Rightarrow> CrdtResponseData result \<times> 'n CrdtService" where
  "replicate_response ops cfg entry s =
     (case no_merge_entry ops (sv_node s) entry of
        (Inl e, n) \<Rightarrow> (Inl e, s\<lparr>sv_node := n\<rparr>)
      | (Inr merged, n) \<Rightarrow>
          success_response ops cfg merged False True (observe_context ops (se_context merged) (s\<lparr>sv_node := n\<rparr>)))"

definition fetch_response ::
  "'n node_ops \<Rightarrow> service_config \<Rightarrow> string \<Rightarrow> 'n CrdtService \<Rightarrow> CrdtResponseData result \<times> 'n CrdtService" where
  "fetch_response ops cfg key s =
     (case no_get ops (sv_node s) key of
        None \<Rightarrow>
          (let frontier = service_frontier ops s
           in (Inr \<lparr>rs_success = True, rs_type = None, rs_value = JNull, rs_token = CausalToken frontier,
                    rs_served_by = sc_node_id cfg, rs_repair = False, rs_error_code = 0, rs_error_message = [],
                    rs_state = None, rs_frontier = frontier\<rparr>, s))
      | Some entry \<Rightarrow> success_response ops cfg entry False True s)"

fun digest_metadata ::
  "'n node_ops \<Rightarrow> CrdtDigestEntry list \<Rightarrow> 'n \<Rightarrow> unit result \<times> 'n" where
  "digest_metadata ops [] n = (Inr (), n)"
| "digest_metadata ops (remote # incoming) n =
     (case no_get ops n (dg_key remote) of
        Some e \<Rightarrow>
          if se_type e = dg_type remote \<and> se_version e = dg_version remote
          then (case no_merge_metadata ops n (dg_key remote) (dg_context remote) of
                  (Inl x, n') \<Rightarrow> (Inl x, n') | (Inr _, n') \<Rightarrow> digest_metadata ops incoming n')
          else digest_metadata ops incoming n
      | None \<Rightarrow> digest_metadata ops incoming n)"

text \<open>The digest that answers the requester's digest.\<close>

definition answer_digest ::
  "'n node_ops \<Rightarrow> service_config \<Rightarrow> string \<Rightarrow> CrdtDigestEntry list \<Rightarrow> int \<Rightarrow> 'n CrdtService \<Rightarrow>
     CrdtDigestEntry list result \<times> 'n CrdtService" where
  "answer_digest ops cfg requester incoming batch_size s =
     (if requester = [] then (raise DecodeError ''CRDT digest requester_node_id is required'', s)
      else case digest_metadata ops incoming (sv_node s) of
             (Inl e, n) \<Rightarrow> (Inl e, s\<lparr>sv_node := n\<rparr>)
           | (Inr _, n) \<Rightarrow>
               (rbind (digest_snapshot ops (sc_selector cfg) (sc_node_id cfg) requester n) (\<lambda>snapshot.
                  Inr (take (nat (if batch_size \<noteq> 0 then max 1 batch_size else sc_batch_size cfg)) snapshot)),
                s\<lparr>sv_node := n\<rparr>))"

definition wire_response :: "codecs \<Rightarrow> service_config \<Rightarrow> int \<Rightarrow> Message \<Rightarrow> CrdtResponseData \<Rightarrow> Message result" where
  "wire_response co cfg now_ms request response =
     rbind (encode_crdt_response (co_response_ser co) response) (\<lambda>payload.
       Inr (new_response now_ms (sc_node_id cfg) (msg_correlation_id request) payload CRDT_RESPONSE 8 [] []))"

definition handle_digest ::
  "'n node_ops \<Rightarrow> codecs \<Rightarrow> service_config \<Rightarrow> int \<Rightarrow> Message \<Rightarrow> 'n CrdtService \<Rightarrow> Message result \<times> 'n CrdtService" where
  "handle_digest ops co cfg now_ms message s =
     (case decode_digest_request (co_digest_request_par co) (msg_payload message) of
        Inl e \<Rightarrow> (Inl e, s)
      | Inr (requester, incoming, batch_size) \<Rightarrow>
          (case answer_digest ops cfg requester incoming batch_size s of
             (r, s') \<Rightarrow>
               (rbind r (\<lambda>snapshot. rbind (encode_digest_response (co_digest_ser co) snapshot) (\<lambda>payload.
                  Inr (new_response now_ms (sc_node_id cfg) (msg_correlation_id message) payload CRDT_DIGEST_RESPONSE 8 [] []))), s')))"

text \<open>
  The dispatch of \<^verbatim>\<open>handle_message\<close>. \<open>envs\<close> gives what the peers answer to a mutation or a
  read with the timeout it is granted.
\<close>

definition respond ::
  "codecs \<Rightarrow> service_config \<Rightarrow> int \<Rightarrow> Message \<Rightarrow> CrdtResponseData result \<times> 'n CrdtService \<Rightarrow> Message result \<times> 'n CrdtService" where
  "respond co cfg now_ms message rs = (case rs of (r, s) \<Rightarrow> (rbind r (wire_response co cfg now_ms message), s))"

definition handle_body ::
  "'n node_ops \<Rightarrow> codecs \<Rightarrow> service_config \<Rightarrow> real \<Rightarrow> (real \<Rightarrow> 'n service_env) \<Rightarrow> int \<Rightarrow> Message \<Rightarrow> 'n CrdtService \<Rightarrow>
     Message result \<times> 'n CrdtService" where
  "handle_body ops co cfg request_timeout envs now_ms message s =
     (case msg_type message of
        CRDT_MUTATE_REQUEST \<Rightarrow>
          (case decode_mutation_request (co_mutation_par co) (msg_payload message) of
             Inl e \<Rightarrow> (Inl e, s)
           | Inr request \<Rightarrow>
               if md_forwarded request \<and> md_remaining_ms request \<le> 0
               then (raise DeadlineExceeded ''forwarded CRDT request deadline exceeded'', s)
               else respond co cfg now_ms message (mutate ops cfg
                      (envs (if md_forwarded request then real_of_int (md_remaining_ms request) / 1000 else request_timeout)) request s))
      | CRDT_READ_REQUEST \<Rightarrow>
          (case decode_read_request (co_read_par co) (msg_payload message) of
             Inl e \<Rightarrow> (Inl e, s)
           | Inr request \<Rightarrow>
               if rq_forwarded request \<and> rq_remaining_ms request \<le> 0
               then (raise DeadlineExceeded ''forwarded CRDT request deadline exceeded'', s)
               else respond co cfg now_ms message (service_read ops cfg
                      (envs (if rq_forwarded request then real_of_int (rq_remaining_ms request) / 1000 else request_timeout)) request s))
      | CRDT_REPLICATE \<Rightarrow>
          (case decode_replication (co_state_par co) (msg_payload message) of
             Inl e \<Rightarrow> (Inl e, s)
           | Inr entry \<Rightarrow> respond co cfg now_ms message (replicate_response ops cfg entry s))
      | CRDT_FETCH \<Rightarrow>
          (case decode_fetch_request (co_fetch_par co) (msg_payload message) of
             Inl e \<Rightarrow> (Inl e, s)
           | Inr key \<Rightarrow> respond co cfg now_ms message (fetch_response ops cfg key s))
      | CRDT_DIGEST \<Rightarrow> handle_digest ops co cfg now_ms message s
      | _ \<Rightarrow> respond co cfg now_ms message
               (Inr (error_response ops cfg INVALID_REQUEST (''unsupported CRDT message type: '' @ type_name (msg_type message)) s), s))"

definition handle_error :: "exn \<Rightarrow> (int \<times> string) option" where
  "handle_error e =
     (if exn_cls e = DecodeError then Some (INVALID_REQUEST, exn_msg e)
      else if exn_cls e = DeadlineExceeded then Some (TIMEOUT, ''request deadline exceeded'')
      else if exn_cls e = TypeError \<or> is_ValueError (exn_cls e) then Some (INVALID_REQUEST, exn_msg e)
      else if is_Exception e then Some (INTERNAL_ERROR, ''internal server error'')
      else None)"

definition handle_message ::
  "'n node_ops \<Rightarrow> codecs \<Rightarrow> service_config \<Rightarrow> real \<Rightarrow> (real \<Rightarrow> 'n service_env) \<Rightarrow> int \<Rightarrow> Message \<Rightarrow> 'n CrdtService \<Rightarrow>
     Message result \<times> 'n CrdtService" where
  "handle_message ops co cfg request_timeout envs now_ms message s =
     (case handle_body ops co cfg request_timeout envs now_ms message s of
        (Inr response, s') \<Rightarrow> (Inr response, s')
      | (Inl e, s') \<Rightarrow>
          (case handle_error e of
             None \<Rightarrow> (Inl e, s')
           | Some (code, text) \<Rightarrow> (wire_response co cfg now_ms message (error_response ops cfg code text s'), s')))"

section \<open>Lemmas\<close>

lemma service_replicas_node [simp]:
  "service_replicas cfg key s = (r, s') \<Longrightarrow> sv_node s' = sv_node s \<and> sv_outbox s' = sv_outbox s"
  by (auto simp: service_replicas_def remember_def split: sum.splits)

lemma state_ok_empty: "state_ok (empty_state t) \<and> state_type (empty_state t) = t"
  by (cases t) simp_all

lemma gc_increment_keeps: "gc_increment c a m = Inr d \<Longrightarrow> gc_ok c \<Longrightarrow> gc_ok d"
  using gc_increment_spec(1) [of c m a d] by (cases "1 \<le> m") (simp_all add: gc_increment_def)

lemma apply_mutation_ok:
  assumes "state_ok state" "apply_mutation actor state request dot = Inr next"
  shows "state_ok next \<and> state_type next = md_type request"
  using assms
  by (cases "md_type request"; cases state)
    (auto simp: apply_mutation_def rbind_eq_Inr pn_increment_def pn_decrement_def pn_ok_def
      split: if_splits json.splits dest: gc_increment_keeps)

text \<open>What the locked part of a write would store, given the node it runs on.\<close>

definition previous_version :: "StoredCrdtEntry option \<Rightarrow> VersionVector" where
  "previous_version existing = (case existing of None \<Rightarrow> vv_empty | Some e \<Rightarrow> se_version e)"

definition previous_context :: "StoredCrdtEntry option \<Rightarrow> VersionVector" where
  "previous_context existing = (case existing of None \<Rightarrow> vv_empty | Some e \<Rightarrow> se_context e)"

definition write_seen :: "'n node_ops \<Rightarrow> CrdtMutationData \<Rightarrow> 'n \<Rightarrow> VersionVector" where
  "write_seen ops request n =
     vv_merge (previous_context (no_get ops n (md_key request))) (tok_version (md_token request))"

definition write_dot :: "'n node_ops \<Rightarrow> CrdtMutationData \<Rightarrow> 'n \<Rightarrow> Dot" where
  "write_dot ops request n = alloc_dot (no_clock ops n) (Some (write_seen ops request n))"

definition write_frontier :: "'n node_ops \<Rightarrow> CrdtMutationData \<Rightarrow> 'n \<Rightarrow> VersionVector" where
  "write_frontier ops request n =
     with_dot (alloc_base (no_clock ops n) (Some (write_seen ops request n))) (write_dot ops request n)"

text \<open>\<open>written ops request n e\<close>: the entry \<open>e\<close> is the old one with the mutation applied under a new dot.\<close>

definition written :: "'n node_ops \<Rightarrow> CrdtMutationData \<Rightarrow> 'n \<Rightarrow> StoredCrdtEntry \<Rightarrow> bool" where
  "written ops request n e \<longleftrightarrow>
     (let old = no_get ops n (md_key request); dot = write_dot ops request n in
      se_key e = md_key request \<and> se_type e = md_type request \<and>
      apply_mutation (clk_actor (no_clock ops n))
        (case old of None \<Rightarrow> empty_state (md_type request) | Some x \<Rightarrow> se_state x) request dot = Inr (se_state e) \<and>
      se_version e = with_dot (previous_version old) dot \<and>
      se_context e = with_dot (vv_merge (write_seen ops request n) (write_frontier ops request n)) dot)"

context crdt_node
begin

lemma previous_ok:
  assumes "ok n"
  shows "vv_ok (previous_version (no_get ops n k))" "vv_ok (previous_context (no_get ops n k))"
  using get_ok [OF assms] by (auto simp: previous_version_def previous_context_def entry_ok_def split: option.splits)

lemma write_vectors_ok:
  assumes "ok n" "vv_ok (tok_version (md_token request))"
  shows "vv_ok (write_seen ops request n)" "1 \<le> dot_counter (write_dot ops request n)" "vv_ok (write_frontier ops request n)"
    and "dominates (write_frontier ops request n) (clk_frontier (no_clock ops n))"
    and "vv_get (clk_frontier (no_clock ops n)) (clk_actor (no_clock ops n)) < dot_counter (write_dot ops request n)"
    and "dot_actor (write_dot ops request n) = clk_actor (no_clock ops n)"
proof -
  show seen: "vv_ok (write_seen ops request n)" using previous_ok [OF assms(1)] assms(2) by (simp add: write_seen_def)
  have base: "vv_ok (alloc_base (no_clock ops n) (Some (write_seen ops request n)))"
    using clock_valid [OF assms(1)] seen by (simp add: alloc_base_def clock_ok_def)
  show dot: "1 \<le> dot_counter (write_dot ops request n)" unfolding write_dot_def by (rule alloc_dot_counter_pos [OF base])
  show "vv_ok (write_frontier ops request n)" unfolding write_frontier_def using base dot by simp
  show "dominates (write_frontier ops request n) (clk_frontier (no_clock ops n))"
    unfolding write_frontier_def
    by (rule dominates_trans [OF dominates_with_dot [OF base] dominates_alloc_base])
  show "vv_get (clk_frontier (no_clock ops n)) (clk_actor (no_clock ops n)) < dot_counter (write_dot ops request n)"
    by (simp add: write_dot_def alloc_dot_def alloc_base_def)
  show "dot_actor (write_dot ops request n) = clk_actor (no_clock ops n)"
    by (simp add: write_dot_def alloc_dot_def)
qed

lemma written_ok:
  assumes "ok n" "vv_ok (tok_version (md_token request))" "written ops request n e" "md_key request \<noteq> []"
  shows "entry_ok e"
proof -
  have "state_ok (case no_get ops n (md_key request) of None \<Rightarrow> empty_state (md_type request) | Some x \<Rightarrow> se_state x)"
    using state_ok_empty get_ok [OF assms(1)] by (auto simp: entry_ok_def split: option.splits)
  then show ?thesis
    using assms(3,4) apply_mutation_ok previous_ok [OF assms(1)] write_vectors_ok [OF assms(1,2)]
    by (auto simp: written_def entry_ok_def Let_def)
qed

lemma written_grows:
  assumes "ok n" "vv_ok (tok_version (md_token request))" "written ops request n e"
  shows "dominates (se_context e) (tok_version (md_token request))" "dominates (se_context e) (write_frontier ops request n)"
    and "no_get ops n (md_key request) = Some x \<Longrightarrow> se_type x = md_type request \<Longrightarrow> entry_grows x e"
proof -
  note v = write_vectors_ok [OF assms(1,2)]
  have c: "se_context e = with_dot (vv_merge (write_seen ops request n) (write_frontier ops request n)) (write_dot ops request n)"
    using assms(3) by (simp add: written_def Let_def)
  have ok: "vv_ok (vv_merge (write_seen ops request n) (write_frontier ops request n))" using v by simp
  have dom: "dominates (se_context e) (vv_merge (write_seen ops request n) (write_frontier ops request n))"
    unfolding c by (rule dominates_with_dot [OF ok])
  then show "dominates (se_context e) (tok_version (md_token request))" "dominates (se_context e) (write_frontier ops request n)"
    by (simp_all add: write_seen_def)
  assume x: "no_get ops n (md_key request) = Some x" "se_type x = md_type request"
  have "dominates (se_version e) (se_version x)"
    using assms(3) x(1) dominates_with_dot [OF previous_ok(1) [OF assms(1), of "md_key request"]]
    by (simp add: written_def Let_def previous_version_def)
  moreover have "dominates (se_context e) (se_context x)" using dom x(1) by (simp add: write_seen_def previous_context_def)
  ultimately show "entry_grows x e" using assms(3) x(2) by (simp add: entry_grows_def written_def Let_def)
qed

end

text \<open>The attempt at the next entry, and the locked part in terms of it.\<close>

definition write_attempt :: "'n node_ops \<Rightarrow> CrdtMutationData \<Rightarrow> 'n \<Rightarrow> StoredCrdtEntry result" where
  "write_attempt ops request n =
     (let old = no_get ops n (md_key request); dot = write_dot ops request n in
      rbind (apply_mutation (clk_actor (no_clock ops n))
          (case old of None \<Rightarrow> empty_state (md_type request) | Some x \<Rightarrow> se_state x) request dot) (\<lambda>state.
        StoredCrdtEntry_init (md_key request) (md_type request) state (with_dot (previous_version old) dot)
          (with_dot (vv_merge (write_seen ops request n) (write_frontier ops request n)) dot)))"

lemma mutate_locked_alt:
  "mutate_locked ops request n =
     (if (case no_get ops n (md_key request) of None \<Rightarrow> False | Some e \<Rightarrow> se_type e \<noteq> md_type request)
      then (raise TypeError ''cannot change CRDT type for existing key'', n)
      else case write_attempt ops request n of
             Inl e \<Rightarrow> (Inl e, no_set_clock ops (no_clock ops n) n)
           | Inr entry \<Rightarrow>
               (case no_commit ops n entry (write_frontier ops request n) of
                  (Inl e, n') \<Rightarrow> (Inl e, no_set_clock ops (no_clock ops n) n')
                | (Inr _, n') \<Rightarrow>
                    (Inr entry, no_set_clock ops ((no_clock ops n)\<lparr>clk_frontier := write_frontier ops request n\<rparr>) n')))"
  unfolding mutate_locked_def staged_allocation_alt write_attempt_def write_frontier_def write_dot_def write_seen_def
    previous_context_def previous_version_def Let_def
  by (simp split: sum.splits prod.splits)

lemma write_attempt_written: "write_attempt ops request n = Inr e \<Longrightarrow> written ops request n e \<and> md_key request \<noteq> []"
  by (auto simp: write_attempt_def written_def Let_def rbind_eq_Inr StoredCrdtEntry_init_def split: if_splits)

context crdt_node
begin

lemma mutate_locked_spec:
  assumes "ok n" "vv_ok (tok_version (md_token request))" "mutate_locked ops request n = (r, n')"
  shows "ok n' \<and> node_grows ops n n' \<and>
    (case r of Inl x \<Rightarrow> no_get ops n' = no_get ops n \<and> no_clock ops n' = no_clock ops n
     | Inr e \<Rightarrow> written ops request n e \<and> entry_ok e \<and> no_get ops n' = (no_get ops n)(md_key request \<mapsto> e) \<and>
         no_clock ops n' = (no_clock ops n)\<lparr>clk_frontier := write_frontier ops request n\<rparr>)"
proof -
  let ?clk = "no_clock ops n"
  have clk: "clock_ok ?clk" by (rule clock_valid [OF assms(1)])
  show ?thesis
  proof (cases "case no_get ops n (md_key request) of None \<Rightarrow> False | Some e \<Rightarrow> se_type e \<noteq> md_type request")
    case True
    then show ?thesis using assms(1,3) by (auto simp: mutate_locked_alt)
  next
    case same: False
    show ?thesis
    proof (cases "write_attempt ops request n")
      case (Inl x)
      then have "r = Inl x" "n' = no_set_clock ops ?clk n" using assms(3) same by (simp_all add: mutate_locked_alt)
      then show ?thesis using set_clock [OF assms(1) clk] assms(1) by (auto intro: node_grows_same)
    next
      case (Inr e)
      obtain q n1 where q: "no_commit ops n e (write_frontier ops request n) = (q, n1)"
        by (cases "no_commit ops n e (write_frontier ops request n)")
      have w: "written ops request n e" "entry_ok e" "se_key e = md_key request"
        using write_attempt_written [OF Inr] written_ok [OF assms(1,2)] by (auto simp: written_def Let_def)
      note v = write_vectors_ok [OF assms(1,2)]
      note step = commit_step [OF assms(1) w(2) v(3) q]
      show ?thesis
      proof (cases q)
        case (Inl x)
        then have "r = Inl x" "n' = no_set_clock ops ?clk n1" using assms(3) same Inr q by (simp_all add: mutate_locked_alt)
        then show ?thesis using Inl step set_clock [of n1 ?clk] clk by (auto intro: node_grows_same)
      next
        case m: (Inr m)
        let ?new = "?clk\<lparr>clk_frontier := write_frontier ops request n\<rparr>"
        have r: "r = Inr e" "n' = no_set_clock ops ?new n1" using assms(3) same Inr q m by (simp_all add: mutate_locked_alt)
        have s: "ok n' \<and> no_clock ops n' = ?new \<and> no_get ops n' = (no_get ops n)(md_key request \<mapsto> e)"
          using r(2) m step set_clock [of n1 ?new] v(3) w(3) by (simp add: clock_ok_def)
        have "entry_grows x e" if "no_get ops n (md_key request) = Some x" for x
          using written_grows(3) [OF assms(1,2) w(1) that] same that by simp
        then have "node_grows ops n n'"
          using s v(4) by (intro node_grows_put [where k = "md_key request" and m = e]) (auto simp: clock_grows_def)
        then show ?thesis using r(1) s w by simp
      qed
    qed
  qed
qed

lemma observe_context_spec:
  assumes "ok (sv_node s)" "vv_ok v"
  shows "ok (sv_node (observe_context ops v s))" "no_get ops (sv_node (observe_context ops v s)) = no_get ops (sv_node s)"
    and "service_frontier ops (observe_context ops v s) = vv_merge (service_frontier ops s) v"
    and "node_grows ops (sv_node s) (sv_node (observe_context ops v s))" "sv_outbox (observe_context ops v s) = sv_outbox s"
proof -
  let ?c = "no_clock ops (sv_node s)" let ?d = "?c\<lparr>clk_frontier := vv_merge (clk_frontier ?c) v\<rparr>"
  have "clock_ok ?d" using clock_valid [OF assms(1)] assms(2) by (simp add: clock_ok_def)
  then have set: "ok (no_set_clock ops ?d (sv_node s)) \<and> no_clock ops (no_set_clock ops ?d (sv_node s)) = ?d \<and>
      no_get ops (no_set_clock ops ?d (sv_node s)) = no_get ops (sv_node s)"
    by (rule set_clock [OF assms(1)]) simp
  then show "ok (sv_node (observe_context ops v s))" "no_get ops (sv_node (observe_context ops v s)) = no_get ops (sv_node s)"
    "service_frontier ops (observe_context ops v s) = vv_merge (service_frontier ops s) v"
    by (simp_all add: observe_context_def service_frontier_def)
  show "node_grows ops (sv_node s) (sv_node (observe_context ops v s))"
    using set clock_grows_merge [of ?c v] by (intro node_grows_same) (simp_all add: observe_context_def)
qed (simp add: observe_context_def)

text \<open>A successful answer about \<open>e\<close>: its value, and a token that covers the clock and the entry.\<close>

lemma success_response_spec:
  assumes "ok (sv_node s)" "entry_ok e" "success_response ops cfg e repair include s = (r, s')"
  shows "ok (sv_node s')" "node_grows ops (sv_node s) (sv_node s')" "no_get ops (sv_node s') = no_get ops (sv_node s)"
    "sv_outbox s' = sv_outbox s"
    and "r = Inr resp \<Longrightarrow> rs_success resp \<and> materialize (se_state e) = Inr (rs_value resp) \<and>
      dominates (tok_version (rs_token resp)) (se_context e) \<and> dominates (tok_version (rs_token resp)) (service_frontier ops s) \<and>
      rs_state resp = (if include then Some e else None)"
proof -
  have v: "vv_ok (se_context e)" using assms(2) by (simp add: entry_ok_def)
  have s': "s' = observe_context ops (se_context e) s" using assms(3) by (simp add: success_response_def Let_def)
  note o = observe_context_spec [OF assms(1) v]
  show "ok (sv_node s')" "node_grows ops (sv_node s) (sv_node s')" "no_get ops (sv_node s') = no_get ops (sv_node s)"
    "sv_outbox s' = sv_outbox s"
    unfolding s' by (fact o)+
  show "r = Inr resp \<Longrightarrow> rs_success resp \<and> materialize (se_state e) = Inr (rs_value resp) \<and>
      dominates (tok_version (rs_token resp)) (se_context e) \<and> dominates (tok_version (rs_token resp)) (service_frontier ops s) \<and>
      rs_state resp = (if include then Some e else None)"
    using assms(3) o(3) by (auto simp: success_response_def Let_def rbind_eq_Inr dominates_iff max.coboundedI1)
qed

lemma ensure_by_repair_spec:
  assumes "ok (sv_node s)" "\<forall>peers results. ev_gather env peers = Inr results \<longrightarrow> list_all fetch_ok results"
    and others: "others_keep ops ok (ev_others env)"
    and run: "ensure_by_repair ops cfg env key required s = (r, s')"
  shows "ok (sv_node s') \<and> node_grows ops (sv_node s) (sv_node s') \<and> sv_outbox s' = sv_outbox s \<and>
    (\<forall>x b. r = Inr (x, b) \<longrightarrow> no_get ops (sv_node s') key = x \<and> (\<forall>e. x = Some e \<longrightarrow> dominates (se_context e) required))"
proof -
  obtain q n where q: "ensure ops (sc_selector cfg) (sc_node_id cfg) (ev_gather env) (ev_others env) key required (sv_node s) = (q, n)"
    by (cases "ensure ops (sc_selector cfg) (sc_node_id cfg) (ev_gather env) (ev_others env) key required (sv_node s)")
  note g = ensure_spec [OF assms(1,2) others q]
  have "s' = s\<lparr>sv_node := n\<rparr>" using run q by (auto simp: ensure_by_repair_def split: sum.splits)
  moreover have "no_get ops n key = x \<and> (\<forall>e. x = Some e \<longrightarrow> dominates (se_context e) required)" if "r = Inr (x, b)" for x b
    using run q that by (auto simp: ensure_by_repair_def split: sum.splits option.splits if_splits)
  ultimately show ?thesis using g by simp
qed

lemma ensure_causal_spec:
  assumes "ok (sv_node s)" "\<forall>peers results. ev_gather env peers = Inr results \<longrightarrow> list_all fetch_ok results"
    and others: "others_keep ops ok (ev_others env)"
    and run: "ensure_causal ops cfg env key token need s = (r, s')"
  shows "ok (sv_node s') \<and> node_grows ops (sv_node s) (sv_node s') \<and> sv_outbox s' = sv_outbox s \<and>
    (\<forall>x b. r = Inr (x, b) \<longrightarrow> no_get ops (sv_node s') key = x \<and>
       (\<forall>e. x = Some e \<longrightarrow> dominates (se_context e) (tok_version token)))"
proof -
  let ?now = "no_get ops (sv_node s) key" and ?req = "tok_version token"
  show ?thesis
  proof (cases "(case ?now of None \<Rightarrow> False | Some e \<Rightarrow> dominates (se_context e) ?req) \<or>
      ?now = None \<and> \<not> vv_bool ?req \<and> \<not> need")
    case True
    then have "s' = s" "\<exists>b. r = Inr (?now, b)" using run by (auto simp: ensure_causal_def Let_def split: option.splits)
    then show ?thesis using assms(1) True by (auto split: option.splits)
  next
    case False
    obtain q s1 where q: "service_replicas cfg key s = (q, s1)" by (cases "service_replicas cfg key s")
    have s1: "sv_node s1 = sv_node s" "sv_outbox s1 = sv_outbox s" using q by auto
    have "(isl r \<and> s' = s1) \<or> (?now = None \<and> s' = s1 \<and> (\<exists>b. r = Inr (None, b))) \<or>
        ensure_by_repair ops cfg env key ?req s1 = (r, s')"
      using run False q by (auto simp: ensure_causal_def Let_def isl_def split: sum.splits if_splits)
    then show ?thesis
    proof (elim disjE conjE)
      assume "ensure_by_repair ops cfg env key ?req s1 = (r, s')"
      from ensure_by_repair_spec [OF _ assms(2) others this] show ?thesis using assms(1) s1 by simp
    qed (use assms(1) s1 in \<open>auto simp: isl_def\<close>)
  qed
qed

end

text \<open>A published entry waits for its peer: its pair is in the queue, or a worker holds it and will find it newer.\<close>

definition queued_for :: "ReplicationOutbox \<Rightarrow> string \<Rightarrow> StoredCrdtEntry \<Rightarrow> bool" where
  "queued_for box peer e =
     (case map_of (ob_pending box) (peer, se_key e) of
        None \<Rightarrow> False
      | Some x \<Rightarrow> pe_state x = Some e \<and> (pe_queued x \<or> pe_in_flight x))"

lemma publish_loop_stores:
  assumes "publish_loop states ps d to_queue = (Inr qs, d')" "distinct ps"
  shows "p \<notin> set ps \<Longrightarrow> map_of d' p = map_of d p"
    and "p \<in> set ps \<Longrightarrow> \<exists>x. map_of d' p = Some x \<and> pe_state x = states (snd p) \<and> pe_state x \<noteq> None \<and> (pe_queued x \<or> pe_in_flight x)"
  using assms
proof (induction states ps d to_queue rule: publish_loop.induct)
  case (2 states q ps d to_queue)
  { case 1
    then show ?case using "2.IH" by (auto simp: Let_def split: option.splits if_splits) }
  { case 2
    then show ?case using "2.IH" by (cases "p = q") (auto simp: Let_def split: option.splits if_splits) }
qed auto

lemma mutate_reserved_queues:
  assumes "mutate_reserved ops request reservation s = (Inr e, s')" "distinct (rv_pairs reservation)"
    and "(peer, se_key e) \<in> set (rv_pairs reservation)"
  shows "queued_for (sv_outbox s') peer e"
proof -
  have pub: "publish_write (sv_outbox s) reservation e = (Inr (), sv_outbox s')"
    using assms(1) by (auto simp: mutate_reserved_def Let_def rbind_eq_Inr split: sum.splits prod.splits)
  obtain q d where loop: "publish_loop [se_key e \<mapsto> e] (rv_pairs reservation) (ob_pending (sv_outbox s)) [] = (q, d)"
    by (cases "publish_loop [se_key e \<mapsto> e] (rv_pairs reservation) (ob_pending (sv_outbox s)) []")
  obtain qs where q: "q = Inr qs" using pub loop by (cases q) (auto simp: publish_write_def publish_def)
  have "ob_pending (sv_outbox s') = ob_pending (snd (publish_write (sv_outbox s) reservation e))" using pub by simp
  then have "ob_pending (sv_outbox s') = d" using loop q by (simp add: publish_write_def publish_def)
  with publish_loop_stores(2) [OF loop [unfolded q] assms(2,3)] show ?thesis by (auto simp: queued_for_def)
qed

definition queued_everywhere :: "service_config \<Rightarrow> ReplicationOutbox \<Rightarrow> StoredCrdtEntry \<Rightarrow> bool" where
  "queued_everywhere cfg box e \<longleftrightarrow> (\<forall>members. replicas (sc_selector cfg) (se_key e) = Inr members \<longrightarrow>
     (\<forall>m \<in> set members. cm_node m \<noteq> sc_node_id cfg \<longrightarrow> queued_for box (cm_node m) e))"

text \<open>How far the body of a write gets.\<close>

lemma mutate_body_cases:
  assumes run: "mutate_body ops cfg env request s = (r, s')"
    and q: "ensure_causal ops cfg env (md_key request) (md_token request) (md_operation request = ''remove'') s = (q, s1)"
  obtains (stop) "sv_node s' = sv_node s1" "isl r"
    | (fail) reservation s2 x where "sv_node s2 = ev_others env (sv_node s1)"
        "mutate_reserved ops request reservation s2 = (Inl x, s')" "r = Inl x"
    | (success) reservation s2 e s3 repair members where "sv_node s2 = ev_others env (sv_node s1)"
        "mutate_reserved ops request reservation s2 = (Inr e, s3)" "success_response ops cfg e repair False s3 = (r, s')"
        "replicas (sc_selector cfg) (md_key request) = Inr members"
        "\<And>m. m \<in> set members \<Longrightarrow> cm_node m \<noteq> sc_node_id cfg \<Longrightarrow> (cm_node m, md_key request) \<in> set (rv_pairs reservation)"
        "distinct (rv_pairs reservation)"
proof (cases q)
  case (Inl x)
  then show ?thesis using run q by (intro stop) (auto simp: mutate_body_def isl_def)
next
  case (Inr xb)
  obtain x b where xb: "xb = (x, b)" by (cases xb)
  show ?thesis
  proof (cases "case x of None \<Rightarrow> False | Some e \<Rightarrow> se_type e \<noteq> md_type request")
    case True
    then show ?thesis using run q Inr xb by (intro stop) (auto simp: mutate_body_def isl_def)
  next
    case same: False
    obtain q2 s2 where q2: "service_replicas cfg (md_key request) s1 = (q2, s2)" by (cases "service_replicas cfg (md_key request) s1")
    have s2: "sv_node s2 = sv_node s1" "sv_outbox s2 = sv_outbox s1" using q2 by auto
    show ?thesis
    proof (cases q2)
      case Inl2: (Inl e)
      then show ?thesis using run q Inr xb same q2 s2 by (intro stop) (auto simp: mutate_body_def isl_def)
    next
      case Inr2: (Inr members)
      obtain q3 box where q3: "reserve_write (sc_node_id cfg) (sv_outbox s2) (md_key request) (map cm_node members) = (q3, box)"
        by (cases "reserve_write (sc_node_id cfg) (sv_outbox s2) (md_key request) (map cm_node members)")
      show ?thesis
      proof (cases q3)
        case Inl3: (Inl e)
        then show ?thesis using run q Inr xb same q2 Inr2 q3 s2 by (intro stop) (auto simp: mutate_body_def isl_def)
      next
        case Inr3: (Inr reservation)
        let ?s = "s2\<lparr>sv_outbox := box, sv_node := ev_others env (sv_node s2)\<rparr>"
        obtain q4 s4 where q4: "mutate_reserved ops request reservation ?s = (q4, s4)" by (cases "mutate_reserved ops request reservation ?s")
        have node: "sv_node ?s = ev_others env (sv_node s1)" using s2 by simp
        have body: "mutate_body ops cfg env request s =
            (case q4 of Inl e \<Rightarrow> (Inl e, s4) | Inr entry \<Rightarrow> success_response ops cfg entry b False s4)"
          using q Inr xb same q2 Inr2 q3 Inr3 q4 by (simp add: mutate_body_def split: sum.splits)
        have members: "replicas (sc_selector cfg) (md_key request) = Inr members"
          using q2 Inr2 by (cases "replicas (sc_selector cfg) (md_key request)") (simp_all add: service_replicas_def)
        have pairs: "rv_pairs reservation =
            from_keys (map (\<lambda>i. (i, md_key request)) (filter (\<lambda>i. i \<noteq> sc_node_id cfg) (map cm_node members)))"
          using q3 Inr3 by (auto simp: reserve_write_def reserve_def Let_def split: if_splits)
        show ?thesis
        proof (cases q4)
          case Inl4: (Inl e)
          then show ?thesis using run body q4 by (intro fail [OF node]) auto
        next
          case Inr4: (Inr e)
          then show ?thesis using run body q4 members pairs by (intro success [OF node]) (auto simp: from_keys_def)
        qed
      qed
    qed
  qed
qed

context crdt_node
begin

text \<open>
  The part of a write after its admission: all or nothing. The store shows either what it
  showed, or the written entry besides.
\<close>

lemma mutate_reserved_spec:
  assumes "ok (sv_node s)" "vv_ok (tok_version (md_token request))" "mutate_reserved ops request reservation s = (r, s')"
  shows "ok (sv_node s') \<and> node_grows ops (sv_node s) (sv_node s') \<and>
    (no_get ops (sv_node s') = no_get ops (sv_node s) \<and> isl r \<or>
     (\<exists>e. written ops request (sv_node s) e \<and> entry_ok e \<and> no_get ops (sv_node s') = (no_get ops (sv_node s))(md_key request \<mapsto> e) \<and>
        service_frontier ops s' = write_frontier ops request (sv_node s) \<and> (\<forall>x. r = Inr x \<longrightarrow> x = e)))"
proof -
  obtain q n where q: "mutate_locked ops request (sv_node s) = (q, n)" by (cases "mutate_locked ops request (sv_node s)")
  note m = mutate_locked_spec [OF assms(1,2) q]
  have node: "sv_node s' = n"
    using assms(3) q by (auto simp: mutate_reserved_def Let_def split: sum.splits prod.splits)
  show ?thesis
  proof (cases q)
    case (Inl x)
    then have "r = Inl x" using assms(3) q by (auto simp: mutate_reserved_def Let_def)
    then show ?thesis using m node Inl by (simp add: isl_def)
  next
    case (Inr e)
    have "\<forall>x. r = Inr x \<longrightarrow> x = e"
      using assms(3) q Inr by (auto simp: mutate_reserved_def Let_def rbind_eq_Inr split: sum.splits prod.splits)
    then show ?thesis using m node Inr by (simp add: service_frontier_def) blast
  qed
qed

lemma mutate_body_spec:
  assumes "ok (sv_node s)" "vv_ok (tok_version (md_token request))"
    and "\<forall>peers results. ev_gather env peers = Inr results \<longrightarrow> list_all fetch_ok results"
    and others: "others_keep ops ok (ev_others env)" and run: "mutate_body ops cfg env request s = (r, s')"
  shows "ok (sv_node s') \<and> (\<exists>n. ok n \<and> node_grows ops (sv_node s) n \<and> node_grows ops n (sv_node s') \<and>
    (no_get ops (sv_node s') = no_get ops n \<and> isl r \<or>
     (\<exists>e. written ops request n e \<and> no_get ops (sv_node s') = (no_get ops n)(md_key request \<mapsto> e) \<and>
        (\<forall>resp. r = Inr resp \<longrightarrow> rs_success resp \<and> materialize (se_state e) = Inr (rs_value resp) \<and>
           dominates (tok_version (rs_token resp)) (se_context e) \<and> queued_everywhere cfg (sv_outbox s') e))))"
    (is "?P s'")
proof -
  obtain q s1 where q: "ensure_causal ops cfg env (md_key request) (md_token request) (md_operation request = ''remove'') s = (q, s1)"
    by (cases "ensure_causal ops cfg env (md_key request) (md_token request) (md_operation request = ''remove'') s")
  note a = ensure_causal_spec [OF assms(1,3) others q]
  have stop': "?P s'" if "sv_node s' = sv_node s1" "isl r"
    using a that by (auto intro!: exI [of _ "sv_node s1"])
  show ?thesis
  proof (cases rule: mutate_body_cases [OF run q, consumes 0, case_names stop fail success])
    case stop
    then show ?thesis by (rule stop')
  next
    case (fail reservation s2 x)
    note o = others_keepD [OF others conjunct1 [OF a]]
    note m = mutate_reserved_spec [OF _ assms(2) fail(2)]
    have "node_grows ops (sv_node s) (sv_node s2)"
      unfolding fail(1) by (rule node_grows_trans [of _ _ "sv_node s1"]) (use a o in auto)
    then show ?thesis using m o fail by (intro conjI exI [of _ "sv_node s2"]) auto
  next
    case (success reservation s2 e s3 repair members)
    note o = others_keepD [OF others conjunct1 [OF a]]
    have ok2: "ok (sv_node s2)" using o success(1) by simp
    note m = mutate_reserved_spec [OF ok2 assms(2) success(2)]
    then have e': "entry_ok e" "written ops request (sv_node s2) e"
      "no_get ops (sv_node s3) = (no_get ops (sv_node s2))(md_key request \<mapsto> e)" by auto
    have ok3: "ok (sv_node s3)" using m by simp
    note t = success_response_spec [OF ok3 e'(1) success(3)]
    have g: "node_grows ops (sv_node s) (sv_node s2)"
      unfolding success(1) by (rule node_grows_trans [of _ _ "sv_node s1"]) (use a o in auto)
    have h: "node_grows ops (sv_node s2) (sv_node s')"
      by (rule node_grows_trans [of _ _ "sv_node s3"]) (use m t in auto)
    have key: "se_key e = md_key request" using e'(2) by (simp add: written_def Let_def)
    have "queued_everywhere cfg (sv_outbox s') e"
      using success(4,5) mutate_reserved_queues [OF success(2,6)] key t(4) by (auto simp: queued_everywhere_def)
    then show ?thesis using t e' g h ok2 by (intro conjI exI [of _ "sv_node s2"] disjI2 exI [of _ e]) auto
  qed
qed

lemma read_body_spec:
  assumes "ok (sv_node s)"
    and "\<forall>peers results. ev_gather env peers = Inr results \<longrightarrow> list_all fetch_ok results"
    and others: "others_keep ops ok (ev_others env)" and run: "read_body ops cfg env request s = (r, s')"
  shows "ok (sv_node s') \<and> node_grows ops (sv_node s) (sv_node s') \<and> (\<forall>resp. r = Inr resp \<and> rs_success resp \<longrightarrow>
    (\<exists>e. no_get ops (sv_node s') (rq_key request) = Some e \<and> dominates (se_context e) (tok_version (rq_token request)) \<and>
       materialize (se_state e) = Inr (rs_value resp) \<and> dominates (tok_version (rs_token resp)) (se_context e)))"
proof (cases "no_get ops (sv_node s) (rq_key request) = None \<and> \<not> vv_bool (tok_version (rq_token request))")
  case True
  then show ?thesis using run assms(1) by (auto simp: read_body_def error_response_def)
next
  case False
  obtain q s1 where q: "ensure_causal ops cfg env (rq_key request) (rq_token request) True s = (q, s1)"
    by (cases "ensure_causal ops cfg env (rq_key request) (rq_token request) True s")
  note a = ensure_causal_spec [OF assms(1,2) others q]
  consider x where "q = Inl x" | b where "q = Inr (None, b)" | e b where "q = Inr (Some e, b)"
    by (cases q) (auto, metis not_None_eq)
  then show ?thesis
  proof cases
    case 1
    then show ?thesis using run False q a by (auto simp: read_body_def)
  next
    case 2
    then show ?thesis using run False q a by (auto simp: read_body_def error_response_def)
  next
    case 3
    have get: "no_get ops (sv_node s1) (rq_key request) = Some e" "dominates (se_context e) (tok_version (rq_token request))"
      using a 3 by simp_all
    have "success_response ops cfg e b False s1 = (r, s')" using run False q 3 by (auto simp: read_body_def)
    note t = success_response_spec [OF conjunct1 [OF a] _ this]
    have e: "entry_ok e" using get_ok [OF conjunct1 [OF a] get(1)] by simp
    have "node_grows ops (sv_node s) (sv_node s')"
      by (rule node_grows_trans [of _ _ "sv_node s1"]) (use a t(2) e in auto)
    then show ?thesis using t e get by auto
  qed
qed

end

text \<open>The node is one of the replicas of the key, so a request for it is served here.\<close>

definition serves :: "service_config \<Rightarrow> string \<Rightarrow> bool" where
  "serves cfg key \<longleftrightarrow> (\<exists>members. replicas (sc_selector cfg) key = Inr members \<and>
     list_ex (\<lambda>m. cm_node m = sc_node_id cfg) members)"

lemma route_local:
  assumes "serves cfg key"
  obtains s1 where "route_request label ops cfg env key forwarded s = (Inr None, s1)" "sv_node s1 = sv_node s" "sv_outbox s1 = sv_outbox s"
proof -
  obtain members where m: "replicas (sc_selector cfg) key = Inr members" "list_ex (\<lambda>m. cm_node m = sc_node_id cfg) members"
    using assms by (auto simp: serves_def)
  have "route_request label ops cfg env key forwarded s = (Inr None, remember members s)"
    using m by (cases members) (simp_all add: route_request_def service_replicas_def)
  then show ?thesis by (rule that) (simp_all add: remember_def)
qed

definition acknowledged :: "CrdtResponseData result \<Rightarrow> bool" where
  "acknowledged r = (case r of Inl e \<Rightarrow> False | Inr resp \<Rightarrow> rs_success resp)"

lemma answer_error_cases:
  assumes "answer_error ops cfg catch (q, s) = (r, s')"
  shows "s' = s" "acknowledged r \<longrightarrow> r = q" "isl q \<longrightarrow> \<not> acknowledged r"
  using assms
  by (auto simp: answer_error_def acknowledged_def error_response_def split: sum.splits option.splits prod.splits)

context crdt_node
begin

lemma mutate_spec:
  assumes "ok (sv_node s)" "vv_ok (tok_version (md_token request))" "serves cfg (md_key request)"
    and "\<forall>peers results. ev_gather env peers = Inr results \<longrightarrow> list_all fetch_ok results"
    and "others_keep ops ok (ev_others env)" and run: "mutate ops cfg env request s = (r, s')"
  shows "ok (sv_node s') \<and> (\<exists>n. ok n \<and> node_grows ops (sv_node s) n \<and> node_grows ops n (sv_node s') \<and>
    (no_get ops (sv_node s') = no_get ops n \<and> \<not> acknowledged r \<or>
     (\<exists>e. written ops request n e \<and> no_get ops (sv_node s') = (no_get ops n)(md_key request \<mapsto> e) \<and>
        (\<forall>resp. r = Inr resp \<and> rs_success resp \<longrightarrow> materialize (se_state e) = Inr (rs_value resp) \<and>
           dominates (tok_version (rs_token resp)) (se_context e) \<and> queued_everywhere cfg (sv_outbox s') e))))"
proof -
  obtain s1 where s1: "route_mutation ops cfg env request s = (Inr None, s1)" "sv_node s1 = sv_node s"
    unfolding route_mutation_def by (rule route_local [OF assms(3)])
  obtain q s2 where q: "mutate_body ops cfg env request s1 = (q, s2)" by (cases "mutate_body ops cfg env request s1")
  have "answer_error ops cfg mutate_error (q, s2) = (r, s')" using run s1(1) q by (simp add: mutate_def)
  note a = answer_error_cases [OF this]
  have b: "r = Inr resp \<and> rs_success resp \<Longrightarrow> q = Inr resp" for resp using a(2) by (simp add: acknowledged_def)
  have "ok (sv_node s1)" using assms(1) s1(2) by simp
  from mutate_body_spec [OF this assms(2,4,5) q] show ?thesis unfolding a(1) s1(2) using a(3) b by fast
qed

lemma service_read_spec:
  assumes "ok (sv_node s)" "serves cfg (rq_key request)"
    and "\<forall>peers results. ev_gather env peers = Inr results \<longrightarrow> list_all fetch_ok results"
    and "others_keep ops ok (ev_others env)" and run: "service_read ops cfg env request s = (r, s')"
  shows "ok (sv_node s') \<and> node_grows ops (sv_node s) (sv_node s') \<and> (\<forall>resp. r = Inr resp \<and> rs_success resp \<longrightarrow>
    (\<exists>e. no_get ops (sv_node s') (rq_key request) = Some e \<and> dominates (se_context e) (tok_version (rq_token request)) \<and>
       materialize (se_state e) = Inr (rs_value resp) \<and> dominates (tok_version (rs_token resp)) (se_context e)))"
proof -
  obtain s1 where s1: "route_read ops cfg env request s = (Inr None, s1)" "sv_node s1 = sv_node s"
    unfolding route_read_def by (rule route_local [OF assms(2)])
  obtain q s2 where q: "read_body ops cfg env request s1 = (q, s2)" by (cases "read_body ops cfg env request s1")
  have "answer_error ops cfg read_error (q, s2) = (r, s')" using run s1(1) q by (simp add: service_read_def)
  note a = answer_error_cases [OF this]
  have b: "r = Inr resp \<and> rs_success resp \<Longrightarrow> q = Inr resp" for resp using a(2) by (simp add: acknowledged_def)
  have "ok (sv_node s1)" using assms(1) s1(2) by simp
  from read_body_spec [OF this assms(3,4) q] show ?thesis unfolding a(1) s1(2) using b by fast
qed

end

section \<open>Writes and reads of a durable node\<close>

text \<open>C3: A write on a replica is atomic and causal, whatever its persistence meets, whatever the
  peers answer and whatever other tasks store in between. Nothing known is lost. From the
  node as the write finds it, either no entry changes, or exactly the key of the request
  takes the old state with the mutation applied under a dot that the node's clock had never
  given. A write that is acknowledged was applied; it returns the value of the new state and
  a token that covers the request's token, the new dot and the node's frontier; and it is
  queued for every other replica of the key.\<close>

theorem service_write_atomic:
  assumes "durable_ok (sv_node s)" "vv_ok (tok_version (md_token request))" "serves cfg (md_key request)"
    and "\<forall>peers results. ev_gather env peers = Inr results \<longrightarrow> list_all fetch_ok results"
    and "others_keep durable_ops durable_ok (ev_others env)"
    and "mutate durable_ops cfg env request s = (r, s')"
  shows "durable_ok (sv_node s') \<and> (\<exists>n. node_grows durable_ops (sv_node s) n \<and> node_grows durable_ops n (sv_node s') \<and>
    vv_get (clk_frontier (no_clock durable_ops n)) (clk_actor (no_clock durable_ops n)) < dot_counter (write_dot durable_ops request n) \<and>
    (no_get durable_ops (sv_node s') = no_get durable_ops n \<and> \<not> acknowledged r \<or>
     (\<exists>e. written durable_ops request n e \<and> no_get durable_ops (sv_node s') = (no_get durable_ops n)(md_key request \<mapsto> e) \<and>
        (\<forall>resp. r = Inr resp \<and> rs_success resp \<longrightarrow> materialize (se_state e) = Inr (rs_value resp) \<and>
           dominates (tok_version (rs_token resp)) (tok_version (md_token request)) \<and>
           dominates (tok_version (rs_token resp)) (write_frontier durable_ops request n) \<and>
           queued_everywhere cfg (sv_outbox s') e))))"
proof -
  from dur.mutate_spec [OF assms] obtain n where n: "durable_ok n" and rest: "durable_ok (sv_node s')"
    "node_grows durable_ops (sv_node s) n" "node_grows durable_ops n (sv_node s')"
    "no_get durable_ops (sv_node s') = no_get durable_ops n \<and> \<not> acknowledged r \<or>
     (\<exists>e. written durable_ops request n e \<and> no_get durable_ops (sv_node s') = (no_get durable_ops n)(md_key request \<mapsto> e) \<and>
        (\<forall>resp. r = Inr resp \<and> rs_success resp \<longrightarrow> materialize (se_state e) = Inr (rs_value resp) \<and>
           dominates (tok_version (rs_token resp)) (se_context e) \<and> queued_everywhere cfg (sv_outbox s') e))"
    by blast
  note grows = dur.written_grows [OF n assms(2)]
  have cover: "dominates t (tok_version (md_token request)) \<and> dominates t (write_frontier durable_ops request n)"
    if "written durable_ops request n e" "dominates t (se_context e)" for t e
    using dominates_trans [OF that(2) grows(1) [OF that(1)]] dominates_trans [OF that(2) grows(2) [OF that(1)]] by simp
  note kept = rest(1-3) dur.write_vectors_ok(5) [OF n assms(2)]
  show ?thesis
  proof (cases "no_get durable_ops (sv_node s') = no_get durable_ops n \<and> \<not> acknowledged r")
    case True
    with kept show ?thesis by (intro conjI exI [of _ n] disjI1) simp_all
  next
    case False
    with rest(4) obtain e where e: "written durable_ops request n e"
      "no_get durable_ops (sv_node s') = (no_get durable_ops n)(md_key request \<mapsto> e)"
      "\<forall>resp. r = Inr resp \<and> rs_success resp \<longrightarrow> materialize (se_state e) = Inr (rs_value resp) \<and>
         dominates (tok_version (rs_token resp)) (se_context e) \<and> queued_everywhere cfg (sv_outbox s') e"
      by meson
    with kept cover [OF e(1)] show ?thesis by (intro conjI exI [of _ n] disjI2 exI [of _ e]) auto
  qed
qed

definition example_config :: service_config where
  "example_config = \<lparr>sc_node_id = ''c'', sc_selector = repair_selector, sc_batch_size = 10\<rparr>"

definition example_env :: "DurableNode service_env" where
  "example_env = \<lparr>ev_forward = \<lambda>_. raise ConnectionError [], ev_gather = \<lambda>_. Inr [], ev_others = \<lambda>n. n\<rparr>"

definition example_service :: "DurableNode CrdtService" where
  "example_service = \<lparr>sv_node = repair_node, sv_outbox = \<lparr>ob_capacity = 1, ob_pending = [], ob_ready = []\<rparr>, sv_peer_cache = []\<rparr>"

definition example_write :: CrdtMutationData where
  "example_write =
     \<lparr>md_key = ''k'', md_type = GCOUNTER, md_operation = ''increment'', md_value = JNull, md_amount = 2, md_token = token_empty,
      md_forwarded = False, md_origin = [], md_remaining_ms = 0\<rparr>"

lemma example_replicas: "replicas repair_selector key = Inr [repair_peer]"
  by (simp add: replicas_def candidates_def repair_selector_def repair_peer_def Let_def)

lemma example_serves: "serves example_config key"
  by (simp add: serves_def example_config_def example_replicas repair_peer_def)

lemma example_ok:
  "durable_ok (sv_node example_service)" "others_keep durable_ops durable_ok (ev_others example_env)"
  "\<forall>peers results. ev_gather example_env peers = Inr results \<longrightarrow> list_all fetch_ok results"
  by (simp_all add: durable_ok_def repair_node_def store_ok_def CrdtStore_init_def clock_ok_def CausalClock_init_def
      example_service_def example_env_def others_keep_id)

text \<open>The write and a read after it, without the hash of the key.\<close>

definition example_written :: "CrdtResponseData result \<times> DurableNode CrdtService" where
  "example_written =
     (case mutate_reserved durable_ops example_write \<lparr>rv_pairs = [], rv_created = []\<rparr> (remember [repair_peer] example_service) of
        (Inl e, s) \<Rightarrow> (Inl e, s)
      | (Inr entry, s) \<Rightarrow> success_response durable_ops example_config entry False False s)"

lemma example_mutate: "mutate durable_ops example_config example_env example_write example_service =
    answer_error durable_ops example_config mutate_error example_written"
proof -
  have route: "route_mutation durable_ops example_config example_env example_write example_service =
      (Inr None, remember [repair_peer] example_service)"
    by (simp add: route_mutation_def route_request_def service_replicas_def example_config_def example_replicas)
      (simp add: repair_peer_def)
  have new: "ensure_causal durable_ops example_config example_env (md_key example_write) (md_token example_write) False
      (remember [repair_peer] example_service) = (Inr (None, False), remember [repair_peer] example_service)"
  proof -
    have "no_get durable_ops (sv_node (remember [repair_peer] example_service)) (md_key example_write) = None"
      "\<not> vv_bool (tok_version (md_token example_write))"
      by code_simp+
    then show ?thesis by (simp add: ensure_causal_def)
  qed
  have again: "remember [repair_peer] (remember [repair_peer] example_service) = remember [repair_peer] example_service"
    by (simp add: remember_def example_service_def)
  have reserve: "reserve_write ''c'' (sv_outbox (remember [repair_peer] example_service)) (md_key example_write) [''c''] =
      (Inr \<lparr>rv_pairs = [], rv_created = []\<rparr>, sv_outbox (remember [repair_peer] example_service))"
    by code_simp
  have op: "(md_operation example_write = ''remove'') = False" by code_simp
  have node: "cm_node repair_peer = ''c''" by (simp add: repair_peer_def)
  show ?thesis
    unfolding mutate_def route example_written_def
    by (simp add: mutate_body_def op new service_replicas_def again)
      (simp add: example_config_def example_replicas again node reserve example_env_def)
qed

lemma example_written_value:
  obtains resp s where "example_written = (Inr resp, s)" "rs_success resp" "rs_value resp = JInt 2"
proof -
  have "case example_written of (Inr resp, s) \<Rightarrow> rs_success resp \<and> rs_value resp = JInt 2 | _ \<Rightarrow> False" by code_simp
  then show ?thesis using that by (auto split: prod.splits sum.splits)
qed

theorem service_write_atomic_witness:
  "\<exists>resp s' n e. mutate durable_ops example_config example_env example_write example_service = (Inr resp, s') \<and>
     rs_success resp \<and> rs_value resp = JInt 2 \<and> written durable_ops example_write n e \<and>
     no_get durable_ops (sv_node s') = (no_get durable_ops n)(''k'' \<mapsto> e) \<and> queued_everywhere example_config (sv_outbox s') e"
proof -
  obtain resp s' where w: "example_written = (Inr resp, s')" "rs_success resp" "rs_value resp = JInt 2"
    by (rule example_written_value)
  have run: "mutate durable_ops example_config example_env example_write example_service = (Inr resp, s')"
    unfolding example_mutate w(1) by (simp add: answer_error_def)
  have "vv_ok (tok_version (md_token example_write))" "md_key example_write = ''k''"
    by (simp_all add: example_write_def token_empty_def)
  then show ?thesis
    using service_write_atomic [OF example_ok(1) _ example_serves example_ok(3,2) run] w run by (auto simp: acknowledged_def)
qed

text \<open>C7: A read on a replica is causal: when it is answered, the entry it answers from is the one
  the node now holds, its causal context dominates the token of the request, the value is
  the value of its state and the new token covers it. Whatever the outcome, nothing known is
  lost.\<close>

theorem service_read_causal:
  assumes "durable_ok (sv_node s)" "serves cfg (rq_key request)"
    and "\<forall>peers results. ev_gather env peers = Inr results \<longrightarrow> list_all fetch_ok results"
    and "others_keep durable_ops durable_ok (ev_others env)"
    and "service_read durable_ops cfg env request s = (r, s')"
  shows "durable_ok (sv_node s') \<and> node_grows durable_ops (sv_node s) (sv_node s') \<and>
    (\<forall>resp. r = Inr resp \<and> rs_success resp \<longrightarrow>
      (\<exists>e. no_get durable_ops (sv_node s') (rq_key request) = Some e \<and>
         dominates (se_context e) (tok_version (rq_token request)) \<and>
         materialize (se_state e) = Inr (rs_value resp) \<and> dominates (tok_version (rs_token resp)) (se_context e)))"
  by (rule dur.service_read_spec [OF assms])

definition example_read :: CrdtReadData where
  "example_read =
     \<lparr>rq_key = ''k'', rq_token = CausalToken (VersionVector [(CausalActor ''b'' 1, 1)]), rq_forwarded = False, rq_origin = [],
      rq_remaining_ms = 0\<rparr>"

lemma example_service_read:
  "service_read durable_ops example_config example_env example_read s =
     answer_error durable_ops example_config read_error
       (read_body durable_ops example_config example_env example_read (remember [repair_peer] s))"
  by (simp add: service_read_def route_read_def route_request_def service_replicas_def example_config_def example_replicas)
    (simp add: repair_peer_def)

theorem service_read_causal_witness:
  "\<exists>resp s' e. service_read durable_ops example_config example_env example_read (snd example_written) = (Inr resp, s') \<and>
     rs_value resp = JInt 2 \<and> no_get durable_ops (sv_node s') ''k'' = Some e \<and>
     dominates (se_context e) (VersionVector [(CausalActor ''b'' 1, 1)])"
proof -
  let ?s = "snd example_written"
  obtain resp0 s0 where w: "example_written = (Inr resp0, s0)" by (rule example_written_value)
  have vv: "vv_ok (tok_version (md_token example_write))" by (simp add: example_write_def token_empty_def)
  have "mutate durable_ops example_config example_env example_write example_service = (Inr resp0, s0)"
    unfolding example_mutate w by (simp add: answer_error_def)
  from dur.mutate_spec [OF example_ok(1) vv example_serves example_ok(3,2) this] have ok: "durable_ok (sv_node ?s)"
    unfolding w by simp
  have "case answer_error durable_ops example_config read_error
      (read_body durable_ops example_config example_env example_read (remember [repair_peer] ?s)) of
        (Inr resp, s) \<Rightarrow> rs_success resp \<and> rs_value resp = JInt 2 | _ \<Rightarrow> False"
    by code_simp
  then obtain resp s' where r: "service_read durable_ops example_config example_env example_read ?s = (Inr resp, s')"
    "rs_success resp" "rs_value resp = JInt 2"
    by (auto simp: example_service_read split: prod.splits sum.splits)
  have "rq_key example_read = ''k''" "tok_version (rq_token example_read) = VersionVector [(CausalActor ''b'' 1, 1)]"
    by (simp_all add: example_read_def)
  then show ?thesis
    using service_read_causal [OF ok example_serves example_ok(3,2) r(1)] r by auto
qed

end
