(* ===== verification/Crdt_Handler.thy ===== *)
theory Crdt_Handler
  imports Crdt_Service
begin

text \<open>
  What the message handler of the CRDT service (\<^verbatim>\<open>handle_message\<close> of
  \<^verbatim>\<open>src/src/distsys/crdt_service.py\<close>) ensures for every message, well formed or not: an
  answer to the request it was asked, and a node that stays well formed and loses nothing.
\<close>

section \<open>Requests served elsewhere\<close>

lemma route_request_node:
  assumes "route_request label ops cfg env key forwarded s = (q, s1)"
  shows "sv_node s1 = sv_node s"
proof -
  obtain x s2 where x: "service_replicas cfg key s = (x, s2)" by (cases "service_replicas cfg key s")
  have "s1 = s2"
  proof (cases x)
    case (Inr members)
    then show ?thesis using assms x
      by (cases members) (auto simp: route_request_def split: if_splits sum.splits exn_class.splits runtime_error.splits)
  qed (use assms x in \<open>simp add: route_request_def\<close>)
  then show ?thesis using x by auto
qed

lemma answer_error_node: "answer_error ops cfg catch (q, s) = (r, s') \<Longrightarrow> s' = s"
  by (rule answer_error_cases(1))

context crdt_node
begin

lemma mutate_keeps:
  assumes "ok (sv_node s)" "vv_ok (tok_version (md_token request))"
    and "\<forall>peers results. ev_gather env peers = Inr results \<longrightarrow> list_all fetch_ok results"
    and "others_keep ops ok (ev_others env)" and run: "mutate ops cfg env request s = (r, s')"
  shows "ok (sv_node s') \<and> node_grows ops (sv_node s) (sv_node s')"
proof -
  obtain q s1 where q: "route_mutation ops cfg env request s = (q, s1)" by (cases "route_mutation ops cfg env request s")
  have s1: "sv_node s1 = sv_node s" using q route_request_node by (auto simp: route_mutation_def)
  show ?thesis
  proof (cases "q = Inr None")
    case True
    obtain t s2 where t: "mutate_body ops cfg env request s1 = (t, s2)" by (cases "mutate_body ops cfg env request s1")
    have "s' = s2" using run q True t by (intro answer_error_node) (simp add: mutate_def)
    moreover have "ok (sv_node s1)" using assms(1) s1 by simp
    ultimately show ?thesis using mutate_body_spec [OF _ assms(2,3,4) t] s1 node_grows_trans by metis
  next
    case False
    have "\<exists>t. answer_error ops cfg mutate_error (t, s1) = (r, s')"
      using run q False by (auto simp: mutate_def split: sum.splits option.splits)
    then have "s' = s1" using answer_error_node by blast
    then show ?thesis using assms(1) s1 by simp
  qed
qed

lemma service_read_keeps:
  assumes "ok (sv_node s)"
    and "\<forall>peers results. ev_gather env peers = Inr results \<longrightarrow> list_all fetch_ok results"
    and "others_keep ops ok (ev_others env)" and run: "service_read ops cfg env request s = (r, s')"
  shows "ok (sv_node s') \<and> node_grows ops (sv_node s) (sv_node s')"
proof -
  obtain q s1 where q: "route_read ops cfg env request s = (q, s1)" by (cases "route_read ops cfg env request s")
  have s1: "sv_node s1 = sv_node s" using q route_request_node by (auto simp: route_read_def)
  show ?thesis
  proof (cases "q = Inr None")
    case True
    obtain t s2 where t: "read_body ops cfg env request s1 = (t, s2)" by (cases "read_body ops cfg env request s1")
    have "s' = s2" using run q True t by (intro answer_error_node) (simp add: service_read_def)
    moreover have "ok (sv_node s1)" using assms(1) s1 by simp
    ultimately show ?thesis using read_body_spec [OF _ assms(2,3) t] s1 by simp
  next
    case False
    have "\<exists>t. answer_error ops cfg read_error (t, s1) = (r, s')"
      using run q False by (auto simp: service_read_def split: sum.splits option.splits)
    then have "s' = s1" using answer_error_node by blast
    then show ?thesis using assms(1) s1 by simp
  qed
qed

section \<open>The peers' requests\<close>

lemma replicate_response_spec:
  assumes "ok (sv_node s)" "entry_ok e" and run: "replicate_response ops cfg e s = (r, s')"
  shows "ok (sv_node s') \<and> node_grows ops (sv_node s) (sv_node s') \<and>
    (case no_merge_entry ops (sv_node s) e of
       (Inl x, n) \<Rightarrow> r = Inl x \<and> no_get ops (sv_node s') = no_get ops (sv_node s)
     | (Inr m, n) \<Rightarrow> no_get ops (sv_node s') = (no_get ops (sv_node s))(se_key e \<mapsto> m) \<and> merged_with (no_get ops (sv_node s) (se_key e)) e m)"
proof -
  obtain q n where q: "no_merge_entry ops (sv_node s) e = (q, n)" by (cases "no_merge_entry ops (sv_node s) e")
  note step = merge_step [OF assms(1,2) q]
  note g = merge_grows [OF assms(1,2) q]
  show ?thesis
  proof (cases q)
    case (Inl x)
    then show ?thesis using run q step g by (auto simp: replicate_response_def)
  next
    case (Inr m)
    let ?s = "s\<lparr>sv_node := n\<rparr>"
    have m: "entry_ok m" "vv_ok (se_context m)" using g Inr by (auto simp: entry_ok_def)
    have "ok (sv_node ?s)" using g by simp
    note o = observe_context_spec [OF this m(2)]
    have "success_response ops cfg m False True (observe_context ops (se_context m) ?s) = (r, s')"
      using run q Inr by (simp add: replicate_response_def)
    note t = success_response_spec [OF o(1) m(1) this]
    have "node_grows ops n (sv_node s')"
      by (rule node_grows_trans [of _ _ "sv_node (observe_context ops (se_context m) ?s)"]) (use o(4) t(2) in simp_all)
    from node_grows_trans [OF conjunct1 [OF conjunct2 [OF g]] this] have "node_grows ops (sv_node s) (sv_node s')" .
    then show ?thesis using t(1,3) o(2) step q Inr by simp
  qed
qed

lemma fetch_response_spec:
  assumes "ok (sv_node s)" and run: "fetch_response ops cfg key s = (r, s')"
  shows "ok (sv_node s') \<and> node_grows ops (sv_node s) (sv_node s') \<and> no_get ops (sv_node s') = no_get ops (sv_node s) \<and>
    (\<forall>resp. r = Inr resp \<longrightarrow> rs_success resp \<and> rs_state resp = no_get ops (sv_node s) key)"
proof (cases "no_get ops (sv_node s) key")
  case None
  then show ?thesis using run assms(1) by (auto simp: fetch_response_def Let_def)
next
  case (Some e)
  have "success_response ops cfg e False True s = (r, s')" using run Some by (simp add: fetch_response_def)
  note t = success_response_spec [OF assms(1) _ this]
  have "entry_ok e" using get_ok [OF assms(1) Some] by simp
  then show ?thesis using t Some by auto
qed

lemma digest_metadata_spec:
  assumes "ok n" "list_all digest_wf ds" "digest_metadata ops ds n = (r, n')"
  shows "ok n' \<and> node_grows ops n n'"
  using assms
proof (induction ds arbitrary: n)
  case (Cons d ds)
  have next_ds: "list_all digest_wf ds" "vv_ok (dg_context d)"
    using Cons.prems(2) by (simp_all add: digest_wf_def [of d] vv_wf_def)
  show ?case
  proof (cases "\<exists>e. no_get ops n (dg_key d) = Some e \<and> se_type e = dg_type d \<and> se_version e = dg_version d")
    case True
    obtain q n1 where q: "no_merge_metadata ops n (dg_key d) (dg_context d) = (q, n1)"
      by (cases "no_merge_metadata ops n (dg_key d) (dg_context d)")
    note g = metadata_grows [OF Cons.prems(1) next_ds(2) q]
    show ?thesis
    proof (cases q)
      case (Inl x)
      then show ?thesis using Cons.prems(3) True q g by auto
    next
      case (Inr u)
      then have "digest_metadata ops ds n1 = (r, n')" using Cons.prems(3) True q by auto
      note ih = Cons.IH [OF conjunct1 [OF g] next_ds(1) this]
      show ?thesis using ih node_grows_trans [OF conjunct2 [OF g] conjunct2 [OF ih]] by simp
    qed
  next
    case False
    then have "digest_metadata ops ds n = (r, n')" using Cons.prems(3) by (auto split: option.splits if_splits)
    from Cons.IH [OF Cons.prems(1) next_ds(1) this] show ?thesis .
  qed
qed simp

lemma answer_digest_spec:
  assumes "ok (sv_node s)" "list_all digest_wf incoming" "answer_digest ops cfg requester incoming batch_size s = (r, s')"
  shows "ok (sv_node s') \<and> node_grows ops (sv_node s) (sv_node s')"
proof (cases "requester = []")
  case False
  obtain q n where q: "digest_metadata ops incoming (sv_node s) = (q, n)" by (cases "digest_metadata ops incoming (sv_node s)")
  have "sv_node s' = n" using assms(3) False q by (auto simp: answer_digest_def split: sum.splits)
  then show ?thesis using digest_metadata_spec [OF assms(1,2) q] by simp
qed (use assms in \<open>simp add: answer_digest_def\<close>)

section \<open>The dispatch\<close>

lemma handle_digest_keeps:
  assumes "ok (sv_node s)" "handle_digest ops co cfg now_ms message s = (r, s')"
  shows "ok (sv_node s') \<and> node_grows ops (sv_node s) (sv_node s')"
proof (cases "decode_digest_request (co_digest_request_par co) (msg_payload message)")
  case (Inr d)
  obtain requester incoming batch_size where d: "d = (requester, incoming, batch_size)" by (cases d)
  obtain q s1 where q: "answer_digest ops cfg requester incoming batch_size s = (q, s1)"
    by (cases "answer_digest ops cfg requester incoming batch_size s")
  have "s' = s1" using assms(2) Inr d q by (simp add: handle_digest_def)
  then show ?thesis using answer_digest_spec [OF assms(1) _ q] decode_digest_request_wf [OF Inr [unfolded d]] by simp
qed (use assms in \<open>simp add: handle_digest_def\<close>)

lemma handle_body_keeps:
  assumes "ok (sv_node s)"
    and "\<forall>t peers results. ev_gather (envs t) peers = Inr results \<longrightarrow> list_all fetch_ok results"
    and "\<forall>t. others_keep ops ok (ev_others (envs t))"
    and run: "handle_body ops co cfg request_timeout envs now_ms message s = (r, s')"
  shows "ok (sv_node s') \<and> node_grows ops (sv_node s) (sv_node s')"
proof -
  have gather: "\<forall>peers results. ev_gather (envs t) peers = Inr results \<longrightarrow> list_all fetch_ok results" for t using assms(2) by blast
  have others: "others_keep ops ok (ev_others (envs t))" for t using assms(3) by blast
  show ?thesis
  proof (cases "msg_type message")
    case CRDT_MUTATE_REQUEST
    show ?thesis
    proof (cases "decode_mutation_request (co_mutation_par co) (msg_payload message)")
      case (Inr request)
      have "vv_ok (tok_version (md_token request))" using decode_mutation_request_wf [OF Inr] by (simp add: vv_wf_def)
      then show ?thesis using run CRDT_MUTATE_REQUEST Inr mutate_keeps [OF assms(1) _ gather others] assms(1)
        by (auto simp: handle_body_def respond_def split: if_splits prod.splits)
    qed (use run CRDT_MUTATE_REQUEST assms(1) in \<open>simp add: handle_body_def\<close>)
  next
    case CRDT_READ_REQUEST
    show ?thesis
    proof (cases "decode_read_request (co_read_par co) (msg_payload message)")
      case (Inr request)
      then show ?thesis using run CRDT_READ_REQUEST service_read_keeps [OF assms(1) gather others] assms(1)
        by (auto simp: handle_body_def respond_def split: if_splits prod.splits)
    qed (use run CRDT_READ_REQUEST assms(1) in \<open>simp add: handle_body_def\<close>)
  next
    case CRDT_REPLICATE
    show ?thesis
    proof (cases "decode_replication (co_state_par co) (msg_payload message)")
      case (Inr e)
      have "entry_ok e" by (rule entry_wf_ok [OF decode_replication_wf [OF Inr]])
      then show ?thesis using run CRDT_REPLICATE Inr replicate_response_spec [OF assms(1), of e cfg]
        by (auto simp: handle_body_def respond_def split: prod.splits)
    qed (use run CRDT_REPLICATE assms(1) in \<open>simp add: handle_body_def\<close>)
  next
    case CRDT_FETCH
    show ?thesis
    proof (cases "decode_fetch_request (co_fetch_par co) (msg_payload message)")
      case (Inr key)
      then show ?thesis using run CRDT_FETCH fetch_response_spec [OF assms(1), of cfg key]
        by (auto simp: handle_body_def respond_def split: prod.splits)
    qed (use run CRDT_FETCH assms(1) in \<open>simp add: handle_body_def\<close>)
  next
    case CRDT_DIGEST
    then show ?thesis using run handle_digest_keeps [OF assms(1)] by (simp add: handle_body_def)
  qed (use run assms(1) in \<open>simp_all add: handle_body_def respond_def\<close>)
qed

end

text \<open>The response goes to the request: its correlation id, one of the two response types.\<close>

definition answers :: "service_config \<Rightarrow> Message \<Rightarrow> Message \<Rightarrow> bool" where
  "answers cfg request response \<longleftrightarrow> msg_correlation_id response = msg_correlation_id request \<and>
     msg_sender_id response = sc_node_id cfg \<and> msg_type response \<in> {CRDT_RESPONSE, CRDT_DIGEST_RESPONSE}"

lemma wire_response_answers: "wire_response co cfg now_ms request resp = Inr m \<Longrightarrow> answers cfg request m"
  by (auto simp: wire_response_def rbind_eq_Inr answers_def new_response_def)

lemma respond_answers: "respond co cfg now_ms message rs = (Inr m, s') \<Longrightarrow> answers cfg message m"
  by (cases rs) (auto simp: respond_def rbind_eq_Inr intro: wire_response_answers)

lemma handle_body_answers:
  assumes "handle_body ops co cfg request_timeout envs now_ms message s = (Inr m, s')"
  shows "answers cfg message m"
proof -
  have digest: "answers cfg message m" if "handle_digest ops co cfg now_ms message s = (Inr m, s')"
    using that by (auto simp: handle_digest_def rbind_eq_Inr answers_def new_response_def split: sum.splits prod.splits)
  show ?thesis using assms
    by (auto simp: handle_body_def split: MessageType.splits sum.splits if_splits intro: respond_answers digest)
qed

lemma error_encoding:
  assumes "wire_response co cfg now_ms request (error_response ops cfg code text s) = Inl e"
  shows "\<exists>m. co_response_ser co m = Inl e"
  using assms by (cases "encode_crdt_response (co_response_ser co) (error_response ops cfg code text s)")
    (auto simp: wire_response_def encode_crdt_response_def error_response_def)

lemma handle_error_None: "handle_error e = None \<Longrightarrow> exn_cls e = CancelledError"
  by (auto simp: handle_error_def is_Exception_def split: if_splits)


definition example_codecs :: codecs where
  "example_codecs =
     \<lparr>co_state_ser = \<lambda>_. Inr [], co_state_par = \<lambda>_. None, co_fetch_ser = \<lambda>_. Inr [], co_fetch_par = \<lambda>_. Some ''k'',
      co_digest_request_ser = \<lambda>_. Inr [], co_digest_request_par = \<lambda>_. None, co_digest_ser = \<lambda>_. Inr [],
      co_digest_par = \<lambda>_. None, co_mutation_ser = \<lambda>_. Inr [], co_mutation_par = \<lambda>_. None, co_read_ser = \<lambda>_. Inr [],
      co_read_par = \<lambda>_. None, co_response_ser = \<lambda>_. Inr ''r'', co_response_par = \<lambda>_. None\<rparr>"

definition example_fetch :: Message where
  "example_fetch = new_request ''id'' 0 ''n'' ''p'' None 8 CRDT_FETCH [] []"


end
