(* ===== verification/Cluster_History.thy ===== *)
theory Cluster_History
  imports Crdt_Handler
begin

text \<open>
  A cluster of nodes as a step relation. Every step is one call of the code on one node: a
  write under the key lock, the merge of an entry that some node has stored at some time
  (however long a message was delayed, lost or repeated), a merge of metadata, an
  observation of the clock. The handlers of the CRDT service, replication, repair and
  anti-entropy are sequences of these calls.

  The theorem is what the digests of anti-entropy rely on: a digest carries the version of
  an entry and not its state, and two nodes that compare equal versions exchange nothing.
\<close>

section \<open>The cluster\<close>

record ('i, 'n) world =
  wd_node :: "'i \<Rightarrow> 'n"
  wd_pool :: "StoredCrdtEntry set"

inductive cluster_step :: "'n node_ops \<Rightarrow> ('i, 'n) world \<Rightarrow> ('i, 'n) world \<Rightarrow> bool" for ops where
  Write: "vv_ok (tok_version (md_token q)) \<Longrightarrow> mutate_locked ops q (wd_node w i) = (Inr e, n) \<Longrightarrow>
     cluster_step ops w \<lparr>wd_node = (wd_node w)(i := n), wd_pool = insert e (wd_pool w)\<rparr>"
| WriteFails: "vv_ok (tok_version (md_token q)) \<Longrightarrow> mutate_locked ops q (wd_node w i) = (Inl x, n) \<Longrightarrow>
     cluster_step ops w \<lparr>wd_node = (wd_node w)(i := n), wd_pool = wd_pool w\<rparr>"
| Merge: "e \<in> wd_pool w \<Longrightarrow> no_merge_entry ops (wd_node w i) e = (Inr m, n) \<Longrightarrow>
     cluster_step ops w \<lparr>wd_node = (wd_node w)(i := n), wd_pool = insert m (wd_pool w)\<rparr>"
| MergeFails: "e \<in> wd_pool w \<Longrightarrow> no_merge_entry ops (wd_node w i) e = (Inl x, n) \<Longrightarrow>
     cluster_step ops w \<lparr>wd_node = (wd_node w)(i := n), wd_pool = wd_pool w\<rparr>"
| Metadata: "vv_ok v \<Longrightarrow> no_merge_metadata ops (wd_node w i) k v = (Inr (Some m), n) \<Longrightarrow>
     cluster_step ops w \<lparr>wd_node = (wd_node w)(i := n), wd_pool = insert m (wd_pool w)\<rparr>"
| MetadataStays: "vv_ok v \<Longrightarrow> no_merge_metadata ops (wd_node w i) k v = (r, n) \<Longrightarrow> (\<And>m. r \<noteq> Inr (Some m)) \<Longrightarrow>
     cluster_step ops w \<lparr>wd_node = (wd_node w)(i := n), wd_pool = wd_pool w\<rparr>"
| Observe: "vv_ok v \<Longrightarrow>
     cluster_step ops w \<lparr>wd_node = (wd_node w)(i := no_set_clock ops (snd (observe (no_clock ops (wd_node w i)) v)) (wd_node w i)),
       wd_pool = wd_pool w\<rparr>"

text \<open>At the start every node is empty, and no two nodes have the same actor.\<close>

inductive cluster_reach :: "'n node_ops \<Rightarrow> ('n \<Rightarrow> bool) \<Rightarrow> ('i, 'n) world \<Rightarrow> bool" for ops ok where
  Start: "(\<And>i. ok (nodes i) \<and> no_get ops (nodes i) = Map.empty) \<Longrightarrow> inj (\<lambda>i. clk_actor (no_clock ops (nodes i))) \<Longrightarrow>
     cluster_reach ops ok \<lparr>wd_node = nodes, wd_pool = {}\<rparr>"
| Step: "cluster_reach ops ok w \<Longrightarrow> cluster_step ops w w' \<Longrightarrow> cluster_reach ops ok w'"

section \<open>A mutation only adds\<close>

lemma gc_increment_below: "gc_ok c \<Longrightarrow> gc_increment c a m = Inr d \<Longrightarrow> gc_merge c d = d"
  by (cases "1 \<le> m")
    (auto simp: gc_increment_def gc_increment_spec gc_increment_keeps intro!: gc_ext)

lemma or_add_map_of: "or_ok s \<Longrightarrow> map_of (or_adds (or_add s x d)) e =
    (if e = x then Some (get_dots (or_adds s) x \<union> {d}) else map_of (or_adds s) e)"
  by (simp add: or_add_def ORSet_init_def map_of_sort_key)

lemma or_remove_map_of: "or_ok s \<Longrightarrow> map_of (or_adds (or_remove s x)) e = map_of (or_adds s) e"
  by (simp add: or_remove_def ORSet_init_def map_of_sort_key Let_def)

lemma or_add_below: "or_ok s \<Longrightarrow> or_merge s (or_add s x d) = or_add s x d"
  by (rule or_ext) (auto simp: or_merge_map_of or_add_map_of get_dots_def split: option.splits)

lemma or_remove_below: "or_ok s \<Longrightarrow> or_merge s (or_remove s x) = or_remove s x"
  by (rule or_ext) (auto simp: or_merge_map_of or_remove_map_of split: option.splits)

lemma mv_write_below:
  assumes "mv_ok r" "map_of (mv_entries r) d = None"
  shows "mv_merge r (mv_write r v d) = Inr (mv_write r v d)"
proof -
  have "mv_agree (mv_entries r) (mv_entries (mv_write r v d))"
    using assms by (auto simp: mv_agree_def mv_write_sel split: if_splits)
  then obtain m where m: "mv_merge r (mv_write r v d) = Inr m" "mv_ok m"
      "map_of (mv_entries m) = map_of (mv_entries r) ++ map_of (mv_entries (mv_write r v d))"
      "mv_superseded m = mv_superseded r \<union> mv_superseded (mv_write r v d)"
    using mv_merge_spec [of r "mv_write r v d"] assms(1) by auto
  have "m = mv_write r v d"
    by (rule mv_ext) (use m assms in \<open>auto simp: mv_write_sel map_add_def fun_eq_iff split: option.splits\<close>)
  then show ?thesis using m(1) by simp
qed

text \<open>The dots a register carries; the other types carry no text.\<close>

fun text_dots :: "CrdtState \<Rightarrow> Dot set" where
  "text_dots (SMVRegister r) = fst ` set (mv_entries r)"
| "text_dots s = {}"

lemma state_of_cong: "state_of w s \<Longrightarrow> (\<And>d. d \<in> text_dots s \<Longrightarrow> u d = w d) \<Longrightarrow> state_of u s"
  by (cases s) (force simp: mv_of_def)+

lemma apply_mutation_below:
  assumes "apply_mutation a s q d = Inr s'" "state_ok s" "d \<notin> text_dots s"
  shows "merge_state s s' = Inr s'"
  using assms
  by (cases "md_type q"; cases s)
    (auto simp: apply_mutation_def pn_increment_def pn_decrement_def pn_merge_def pn_ok_def rbind_eq_Inr
      gc_increment_below gc.join_idem or_add_below or_remove_below mv_write_below map_of_eq_None_iff
      split: if_splits json.splits)

lemma mv_of_write:
  assumes "mv_of w r" "map_of (mv_entries r) d = None"
  shows "mv_of (w(d := canonical_json v)) (mv_write r v d)"
  using assms by (auto simp: mv_of_map_of mv_write_sel)

lemma apply_mutation_text:
  assumes "apply_mutation a s q d = Inr s'" "state_of w s" "d \<notin> text_dots s"
  shows "state_of (w(d := canonical_json (md_value q))) s' \<and> text_dots s' \<subseteq> insert d (text_dots s)"
proof -
  have ok: "state_ok s'" using apply_mutation_ok [OF state_of_ok [OF assms(2)] assms(1)] by simp
  show ?thesis
  proof (cases "md_type q = MVREGISTER")
    case True
    then obtain r where r: "s = SMVRegister r" "s' = SMVRegister (mv_write r (md_value q) d)"
      using assms(1) by (cases s) (auto simp: apply_mutation_def split: if_splits)
    have "mv_ok r" "map_of (mv_entries r) d = None"
      using assms(2,3) r by (auto simp: mv_of_def map_of_eq_None_iff)
    then show ?thesis using mv_of_write [of w r d] assms(2) r
      by (auto simp: mv_write_def Let_def MVRegister_init_def dest!: set_update_cases)
  next
    case False
    then show ?thesis using assms(1) ok
      by (cases "md_type q"; cases s) (auto simp: apply_mutation_def rbind_eq_Inr split: if_splits json.splits)
  qed
qed

section \<open>What an entry stands for\<close>

text \<open>
  The log of a history: the entry each write of a key stored, by the dot of the write. It is
  no part of the cluster. An entry is explained by a log when its version names, for every
  actor, a logged write, and its state is the least one above those writes. The texts
  \<open>u\<close> range over all that agree on the dots of the log, so that an explanation stays one when
  later writes add dots.
\<close>

type_synonym write_log = "string \<Rightarrow> Dot \<Rightarrow> StoredCrdtEntry option"

definition logged :: "write_log \<Rightarrow> Dot set" where
  "logged lg = {d. \<exists>k. lg k d \<noteq> None}"

definition entry_writes :: "write_log \<Rightarrow> StoredCrdtEntry \<Rightarrow> StoredCrdtEntry set" where
  "entry_writes lg e = {x. \<exists>a. vv_get (se_version e) a \<noteq> 0 \<and> lg (se_key e) (Dot a (vv_get (se_version e) a)) = Some x}"

definition like :: "(Dot \<Rightarrow> string) \<Rightarrow> StoredCrdtEntry \<Rightarrow> CrdtState \<Rightarrow> bool" where
  "like u e s \<longleftrightarrow> state_of u s \<and> state_type s = se_type e"

definition explained :: "write_log \<Rightarrow> (Dot \<Rightarrow> string) \<Rightarrow> StoredCrdtEntry \<Rightarrow> bool" where
  "explained lg w e \<longleftrightarrow> entry_ok e \<and> state_of w (se_state e) \<and> text_dots (se_state e) \<subseteq> logged lg \<and>
     (\<forall>a. vv_get (se_version e) a \<noteq> 0 \<longrightarrow> lg (se_key e) (Dot a (vv_get (se_version e) a)) \<noteq> None) \<and>
     (\<forall>x \<in> entry_writes lg e. se_type x = se_type e \<and> st.below (se_state x) (se_state e)) \<and>
     (\<forall>u s. (\<forall>d \<in> logged lg. u d = w d) \<longrightarrow> like u e s \<longrightarrow>
        (\<forall>x \<in> entry_writes lg e. st.below (se_state x) s) \<longrightarrow> st.below (se_state e) s)"

definition log_ok :: "write_log \<Rightarrow> (Dot \<Rightarrow> string) \<Rightarrow> bool" where
  "log_ok lg w \<longleftrightarrow>
     (\<forall>k d x. lg k d = Some x \<longrightarrow> se_key x = k \<and> explained lg w x) \<and>
     (\<forall>k a c c' x y. lg k (Dot a c) = Some x \<longrightarrow> lg k (Dot a c') = Some y \<longrightarrow> c \<le> c' \<longrightarrow>
        se_type x = se_type y \<and> st.below (se_state x) (se_state y))"

lemma explainedD:
  assumes "explained lg w e"
  shows "entry_ok e" "state_of w (se_state e)" "like w e (se_state e)"
    and "x \<in> entry_writes lg e \<Longrightarrow> se_type x = se_type e \<and> st.below (se_state x) (se_state e)"
    and "(\<And>x. x \<in> entry_writes lg e \<Longrightarrow> st.below (se_state x) s) \<Longrightarrow> like w e s \<Longrightarrow> st.below (se_state e) s"
  using assms by (auto simp: explained_def like_def entry_ok_def)

lemma explained_named:
  assumes "explained lg w e"
  shows "text_dots (se_state e) \<subseteq> logged lg"
    and "vv_get (se_version e) a \<noteq> 0 \<Longrightarrow> lg (se_key e) (Dot a (vv_get (se_version e) a)) \<noteq> None"
    and "vv_get (se_version e) a \<noteq> 0 \<Longrightarrow> Dot a (vv_get (se_version e) a) \<in> logged lg"
  using assms unfolding explained_def logged_def by blast+

lemma explained_texts:
  assumes "explained lg w e" "\<forall>d \<in> logged lg. u d = w d"
  shows "like u e (se_state e)"
  using assms(2) state_of_cong [OF explainedD(2) [OF assms(1)], of u] explained_named(1) [OF assms(1)] explainedD(1) [OF assms(1)]
  by (auto simp: like_def entry_ok_def)

lemma log_okD:
  assumes "log_ok lg w" "lg k d = Some x"
  shows "se_key x = k" "explained lg w x"
  using assms by (auto simp: log_ok_def)

lemma log_ordered:
  assumes "log_ok lg w" "lg k (Dot a c) = Some x" "lg k (Dot a c') = Some y" "c \<le> c'"
  shows "se_type x = se_type y" "st.below (se_state x) (se_state y)"
  using assms unfolding log_ok_def by blast+

text \<open>A state above the writes a later version names is above the writes of an earlier one.\<close>

lemma writes_below:
  assumes log: "log_ok lg w" "\<forall>d \<in> logged lg. u d = w d" and e: "explained lg w e" "x \<in> entry_writes lg e"
    and f: "se_key f = se_key e" "dominates (se_version f) (se_version e)"
      "\<And>a. vv_get (se_version f) a \<noteq> 0 \<Longrightarrow> lg (se_key f) (Dot a (vv_get (se_version f) a)) \<noteq> None"
    and s: "like u e s" "\<And>y. y \<in> entry_writes lg f \<Longrightarrow> st.below (se_state y) s"
  shows "st.below (se_state x) s"
proof -
  let ?v = "vv_get (se_version e)" let ?v' = "vv_get (se_version f)"
  obtain a where a: "?v a \<noteq> 0" "lg (se_key e) (Dot a (?v a)) = Some x"
    using e(2) by (auto simp: entry_writes_def)
  have le: "?v a \<le> ?v' a" using f(2) by (simp add: dominates_iff)
  moreover have "0 \<le> ?v a" using explainedD(1) [OF e(1)] by (simp add: entry_ok_def)
  ultimately have pos: "?v' a \<noteq> 0" using a(1) by linarith
  then obtain y where y: "lg (se_key e) (Dot a (?v' a)) = Some y" using f(1,3) by fastforce
  then have ys: "st.below (se_state y) s" using s(2) pos f(1) by (auto simp: entry_writes_def)
  note xy = log_ordered [OF log(1) a(2) y le]
  have "se_type x = se_type e" using explainedD(4) [OF e] by simp
  moreover have "like u x (se_state x)" "like u y (se_state y)"
    using explained_texts [OF _ log(2)] log_okD(2) [OF log(1)] a(2) y by auto
  ultimately show ?thesis
    using st.below_trans [of u "se_state x" "se_type e" "se_state y" s] xy ys s(1) by (simp add: like_def)
qed

text \<open>The version decides the state.\<close>

lemma explained_dominates:
  assumes log: "log_ok lg w" and e: "explained lg w e" "explained lg w f" "se_key e = se_key f" "se_type e = se_type f"
    and dom: "dominates (se_version f) (se_version e)"
  shows "st.below (se_state e) (se_state f)"
proof (rule explainedD(5) [OF e(1)])
  show like: "like w e (se_state f)" using explainedD(3) [OF e(2)] e(4) by (simp add: like_def)
  fix x assume x: "x \<in> entry_writes lg e"
  show "st.below (se_state x) (se_state f)"
    by (rule writes_below [OF log _ e(1) x e(3) [symmetric] dom _ like])
      (use explainedD(4) [OF e(2)] explained_named(2) [OF e(2)] in auto)
qed

lemma merge_text_dots:
  "merge_state a b = Inr c \<Longrightarrow> state_of w a \<Longrightarrow> state_of w b \<Longrightarrow> text_dots c \<subseteq> text_dots a \<union> text_dots b"
proof (induction a b rule: merge_state.induct)
  case (4 r q)
  then obtain m where m: "mv_merge r q = Inr m" "c = SMVRegister m" by (auto simp: rbind_eq_Inr)
  then have "map_of (mv_entries m) = map_of (mv_entries r) ++ map_of (mv_entries q)"
    using mv_of_merge [of w r q] 4 by auto
  from arg_cong [OF this, of dom] show ?case using m(2) by (auto simp: dom_map_of_conv_image_fst)
qed auto

lemma explainedI:
  assumes "entry_ok e" "state_of w (se_state e)" "text_dots (se_state e) \<subseteq> logged lg"
    and "\<And>a. vv_get (se_version e) a \<noteq> 0 \<Longrightarrow> lg (se_key e) (Dot a (vv_get (se_version e) a)) \<noteq> None"
    and "\<And>x. x \<in> entry_writes lg e \<Longrightarrow> se_type x = se_type e \<and> st.below (se_state x) (se_state e)"
    and "\<And>u s. \<forall>d \<in> logged lg. u d = w d \<Longrightarrow> like u e s \<Longrightarrow>
      (\<And>x. x \<in> entry_writes lg e \<Longrightarrow> st.below (se_state x) s) \<Longrightarrow> st.below (se_state e) s"
  shows "explained lg w e"
  unfolding explained_def using assms by blast

lemma explained_merged_fields:
  assumes "explained lg w e" "explained lg w f" "merge_entries e f = Inr m"
  shows "se_key f = se_key e \<and> se_type f = se_type e \<and> se_key m = se_key e \<and> se_type m = se_type e \<and> entry_ok m \<and>
    state_of w (se_state m) \<and> merge_state (se_state e) (se_state f) = Inr (se_state m) \<and>
    se_version m = vv_merge (se_version e) (se_version f)"
proof -
  have k: "se_key e = se_key f" "se_type e = se_type f" using assms(3) by (auto simp: merge_entries_def split: if_splits)
  then have "entry_of w (se_key e) (se_type e) e" "entry_of w (se_key e) (se_type e) f"
    using assms(1,2) by (auto simp: explained_def entry_of_def)
  from merge_entries_fields [OF this] show ?thesis using assms(3) k by (auto simp: entry_of_def)
qed

lemma merged_writes:
  assumes "explained lg w e" "explained lg w f" "merge_entries e f = Inr m"
  shows "vv_get (se_version m) a \<noteq> 0 \<Longrightarrow> lg (se_key m) (Dot a (vv_get (se_version m) a)) \<noteq> None"
    and "entry_writes lg m \<subseteq> entry_writes lg e \<union> entry_writes lg f"
proof -
  note m = explained_merged_fields [OF assms]
  have v: "vv_get (se_version m) a \<in> {vv_get (se_version e) a, vv_get (se_version f) a}" for a
    using m by (simp add: max_def)
  show "lg (se_key m) (Dot a (vv_get (se_version m) a)) \<noteq> None" if "vv_get (se_version m) a \<noteq> 0"
    using v [of a] that explained_named(2) [OF assms(1), of a] explained_named(2) [OF assms(2), of a] m by auto
  show "entry_writes lg m \<subseteq> entry_writes lg e \<union> entry_writes lg f"
  proof
    fix x assume "x \<in> entry_writes lg m"
    then obtain a where "vv_get (se_version m) a \<noteq> 0" "lg (se_key m) (Dot a (vv_get (se_version m) a)) = Some x"
      by (auto simp: entry_writes_def)
    then show "x \<in> entry_writes lg e \<union> entry_writes lg f" using v [of a] m by (auto simp: entry_writes_def)
  qed
qed

lemma merged_covers:
  assumes log: "log_ok lg w" and e: "explained lg w e" "explained lg w f" "merge_entries e f = Inr m"
    and x: "x \<in> entry_writes lg m"
  shows "se_type x = se_type m \<and> st.below (se_state x) (se_state m)"
proof -
  note m = explained_merged_fields [OF e]
  have like: "like w e (se_state e)" "like w e (se_state f)" "like w e (se_state m)"
    using explainedD(3) [OF e(1)] explainedD(3) [OF e(2)] m by (auto simp: like_def entry_ok_def)
  have mm: "merge_state (se_state e) (se_state f) = Inr (se_state m)" using m by simp
  have up: "st.below (se_state e) (se_state m)" "st.below (se_state f) (se_state m)"
    using st.below_merge1 [OF _ _ mm, of w "se_type e"] st.below_merge2 [OF _ _ mm, of w "se_type e"] like
    by (auto simp: like_def)
  have "x \<in> entry_writes lg e \<or> x \<in> entry_writes lg f" using merged_writes(2) [OF e] x by blast
  then obtain z where z: "se_type x = se_type e" "z \<in> {se_state e, se_state f}" "st.below (se_state x) z"
    using explainedD(4) [OF e(1)] explainedD(4) [OF e(2)] m by auto
  obtain d where "lg (se_key m) d = Some x" using x by (auto simp: entry_writes_def)
  then have "like w x (se_state x)" using explainedD(3) [OF log_okD(2) [OF log]] by simp
  then show ?thesis
    using st.below_trans [of w "se_state x" "se_type e" z "se_state m"] z up like m by (auto simp: like_def)
qed

lemma explained_least:
  assumes "explained lg w e" "\<forall>d \<in> logged lg. u d = w d" "like u e s"
    and "\<And>x. x \<in> entry_writes lg e \<Longrightarrow> st.below (se_state x) s"
  shows "st.below (se_state e) s"
  using assms unfolding explained_def by blast

lemma explained_merge:
  assumes log: "log_ok lg w" and e: "explained lg w e" "explained lg w f" "merge_entries e f = Inr m"
  shows "explained lg w m"
proof (rule explainedI)
  note m = explained_merged_fields [OF e]
  have mm: "merge_state (se_state e) (se_state f) = Inr (se_state m)" using m by simp
  show "entry_ok m" "state_of w (se_state m)" using m by auto
  show "text_dots (se_state m) \<subseteq> logged lg"
    using merge_text_dots [OF mm explainedD(2) [OF e(1)] explainedD(2) [OF e(2)]] explained_named(1) [OF e(1)] explained_named(1) [OF e(2)] by blast
  fix u s assume u: "\<forall>d \<in> logged lg. u d = w d" and s: "like u m s"
    and above: "\<And>x. x \<in> entry_writes lg m \<Longrightarrow> st.below (se_state x) s"
  have like: "like u e s" "like u f s" using s m by (auto simp: like_def)
  have dom: "dominates (se_version m) (se_version e)" "dominates (se_version m) (se_version f)" using m by simp_all
  have "st.below (se_state e) s"
    by (rule explained_least [OF e(1) u like(1)], rule writes_below [OF log u e(1) _ _ dom(1) merged_writes(1) [OF e] like(1) above])
      (use m in auto)
  moreover have "st.below (se_state f) s"
    by (rule explained_least [OF e(2) u like(2)], rule writes_below [OF log u e(2) _ _ dom(2) merged_writes(1) [OF e] like(2) above])
      (use m in auto)
  ultimately show "st.below (se_state m) s"
    using st.merge_least [OF _ _ _ mm, of u "se_type e" s] explained_texts [OF e(1) u] explained_texts [OF e(2) u] like m
    by (simp add: like_def)
qed (use merged_writes(1) [OF e] merged_covers [OF log e] in auto)

lemma explained_context:
  assumes "explained lg w e" "vv_ok v"
  shows "explained lg w (context_added e v)"
proof -
  have "entry_writes lg (context_added e v) = entry_writes lg e" "like u (context_added e v) = like u e" for u
    by (auto simp: entry_writes_def context_added_def like_def)
  then show ?thesis using assms with_context_ok [OF explainedD(1) [OF assms(1)] assms(2)]
    by (simp add: explained_def context_added_def)
qed

text \<open>A write with a fresh dot extends the log; what was explained stays explained.\<close>

definition log_write :: "write_log \<Rightarrow> string \<Rightarrow> Dot \<Rightarrow> StoredCrdtEntry \<Rightarrow> write_log" where
  "log_write lg k d e = (\<lambda>k'. if k' = k then (lg k)(d \<mapsto> e) else lg k')"

lemma logged_write: "logged (log_write lg k d e) = insert d (logged lg)"
  by (auto simp: logged_def log_write_def split: if_splits)

lemma entry_writes_old:
  assumes "explained lg w x" "d \<notin> logged lg"
  shows "entry_writes (log_write lg k d e) x = entry_writes lg x"
    and "vv_get (se_version x) a \<noteq> 0 \<Longrightarrow>
      log_write lg k d e (se_key x) (Dot a (vv_get (se_version x) a)) = lg (se_key x) (Dot a (vv_get (se_version x) a))"
proof -
  show same: "log_write lg k d e (se_key x) (Dot a (vv_get (se_version x) a)) = lg (se_key x) (Dot a (vv_get (se_version x) a))"
    if "vv_get (se_version x) a \<noteq> 0" for a
  proof -
    have "Dot a (vv_get (se_version x) a) \<in> logged lg" using explained_named(3) [OF assms(1) that] .
    then have "Dot a (vv_get (se_version x) a) \<noteq> d" using assms(2) by blast
    then show ?thesis by (simp add: log_write_def)
  qed
  show "entry_writes (log_write lg k d e) x = entry_writes lg x"
    unfolding entry_writes_def by (rule Collect_cong) (use same in \<open>metis (no_types)\<close>)
qed

lemma explained_log_write:
  assumes x: "explained lg w x" and d: "d \<notin> logged lg"
  shows "explained (log_write lg k d e) (w(d := t)) x"
proof (rule explainedI)
  note same = entry_writes_old [OF x d]
  show "entry_ok x" by (rule explainedD(1) [OF x])
  show dots: "text_dots (se_state x) \<subseteq> logged (log_write lg k d e)" using explained_named(1) [OF x] by (auto simp: logged_write)
  show "state_of (w(d := t)) (se_state x)"
    by (rule state_of_cong [OF explainedD(2) [OF x]]) (use explained_named(1) [OF x] d in auto)
  show "log_write lg k d e (se_key x) (Dot a (vv_get (se_version x) a)) \<noteq> None" if "vv_get (se_version x) a \<noteq> 0" for a
    using same(2) [OF that] explained_named(2) [OF x that] by simp
  show "se_type y = se_type x \<and> st.below (se_state y) (se_state x)" if "y \<in> entry_writes (log_write lg k d e) x" for y
    using explainedD(4) [OF x] that same(1) by simp
  fix u s assume u: "\<forall>d' \<in> logged (log_write lg k d e). u d' = (w(d := t)) d'" and s: "like u x s"
    and above: "\<And>y. y \<in> entry_writes (log_write lg k d e) x \<Longrightarrow> st.below (se_state y) s"
  have "\<forall>d' \<in> logged lg. u d' = w d'" using u d by (auto simp: logged_write split: if_splits)
  then show "st.below (se_state x) s" using explained_least [OF x _ s] above same(1) by simp
qed

text \<open>
  A write of the entry \<open>e\<close> over the entry \<open>old\<close> of its node, with a dot above all that the
  node's actor has logged.
\<close>

definition write_over ::
  "write_log \<Rightarrow> (Dot \<Rightarrow> string) \<Rightarrow> StoredCrdtEntry option \<Rightarrow> CrdtMutationData \<Rightarrow> Dot \<Rightarrow> StoredCrdtEntry \<Rightarrow> bool" where
  "write_over lg w old q d e \<longleftrightarrow>
     entry_ok e \<and> 1 \<le> dot_counter d \<and> d \<notin> logged lg \<and> se_version e = with_dot (previous_version old) d \<and>
     apply_mutation (dot_actor d) (case old of None \<Rightarrow> empty_state (se_type e) | Some x \<Rightarrow> se_state x) q d = Inr (se_state e) \<and>
     (\<forall>x. old = Some x \<longrightarrow> explained lg w x \<and> se_key x = se_key e \<and> se_type x = se_type e \<and>
        vv_get (se_version x) (dot_actor d) < dot_counter d) \<and>
     (\<forall>c y. lg (se_key e) (Dot (dot_actor d) c) = Some y \<longrightarrow>
        0 < c \<and> c < dot_counter d \<and> (\<exists>x. old = Some x \<and> c \<le> vv_get (se_version x) (dot_actor d)))"

lemma text_dots_empty [simp]: "text_dots (empty_state t) = {}" "state_of w (empty_state t)"
  by (cases t; simp add: mv_empty_def mv_of_def mv_ok_def canon_def)+

lemma write_over_below:
  assumes "write_over lg w old q d e"
  shows "state_of (w(d := canonical_json (md_value q))) (se_state e)" "text_dots (se_state e) \<subseteq> insert d (logged lg)"
    and "old = Some x \<Longrightarrow> st.below (se_state x) (se_state e)"
proof -
  let ?s = "case old of None \<Rightarrow> empty_state (se_type e) | Some x \<Rightarrow> se_state x"
  have a: "apply_mutation (dot_actor d) ?s q d = Inr (se_state e)" and x: "old = Some x \<Longrightarrow> explained lg w x" for x
    using assms by (auto simp: write_over_def)
  have s: "state_of w ?s" "text_dots ?s \<subseteq> logged lg"
    using explainedD(2) [OF x] explained_named(1) [OF x] by (auto split: option.splits)
  then have "d \<notin> text_dots ?s" using assms by (auto simp: write_over_def)
  with apply_mutation_text [OF a s(1)] apply_mutation_below [OF a state_of_ok [OF s(1)]] s(2)
  show "state_of (w(d := canonical_json (md_value q))) (se_state e)" "text_dots (se_state e) \<subseteq> insert d (logged lg)"
    and "old = Some x \<Longrightarrow> st.below (se_state x) (se_state e)"
    by (auto simp: st.below_def)
qed

lemma write_over_old:
  assumes "write_over lg w old q d e" "old = Some x"
  shows "explained lg w x" "se_key x = se_key e" "se_type x = se_type e" "vv_get (se_version x) (dot_actor d) < dot_counter d"
  using assms by (simp_all add: write_over_def)

lemma write_over_version:
  assumes "write_over lg w old q d e"
  shows "vv_get (se_version e) (dot_actor d) = dot_counter d"
    and "a \<noteq> dot_actor d \<Longrightarrow> vv_get (se_version e) a = vv_get (previous_version old) a"
proof -
  have v: "se_version e = with_dot (previous_version old) d" "1 \<le> dot_counter d" using assms by (simp_all add: write_over_def)
  have "vv_ok (previous_version old) \<and> vv_get (previous_version old) (dot_actor d) \<le> dot_counter d"
  proof (cases old)
    case (Some x)
    show ?thesis using write_over_old(4) [OF assms Some] explainedD(1) [OF write_over_old(1) [OF assms Some]] Some
      by (simp add: previous_version_def entry_ok_def)
  qed (use v(2) in \<open>simp add: previous_version_def\<close>)
  then show "vv_get (se_version e) (dot_actor d) = dot_counter d"
    "a \<noteq> dot_actor d \<Longrightarrow> vv_get (se_version e) a = vv_get (previous_version old) a"
    using v(1) by simp_all
qed

lemma write_over_logged:
  assumes e: "write_over lg w old q d e" and a: "vv_get (se_version e) a \<noteq> 0"
    and y: "log_write lg (se_key e) d e (se_key e) (Dot a (vv_get (se_version e) a)) = y"
  shows "a = dot_actor d \<and> y = Some e \<or> (\<exists>x z. old = Some x \<and> y = Some z \<and> z \<in> entry_writes lg x)"
proof (cases "a = dot_actor d")
  case True
  then have "Dot a (vv_get (se_version e) a) = d" using write_over_version(1) [OF e] by (cases d) simp
  then show ?thesis using y True by (simp add: log_write_def)
next
  case False
  note v = write_over_version(2) [OF e False]
  then obtain x where x: "old = Some x" "vv_get (se_version x) a \<noteq> 0" "vv_get (se_version e) a = vv_get (se_version x) a"
    using a by (cases old) (auto simp: previous_version_def)
  note ex = write_over_old(1,2) [OF e x(1)]
  have "Dot a (vv_get (se_version e) a) \<noteq> d" using False by auto
  then have "y = lg (se_key x) (Dot a (vv_get (se_version x) a))" using y x(3) ex(2) by (simp add: log_write_def)
  then show ?thesis using explained_named(2) [OF ex(1) x(2)] x by (auto simp: entry_writes_def)
qed

lemma explained_write:
  assumes log: "log_ok lg w" and e: "write_over lg w old q d e"
  shows "explained (log_write lg (se_key e) d e) (w(d := canonical_json (md_value q))) e"
    (is "explained ?lg ?w e")
proof (rule explainedI)
  show ok: "entry_ok e" using e by (simp add: write_over_def)
  show st: "state_of ?w (se_state e)" by (rule write_over_below(1) [OF e])
  show "text_dots (se_state e) \<subseteq> logged ?lg" using write_over_below(2) [OF e] by (simp add: logged_write)
  show "?lg (se_key e) (Dot a (vv_get (se_version e) a)) \<noteq> None" if "vv_get (se_version e) a \<noteq> 0" for a
    using write_over_logged [OF e that] by auto
  have like: "like ?w e (se_state e)" using st ok by (simp add: like_def entry_ok_def)
  show "se_type y = se_type e \<and> st.below (se_state y) (se_state e)" if y: "y \<in> entry_writes ?lg e" for y
  proof -
    consider "y = e" | x where "old = Some x" "y \<in> entry_writes lg x"
      using y write_over_logged [OF e] by (fastforce simp: entry_writes_def)
    then show ?thesis
    proof cases
      case 1
      then show ?thesis using st.below_refl [of ?w "se_state e" "se_type e"] like by (simp add: like_def)
    next
      case (2 x)
      have d: "d \<notin> logged lg" using e by (simp add: write_over_def)
      note x = write_over_old(1,3) [OF e 2(1)]
      obtain k d' where "lg k d' = Some y" using 2 by (auto simp: entry_writes_def)
      then have ly: "like ?w y (se_state y)" by (rule explainedD(3) [OF explained_log_write [OF log_okD(2) [OF log] d]])
      have lx: "like ?w x (se_state x)" by (rule explainedD(3) [OF explained_log_write [OF x(1) d]])
      show ?thesis
        using st.below_trans [of ?w "se_state y" "se_type e" "se_state x" "se_state e"] explainedD(4) [OF x(1) 2(2)]
          write_over_below(3) [OF e 2(1)] x(2) lx ly like by (simp add: like_def)
    qed
  qed
  have "e \<in> entry_writes ?lg e"
    using write_over_version(1) [OF e] e unfolding entry_writes_def
    by (auto simp: log_write_def write_over_def intro!: exI [of _ "dot_actor d"])
  then show "st.below (se_state e) s" if "\<And>x. x \<in> entry_writes ?lg e \<Longrightarrow> st.below (se_state x) s" for s
    using that by blast
qed

lemma write_over_earlier:
  assumes log: "log_ok lg w" and e: "write_over lg w old q d e" and y: "lg (se_key e) (Dot (dot_actor d) c) = Some y"
  shows "c < dot_counter d" "se_type y = se_type e" "st.below (se_state y) (se_state e)"
proof -
  let ?w = "w(d := canonical_json (md_value q))"
  have d: "d \<notin> logged lg" using e by (simp add: write_over_def)
  obtain x where x: "0 < c" "c < dot_counter d" "old = Some x" "c \<le> vv_get (se_version x) (dot_actor d)"
    using e y unfolding write_over_def by blast
  note ex = write_over_old [OF e x(3)]
  have nz: "vv_get (se_version x) (dot_actor d) \<noteq> 0" using x(1,4) by linarith
  obtain z where z: "lg (se_key e) (Dot (dot_actor d) (vv_get (se_version x) (dot_actor d))) = Some z"
    using explained_named(2) [OF ex(1) nz] ex(2) by auto
  then have zx: "se_type z = se_type x" "st.below (se_state z) (se_state x)"
    using explainedD(4) [OF ex(1), of z] nz ex(2) by (auto simp: entry_writes_def)
  note yz = log_ordered [OF log y z x(4)]
  have old: "like ?w v (se_state v)" if "explained lg w v" for v
    by (rule explainedD(3) [OF explained_log_write [OF that d]])
  have "like ?w y (se_state y)" "like ?w z (se_state z)" "like ?w x (se_state x)" "like ?w e (se_state e)"
    using old log_okD(2) [OF log y] log_okD(2) [OF log z] ex(1) explainedD(3) [OF explained_write [OF log e]] by auto
  then show "c < dot_counter d" "se_type y = se_type e" "st.below (se_state y) (se_state e)"
    using x(2) yz zx ex(3) write_over_below(3) [OF e x(3)]
      st.below_trans [of ?w "se_state y" "se_type e" "se_state z" "se_state x"]
      st.below_trans [of ?w "se_state y" "se_type e" "se_state x" "se_state e"]
    by (auto simp: like_def)
qed

lemma log_ok_write:
  assumes log: "log_ok lg w" and e: "write_over lg w old q d e"
  shows "log_ok (log_write lg (se_key e) d e) (w(d := canonical_json (md_value q)))"
    (is "log_ok ?lg ?w")
proof -
  have d: "d \<notin> logged lg" using e by (simp add: write_over_def)
  note new = explained_write [OF log e]
  have entries: "se_key x = k \<and> explained ?lg ?w x" if "?lg k d' = Some x" for k d' x
    using that new explained_log_write [OF log_okD(2) [OF log] d] log_okD(1) [OF log]
    by (auto simp: log_write_def split: if_splits)
  have ordered: "se_type x = se_type y \<and> st.below (se_state x) (se_state y)"
    if xy: "?lg k (Dot a c) = Some x" "?lg k (Dot a c') = Some y" "c \<le> c'" for k a c c' x y
  proof -
    consider (fresh) "k = se_key e" "Dot a c' = d" "Dot a c = d" | (last) "k = se_key e" "Dot a c' = d" "Dot a c \<noteq> d"
      | (first) "k = se_key e" "Dot a c' \<noteq> d" "Dot a c = d" | (old) "lg k (Dot a c) = Some x" "lg k (Dot a c') = Some y"
      using xy by (auto simp: log_write_def split: if_splits)
    then show ?thesis
    proof cases
      case fresh
      then show ?thesis using xy explainedD(3) [OF new] st.below_refl [of ?w "se_state e" "se_type e"]
        by (simp add: log_write_def like_def)
    next
      case last
      then show ?thesis using xy write_over_earlier [OF log e, of c x] by (auto simp: log_write_def)
    next
      case first
      then show ?thesis using xy write_over_earlier(1) [OF log e, of c' y] by (auto simp: log_write_def)
    next
      case old
      then show ?thesis using log_ordered [OF log old] xy(3) by blast
    qed
  qed
  show ?thesis unfolding log_ok_def using entries ordered by blast
qed

section \<open>The invariant of a cluster\<close>

text \<open>The node that wrote a logged entry still has all of its own writes.\<close>

definition owns :: "'n node_ops \<Rightarrow> 'n \<Rightarrow> string \<Rightarrow> CausalActor \<Rightarrow> int \<Rightarrow> bool" where
  "owns ops n k a c \<longleftrightarrow> a = clk_actor (no_clock ops n) \<and> 0 < c \<and> c \<le> vv_get (clk_frontier (no_clock ops n)) a \<and>
     (\<exists>e. no_get ops n k = Some e \<and> c \<le> vv_get (se_version e) a)"

definition history_ok :: "'n node_ops \<Rightarrow> ('n \<Rightarrow> bool) \<Rightarrow> write_log \<Rightarrow> (Dot \<Rightarrow> string) \<Rightarrow> ('i, 'n) world \<Rightarrow> bool" where
  "history_ok ops ok lg w h \<longleftrightarrow>
     (\<forall>i. ok (wd_node h i)) \<and> inj (\<lambda>i. clk_actor (no_clock ops (wd_node h i))) \<and> log_ok lg w \<and>
     (\<forall>e \<in> wd_pool h. explained lg w e) \<and> (\<forall>i k e. no_get ops (wd_node h i) k = Some e \<longrightarrow> e \<in> wd_pool h) \<and>
     (\<forall>k a c. lg k (Dot a c) \<noteq> None \<longrightarrow> (\<exists>i. owns ops (wd_node h i) k a c))"

lemma history_okD:
  assumes "history_ok ops ok lg w h"
  shows "ok (wd_node h i)" "inj (\<lambda>i. clk_actor (no_clock ops (wd_node h i)))" "log_ok lg w"
    and "e \<in> wd_pool h \<Longrightarrow> explained lg w e" "no_get ops (wd_node h i) k = Some e \<Longrightarrow> e \<in> wd_pool h"
    and "lg k (Dot a c) \<noteq> None \<Longrightarrow> \<exists>i. owns ops (wd_node h i) k a c"
  using assms unfolding history_ok_def by blast+

lemma history_start:
  assumes "\<And>i. ok (nodes i) \<and> no_get ops (nodes i) = Map.empty" "inj (\<lambda>i. clk_actor (no_clock ops (nodes i)))"
  shows "history_ok ops ok (\<lambda>_ _. None) w \<lparr>wd_node = nodes, wd_pool = {}\<rparr>"
  using assms by (simp add: history_ok_def log_ok_def)

lemma owns_grows:
  assumes "owns ops n k a c" "node_grows ops n n'"
  shows "owns ops n' k a c"
proof -
  obtain e where e: "no_get ops n k = Some e" "c \<le> vv_get (se_version e) a" using assms(1) by (auto simp: owns_def)
  obtain e' where "no_get ops n' k = Some e'" "entry_grows e e'" using node_growsD [OF assms(2) e(1)] by blast
  then have "\<exists>e. no_get ops n' k = Some e \<and> c \<le> vv_get (se_version e) a"
    using e(2) by (auto simp: entry_grows_def dominates_iff intro: order_trans)
  moreover have "c \<le> vv_get (clk_frontier (no_clock ops n')) a" "clk_actor (no_clock ops n') = clk_actor (no_clock ops n)"
    using assms by (auto simp: owns_def node_grows_def clock_grows_def dominates_iff intro: order_trans)
  ultimately show ?thesis using assms(1) by (simp add: owns_def)
qed

text \<open>One node grows, and the entries it now shows are explained.\<close>

lemma history_step:
  assumes h: "history_ok ops ok lg w h" and n: "ok n" "node_grows ops (wd_node h i) n"
    and log: "log_ok lg' w'" "\<And>e. e \<in> P \<Longrightarrow> explained lg' w' e" "wd_pool h \<subseteq> P" "\<And>k e. no_get ops n k = Some e \<Longrightarrow> e \<in> P"
    and new: "\<And>k a c. lg' k (Dot a c) \<noteq> None \<Longrightarrow> lg k (Dot a c) \<noteq> None \<or> owns ops n k a c"
  shows "history_ok ops ok lg' w' \<lparr>wd_node = (wd_node h)(i := n), wd_pool = P\<rparr>"
proof -
  have actor: "clk_actor (no_clock ops n) = clk_actor (no_clock ops (wd_node h i))"
    using n(2) by (simp add: node_grows_def clock_grows_def)
  have "clk_actor (no_clock ops (((wd_node h)(i := n)) j)) = clk_actor (no_clock ops (wd_node h j))" for j
    using actor by simp
  then have inj: "inj (\<lambda>j. clk_actor (no_clock ops (((wd_node h)(i := n)) j)))"
    using history_okD(2) [OF h] by (simp only:)
  have own: "\<exists>j. owns ops (((wd_node h)(i := n)) j) k a c" if l: "lg' k (Dot a c) \<noteq> None" for k a c
  proof (cases "owns ops n k a c")
    case True
    then show ?thesis by (intro exI [of _ i]) simp
  next
    case False
    then obtain j where j: "owns ops (wd_node h j) k a c" using new [OF l] history_okD(6) [OF h] by blast
    then have "j \<noteq> i" using False owns_grows [OF _ n(2)] by blast
    then show ?thesis using j by (intro exI [of _ j]) simp
  qed
  have get: "e \<in> P" if "no_get ops (((wd_node h)(i := n)) j) k = Some e" for j k e
    using that log(3,4) history_okD(5) [OF h] by (cases "j = i") auto
  show ?thesis unfolding history_ok_def using n(1) history_okD(1) [OF h] inj log(1,2) get own by auto
qed

lemma history_put:
  assumes "history_ok ops ok lg w h" "ok n" "node_grows ops (wd_node h i) n"
    and "no_get ops n = (no_get ops (wd_node h i))(k \<mapsto> m)" "explained lg w m"
  shows "history_ok ops ok lg w \<lparr>wd_node = (wd_node h)(i := n), wd_pool = insert m (wd_pool h)\<rparr>"
  by (rule history_step [OF assms(1-3) history_okD(3) [OF assms(1)]])
    (use assms(4,5) history_okD(4,5) [OF assms(1)] in \<open>auto split: if_splits\<close>)

lemma history_same:
  assumes "history_ok ops ok lg w h" "ok n" "node_grows ops (wd_node h i) n" "no_get ops n = no_get ops (wd_node h i)"
  shows "history_ok ops ok lg w \<lparr>wd_node = (wd_node h)(i := n), wd_pool = wd_pool h\<rparr>"
  by (rule history_step [OF assms(1-3) history_okD(3) [OF assms(1)]])
    (use assms(4) history_okD(4,5) [OF assms(1)] in auto)

context crdt_node
begin

lemma owns_own:
  assumes h: "history_ok ops ok lg w h" and lg: "lg k (Dot (clk_actor (no_clock ops (wd_node h i))) c) \<noteq> None"
  shows "owns ops (wd_node h i) k (clk_actor (no_clock ops (wd_node h i))) c"
proof -
  obtain j where j: "owns ops (wd_node h j) k (clk_actor (no_clock ops (wd_node h i))) c"
    using history_okD(6) [OF h lg] by blast
  then have "j = i" using injD [OF history_okD(2) [OF h], of i j] by (simp add: owns_def)
  then show ?thesis using j by simp
qed

lemma write_over_step:
  assumes h: "history_ok ops ok lg w h" and q: "vv_ok (tok_version (md_token q))"
    and step: "mutate_locked ops q (wd_node h i) = (Inr e, n)"
  shows "write_over lg w (no_get ops (wd_node h i) (md_key q)) q (write_dot ops q (wd_node h i)) e"
proof -
  let ?n = "wd_node h i" let ?a = "clk_actor (no_clock ops ?n)" let ?d = "write_dot ops q ?n"
  note ok = history_okD(1) [OF h, of i]
  have m: "written ops q ?n e" "entry_ok e" "node_grows ops ?n n" "no_get ops n (md_key q) = Some e"
    using mutate_locked_spec [OF ok q step] by auto
  have e: "se_key e = md_key q" "se_type e = md_type q" using m(1) by (simp_all add: written_def Let_def)
  note d = write_vectors_ok [OF ok q]
  have a: "dot_actor ?d = ?a" and d': "?d = Dot ?a (dot_counter ?d)" using d by (auto intro: Dot.expand)
  have less: "c < dot_counter ?d" if "lg k (Dot ?a c) \<noteq> None" for k c
    using owns_own [OF h that] d by (simp add: owns_def)
  have fresh: "?d \<notin> logged lg"
  proof
    assume "?d \<in> logged lg"
    then obtain k where "lg k (Dot ?a (dot_counter ?d)) \<noteq> None" using d' by (auto simp: logged_def)
    from less [OF this] show False by simp
  qed
  have old: "explained lg w x \<and> se_key x = se_key e \<and> se_type x = se_type e \<and> vv_get (se_version x) ?a < dot_counter ?d"
    if x: "no_get ops ?n (md_key q) = Some x" for x
  proof -
    have ex: "explained lg w x" by (rule history_okD(4) [OF h history_okD(5) [OF h x]])
    have "se_type x = se_type e" using node_growsD [OF m(3) x] m(4) by (simp add: entry_grows_def)
    moreover have "vv_get (se_version x) ?a < dot_counter ?d"
      using less explained_named(2) [OF ex, of ?a] d by (cases "vv_get (se_version x) ?a = 0") auto
    ultimately show ?thesis using ex get_ok [OF ok x] e by simp
  qed
  have "0 < c \<and> (\<exists>x. no_get ops ?n (md_key q) = Some x \<and> c \<le> vv_get (se_version x) ?a)"
    if "lg (se_key e) (Dot ?a c) = Some y" for c y
    using owns_own [OF h, of "se_key e" i c] that e by (auto simp: owns_def)
  moreover have "apply_mutation ?a (case no_get ops ?n (md_key q) of None \<Rightarrow> empty_state (se_type e) | Some x \<Rightarrow> se_state x) q ?d = Inr (se_state e)"
    "se_version e = with_dot (previous_version (no_get ops ?n (md_key q))) ?d"
    unfolding e(2) using m(1) by (simp_all add: written_def Let_def)
  ultimately show ?thesis unfolding write_over_def a using m(2) d fresh old less by blast
qed

lemma frontier_has_dot:
  assumes "ok n" "vv_ok (tok_version (md_token q))"
  shows "dot_counter (write_dot ops q n) \<le> vv_get (write_frontier ops q n) (dot_actor (write_dot ops q n))"
proof -
  have "vv_ok (alloc_base (no_clock ops n) (Some (write_seen ops q n)))"
    using clock_valid [OF assms(1)] write_vectors_ok(1) [OF assms] by (simp add: alloc_base_def clock_ok_def)
  then show ?thesis by (simp add: write_frontier_def)
qed

lemma history_write:
  assumes h: "history_ok ops ok lg w h" and q: "vv_ok (tok_version (md_token q))"
    and step: "mutate_locked ops q (wd_node h i) = (Inr e, n)"
  shows "\<exists>lg w. history_ok ops ok lg w \<lparr>wd_node = (wd_node h)(i := n), wd_pool = insert e (wd_pool h)\<rparr>"
proof -
  let ?d = "write_dot ops q (wd_node h i)"
  let ?lg = "log_write lg (se_key e) ?d e" let ?w = "w(?d := canonical_json (md_value q))"
  note ok = history_okD(1) [OF h, of i] and log = history_okD(3) [OF h] and over = write_over_step [OF h q step]
  have m: "ok n" "node_grows ops (wd_node h i) n" "written ops q (wd_node h i) e" "no_get ops n = (no_get ops (wd_node h i))(md_key q \<mapsto> e)"
      "clk_frontier (no_clock ops n) = write_frontier ops q (wd_node h i)" "clk_actor (no_clock ops n) = clk_actor (no_clock ops (wd_node h i))"
    using mutate_locked_spec [OF ok q step] by auto
  have "history_ok ops ok ?lg ?w \<lparr>wd_node = (wd_node h)(i := n), wd_pool = insert e (wd_pool h)\<rparr>"
  proof (rule history_step [OF h m(1,2) log_ok_write [OF log over]])
    show "explained ?lg ?w x" if "x \<in> insert e (wd_pool h)" for x
      using that explained_write [OF log over] explained_log_write [OF history_okD(4) [OF h]] over
      by (auto simp: write_over_def)
    show "x \<in> insert e (wd_pool h)" if "no_get ops n k = Some x" for k x
      using that m(4) history_okD(5) [OF h] by (auto split: if_splits)
    show "lg k (Dot a c) \<noteq> None \<or> owns ops n k a c" if "?lg k (Dot a c) \<noteq> None" for k a c
    proof (cases "k = se_key e \<and> Dot a c = ?d")
      case True
      have "Dot a c = ?d" "k = md_key q" using True m(3) by (auto simp: written_def Let_def)
      moreover from this have "a = dot_actor ?d" "c = dot_counter ?d" by (metis Dot.sel)+
      ultimately show ?thesis using write_over_version(1) [OF over] frontier_has_dot [OF ok q] write_vectors_ok [OF ok q] m
        by (auto simp: owns_def)
    qed (use that in \<open>auto simp: log_write_def split: if_splits\<close>)
  qed auto
  then show ?thesis by blast
qed

lemma history_merge:
  assumes h: "history_ok ops ok lg w h" and e: "e \<in> wd_pool h" "no_merge_entry ops (wd_node h i) e = (Inr m, n)"
  shows "history_ok ops ok lg w \<lparr>wd_node = (wd_node h)(i := n), wd_pool = insert m (wd_pool h)\<rparr>"
proof -
  note ok = history_okD(1) [OF h, of i] and ex = history_okD(4) [OF h]
  note step = merge_step [OF ok explainedD(1) [OF ex [OF e(1)]] e(2)]
  have "explained lg w m"
  proof (cases "no_get ops (wd_node h i) (se_key e)")
    case None
    then show ?thesis using step ex [OF e(1)] by (simp add: merged_with_def)
  next
    case (Some x)
    then have "merge_entries x e = Inr m" using step by (simp add: merged_with_def)
    then show ?thesis
      by (rule explained_merge [OF history_okD(3) [OF h] ex [OF history_okD(5) [OF h Some]] ex [OF e(1)]])
  qed
  then show ?thesis using history_put [OF h] merge_grows [OF ok explainedD(1) [OF ex [OF e(1)]] e(2)] step by simp
qed

lemma history_metadata:
  assumes h: "history_ok ops ok lg w h" and e: "vv_ok v" "no_merge_metadata ops (wd_node h i) k v = (Inr (Some m), n)"
  shows "history_ok ops ok lg w \<lparr>wd_node = (wd_node h)(i := n), wd_pool = insert m (wd_pool h)\<rparr>"
proof -
  note ok = history_okD(1) [OF h, of i]
  obtain x where x: "no_get ops (wd_node h i) k = Some x" "m = context_added x v"
      "no_get ops n = (no_get ops (wd_node h i))(k \<mapsto> m)"
    using metadata_step [OF ok e] by auto
  have "explained lg w m"
    unfolding x(2) by (rule explained_context [OF history_okD(4) [OF h history_okD(5) [OF h x(1)]] e(1)])
  then show ?thesis using history_put [OF h _ _ x(3)] metadata_grows [OF ok e] by simp
qed

lemma history_observe:
  assumes h: "history_ok ops ok lg w h" and v: "vv_ok v"
  shows "history_ok ops ok lg w \<lparr>wd_node = (wd_node h)(i := no_set_clock ops (snd (observe (no_clock ops (wd_node h i)) v)) (wd_node h i)),
    wd_pool = wd_pool h\<rparr>"
proof -
  let ?c = "no_clock ops (wd_node h i)" let ?d = "snd (observe ?c v)"
  note ok = history_okD(1) [OF h, of i]
  have d: "clock_ok ?d" "clk_actor ?d = clk_actor ?c" "clock_grows ?c ?d"
    using clock_valid [OF ok] v by (auto simp: observe_def staged_observe_def clock_ok_def clock_grows_def Let_def)
  note set = set_clock [OF ok d(1,2)]
  show ?thesis
    by (rule history_same [OF h]) (use set d(3) in \<open>auto intro: node_grows_same\<close>)
qed

lemma cluster_reach_history: "cluster_reach ops ok h \<Longrightarrow> \<exists>lg w. history_ok ops ok lg w h"
proof (induction rule: cluster_reach.induct)
  case (Start nodes)
  then show ?case using history_start [of ok nodes ops] by blast
next
  case (Step h h')
  then obtain lg w where h: "history_ok ops ok lg w h" by blast
  note ok = history_okD(1) [OF h]
  from Step(2) show ?case
  proof cases
    case (Write q i e n)
    then show ?thesis using history_write [OF h] by blast
  next
    case (WriteFails q i x n)
    then show ?thesis using history_same [OF h, of n i] mutate_locked_spec [OF ok _ WriteFails(3)] by auto
  next
    case (Merge e i m n)
    then show ?thesis using history_merge [OF h] by blast
  next
    case (MergeFails e i x n)
    note e = explainedD(1) [OF history_okD(4) [OF h MergeFails(2)]]
    show ?thesis
      using history_same [OF h, of n i] merge_grows [OF ok e MergeFails(3)] merge_step [OF ok e MergeFails(3)] MergeFails(1)
      by auto
  next
    case (Metadata v i k m n)
    then show ?thesis using history_metadata [OF h] by blast
  next
    case (MetadataStays v i k r n)
    then show ?thesis
      using history_same [OF h, of n i] metadata_grows [OF ok MetadataStays(2,3)] metadata_step [OF ok MetadataStays(2,3)]
      by (auto split: sum.splits option.splits)
  next
    case (Observe v i)
    then show ?thesis using history_observe [OF h Observe(2)] by blast
  qed
qed

lemma same_version_same_state:
  assumes "history_ok ops ok lg w h" "e \<in> wd_pool h" "f \<in> wd_pool h"
    and "se_key e = se_key f" "se_type e = se_type f" "se_version e = se_version f"
  shows "se_state e = se_state f"
proof -
  note log = history_okD(3) [OF assms(1)] and e = history_okD(4) [OF assms(1,2)] and f = history_okD(4) [OF assms(1,3)]
  have "st.below (se_state e) (se_state f)" by (rule explained_dominates [OF log e f assms(4,5)]) (simp add: assms(6))
  moreover have "st.below (se_state f) (se_state e)"
    by (rule explained_dominates [OF log f e assms(4,5) [symmetric]]) (simp add: assms(6))
  moreover have "like w e (se_state e)" "like w e (se_state f)"
    using explainedD(3) [OF e] explainedD(3) [OF f] assms(5) by (auto simp: like_def)
  ultimately show ?thesis using st.below_antisym [of w "se_state e" "se_type e" "se_state f"] by (simp add: like_def)
qed

end

section \<open>Versions identify states\<close>

text \<open>C1: In every history of a cluster of durable nodes - writes, merges of any entry ever stored
  in any order, metadata, failed calls - any two entries of one key and type merge without a
  conflict; an entry whose version dominates another's already contains its state; and
  entries with equal versions have equal states. So two nodes whose digests compare equal have
  nothing to exchange.\<close>

theorem version_identifies_state:
  assumes "cluster_reach durable_ops durable_ok h" "e \<in> wd_pool h" "f \<in> wd_pool h"
    and "se_key e = se_key f" "se_type e = se_type f"
  shows "(\<exists>s. merge_state (se_state e) (se_state f) = Inr s) \<and>
    (dominates (se_version f) (se_version e) \<longrightarrow> merge_state (se_state e) (se_state f) = Inr (se_state f)) \<and>
    (se_version e = se_version f \<longrightarrow> se_state e = se_state f)"
proof -
  obtain lg w where h: "history_ok durable_ops durable_ok lg w h" using dur.cluster_reach_history [OF assms(1)] by blast
  note log = history_okD(3) [OF h] and e = history_okD(4) [OF h assms(2)] and f = history_okD(4) [OF h assms(3)]
  have like: "like w e (se_state e)" "like w e (se_state f)"
    using explainedD(3) [OF e] explainedD(3) [OF f] assms(5) by (auto simp: like_def)
  then have total: "\<exists>s. merge_state (se_state e) (se_state f) = Inr s"
    using st.merge_total [of w "se_state e" "se_type e" "se_state f"] by (auto simp: like_def)
  have ef: "st.below (se_state e) (se_state f)" if "dominates (se_version f) (se_version e)"
    by (rule explained_dominates [OF log e f assms(4,5) that])
  have "se_state e = se_state f" if "se_version e = se_version f"
    by (rule dur.same_version_same_state [OF h assms(2-5) that])
  then show ?thesis using total ef by (simp add: st.below_def)
qed

definition example_nodes :: "bool \<Rightarrow> DurableNode" where
  "example_nodes b = repair_node\<lparr>du_store := (du_store repair_node)\<lparr>dn_clock :=
     (dn_clock (du_store repair_node))\<lparr>clk_actor := CausalActor (if b then ''a'' else ''b'') 1\<rparr>\<rparr>\<rparr>"

lemma example_start_ok: "durable_ok (example_nodes i) \<and> no_get durable_ops (example_nodes i) = Map.empty"
  by (auto simp: durable_ok_def example_nodes_def repair_node_def store_ok_def CrdtStore_init_def clock_ok_def
      CausalClock_init_def durable_ops_def store_get_def)

lemma example_start: "cluster_reach durable_ops durable_ok \<lparr>wd_node = example_nodes, wd_pool = {}\<rparr>"
proof (rule cluster_reach.Start)
  show "inj (\<lambda>i. clk_actor (no_clock durable_ops (example_nodes i)))"
    by (auto simp: inj_def durable_ops_def example_nodes_def split: if_splits)
qed (rule example_start_ok)

text \<open>One node writes, the other merges what it wrote and writes again.\<close>

definition returns :: "'a result \<times> 'n \<Rightarrow> ('a \<Rightarrow> 'n \<Rightarrow> bool) \<Rightarrow> bool" where
  "returns p P = (case p of (Inl x, n) \<Rightarrow> False | (Inr e, n) \<Rightarrow> P e n)"

lemma returnsE:
  assumes "returns p P"
  obtains e n where "p = (Inr e, n)" "P e n"
  using assms by (auto simp: returns_def split: prod.splits sum.splits)

lemma example_history:
  obtains e1 n1 m n2 e2 n3 where "mutate_locked durable_ops example_write (example_nodes True) = (Inr e1, n1)"
    "no_merge_entry durable_ops (example_nodes False) e1 = (Inr m, n2)"
    "mutate_locked durable_ops example_write n2 = (Inr e2, n3)"
    "se_key e1 = ''k''" "se_key e2 = ''k''" "se_type e1 = GCOUNTER" "se_type e2 = GCOUNTER" "dominates (se_version e2) (se_version e1)"
proof -
  have "returns (mutate_locked durable_ops example_write (example_nodes True)) (\<lambda>e1 n1.
      returns (no_merge_entry durable_ops (example_nodes False) e1) (\<lambda>m n2.
        returns (mutate_locked durable_ops example_write n2) (\<lambda>e2 n3.
          se_key e1 = ''k'' \<and> se_key e2 = ''k'' \<and> se_type e1 = GCOUNTER \<and> se_type e2 = GCOUNTER \<and>
          dominates (se_version e2) (se_version e1))))"
    by code_simp
  then show ?thesis by (elim returnsE conjE, intro that)
qed

theorem version_identifies_state_witness:
  "\<exists>(h :: (bool, DurableNode) world) e f. cluster_reach durable_ops durable_ok h \<and> e \<in> wd_pool h \<and> f \<in> wd_pool h \<and>
     dominates (se_version f) (se_version e) \<and> merge_state (se_state e) (se_state f) = Inr (se_state f)"
proof -
  obtain e1 n1 m n2 e2 n3 where run: "mutate_locked durable_ops example_write (example_nodes True) = (Inr e1, n1)"
    "no_merge_entry durable_ops (example_nodes False) e1 = (Inr m, n2)"
    "mutate_locked durable_ops example_write n2 = (Inr e2, n3)"
    and e: "se_key e1 = ''k''" "se_key e2 = ''k''" "se_type e1 = GCOUNTER" "se_type e2 = GCOUNTER" "dominates (se_version e2) (se_version e1)"
    by (rule example_history)
  let ?h0 = "\<lparr>wd_node = example_nodes, wd_pool = {}\<rparr>"
  let ?h1 = "\<lparr>wd_node = (wd_node ?h0)(True := n1), wd_pool = insert e1 (wd_pool ?h0)\<rparr>"
  let ?h2 = "\<lparr>wd_node = (wd_node ?h1)(False := n2), wd_pool = insert m (wd_pool ?h1)\<rparr>"
  let ?h3 = "\<lparr>wd_node = (wd_node ?h2)(False := n3), wd_pool = insert e2 (wd_pool ?h2)\<rparr>"
  have vv: "vv_ok (tok_version (md_token example_write))" by (simp add: example_write_def token_empty_def)
  from example_start have "cluster_reach durable_ops durable_ok ?h1"
    by (rule cluster_reach.Step) (rule cluster_step.Write [OF vv], simp add: run)
  then have "cluster_reach durable_ops durable_ok ?h2"
    by (rule cluster_reach.Step) (rule cluster_step.Merge [of e1], simp_all add: run)
  then have r: "cluster_reach durable_ops durable_ok ?h3"
    by (rule cluster_reach.Step) (rule cluster_step.Write [OF vv], simp add: run)
  show ?thesis using version_identifies_state [OF r, of e1 e2] e r
    by (intro exI [of _ ?h3] exI [of _ e1] exI [of _ e2]) simp
qed

end
