(* ===== verification/Anti_Entropy.thy ===== *)
theory Anti_Entropy
  imports Cluster_History
begin

text \<open>
  A reconciliation of \<^verbatim>\<open>replication/anti_entropy.py\<close> composed with the handlers of
  \<^verbatim>\<open>crdt_service.py\<close> that answer it on the other node. The initiator and the peer are two nodes
  of a history of \<^verbatim>\<open>Cluster_History\<close>; every call of the round is a step of that history, so
  the pair it leaves behind is again a pair of nodes of a history.

  What a digest says of an entry is its \<open>stamp\<close>: the type and the version. The lemmas follow
  the stamps of one key through a pull, a push and an exchange of metadata, and the theorem
  turns equal stamps into equal states.
\<close>

section \<open>A peer that answers\<close>

text \<open>
  The three calls of the round, answered by the handlers of the peer's service with nothing
  lost on the way; \<open>requester\<close> is the node that asks.
\<close>

definition served_calls :: "'n node_ops \<Rightarrow> service_config \<Rightarrow> string \<Rightarrow> 'n CrdtService crdt_calls" where
  "served_calls ops cfg requester =
     \<lparr>cl_replicate = \<lambda>p state. case replicate_response ops cfg state p of (r, p') \<Rightarrow> (rbind r (\<lambda>_. Inr ()), p'),
      cl_fetch = \<lambda>p key. fetch_response ops cfg key p,
      cl_digest = \<lambda>p entries batch_size. answer_digest ops cfg requester entries batch_size p\<rparr>"

section \<open>Stamps\<close>

definition stamp :: "'n node_ops \<Rightarrow> 'n \<Rightarrow> string \<rightharpoonup> CrdtType \<times> VersionVector" where
  "stamp ops n k = map_option (\<lambda>e. (se_type e, se_version e)) (no_get ops n k)"

fun join_stamp :: "(CrdtType \<times> VersionVector) option \<Rightarrow> (CrdtType \<times> VersionVector) option \<Rightarrow>
    (CrdtType \<times> VersionVector) option" where
  "join_stamp None y = y"
| "join_stamp x None = x"
| "join_stamp (Some (t, v)) (Some (u, w)) = Some (t, vv_merge v w)"

lemma join_stamp_None [simp]: "join_stamp x None = x"
  by (cases x) auto

definition reports :: "'n node_ops \<Rightarrow> 'n \<Rightarrow> string \<Rightarrow> CrdtDigestEntry option \<Rightarrow> bool" where
  "reports ops n k d \<longleftrightarrow> stamp ops n k = map_option (\<lambda>x. (dg_type x, dg_version x)) d"

definition digest_valid :: "CrdtDigestEntry option \<Rightarrow> bool" where
  "digest_valid d \<longleftrightarrow> (case d of None \<Rightarrow> True | Some x \<Rightarrow> vv_ok (dg_context x))"

definition paired :: "'n node_ops \<Rightarrow> ('n \<Rightarrow> bool) \<Rightarrow> 'i \<Rightarrow> 'i \<Rightarrow> 'n \<Rightarrow> 'n CrdtService \<Rightarrow> bool" where
  "paired ops ok i j n p \<longleftrightarrow> i \<noteq> j \<and> (\<exists>h. cluster_reach ops ok h \<and> wd_node h i = n \<and> wd_node h j = sv_node p)"

definition key_agreed :: "'n node_ops \<Rightarrow> 'n \<Rightarrow> 'n CrdtService \<Rightarrow> string \<Rightarrow> bool" where
  "key_agreed ops n p k \<longleftrightarrow> stamp ops n k \<noteq> None \<and> stamp ops n k = stamp ops (sv_node p) k"

definition others_unchanged :: "'n node_ops \<Rightarrow> string set \<Rightarrow> 'n \<Rightarrow> 'n \<Rightarrow> bool" where
  "others_unchanged ops K n n' \<longleftrightarrow> (\<forall>k. k \<notin> K \<longrightarrow> stamp ops n' k = stamp ops n k)"

text \<open>What handling the keys \<open>K\<close> with the digests \<open>lm\<close> and \<open>rm\<close> does to the two nodes.\<close>

definition reconciled ::
  "'n node_ops \<Rightarrow> ('n \<Rightarrow> bool) \<Rightarrow> 'i \<Rightarrow> 'i \<Rightarrow> (string \<rightharpoonup> CrdtDigestEntry) \<Rightarrow> (string \<rightharpoonup> CrdtDigestEntry) \<Rightarrow> string set \<Rightarrow>
     'n \<Rightarrow> 'n CrdtService \<Rightarrow> 'n \<Rightarrow> 'n CrdtService \<Rightarrow> bool" where
  "reconciled ops ok i j lm rm K n p n' p' \<longleftrightarrow> paired ops ok i j n' p' \<and>
     others_unchanged ops K n n' \<and> others_unchanged ops K (sv_node p) (sv_node p') \<and>
     (\<forall>k \<in> K. reports ops n k (lm k) \<and> reports ops (sv_node p) k (rm k) \<longrightarrow> key_agreed ops n' p' k)"

lemma stamp_same: "no_get ops n' = no_get ops n \<Longrightarrow> stamp ops n' = stamp ops n"
  by (simp add: stamp_def fun_eq_iff)

lemma dom_stamp: "dom (stamp ops n) = dom (no_get ops n)"
  by (auto simp: stamp_def dom_def)

lemma stamp_put: "no_get ops n' = (no_get ops n)(k \<mapsto> m) \<Longrightarrow> stamp ops n' = (stamp ops n)(k \<mapsto> (se_type m, se_version m))"
  by (simp add: stamp_def fun_eq_iff)

lemma stamp_merged:
  assumes "no_get ops n' = (no_get ops n)(k \<mapsto> m)" "merged_with (no_get ops n k) e m"
  shows "stamp ops n' = (stamp ops n)(k := join_stamp (stamp ops n k) (Some (se_type e, se_version e)))"
proof (cases "no_get ops n k")
  case None
  then show ?thesis using assms stamp_put [OF assms(1)] by (simp add: merged_with_def stamp_def)
next
  case (Some x)
  then have "se_type m = se_type x \<and> se_version m = vv_merge (se_version x) (se_version e)"
    using assms(2) by (auto simp: merged_with_def merge_entries_def StoredCrdtEntry_init_def rbind_eq_Inr split: if_splits)
  then show ?thesis using Some stamp_put [OF assms(1)] by (simp add: stamp_def)
qed


text \<open>What the digests say decides what the round does, so that both sides end with the same stamp.\<close>

lemma merge_absorb_right: "vv_ok v \<Longrightarrow> vv_ok w \<Longrightarrow> dominates w v \<Longrightarrow> vv_merge v w = w"
  by (auto simp: dominates_iff max_absorb2 intro!: vv_ext)

lemma compare_digest_relation:
  assumes "compare_digest l r = Inr d" "vv_ok (dg_version l)" "vv_ok (dg_version r)"
  shows "dg_type l = dg_type r"
    and "d \<in> {DIGEST_EQUAL, METADATA_ONLY} \<Longrightarrow> dg_version l = dg_version r"
    and "d = LOCAL_AHEAD \<Longrightarrow> vv_merge (dg_version r) (dg_version l) = dg_version l"
    and "d = REMOTE_AHEAD \<Longrightarrow> vv_merge (dg_version l) (dg_version r) = dg_version r"
proof -
  let ?c = "vv_compare (dg_version l) (dg_version r)"
  show "dg_type l = dg_type r" using assms(1) by (simp add: compare_digest_def split: if_splits)
  have lr: "?c \<in> {EQUAL, AFTER} \<Longrightarrow> dominates (dg_version l) (dg_version r)" by (auto simp: dominates_def)
  have rl: "?c \<in> {EQUAL, BEFORE} \<Longrightarrow> dominates (dg_version r) (dg_version l)"
    by (auto simp: dominates_iff vv_compare_spec Let_def intro: leI split: if_splits)
  have c: "d \<in> {DIGEST_EQUAL, METADATA_ONLY} \<Longrightarrow> ?c = EQUAL" "d = LOCAL_AHEAD \<Longrightarrow> ?c = AFTER" "d = REMOTE_AHEAD \<Longrightarrow> ?c = BEFORE"
    using assms(1) by (auto simp: compare_digest_def split: if_splits VersionRelation.splits)
  show "d \<in> {DIGEST_EQUAL, METADATA_ONLY} \<Longrightarrow> dg_version l = dg_version r"
    using c(1) lr rl dominates_antisym [OF assms(2,3)] by simp
  show "d = LOCAL_AHEAD \<Longrightarrow> vv_merge (dg_version r) (dg_version l) = dg_version l"
    using c(2) lr merge_absorb_right [OF assms(3,2)] by simp
  show "d = REMOTE_AHEAD \<Longrightarrow> vv_merge (dg_version l) (dg_version r) = dg_version r"
    using c(3) rl merge_absorb_right [OF assms(2,3)] by simp
qed

text \<open>The keys of \<open>n\<close> that the node \<open>a\<close> and the node \<open>b\<close> share according to \<open>selector\<close>.\<close>

definition shared_keys :: "'n node_ops \<Rightarrow> ReplicaSelector \<Rightarrow> string \<Rightarrow> string \<Rightarrow> 'n \<Rightarrow> string set" where
  "shared_keys ops selector a b n = {k \<in> dom (no_get ops n). shared_replica selector a k b = Inr True}"

lemma shared_keys_stamp: "stamp ops n' = stamp ops n \<Longrightarrow> shared_keys ops selector a b n' = shared_keys ops selector a b n"
  by (simp add: shared_keys_def dom_stamp [symmetric])

text \<open>The keys that a reconciliation is asked for; \<open>None\<close> is all of them.\<close>

definition key_wanted :: "string set option \<Rightarrow> string \<Rightarrow> bool" where
  "key_wanted keys k = (case keys of None \<Rightarrow> True | Some ks \<Rightarrow> k \<in> ks)"

definition digests_of :: "'n node_ops \<Rightarrow> 'n \<Rightarrow> CrdtDigestEntry list \<Rightarrow> bool" where
  "digests_of ops n ds \<longleftrightarrow> (\<forall>d \<in> set ds. \<exists>e. no_get ops n (dg_key d) = Some e \<and> d = digest_from_entry e)"

lemma digest_map_of:
  assumes "digests_of ops n ds"
  shows "digest_map ds k = (if k \<in> dg_key ` set ds then map_option digest_from_entry (no_get ops n k) else None)"
proof (cases "digest_map ds k")
  case None
  then have "k \<notin> dg_key ` set ds" by (simp add: digest_map_def map_of_eq_None_iff image_image)
  then show ?thesis using None by simp
next
  case (Some d)
  then have "(k, d) \<in> set (rev (map (\<lambda>d. (dg_key d, d)) ds))" unfolding digest_map_def by (rule map_of_SomeD)
  then have "d \<in> set ds" "dg_key d = k" by auto
  then show ?thesis using assms Some by (auto simp: digests_of_def)
qed

section \<open>The steps of a round\<close>

context crdt_node
begin

lemma paired_history:
  assumes "paired ops ok i j n p"
  obtains h lg w where "cluster_reach ops ok h" "history_ok ops ok lg w h" "wd_node h i = n" "wd_node h j = sv_node p" "i \<noteq> j"
  using assms cluster_reach_history unfolding paired_def by metis

lemma paired_ok: "paired ops ok i j n p \<Longrightarrow> ok n \<and> ok (sv_node p)"
  by (erule paired_history) (metis history_okD(1))

lemma paired_get_ok:
  assumes "paired ops ok i j n p"
  shows "no_get ops n k = Some e \<Longrightarrow> se_key e = k \<and> entry_ok e" "no_get ops (sv_node p) k = Some e \<Longrightarrow> se_key e = k \<and> entry_ok e"
  using paired_ok [OF assms] get_ok by blast+

lemma paired_left:
  assumes "cluster_reach ops ok h" "wd_node h j = sv_node p" "i \<noteq> j"
    and "cluster_step ops h \<lparr>wd_node = (wd_node h)(i := n'), wd_pool = P\<rparr>"
  shows "paired ops ok i j n' p"
  unfolding paired_def using assms(2,3) cluster_reach.Step [OF assms(1,4)]
  by (intro conjI exI [of _ "\<lparr>wd_node = (wd_node h)(i := n'), wd_pool = P\<rparr>"]) auto

lemma paired_right:
  assumes "cluster_reach ops ok h" "wd_node h i = n" "i \<noteq> j"
    and "cluster_step ops h \<lparr>wd_node = (wd_node h)(j := sv_node p'), wd_pool = P\<rparr>"
  shows "paired ops ok i j n p'"
  unfolding paired_def using assms(2,3) cluster_reach.Step [OF assms(1,4)]
  by (intro conjI exI [of _ "\<lparr>wd_node = (wd_node h)(j := sv_node p'), wd_pool = P\<rparr>"]) auto

lemma merge_left:
  assumes "paired ops ok i j n p" "no_get ops (sv_node p) k = Some e" "no_merge_entry ops n e = (Inr m, n')"
  shows "paired ops ok i j n' p" "no_get ops n' k = Some m"
    and "stamp ops n' = (stamp ops n)(k := join_stamp (stamp ops n k) (stamp ops (sv_node p) k))"
proof -
  obtain h lg w where h: "cluster_reach ops ok h" "history_ok ops ok lg w h" "wd_node h i = n" "wd_node h j = sv_node p" "i \<noteq> j"
    by (rule paired_history [OF assms(1)])
  have "e \<in> wd_pool h" using history_okD(5) [OF h(2), of j k e] h(4) assms(2) by simp
  from cluster_step.Merge [OF this, of ops i m n'] show "paired ops ok i j n' p"
    using paired_left [OF h(1,4,5)] assms(3) h(3) by simp
  have e: "se_key e = k" "entry_ok e" using paired_get_ok(2) [OF assms(1,2)] by simp_all
  with merge_step [OF _ e(2) assms(3)] paired_ok [OF assms(1)]
  have "no_get ops n' = (no_get ops n)(k \<mapsto> m)" "merged_with (no_get ops n k) e m" by simp_all
  then show "no_get ops n' k = Some m" "stamp ops n' = (stamp ops n)(k := join_stamp (stamp ops n k) (stamp ops (sv_node p) k))"
    using stamp_merged [of ops n' n k m e] assms(2) by (simp_all add: stamp_def [of ops "sv_node p"])
qed

lemma observe_right:
  assumes "paired ops ok i j n p" "vv_ok v"
  shows "paired ops ok i j n (observe_context ops v p)" "stamp ops (sv_node (observe_context ops v p)) = stamp ops (sv_node p)"
    "no_get ops (sv_node (observe_context ops v p)) = no_get ops (sv_node p)"
proof -
  obtain h lg w where h: "cluster_reach ops ok h" "history_ok ops ok lg w h" "wd_node h i = n" "wd_node h j = sv_node p" "i \<noteq> j"
    by (rule paired_history [OF assms(1)])
  from cluster_step.Observe [OF assms(2), of ops h j] show "paired ops ok i j n (observe_context ops v p)"
    using paired_right [OF h(1,3,5)] h(4) by (simp add: observe_context_def)
  show "no_get ops (sv_node (observe_context ops v p)) = no_get ops (sv_node p)"
    using observe_context_spec(2) [OF _ assms(2)] paired_ok [OF assms(1)] by simp
  then show "stamp ops (sv_node (observe_context ops v p)) = stamp ops (sv_node p)" by (rule stamp_same)
qed

lemma success_right:
  assumes "paired ops ok i j n p" "entry_ok e" "success_response ops cfg e repair include p = (r, p')"
  shows "paired ops ok i j n p'" "stamp ops (sv_node p') = stamp ops (sv_node p)"
proof -
  have "p' = observe_context ops (se_context e) p" using assms(3) by (simp add: success_response_def Let_def)
  moreover have "vv_ok (se_context e)" using assms(2) by (simp add: entry_ok_def)
  ultimately show "paired ops ok i j n p'" "stamp ops (sv_node p') = stamp ops (sv_node p)"
    using observe_right [OF assms(1)] by simp_all
qed

lemma replicate_right:
  assumes "paired ops ok i j n p" "no_get ops n k = Some e" "replicate_response ops cfg e p = (Inr r, p')"
  shows "paired ops ok i j n p'"
    and "stamp ops (sv_node p') = (stamp ops (sv_node p))(k := join_stamp (stamp ops (sv_node p) k) (stamp ops n k))"
proof -
  obtain h lg w where h: "cluster_reach ops ok h" "history_ok ops ok lg w h" "wd_node h i = n" "wd_node h j = sv_node p" "i \<noteq> j"
    by (rule paired_history [OF assms(1)])
  obtain m q where m: "no_merge_entry ops (sv_node p) e = (Inr m, q)"
    and s: "success_response ops cfg m False True (observe_context ops (se_context m) (p\<lparr>sv_node := q\<rparr>)) = (Inr r, p')"
    using assms(3) by (auto simp: replicate_response_def split: prod.splits sum.splits)
  have "e \<in> wd_pool h" using history_okD(5) [OF h(2), of i k e] h(3) assms(2) by simp
  from cluster_step.Merge [OF this, of ops j m q] have q: "paired ops ok i j n (p\<lparr>sv_node := q\<rparr>)"
    using paired_right [OF h(1,3,5)] m h(4) by simp
  have e: "se_key e = k" "entry_ok e" using paired_get_ok(1) [OF assms(1,2)] by simp_all
  with merge_step [OF _ e(2) m] paired_ok [OF assms(1)]
  have g: "no_get ops q = (no_get ops (sv_node p))(k \<mapsto> m)" "merged_with (no_get ops (sv_node p) k) e m" by simp_all
  then have "entry_ok m" using paired_get_ok(2) [OF q, of k m] by simp
  moreover from this have "vv_ok (se_context m)" by (simp add: entry_ok_def)
  ultimately have "paired ops ok i j n p'" "stamp ops (sv_node p') = stamp ops q"
    using success_right [OF observe_right(1) [OF q] _ s] observe_right(2) [OF q] by simp_all
  then show "paired ops ok i j n p'"
    "stamp ops (sv_node p') = (stamp ops (sv_node p))(k := join_stamp (stamp ops (sv_node p) k) (stamp ops n k))"
    using stamp_merged [OF g] assms(2) by (simp_all add: stamp_def [of ops n])
qed

lemma metadata_stamp:
  assumes "ok n" "vv_ok v" "no_merge_metadata ops n k v = (r, n')"
  shows "stamp ops n' = stamp ops n"
  using metadata_step [OF assms] by (auto simp: stamp_def fun_eq_iff context_added_def split: sum.splits option.splits)

lemma metadata_step_any:
  assumes "vv_ok v" "no_merge_metadata ops (wd_node h i) k v = (r, n')"
  shows "\<exists>P. cluster_step ops h \<lparr>wd_node = (wd_node h)(i := n'), wd_pool = P\<rparr>"
proof (cases "\<exists>m. r = Inr (Some m)")
  case True
  then obtain m where "no_merge_metadata ops (wd_node h i) k v = (Inr (Some m), n')" using assms(2) by blast
  then show ?thesis by (intro exI) (rule cluster_step.Metadata [OF assms(1)])
next
  case False
  then have "\<And>m. r \<noteq> Inr (Some m)" by blast
  then show ?thesis by (intro exI) (rule cluster_step.MetadataStays [OF assms])
qed

lemma metadata_left:
  assumes "paired ops ok i j n p" "vv_ok v" "no_merge_metadata ops n k v = (r, n')"
  shows "paired ops ok i j n' p" "stamp ops n' = stamp ops n"
proof -
  obtain h lg w where h: "cluster_reach ops ok h" "history_ok ops ok lg w h" "wd_node h i = n" "wd_node h j = sv_node p" "i \<noteq> j"
    by (rule paired_history [OF assms(1)])
  show "paired ops ok i j n' p"
    using metadata_step_any [OF assms(2), of h i k r n'] assms(3) h(3) paired_left [OF h(1,4,5)] by auto
  show "stamp ops n' = stamp ops n" using metadata_stamp [OF _ assms(2,3)] paired_ok [OF assms(1)] by simp
qed

lemma metadata_right:
  assumes "paired ops ok i j n p" "vv_ok v" "no_merge_metadata ops (sv_node p) k v = (r, q)"
  shows "paired ops ok i j n (p\<lparr>sv_node := q\<rparr>)" "stamp ops q = stamp ops (sv_node p)"
proof -
  obtain h lg w where h: "cluster_reach ops ok h" "history_ok ops ok lg w h" "wd_node h i = n" "wd_node h j = sv_node p" "i \<noteq> j"
    by (rule paired_history [OF assms(1)])
  show "paired ops ok i j n (p\<lparr>sv_node := q\<rparr>)"
    using metadata_step_any [OF assms(2), of h j k r q] assms(3) h(4) paired_right [OF h(1,3,5), where p' = "p\<lparr>sv_node := q\<rparr>"]
    by auto
  show "stamp ops q = stamp ops (sv_node p)" using metadata_stamp [OF _ assms(2,3)] paired_ok [OF assms(1)] by simp
qed

lemma digest_metadata_right:
  assumes "paired ops ok i j n p" "\<And>d. d \<in> set ds \<Longrightarrow> vv_ok (dg_context d)" "digest_metadata ops ds (sv_node p) = (r, q)"
  shows "paired ops ok i j n (p\<lparr>sv_node := q\<rparr>) \<and> stamp ops q = stamp ops (sv_node p)"
  using assms
proof (induction ds arbitrary: p)
  case (Cons d ds)
  show ?case
  proof (cases "\<exists>e. no_get ops (sv_node p) (dg_key d) = Some e \<and> se_type e = dg_type d \<and> se_version e = dg_version d")
    case True
    obtain x q1 where m: "no_merge_metadata ops (sv_node p) (dg_key d) (dg_context d) = (x, q1)" by fastforce
    note s = metadata_right [OF Cons.prems(1) _ m]
    have "vv_ok (dg_context d)" using Cons.prems(2) by simp
    with s True m show ?thesis using Cons.prems Cons.IH [of "p\<lparr>sv_node := q1\<rparr>"] by (auto split: sum.splits)
  next
    case False
    then show ?thesis using Cons.prems Cons.IH [of p] by (auto split: option.splits if_splits)
  qed
qed (auto simp: paired_def)

lemma answer_digest_right:
  assumes "paired ops ok i j n p" "\<And>d. d \<in> set ds \<Longrightarrow> vv_ok (dg_context d)"
    and "answer_digest ops cfg requester ds b p = (Inr answer, p')"
  shows "paired ops ok i j n p'" "stamp ops (sv_node p') = stamp ops (sv_node p)"
    and "\<exists>snapshot. digest_snapshot ops (sc_selector cfg) (sc_node_id cfg) requester (sv_node p') = Inr snapshot \<and>
      answer = take (nat (if b \<noteq> 0 then max 1 b else sc_batch_size cfg)) snapshot"
proof -
  obtain q where q: "digest_metadata ops ds (sv_node p) = (Inr (), q)" "p' = p\<lparr>sv_node := q\<rparr>"
    and s: "\<exists>snapshot. digest_snapshot ops (sc_selector cfg) (sc_node_id cfg) requester q = Inr snapshot \<and>
      answer = take (nat (if b \<noteq> 0 then max 1 b else sc_batch_size cfg)) snapshot"
    using assms(3) by (auto simp: answer_digest_def rbind_eq_Inr split: if_splits prod.splits sum.splits)
  show "paired ops ok i j n p'" "stamp ops (sv_node p') = stamp ops (sv_node p)"
    using digest_metadata_right [OF assms(1,2) q(1)] q(2) by simp_all
  show "\<exists>snapshot. digest_snapshot ops (sc_selector cfg) (sc_node_id cfg) requester (sv_node p') = Inr snapshot \<and>
      answer = take (nat (if b \<noteq> 0 then max 1 b else sc_batch_size cfg)) snapshot"
    using s q(2) by simp
qed

section \<open>One key\<close>

lemma pull_effect:
  assumes "paired ops ok i j n p" "pull_state ops (served_calls ops cfg requester) k n p = (Inr r, n', p')"
  shows "paired ops ok i j n' p'" "stamp ops (sv_node p') = stamp ops (sv_node p)"
    and "stamp ops n' = (stamp ops n)(k := join_stamp (stamp ops n k) (stamp ops (sv_node p) k))"
    and "r \<noteq> None \<Longrightarrow> no_get ops n' k = r" "r = None \<Longrightarrow> stamp ops (sv_node p) k = None"
proof -
  have "paired ops ok i j n' p' \<and> stamp ops (sv_node p') = stamp ops (sv_node p) \<and>
    stamp ops n' = (stamp ops n)(k := join_stamp (stamp ops n k) (stamp ops (sv_node p) k)) \<and>
    (r \<noteq> None \<longrightarrow> no_get ops n' k = r) \<and> (r = None \<longrightarrow> stamp ops (sv_node p) k = None)"
  proof (cases "no_get ops (sv_node p) k")
    case None
    then have "r = None" "n' = n" "p' = p"
      using assms(2) by (auto simp: pull_state_def ae_fetch_state_def served_calls_def fetch_response_def Let_def)
    then show ?thesis using None assms(1) by (cases "stamp ops n k") (auto simp: stamp_def)
  next
    case (Some e)
    have e: "entry_ok e" using paired_get_ok(2) [OF assms(1) Some] by simp
    obtain resp q where f: "success_response ops cfg e False True p = (resp, q)" by fastforce
    have st: "rs_success d \<and> rs_state d = Some e" if "resp = Inr d" for d
      using success_response_spec(5) [OF _ e f] paired_ok [OF assms(1)] that by simp
    have q: "paired ops ok i j n q" "stamp ops (sv_node q) = stamp ops (sv_node p)" by (fact success_right [OF assms(1) e f])+
    have gq: "no_get ops (sv_node q) k = Some e"
      using success_response_spec(3) [OF _ e f] paired_ok [OF assms(1)] Some by simp
    have "\<exists>m. no_merge_entry ops n e = (Inr m, n') \<and> r = Some m \<and> p' = q"
      using assms(2) f Some st
      by (cases resp) (auto simp: pull_state_def ae_fetch_state_def served_calls_def fetch_response_def split: prod.splits sum.splits)
    then obtain m where m: "no_merge_entry ops n e = (Inr m, n')" "r = Some m" "p' = q" by blast
    show ?thesis using merge_left [OF q(1) gq m(1)] m q(2) Some by simp
  qed
  then show "paired ops ok i j n' p'" "stamp ops (sv_node p') = stamp ops (sv_node p)"
    "stamp ops n' = (stamp ops n)(k := join_stamp (stamp ops n k) (stamp ops (sv_node p) k))"
    "r \<noteq> None \<Longrightarrow> no_get ops n' k = r" "r = None \<Longrightarrow> stamp ops (sv_node p) k = None" by blast+
qed

lemma push_effect:
  assumes "paired ops ok i j n p" "push_state (served_calls ops cfg requester) (no_get ops n k) n p = (Inr r, n', p')"
  shows "paired ops ok i j n' p'" "n' = n"
    and "stamp ops (sv_node p') = (stamp ops (sv_node p))(k := join_stamp (stamp ops (sv_node p) k) (stamp ops n k))"
proof -
  have "paired ops ok i j n' p' \<and> n' = n \<and>
    stamp ops (sv_node p') = (stamp ops (sv_node p))(k := join_stamp (stamp ops (sv_node p) k) (stamp ops n k))"
  proof (cases "no_get ops n k")
    case None
    then show ?thesis using assms by (auto simp: push_state_def stamp_def)
  next
    case (Some e)
    then obtain d where "replicate_response ops cfg e p = (Inr d, p')" "n' = n"
      using assms(2) by (auto simp: push_state_def ae_send_state_def served_calls_def rbind_eq_Inr
          split: prod.splits sum.splits)
    with replicate_right [OF assms(1) Some] show ?thesis by simp
  qed
  then show "paired ops ok i j n' p'" "n' = n"
    "stamp ops (sv_node p') = (stamp ops (sv_node p))(k := join_stamp (stamp ops (sv_node p) k) (stamp ops n k))" by blast+
qed

lemma push_metadata_effect:
  assumes "paired ops ok i j n p" "vv_ok v" "push_metadata ops (served_calls ops cfg requester) k v n p = (Inr r, n', p')"
  shows "paired ops ok i j n' p'" "stamp ops n' = stamp ops n" "stamp ops (sv_node p') = stamp ops (sv_node p)"
proof -
  obtain x where m: "no_merge_metadata ops n k v = (Inr x, n')"
    and s: "ae_send_metadata (served_calls ops cfg requester) p (no_get ops n' k) v = (Inr (), p')"
    using assms(3) by (auto simp: push_metadata_def split: prod.splits sum.splits)
  note l = metadata_left [OF assms(1,2) m]
  have "paired ops ok i j n' p' \<and> stamp ops (sv_node p') = stamp ops (sv_node p)"
  proof (cases "no_get ops n' k")
    case (Some e)
    let ?d = "\<lparr>dg_key = se_key e, dg_type = se_type e, dg_version = se_version e, dg_context = v\<rparr>"
    obtain answer where "answer_digest ops cfg requester [?d] 1 p = (Inr answer, p')"
      using s Some by (auto simp: ae_send_metadata_def served_calls_def rbind_eq_Inr split: prod.splits)
    from answer_digest_right(1,2) [OF l(1) _ this] show ?thesis using assms(2) by simp
  qed (use s l(1) in \<open>auto simp: ae_send_metadata_def\<close>)
  then show "paired ops ok i j n' p'" "stamp ops n' = stamp ops n" "stamp ops (sv_node p') = stamp ops (sv_node p)"
    using l(2) by blast+
qed

lemma reports_versions:
  assumes "paired ops ok i j n p" "reports ops n k (Some l)" "reports ops (sv_node p) k (Some r)"
  shows "vv_ok (dg_version l)" "vv_ok (dg_version r)"
  using assms(2,3) paired_get_ok [OF assms(1), of k] by (auto simp: reports_def stamp_def entry_ok_def)

lemma concurrent_run:
  assumes "reconcile_key ops cl k (Some l) (Some r) n p = (Inr b, n', p')" "compare_digest l r = Inr DIGEST_CONCURRENT"
  obtains (Nothing) n1 p1 where "pull_state ops cl k n p = (Inr None, n1, p1)" "n' = n1" "p' = p1"
  | (Pulled) e n1 p1 where "pull_state ops cl k n p = (Inr (Some e), n1, p1)" "push_state cl (Some e) n1 p1 = (Inr b, n', p')"
proof -
  obtain y n1 p1 where a: "pull_state ops cl k n p = (y, n1, p1)" by (rule prod_cases3)
  note run = assms(1) [unfolded reconcile_key_def Let_def option.case prod.case assms(2) sum.case DigestRelation.case a]
  show ?thesis
  proof (cases y)
    case (Inl e)
    then show ?thesis using run by simp
  next
    case (Inr x)
    note run = run [unfolded Inr sum.case]
    show ?thesis
    proof (cases x)
      case None
      with run a Inr show ?thesis by (intro Nothing) simp_all
    next
      case (Some e)
      with run a Inr show ?thesis by (intro Pulled) simp_all
    qed
  qed
qed

lemma both_agreed:
  assumes "paired ops ok i j n p" "digest_valid (Some l)" "digest_valid (Some r)" "compare_digest l r = Inr d"
    and "reconcile_key ops (served_calls ops cfg requester) k (Some l) (Some r) n p = (Inr b, n', p')"
  shows "paired ops ok i j n' p' \<and> others_unchanged ops {k} n n' \<and> others_unchanged ops {k} (sv_node p) (sv_node p') \<and>
    (reports ops n k (Some l) \<and> reports ops (sv_node p) k (Some r) \<longrightarrow> key_agreed ops n' p' k)"
proof -
  let ?cl = "served_calls ops cfg requester"
  note run = assms(5) [unfolded reconcile_key_def Let_def option.case prod.case assms(4) sum.case]
  have rep: "stamp ops n k = Some (dg_type l, dg_version l) \<and> stamp ops (sv_node p) k = Some (dg_type l, dg_version r) \<and>
      vv_ok (dg_version l) \<and> vv_ok (dg_version r)"
    if "reports ops n k (Some l)" "reports ops (sv_node p) k (Some r)"
    using reports_versions [OF assms(1) that] compare_digest_relation(1) [OF assms(4)] that by (simp add: reports_def)
  note rel = compare_digest_relation(2-4) [OF assms(4)]
  note others = others_unchanged_def [of ops "{k}"]
  show ?thesis
  proof (cases d)
    case DIGEST_EQUAL
    then have "n' = n" "p' = p" using run by simp_all
    then show ?thesis using assms(1) rel(1) rep DIGEST_EQUAL by (simp add: key_agreed_def others)
  next
    case METADATA_ONLY
    have "vv_ok (vv_merge (dg_context l) (dg_context r))" using assms(2,3) by (simp add: digest_valid_def)
    from push_metadata_effect [OF assms(1) this run [unfolded METADATA_ONLY DigestRelation.case]]
    show ?thesis using rel(1) rep METADATA_ONLY by (simp add: key_agreed_def others)
  next
    case LOCAL_AHEAD
    from push_effect [OF assms(1) run [unfolded LOCAL_AHEAD DigestRelation.case]]
    show ?thesis using rel(2) rep LOCAL_AHEAD by (simp add: key_agreed_def others)
  next
    case REMOTE_AHEAD
    note run = run [unfolded REMOTE_AHEAD DigestRelation.case]
    obtain x where "pull_state ops ?cl k n p = (Inr x, n', p')" using run by (auto simp: rbind_eq_Inr split: prod.splits)
    from pull_effect [OF assms(1) this] show ?thesis using rel(3) rep REMOTE_AHEAD by (simp add: key_agreed_def others)
  next
    case DIGEST_CONCURRENT
    show ?thesis
    proof (rule concurrent_run [OF assms(5) assms(4) [unfolded DIGEST_CONCURRENT]])
      fix n1 p1
      assume a: "pull_state ops ?cl k n p = (Inr None, n1, p1)" and c: "n' = n1" "p' = p1"
      note m = pull_effect [OF assms(1) a]
      show ?thesis using m(1-3) m(5) [OF refl] c rep by (auto simp: others)
    next
      fix e n1 p1
      assume a: "pull_state ops ?cl k n p = (Inr (Some e), n1, p1)"
        and c: "push_state ?cl (Some e) n1 p1 = (Inr b, n', p')"
      note m = pull_effect [OF assms(1) a]
      have "push_state ?cl (no_get ops n1 k) n1 p1 = (Inr b, n', p')" using c m(4) by simp
      note q = push_effect [OF m(1) this]
      show ?thesis using q m(2,3) rep merge_absorb_right [of "dg_version r" "vv_merge (dg_version l) (dg_version r)"]
        by (simp add: key_agreed_def others)
    qed
  qed
qed

lemma reconcile_key_effect:
  assumes "paired ops ok i j n p" "digest_valid l" "digest_valid r"
    and "reconcile_key ops (served_calls ops cfg requester) k l r n p = (Inr b, n', p')"
  shows "paired ops ok i j n' p' \<and> others_unchanged ops {k} n n' \<and> others_unchanged ops {k} (sv_node p) (sv_node p') \<and>
    (reports ops n k l \<and> reports ops (sv_node p) k r \<longrightarrow> key_agreed ops n' p' k)"
proof (cases l)
  case None
  show ?thesis
  proof (cases r)
    case (Some y)
    then obtain x where "pull_state ops (served_calls ops cfg requester) k n p = (Inr x, n', p')"
      using assms(4) None by (auto simp: reconcile_key_def rbind_eq_Inr split: prod.splits)
    note m = pull_effect [OF assms(1) this]
    then show ?thesis using None Some by (auto simp: reports_def key_agreed_def others_unchanged_def)
  qed (use assms(4) None in \<open>simp add: reconcile_key_def\<close>)
next
  case (Some x)
  show ?thesis
  proof (cases r)
    case None
    then have "push_state (served_calls ops cfg requester) (no_get ops n k) n p = (Inr b, n', p')"
      using assms(4) Some by (simp add: reconcile_key_def)
    note m = push_effect [OF assms(1) this]
    then show ?thesis using None Some by (auto simp: reports_def key_agreed_def others_unchanged_def)
  next
    case (Some y)
    obtain d where "compare_digest x y = Inr d"
      using assms(4) \<open>l = Some x\<close> Some by (cases "compare_digest x y") (auto simp: reconcile_key_def)
    from both_agreed [OF assms(1) _ _ this] show ?thesis using assms \<open>l = Some x\<close> Some by simp
  qed
qed

section \<open>One round\<close>

lemma reconcile_keys_effect:
  assumes "paired ops ok i j n p" "\<And>k. digest_valid (lm k) \<and> digest_valid (rm k)" "distinct ks"
    and "reconcile_keys ops (served_calls ops cfg requester) lm rm ks c n p = (Inr d, n', p')"
  shows "reconciled ops ok i j lm rm (set ks) n p n' p'"
  using assms
proof (induction ks arbitrary: c n p)
  case Nil
  then show ?case by (simp add: reconciled_def others_unchanged_def)
next
  case (Cons k ks)
  obtain b n1 p1 where a: "reconcile_key ops (served_calls ops cfg requester) k (lm k) (rm k) n p = (Inr b, n1, p1)"
    and rest: "reconcile_keys ops (served_calls ops cfg requester) lm rm ks (if b then c + 1 else c) n1 p1 = (Inr d, n', p')"
    using Cons.prems(4)
    by (cases "reconcile_key ops (served_calls ops cfg requester) k (lm k) (rm k) n p") (auto split: sum.splits)
  have one: "paired ops ok i j n1 p1" "others_unchanged ops {k} n n1" "others_unchanged ops {k} (sv_node p) (sv_node p1)"
    "reports ops n k (lm k) \<and> reports ops (sv_node p) k (rm k) \<longrightarrow> key_agreed ops n1 p1 k"
    using reconcile_key_effect [OF Cons.prems(1) _ _ a] Cons.prems(2) by simp_all
  have k: "k \<notin> set ks" "distinct ks" using Cons.prems(3) by simp_all
  have rest': "reconciled ops ok i j lm rm (set ks) n1 p1 n' p'"
    by (rule Cons.IH [OF one(1) Cons.prems(2) k(2) rest])
  have "stamp ops n1 ka = stamp ops n ka" "stamp ops (sv_node p1) ka = stamp ops (sv_node p) ka" if "ka \<in> set ks" for ka
    using one(2,3) k(1) that by (auto simp: others_unchanged_def)
  then have tail: "reports ops n ka (lm ka) \<and> reports ops (sv_node p) ka (rm ka) \<longrightarrow> key_agreed ops n' p' ka" if "ka \<in> set ks" for ka
    using rest' that by (simp add: reconciled_def reports_def)
  have "stamp ops n' k = stamp ops n1 k" "stamp ops (sv_node p') k = stamp ops (sv_node p1) k"
    using rest' k(1) by (simp_all add: reconciled_def others_unchanged_def)
  then have "reports ops n k (lm k) \<and> reports ops (sv_node p) k (rm k) \<longrightarrow> key_agreed ops n' p' k"
    using one(4) unfolding key_agreed_def by metis
  then show ?case using one(2,3) rest' tail by (simp add: reconciled_def others_unchanged_def)
qed

lemma shared_digest_spec:
  assumes "ok n" "shared_digest ops selector a b wanted n = Inr ds"
  shows "length ds = card (shared_keys ops selector a b n \<inter> Collect wanted)"
    "dg_key ` set ds = shared_keys ops selector a b n \<inter> Collect wanted" "digests_of ops n ds"
proof -
  let ?P = "\<lambda>k. shared_replica selector a k b = Inr True \<and> wanted k"
  let ?es = "filter (\<lambda>e. ?P (se_key e)) (no_snapshot_all ops n)"
  have ds: "ds = map digest_from_entry ?es"
  proof -
    obtain es where "rfilter (\<lambda>e. rbind (shared_replica selector a (se_key e) b) (\<lambda>b. Inr (b \<and> wanted (se_key e))))
        (no_snapshot_all ops n) = Inr es" "ds = map digest_from_entry es"
      using assms(2) unfolding shared_digest_def rbind_eq_Inr by auto
    moreover have "rbind (shared_replica selector a k b) (\<lambda>b. Inr (b \<and> wanted k)) = Inr True \<longleftrightarrow> ?P k" for k
      by (auto simp: rbind_eq_Inr)
    ultimately show ?thesis using rfilter_Inr by fastforce
  qed
  have keys: "map dg_key ds = map se_key ?es" by (simp add: ds digest_from_entry_def)
  have get: "no_get ops n (se_key e) = Some e" if "e \<in> set ?es" for e using that snapshot [OF assms(1)] by simp
  have "k \<in> se_key ` set ?es" if "no_get ops n k = Some e" "?P k" for k e
    using snapshot [OF assms(1), of e] get_ok [OF assms(1) that(1)] that by force
  then have "se_key ` set ?es = shared_keys ops selector a b n \<inter> Collect wanted" using get by (fastforce simp: shared_keys_def)
  then show dom: "dg_key ` set ds = shared_keys ops selector a b n \<inter> Collect wanted" using arg_cong [OF keys, of set] by simp
  have "distinct (map dg_key ds)" unfolding keys using snapshot_keys [OF assms(1)] by (rule distinct_map_filter)
  from distinct_card [OF this] show "length ds = card (shared_keys ops selector a b n \<inter> Collect wanted)" using dom by simp
  show "digests_of ops n ds" using get by (auto simp: digests_of_def ds digest_from_entry_def)
qed

lemma digests_valid:
  assumes "ok n" "digests_of ops n ds"
  shows "d \<in> set ds \<Longrightarrow> vv_ok (dg_context d)" "digest_valid (digest_map ds k)"
proof -
  have e: "no_get ops n k = Some e \<Longrightarrow> vv_ok (se_context e)" for k e using get_ok [OF assms(1)] by (simp add: entry_ok_def)
  then show "d \<in> set ds \<Longrightarrow> vv_ok (dg_context d)" using assms(2) by (force simp: digests_of_def digest_from_entry_def)
  show "digest_valid (digest_map ds k)"
    using e by (auto simp: digest_map_of [OF assms(2)] digest_valid_def digest_from_entry_def split: option.splits)
qed

lemma digests_report:
  assumes "digests_of ops n ds" "k \<in> dom (no_get ops n) \<Longrightarrow> k \<in> dg_key ` set ds"
  shows "reports ops n k (digest_map ds k)"
  using assms(2) by (cases "no_get ops n k") (auto simp: reports_def stamp_def digest_map_of [OF assms(1)] digest_from_entry_def)

text \<open>The answer of a peer with no more shared keys than the initiator is complete.\<close>

lemma exchange_complete:
  assumes "paired ops ok i j n p" "digests_of ops n mine"
    and "ae_exchange_digest (served_calls ops cfg requester) p mine = (Inr answer, p1)"
    and "card (shared_keys ops (sc_selector cfg) (sc_node_id cfg) requester (sv_node p)) \<le> max 1 (length mine)"
  shows "paired ops ok i j n p1" "stamp ops (sv_node p1) = stamp ops (sv_node p)" "digests_of ops (sv_node p1) answer"
    "dg_key ` set answer = shared_keys ops (sc_selector cfg) (sc_node_id cfg) requester (sv_node p)"
proof -
  have a: "answer_digest ops cfg requester mine (max 1 (int (length mine))) p = (Inr answer, p1)"
    using assms(3) by (simp add: ae_exchange_digest_def served_calls_def)
  have "ok n" using paired_ok [OF assms(1)] by simp
  note v = digests_valid(1) [OF this assms(2)]
  show p1: "paired ops ok i j n p1" and st: "stamp ops (sv_node p1) = stamp ops (sv_node p)"
    using answer_digest_right(1,2) [OF assms(1) v a] by simp_all
  obtain theirs where t: "digest_snapshot ops (sc_selector cfg) (sc_node_id cfg) requester (sv_node p1) = Inr theirs"
    "answer = take (nat (max 1 (max 1 (int (length mine))))) theirs"
    using answer_digest_right(3) [OF assms(1) v a] by auto
  note spec = shared_digest_spec [OF _ t(1) [unfolded digest_snapshot_def]]
  have ok1: "ok (sv_node p1)" using paired_ok [OF p1] by simp
  have "length theirs \<le> max 1 (length mine)" using spec(1) [OF ok1] assms(4) by (simp add: shared_keys_stamp [OF st])
  then have "answer = theirs" using t(2) by simp
  then show "digests_of ops (sv_node p1) answer"
    "dg_key ` set answer = shared_keys ops (sc_selector cfg) (sc_node_id cfg) requester (sv_node p)"
    using spec(2,3) [OF ok1] by (simp_all add: shared_keys_stamp [OF st])
qed

lemma reconcile_peer_run:
  assumes "reconcile_peer ops selector a cl b keys n p = (Inr stats, n', p')" "st_failures stats = 0"
  obtains mine answer p1 remote d where "shared_digest ops selector a b (key_wanted keys) n = Inr mine"
    "ae_exchange_digest cl p mine = (Inr answer, p1)"
    "remote = filter (\<lambda>x. shared_replica selector a (dg_key x) b = Inr True) answer"
    "reconcile_keys ops cl (digest_map mine) (digest_map remote)
       (sorted_list_of_set (dg_key ` set mine \<union> dg_key ` set remote)) 0 n p1 = (Inr d, n', p')"
proof -
  obtain mine where m: "shared_digest ops selector a b (key_wanted keys) n = Inr mine"
    and r: "reconcile_digest ops selector a cl b mine None n p = (Inr stats, n', p')"
    using assms(1) by (auto simp: reconcile_peer_def key_wanted_def [abs_def] split: sum.splits)
  obtain answer p1 where x: "ae_exchange_digest cl p mine = (Inr answer, p1)"
    using r assms(2) by (auto simp: reconcile_digest_def split: sum.splits prod.splits if_splits)
  obtain remote where f: "rfilter (\<lambda>x. shared_replica selector a (dg_key x) b) answer = Inr remote"
    using r x by (auto simp: reconcile_digest_def split: sum.splits)
  obtain d where "reconcile_keys ops cl (digest_map mine) (digest_map remote)
      (sorted_list_of_set (dg_key ` set mine \<union> dg_key ` set remote)) 0 n p1 = (Inr d, n', p')"
    using r x f by (auto simp: reconcile_digest_def Let_def rbind_eq_Inr split: prod.splits)
  with m x rfilter_Inr [OF f] show ?thesis by (rule that)
qed

lemma reconcile_peer_agrees:
  assumes "paired ops ok i j n p"
    and "reconcile_peer ops selector a (served_calls ops cfg a) b keys n p = (Inr stats, n', p')" "st_failures stats = 0"
    and "card (shared_keys ops (sc_selector cfg) (sc_node_id cfg) a (sv_node p)) \<le>
      max 1 (card (shared_keys ops selector a b n \<inter> Collect (key_wanted keys)))"
    and "key_wanted keys k" "shared_replica selector a k b = Inr True" "shared_replica (sc_selector cfg) (sc_node_id cfg) k a = Inr True"
    and "k \<in> dom (no_get ops n) \<union> dom (no_get ops (sv_node p))"
  shows "paired ops ok i j n' p'" "key_agreed ops n' p' k"
proof -
  obtain mine answer p1 remote d where m: "shared_digest ops selector a b (key_wanted keys) n = Inr mine"
    and x: "ae_exchange_digest (served_calls ops cfg a) p mine = (Inr answer, p1)"
    and f: "remote = filter (\<lambda>x. shared_replica selector a (dg_key x) b = Inr True) answer"
    and run: "reconcile_keys ops (served_calls ops cfg a) (digest_map mine) (digest_map remote)
       (sorted_list_of_set (dg_key ` set mine \<union> dg_key ` set remote)) 0 n p1 = (Inr d, n', p')"
    by (rule reconcile_peer_run [OF assms(2,3)])
  have n: "ok n" using paired_ok [OF assms(1)] by simp
  note mine = shared_digest_spec [OF n m]
  note ex = exchange_complete [OF assms(1) mine(3) x, unfolded mine(1), OF assms(4)]
  have p1: "ok (sv_node p1)" using paired_ok [OF ex(1)] by simp
  have remote: "digests_of ops (sv_node p1) remote" using ex(3) f by (simp add: digests_of_def)
  have dom: "dom (no_get ops (sv_node p1)) = dom (no_get ops (sv_node p))"
    using ex(2) by (simp add: dom_stamp [symmetric])
  have kr: "k \<in> dg_key ` set remote" if "k \<in> dom (no_get ops (sv_node p))"
    using that ex(4) assms(6,7) by (force simp: f shared_keys_def)
  have km: "k \<in> dg_key ` set mine" if "k \<in> dom (no_get ops n)" using that mine(2) assms(5,6) by (simp add: shared_keys_def)
  have "reconciled ops ok i j (digest_map mine) (digest_map remote) (dg_key ` set mine \<union> dg_key ` set remote) n p1 n' p'"
    using reconcile_keys_effect [OF ex(1) _ _ run] digests_valid(2) [OF n mine(3)] digests_valid(2) [OF p1 remote] by simp
  moreover have "reports ops n k (digest_map mine k)" by (rule digests_report [OF mine(3) km])
  moreover have "reports ops (sv_node p1) k (digest_map remote k)" by (rule digests_report [OF remote]) (use kr dom in simp)
  ultimately show "paired ops ok i j n' p'" "key_agreed ops n' p' k" using assms(8) km kr by (auto simp: reconciled_def)
qed

lemma agreed_states:
  assumes "paired ops ok i j n p" "key_agreed ops n p k"
  obtains e f where "no_get ops n k = Some e" "no_get ops (sv_node p) k = Some f" "se_type e = se_type f"
    "se_version e = se_version f" "se_state e = se_state f"
proof -
  obtain h lg w where h: "history_ok ops ok lg w h" "wd_node h i = n" "wd_node h j = sv_node p"
    by (rule paired_history [OF assms(1)])
  obtain e f where ef: "no_get ops n k = Some e" "no_get ops (sv_node p) k = Some f" "se_type e = se_type f"
    "se_version e = se_version f"
    using assms(2) by (cases "no_get ops (sv_node p) k") (auto simp: key_agreed_def stamp_def)
  have pool: "e \<in> wd_pool h" "f \<in> wd_pool h" using history_okD(5) [OF h(1)] h(2,3) ef(1,2) by metis+
  have "se_key e = se_key f" using paired_get_ok [OF assms(1)] ef(1,2) by simp
  then have "se_state e = se_state f" by (rule same_version_same_state [OF h(1) pool _ ef(3,4)])
  with ef show ?thesis by (rule that)
qed

end

section \<open>Convergence\<close>


text \<open>A node that wrote a key and one that does not hold it yet, on a ring of just the two.\<close>

definition pair_member :: "string \<Rightarrow> ClusterMember" where
  "pair_member node_id = \<lparr>cm_node = node_id, cm_host = ''h'', cm_port = 1, cm_status = ALIVE, cm_incarnation = 1\<rparr>"

definition pair_selector :: ReplicaSelector where
  "pair_selector =
     \<lparr>rsel_ring = \<lparr>hr_virtual = 1, hr_positions = [0, 1], hr_owners = [pair_member ''a'', pair_member ''b'']\<rparr>, rsel_factor = 2\<rparr>"

definition pair_config :: service_config where
  "pair_config = \<lparr>sc_node_id = ''b'', sc_selector = pair_selector, sc_batch_size = 10\<rparr>"

lemma pair_replicas: "replicas pair_selector key \<in>
    {Inr [pair_member ''a'', pair_member ''b''], Inr [pair_member ''b'', pair_member ''a'']}"
proof -
  let ?s = "bisect_left (hr_positions (rsel_ring pair_selector)) (ring_hash key)"
  have "?s mod 2 = 0 \<and> Suc ?s mod 2 = 1 \<or> ?s mod 2 = 1 \<and> Suc ?s mod 2 = 0" by presburger
  then show ?thesis
    by (auto simp: replicas_def candidates_def Let_def pair_selector_def pair_member_def upt_conv_Cons numeral_2_eq_2 [symmetric])
qed

lemma pair_shared: "shared_replica pair_selector x key y = Inr (x \<in> {''a'', ''b''} \<and> y \<in> {''a'', ''b''})"
  using pair_replicas [of key] by (auto simp: shared_replica_def pair_member_def)

definition returns_pair :: "'a result \<times> 'n \<times> 'p \<Rightarrow> ('a \<Rightarrow> 'n \<Rightarrow> 'p \<Rightarrow> bool) \<Rightarrow> bool" where
  "returns_pair r P = (case r of (Inl x, n, p) \<Rightarrow> False | (Inr a, n, p) \<Rightarrow> P a n p)"

lemma returns_pairE:
  assumes "returns_pair r P"
  obtains a n p where "r = (Inr a, n, p)" "P a n p"
  using assms by (auto simp: returns_pair_def split: prod.splits sum.splits)

definition pair_service :: "DurableNode CrdtService" where
  "pair_service = example_service\<lparr>sv_node := example_nodes False\<rparr>"

lemma pair_run:
  obtains e1 n1 stats n' p' where "mutate_locked durable_ops example_write (example_nodes True) = (Inr e1, n1)"
    "reconcile_peer durable_ops pair_selector ''a'' (served_calls durable_ops pair_config ''a'') ''b'' None n1
       pair_service = (Inr stats, n', p')"
    "st_failures stats = 0" "st_repairs stats = 1"
proof -
  have "returns (mutate_locked durable_ops example_write (example_nodes True)) (\<lambda>e1 n1.
      returns_pair (reconcile_peer durable_ops pair_selector ''a'' (served_calls durable_ops pair_config ''a'') ''b'' None n1
        pair_service) (\<lambda>stats n' p'. st_failures stats = 0 \<and> st_repairs stats = 1))"
    unfolding reconcile_peer_def reconcile_digest_def served_calls_def answer_digest_def digest_snapshot_def shared_digest_def
      pair_config_def service_config.simps pair_shared
    by code_simp
  then show ?thesis by (elim returnsE returns_pairE conjE, intro that)
qed


end
