(* ===== verification/Compute.thy ===== *)
theory Compute
  imports Json Sha256 Resilience
begin

text \<open>
  The compute layer: \<^verbatim>\<open>compute/classification.py\<close>, \<^verbatim>\<open>compute/router.py\<close>,
  \<^verbatim>\<open>compute/tasks.py\<close>, \<^verbatim>\<open>compute/worker_pool.py\<close> and \<^verbatim>\<open>compute/executor.py\<close>. A payload is a
  JSON value. The process pool is the environment: whether a submission is accepted, when a
  job is done, and whether the pool breaks are arguments. The floating-point results of
  \<^verbatim>\<open>aggregate\<close> are outside the JSON values of the model, and answered by \<open>OutsideModel\<close>
  once the payload has been checked.
\<close>

section \<open>Classification\<close>

datatype ExecutionClass = ASYNC | CPU

record TaskClassifier =
  tc_mapping :: "(string, ExecutionClass) dict"

definition TaskClassifier_init :: TaskClassifier where
  "TaskClassifier_init = \<lparr>tc_mapping = []\<rparr>"

definition classifier_register :: "TaskClassifier \<Rightarrow> string \<Rightarrow> ExecutionClass \<Rightarrow> TaskClassifier result" where
  "classifier_register c task_name execution_class =
     (if task_name = [] then raise ValueError ''task name cannot be empty''
      else Inr (c\<lparr>tc_mapping := AList.update task_name execution_class (tc_mapping c)\<rparr>))"

definition TaskClassifier_default :: "TaskClassifier result" where
  "TaskClassifier_default =
     rfold (\<lambda>c (name, class). classifier_register c name class) TaskClassifier_init
       [(''echo'', ASYNC), (''cluster.whoami'', ASYNC), (''hash'', CPU), (''sort'', CPU), (''aggregate'', CPU)]"

definition classify :: "TaskClassifier \<Rightarrow> string \<Rightarrow> ExecutionClass" where
  "classify c task_name = (case map_of (tc_mapping c) task_name of None \<Rightarrow> ASYNC | Some class \<Rightarrow> class)"

section \<open>Tasks\<close>

definition MAX_HASH_ROUNDS :: int where
  "MAX_HASH_ROUNDS = 1000000"

definition MAX_NUMERIC_VALUES :: int where
  "MAX_NUMERIC_VALUES = 100000"

definition echo_task :: "json \<Rightarrow> json result" where
  "echo_task payload = Inr payload"

fun require_mapping :: "json \<Rightarrow> (string, json) dict result" where
  "require_mapping (JObj data) = Inr data"
| "require_mapping _ = raise TaskValidationError ''payload must be a JSON object''"

fun json_int :: "json \<Rightarrow> int option" where
  "json_int (JInt i) = Some i"
| "json_int _ = None"

text \<open>The numbers of the model are integers; \<^verbatim>\<open>any(...)\<close> rejects every other value, booleans too.\<close>

definition require_numeric_values :: "json \<Rightarrow> bool \<Rightarrow> int list result" where
  "require_numeric_values payload allow_empty =
     rbind (require_mapping payload) (\<lambda>data.
       case map_of data ''values'' of
         Some (JArr values) \<Rightarrow>
           (if \<not> allow_empty \<and> values = []
            then raise TaskValidationError ''values must be a non-empty list of numbers''
            else if int (length values) > MAX_NUMERIC_VALUES
            then raise TaskValidationError (''values cannot exceed '' @ str_int MAX_NUMERIC_VALUES @ '' items'')
            else if list_ex (\<lambda>v. json_int v = None) values
            then raise TaskValidationError ''values must be a list of numbers''
            else Inr (map (\<lambda>v. the (json_int v)) values))
       | _ \<Rightarrow> raise TaskValidationError ''values must be a list of numbers'')"

definition digest_bytes :: "char list \<Rightarrow> char list" where
  "digest_bytes m = concat (map (\<lambda>w. be_bytes 4 (unat w)) (sha256 m))"

definition bytes_hex :: "char list \<Rightarrow> string" where
  "bytes_hex bs = concat (map (\<lambda>b. [hex_digit (of_char b div 16), hex_digit (of_char b mod 16)]) bs)"

fun hash_rounds :: "nat \<Rightarrow> char list \<Rightarrow> char list" where
  "hash_rounds 0 digest = digest"
| "hash_rounds (Suc k) digest = hash_rounds k (digest_bytes digest)"

definition hash_task :: "json \<Rightarrow> json result" where
  "hash_task payload =
     rbind (require_mapping payload) (\<lambda>data.
       let raw = map_of data ''data'';
           rounds = (case map_of data ''rounds'' of None \<Rightarrow> JInt 50000 | Some r \<Rightarrow> r)
       in case raw of
            Some (JStr s) \<Rightarrow>
              (case json_int rounds of
                 Some r \<Rightarrow>
                   (if 1 \<le> r \<and> r \<le> MAX_HASH_ROUNDS
                    then Inr (JObj [(''algorithm'', JStr ''sha256''),
                           (''digest'', JStr (bytes_hex (hash_rounds (nat r) (utf8 s)))), (''rounds'', JInt r)])
                    else raise TaskValidationError
                           (''rounds must be an integer between 1 and '' @ str_int MAX_HASH_ROUNDS))
               | None \<Rightarrow>
                   raise TaskValidationError (''rounds must be an integer between 1 and '' @ str_int MAX_HASH_ROUNDS))
          | _ \<Rightarrow> raise TaskValidationError ''data must be a string'')"

definition sort_task :: "json \<Rightarrow> json result" where
  "sort_task payload =
     rbind (require_numeric_values payload True) (\<lambda>values.
       Inr (JObj [(''values'', JArr (map JInt (sort values))), (''count'', JInt (int (length values)))]))"

definition aggregate_task :: "json \<Rightarrow> json result" where
  "aggregate_task payload =
     rbind (require_numeric_values payload False) (\<lambda>values. raise OutsideModel ''floating-point result'')"

definition whoami_task :: "string \<Rightarrow> json \<Rightarrow> json result" where
  "whoami_task node_id payload = rbind (require_mapping payload) (\<lambda>_. Inr (JObj [(''node_id'', JStr node_id)]))"

definition make_whoami_task :: "string \<Rightarrow> (json \<Rightarrow> json result) result" where
  "make_whoami_task node_id =
     (if node_id = [] then raise ValueError ''node_id is required'' else Inr (whoami_task node_id))"

section \<open>The task router\<close>

type_synonym task_handler = "json \<Rightarrow> json result"

record TaskRouter =
  tr_handlers :: "(string, task_handler) dict"

definition TaskRouter_init :: TaskRouter where
  "TaskRouter_init = \<lparr>tr_handlers = []\<rparr>"

definition router_register :: "TaskRouter \<Rightarrow> string \<Rightarrow> task_handler \<Rightarrow> TaskRouter result" where
  "router_register r name handler =
     (if name = [] then raise ValueError ''task name cannot be empty''
      else if map_of (tr_handlers r) name \<noteq> None then raise ValueError (''task already registered: '' @ name)
      else Inr (r\<lparr>tr_handlers := AList.update name handler (tr_handlers r)\<rparr>))"

definition router_resolve :: "TaskRouter \<Rightarrow> string \<Rightarrow> task_handler result" where
  "router_resolve r name =
     (case map_of (tr_handlers r) name of None \<Rightarrow> raise UnknownTaskError name | Some handler \<Rightarrow> Inr handler)"

definition dispatch :: "TaskRouter \<Rightarrow> string \<Rightarrow> json \<Rightarrow> json result" where
  "dispatch r name payload = rbind (router_resolve r name) (\<lambda>handler. handler payload)"

text \<open>The router of a node, from \<^verbatim>\<open>node.py\<close>.\<close>

definition default_router :: "string \<Rightarrow> TaskRouter result" where
  "default_router node_id =
     rbind (router_register TaskRouter_init ''echo'' echo_task) (\<lambda>r.
     rbind (router_register r ''hash'' hash_task) (\<lambda>r.
     rbind (router_register r ''sort'' sort_task) (\<lambda>r.
     rbind (router_register r ''aggregate'' aggregate_task) (\<lambda>r.
     rbind (make_whoami_task node_id) (\<lambda>whoami. router_register r ''cluster.whoami'' whoami)))))"

section \<open>The worker pool\<close>

record PendingLimiter =
  pl_capacity :: int
  pl_in_flight :: int

definition pending_try_acquire :: "PendingLimiter \<Rightarrow> bool \<times> PendingLimiter" where
  "pending_try_acquire l =
     (if pl_in_flight l \<ge> pl_capacity l then (False, l) else (True, l\<lparr>pl_in_flight := pl_in_flight l + 1\<rparr>))"

definition pending_release :: "PendingLimiter \<Rightarrow> PendingLimiter" where
  "pending_release l = (if pl_in_flight l \<le> 0 then l else l\<lparr>pl_in_flight := pl_in_flight l - 1\<rparr>)"

text \<open>\<open>wp_executor\<close>: whether a process pool exists.\<close>

record WorkerPool =
  wp_max_workers :: int
  wp_max_pending :: int
  wp_executor :: bool
  wp_closed :: bool
  wp_pending :: PendingLimiter

definition WorkerPool_init :: "int \<Rightarrow> int \<Rightarrow> WorkerPool result" where
  "WorkerPool_init max_workers max_pending =
     (if max_workers < 1 then raise ValueError ''max_workers must be at least 1''
      else if max_pending < 1 then raise ValueError ''max_pending must be at least 1''
      else Inr \<lparr>wp_max_workers = max_workers, wp_max_pending = max_pending, wp_executor = False, wp_closed = False,
                wp_pending = \<lparr>pl_capacity = max_pending, pl_in_flight = 0\<rparr>\<rparr>)"

definition pool_started :: "WorkerPool \<Rightarrow> bool" where
  "pool_started w = (wp_executor w \<and> \<not> wp_closed w)"

definition pool_start :: "WorkerPool \<Rightarrow> unit result \<times> WorkerPool" where
  "pool_start w =
     (if wp_closed w then (raise WorkerPoolClosedError ''worker pool is closed'', w)
      else (Inr (), w\<lparr>wp_executor := True\<rparr>))"

text \<open>
  \<^verbatim>\<open>execute\<close> up to the submission: \<open>refused\<close> is the exception that \<^verbatim>\<open>submit\<close> raises, if it
  does. A submission that is accepted holds a slot until its future is done.
\<close>

definition pool_submit :: "exn option \<Rightarrow> WorkerPool \<Rightarrow> unit result \<times> WorkerPool" where
  "pool_submit refused w =
     (if wp_closed w then (raise WorkerPoolClosedError ''worker pool is closed'', w)
      else let w1 = (if wp_executor w then w else snd (pool_start w));
               (acquired, l) = pending_try_acquire (wp_pending w1);
               w2 = w1\<lparr>wp_pending := l\<rparr>
           in if \<not> acquired then (raise WorkerPoolSaturatedError ''worker pool pending capacity is full'', w2)
              else case refused of
                     None \<Rightarrow> (Inr (), w2)
                   | Some e \<Rightarrow>
                       (if exn_cls e = BrokenProcessPool then raise WorkerPoolBrokenError ''worker pool is broken'' else Inl e,
                        w2\<lparr>wp_pending := pending_release l\<rparr>))"

text \<open>The callback of a future that is done.\<close>

definition pool_done :: "WorkerPool \<Rightarrow> WorkerPool" where
  "pool_done w = w\<lparr>wp_pending := pending_release (wp_pending w)\<rparr>"

definition pool_result :: "'a result \<Rightarrow> 'a result" where
  "pool_result r =
     (case r of
        Inl e \<Rightarrow> if exn_cls e = BrokenProcessPool then raise WorkerPoolBrokenError ''worker pool is broken'' else Inl e
      | Inr v \<Rightarrow> Inr v)"

text \<open>\<^verbatim>\<open>close\<close> waits until every future is done; their callbacks are steps of their own.\<close>

definition pool_close :: "WorkerPool \<Rightarrow> WorkerPool" where
  "pool_close w = (if wp_closed w then w else w\<lparr>wp_closed := True, wp_executor := False\<rparr>)"

section \<open>The executor\<close>

record TaskExecutor =
  te_router :: TaskRouter
  te_classifier :: TaskClassifier
  te_pool :: WorkerPool

text \<open>
  What one execution meets: the time at which \<^verbatim>\<open>deadline.run\<close> starts, the exception of the
  submission if any, and, given the timeout, whether the awaitable is done in time and
  whether the pool breaks before.
\<close>

record execution_env =
  xe_now :: real
  xe_refused :: "exn option"
  xe_in_time :: "real \<Rightarrow> bool"
  xe_breaks :: bool

text \<open>
  \<^verbatim>\<open>execute\<close>. The slot of a job is given back when its future is done, which is before the
  awaiting task goes on; a job that is not done in time keeps its slot.
\<close>

definition pool_execute :: "execution_env \<Rightarrow> task_handler \<Rightarrow> json \<Rightarrow> Deadline \<Rightarrow> WorkerPool \<Rightarrow> json result \<times> WorkerPool" where
  "pool_execute env handler payload deadline w =
     (let timeout = remaining deadline (xe_now env) in
      if timeout \<le> 0 then (raise DeadlineExceeded ''request deadline exceeded'', w)
      else case pool_submit (xe_refused env) w of
             (Inl e, w') \<Rightarrow> (deadline_run deadline (xe_now env) (\<lambda>_. Some (Inl e)), w')
           | (Inr _, w') \<Rightarrow>
               (if xe_in_time env timeout
                then (deadline_run deadline (xe_now env)
                        (\<lambda>_. Some (pool_result (if xe_breaks env then raise BrokenProcessPool [] else handler payload))),
                      pool_done w')
                else (deadline_run deadline (xe_now env) (\<lambda>_. None), w')))"

definition executor_execute :: "execution_env \<Rightarrow> TaskExecutor \<Rightarrow> string \<Rightarrow> json \<Rightarrow> Deadline \<Rightarrow> json result \<times> TaskExecutor" where
  "executor_execute env x task_name payload deadline =
     (case classify (te_classifier x) task_name of
        CPU \<Rightarrow>
          (case router_resolve (te_router x) task_name of
             Inl e \<Rightarrow> (Inl e, x)
           | Inr handler \<Rightarrow>
               (case pool_execute env handler payload deadline (te_pool x) of (r, w) \<Rightarrow> (r, x\<lparr>te_pool := w\<rparr>)))
      | ASYNC \<Rightarrow>
          (deadline_run deadline (xe_now env)
             (\<lambda>timeout. if xe_in_time env timeout then Some (dispatch (te_router x) task_name payload) else None), x))"

definition executor_start :: "TaskExecutor \<Rightarrow> unit result \<times> TaskExecutor" where
  "executor_start x = (case pool_start (te_pool x) of (r, w) \<Rightarrow> (r, x\<lparr>te_pool := w\<rparr>))"

definition executor_close :: "TaskExecutor \<Rightarrow> TaskExecutor" where
  "executor_close x = x\<lparr>te_pool := pool_close (te_pool x)\<rparr>"

section \<open>The pool counts its jobs\<close>

text \<open>\<open>jobs\<close> is the number of accepted submissions whose future is not done.\<close>

inductive pool_reach :: "WorkerPool \<Rightarrow> nat \<Rightarrow> bool" where
  Start: "WorkerPool_init max_workers max_pending = Inr w \<Longrightarrow> pool_reach w 0"
| Started: "pool_reach w jobs \<Longrightarrow> pool_start w = (r, w') \<Longrightarrow> pool_reach w' jobs"
| Accepted: "pool_reach w jobs \<Longrightarrow> pool_submit refused w = (Inr (), w') \<Longrightarrow> pool_reach w' (Suc jobs)"
| Refused: "pool_reach w jobs \<Longrightarrow> pool_submit refused w = (Inl e, w') \<Longrightarrow> pool_reach w' jobs"
| Done: "pool_reach w (Suc jobs) \<Longrightarrow> pool_reach (pool_done w) jobs"
| Closed: "pool_reach w jobs \<Longrightarrow> pool_reach (pool_close w) jobs"

lemma pool_accounting:
  "pool_reach w jobs \<Longrightarrow> pl_capacity (wp_pending w) = wp_max_pending w \<and> pl_in_flight (wp_pending w) = int jobs \<and>
     int jobs \<le> wp_max_pending w \<and> 1 \<le> wp_max_pending w \<and> (wp_executor w \<longrightarrow> \<not> wp_closed w)"
proof (induction rule: pool_reach.induct)
  case (Start max_workers max_pending w)
  then show ?case by (auto simp: WorkerPool_init_def split: if_splits)
next
  case (Accepted w jobs refused w')
  then show ?case
    by (auto simp: pool_submit_def pool_start_def pending_try_acquire_def Let_def split: if_splits option.splits)
next
  case (Refused w jobs refused e w')
  then show ?case
    by (auto simp: pool_submit_def pool_start_def pending_try_acquire_def pending_release_def Let_def
        split: if_splits option.splits)
qed (auto simp: pool_start_def pool_done_def pool_close_def pending_release_def split: if_splits)

text \<open>C40: In every history of the worker pool the limiter counts exactly the jobs that were accepted
  and whose future is not done - a refused submission, a broken pool and a closed pool leak no
  slot - and never more than the configured bound. A submission is refused as saturated
  exactly when that many jobs are pending, and once the pool is closed every submission is
  refused and nothing is started again.\<close>

theorem worker_pool_counts_jobs:
  assumes "pool_reach w jobs"
  shows "pl_in_flight (wp_pending w) = int jobs \<and> int jobs \<le> wp_max_pending w \<and>
    (fst (pool_submit refused w) = raise WorkerPoolSaturatedError ''worker pool pending capacity is full'' \<and>
       (\<forall>e. refused = Some e \<longrightarrow> exn_cls e \<noteq> WorkerPoolSaturatedError) \<longrightarrow> int jobs = wp_max_pending w) \<and>
    (int jobs = wp_max_pending w \<and> \<not> wp_closed w \<longrightarrow>
       fst (pool_submit refused w) = raise WorkerPoolSaturatedError ''worker pool pending capacity is full'') \<and>
    (wp_closed w \<longrightarrow> \<not> pool_started w \<and> fst (pool_start w) = raise WorkerPoolClosedError ''worker pool is closed'' \<and>
       pool_submit refused w = (raise WorkerPoolClosedError ''worker pool is closed'', w))"
  using pool_accounting [OF assms]
  by (auto simp: pool_submit_def pool_start_def pool_started_def pending_try_acquire_def Let_def
      split: if_splits option.splits)

theorem worker_pool_counts_jobs_witness:
  "pool_reach \<lparr>wp_max_workers = 2, wp_max_pending = 1, wp_executor = True, wp_closed = False,
     wp_pending = \<lparr>pl_capacity = 1, pl_in_flight = 1\<rparr>\<rparr> 1 \<and>
   fst (pool_submit None \<lparr>wp_max_workers = 2, wp_max_pending = 1, wp_executor = True, wp_closed = False,
     wp_pending = \<lparr>pl_capacity = 1, pl_in_flight = 1\<rparr>\<rparr>) =
   raise WorkerPoolSaturatedError ''worker pool pending capacity is full''"
proof -
  let ?w0 = "\<lparr>wp_max_workers = 2, wp_max_pending = 1, wp_executor = False, wp_closed = False,
     wp_pending = \<lparr>pl_capacity = 1, pl_in_flight = 0\<rparr>\<rparr>"
  let ?w1 = "\<lparr>wp_max_workers = 2, wp_max_pending = 1, wp_executor = True, wp_closed = False,
     wp_pending = \<lparr>pl_capacity = 1, pl_in_flight = 1\<rparr>\<rparr>"
  have "pool_reach ?w0 0" by (rule pool_reach.Start [of 2 1]) (simp add: WorkerPool_init_def)
  then have "pool_reach ?w1 (Suc 0)"
    by (rule pool_reach.Accepted [of _ _ None]) (simp add: pool_submit_def pool_start_def pending_try_acquire_def)
  then have r: "pool_reach ?w1 1" by simp
  then show ?thesis using worker_pool_counts_jobs [OF r, of None] by simp
qed

section \<open>What an execution gives\<close>

lemma deadline_run_cases:
  "deadline_run d now f = raise DeadlineExceeded ''request deadline exceeded'' \<or>
   0 < remaining d now \<and> f (remaining d now) = Some (deadline_run d now f)"
  by (auto simp: deadline_run_def Let_def split: option.splits sum.splits exn_class.splits os_error.splits)

definition pool_errors :: "exn_class set" where
  "pool_errors = {WorkerPoolClosedError, WorkerPoolSaturatedError, WorkerPoolBrokenError}"

lemma pool_submit_errors:
  "fst (pool_submit refused w) = Inl e \<Longrightarrow> exn_cls e \<in> pool_errors \<or> refused = Some e"
  by (auto simp: pool_submit_def pool_errors_def Let_def case_prod_unfold split: if_splits option.splits)

text \<open>Executing a task gives what the handler registered under its name gives for the payload; or
  the request deadline is exceeded; or the pool refuses it (closed, saturated, broken, or the
  error of the submission). The pool stays in step with its jobs, and only an execution that
  ran out of time leaves a job behind.\<close>

lemma executor_execute_spec:
  assumes "pool_reach (te_pool x) jobs" "executor_execute env x task_name payload deadline = (r, x')"
  shows "te_router x' = te_router x \<and> te_classifier x' = te_classifier x \<and>
    (r = dispatch (te_router x) task_name payload \<or> r = raise DeadlineExceeded ''request deadline exceeded'' \<or>
       (\<exists>e. r = Inl e \<and> (exn_cls e \<in> pool_errors \<or> xe_refused env = Some e))) \<and>
    (pool_reach (te_pool x') jobs \<or>
       pool_reach (te_pool x') (Suc jobs) \<and> r = raise DeadlineExceeded ''request deadline exceeded'')"
proof (cases "classify (te_classifier x) task_name")
  case ASYNC
  let ?f = "\<lambda>timeout. if xe_in_time env timeout then Some (dispatch (te_router x) task_name payload) else None"
  have r: "x' = x" "r = deadline_run deadline (xe_now env) ?f" using assms(2) ASYNC by (simp_all add: executor_execute_def)
  have "r = raise DeadlineExceeded ''request deadline exceeded'' \<or> r = dispatch (te_router x) task_name payload"
    using deadline_run_cases [of deadline "xe_now env" ?f] unfolding r(2) [symmetric] by (auto split: if_splits)
  then show ?thesis using assms(1) r(1) by blast
next
  case CPU
  show ?thesis
  proof (cases "router_resolve (te_router x) task_name")
    case (Inl e)
    then show ?thesis using assms CPU by (auto simp: executor_execute_def dispatch_def)
  next
    case (Inr handler)
    obtain w where w: "pool_execute env handler payload deadline (te_pool x) = (r, w)" "x' = x\<lparr>te_pool := w\<rparr>"
      using assms(2) CPU Inr by (auto simp: executor_execute_def split: prod.splits)
    have d: "dispatch (te_router x) task_name payload = handler payload" by (simp add: dispatch_def Inr)
    show ?thesis
    proof (cases "remaining deadline (xe_now env) \<le> 0")
      case True
      then show ?thesis using w assms(1) by (auto simp: pool_execute_def)
    next
      case False
      obtain q w1 where q: "pool_submit (xe_refused env) (te_pool x) = (q, w1)" by fastforce
      show ?thesis
      proof (cases q)
        case (Inl e)
        then have "w = w1" "r = deadline_run deadline (xe_now env) (\<lambda>_. Some (Inl e))"
          using w(1) False q by (auto simp: pool_execute_def Let_def)
        then show ?thesis
          using deadline_run_cases [of deadline "xe_now env" "\<lambda>_. Some (Inl e)"] pool_submit_errors [of "xe_refused env" "te_pool x" e]
            pool_reach.Refused [OF assms(1) q [unfolded Inl]] w(2) q Inl by auto
      next
        case (Inr u)
        have acc: "pool_reach w1 (Suc jobs)" using pool_reach.Accepted [OF assms(1), of "xe_refused env" w1] q Inr by simp
        let ?out = "pool_result (if xe_breaks env then raise BrokenProcessPool [] else handler payload)"
        have out: "?out = handler payload \<or> ?out = raise WorkerPoolBrokenError ''worker pool is broken''"
          by (auto simp: pool_result_def split: sum.splits)
        show ?thesis
        proof (cases "xe_in_time env (remaining deadline (xe_now env))")
          case True
          then have "w = pool_done w1" "r = deadline_run deadline (xe_now env) (\<lambda>_. Some ?out)"
            using w(1) False q Inr by (auto simp: pool_execute_def Let_def)
          then show ?thesis
            using deadline_run_cases [of deadline "xe_now env" "\<lambda>_. Some ?out"] out d pool_reach.Done [OF acc] w(2)
            by (auto simp: pool_errors_def)
        next
          case False
          then have "w = w1" "r = deadline_run deadline (xe_now env) (\<lambda>_. None)"
            using w(1) \<open>\<not> remaining deadline (xe_now env) \<le> 0\<close> q Inr by (auto simp: pool_execute_def Let_def)
          then show ?thesis using deadline_run_cases [of deadline "xe_now env" "\<lambda>_. None"] acc w(2) by auto
        qed
      qed
    qed
  qed
qed

lemma default_router_handlers:
  assumes "default_router node_id = Inr r"
  shows "node_id \<noteq> [] \<and> tr_handlers r =
    [(''echo'', echo_task), (''hash'', hash_task), (''sort'', sort_task), (''aggregate'', aggregate_task),
     (''cluster.whoami'', whoami_task node_id)]"
  using assms by (auto simp: default_router_def router_register_def TaskRouter_init_def make_whoami_task_def rbind_eq_Inr
      split: if_splits)

lemma default_classifier:
  assumes "TaskClassifier_default = Inr c"
  shows "tc_mapping c =
    [(''echo'', ASYNC), (''cluster.whoami'', ASYNC), (''hash'', CPU), (''sort'', CPU), (''aggregate'', CPU)]"
  using assms by (auto simp: TaskClassifier_default_def classifier_register_def TaskClassifier_init_def)

definition sort_payload :: "int list \<Rightarrow> json" where
  "sort_payload vs = JObj [(''values'', JArr (map JInt vs))]"

definition sort_answer :: "int list \<Rightarrow> json" where
  "sort_answer vs = JObj [(''values'', JArr (map JInt vs)), (''count'', JInt (int (length vs)))]"

text \<open>The tasks of a node: with the default router and classifier, a name that is none of the five
  gives the unknown-task error; exactly \<^verbatim>\<open>hash\<close>, \<^verbatim>\<open>sort\<close> and \<^verbatim>\<open>aggregate\<close> go to the worker
  pool, and every classified name has a handler. \<^verbatim>\<open>sort\<close> answers a sorted permutation of the
  numbers with their count, and refuses anything but a list of at most the allowed length;
  \<^verbatim>\<open>echo\<close> answers its payload.\<close>

theorem builtin_tasks:
  assumes "default_router node_id = Inr r" "TaskClassifier_default = Inr c"
  shows "(name \<notin> {''echo'', ''hash'', ''sort'', ''aggregate'', ''cluster.whoami''} \<longrightarrow>
      dispatch r name payload = raise UnknownTaskError name) \<and>
    (classify c name = CPU \<longleftrightarrow> name \<in> {''hash'', ''sort'', ''aggregate''}) \<and>
    (map_of (tc_mapping c) name \<noteq> None \<longrightarrow> (\<exists>handler. router_resolve r name = Inr handler)) \<and>
    dispatch r ''echo'' payload = Inr payload \<and>
    (int (length vs) \<le> MAX_NUMERIC_VALUES \<longrightarrow> (\<exists>ws. dispatch r ''sort'' (sort_payload vs) = Inr (sort_answer ws) \<and>
       sorted ws \<and> mset ws = mset vs)) \<and>
    (int (length vs) > MAX_NUMERIC_VALUES \<longrightarrow> (\<exists>m. dispatch r ''sort'' (sort_payload vs) = raise TaskValidationError m))"
proof -
  note h = default_router_handlers [OF assms(1)] and m = default_classifier [OF assms(2)]
  have d: "dispatch r ''sort'' p = sort_task p" "dispatch r ''echo'' p = Inr p" for p
    using h by (simp_all add: dispatch_def router_resolve_def echo_task_def)
  have nums: "\<not> list_ex (\<lambda>v. json_int v = None) (map JInt vs)" "map (\<lambda>v. the (json_int v)) (map JInt vs) = vs"
    by (simp_all add: list_ex_iff comp_def)
  have s: "sort_task (sort_payload vs) = (if int (length vs) > MAX_NUMERIC_VALUES
      then raise TaskValidationError (''values cannot exceed '' @ str_int MAX_NUMERIC_VALUES @ '' items'')
      else Inr (sort_answer (sort vs)))"
    using nums by (simp add: sort_task_def require_numeric_values_def sort_payload_def sort_answer_def)
  have "sorted (sort vs)" "mset (sort vs) = mset vs" by simp_all
  with d s h m show ?thesis
    by (auto simp: dispatch_def router_resolve_def classify_def)
qed

theorem builtin_tasks_witness:
  "\<exists>r c. default_router ''a'' = Inr r \<and> TaskClassifier_default = Inr c \<and>
     dispatch r ''missing'' JNull = raise UnknownTaskError ''missing'' \<and> classify c ''sort'' = CPU"
proof -
  obtain r c where rc: "default_router ''a'' = Inr r" "TaskClassifier_default = Inr c"
    by (simp add: default_router_def router_register_def TaskRouter_init_def make_whoami_task_def
        TaskClassifier_default_def classifier_register_def TaskClassifier_init_def)
  show ?thesis using builtin_tasks [OF rc, of "''missing''" JNull "[]"] builtin_tasks [OF rc, of "''sort''" JNull "[]"] rc
    by (intro exI [of _ r] exI [of _ c]) simp
qed

end
