(* ===== verification/Recovery.thy ===== *)
theory Recovery
  imports Replication
begin

text \<open>
  Health and recovery: \<^verbatim>\<open>health/state.py\<close> (the snapshot and its setters),
  \<^verbatim>\<open>recovery/coordinator.py\<close> (the phases of a durable start) and
  \<^verbatim>\<open>recovery/reconciliation.py\<close> (authority marks, and a reconciliation with every peer that
  shares a key), and the lifecycle of the replication service.

  Everything the reconciler learns comes from the peers. The locale \<open>valid_calls\<close> states what
  the client calls of a round promise whatever the peer sends, the interpretation discharges
  it for the client of \<^verbatim>\<open>Peer_Rpc\<close>, and \<open>anti_entropy\<close> adds the contract of the store.
\<close>

section \<open>Health\<close>

datatype RecoveryPhase =
    STARTING | OPENING_REPOSITORY | RESTORING | BINDING | COORDINATING | JOINING_CLUSTER | RECONCILING | READY
  | STARTUP_FAILED

record HealthSnapshot =
  hs_liveness :: bool
  hs_readiness :: bool
  hs_coordination :: bool
  hs_cluster :: bool
  hs_phase :: RecoveryPhase
  hs_coordination_message :: string
  hs_last_error :: string

definition HealthState_init :: HealthSnapshot where
  "HealthState_init =
     \<lparr>hs_liveness = True, hs_readiness = False, hs_coordination = False, hs_cluster = False, hs_phase = STARTING,
      hs_coordination_message = [], hs_last_error = []\<rparr>"

definition set_recovery_phase :: "RecoveryPhase \<Rightarrow> string \<Rightarrow> HealthSnapshot \<Rightarrow> HealthSnapshot" where
  "set_recovery_phase phase error h = h\<lparr>hs_phase := phase, hs_last_error := error\<rparr>"

definition set_readiness :: "bool \<Rightarrow> HealthSnapshot \<Rightarrow> HealthSnapshot" where
  "set_readiness ready h = h\<lparr>hs_readiness := ready\<rparr>"

definition set_coordination :: "bool \<Rightarrow> string \<Rightarrow> HealthSnapshot \<Rightarrow> HealthSnapshot" where
  "set_coordination healthy message h = h\<lparr>hs_coordination := healthy, hs_coordination_message := message\<rparr>"

definition set_cluster :: "bool \<Rightarrow> HealthSnapshot \<Rightarrow> HealthSnapshot" where
  "set_cluster healthy h = h\<lparr>hs_cluster := healthy\<rparr>"

definition set_liveness :: "bool \<Rightarrow> HealthSnapshot \<Rightarrow> HealthSnapshot" where
  "set_liveness healthy h = h\<lparr>hs_liveness := healthy\<rparr>"

section \<open>The recovery coordinator\<close>

text \<open>\<open>restored\<close> is what the restore service gives.\<close>

definition prepare_persistence :: "'r result \<Rightarrow> HealthSnapshot \<Rightarrow> 'r result \<times> HealthSnapshot" where
  "prepare_persistence restored h =
     (restored, set_recovery_phase RESTORING [] (set_recovery_phase OPENING_REPOSITORY [] h))"

definition mark_binding :: "HealthSnapshot \<Rightarrow> HealthSnapshot" where
  "mark_binding h = set_recovery_phase BINDING [] h"

definition mark_coordinating :: "HealthSnapshot \<Rightarrow> HealthSnapshot" where
  "mark_coordinating h = set_recovery_phase COORDINATING [] h"

definition mark_joining_cluster :: "HealthSnapshot \<Rightarrow> HealthSnapshot" where
  "mark_joining_cluster h = set_recovery_phase JOINING_CLUSTER [] h"

definition mark_ready :: "HealthSnapshot \<Rightarrow> HealthSnapshot" where
  "mark_ready h = set_recovery_phase READY [] (set_readiness True h)"

definition coordinator_reconcile ::
  "('s \<Rightarrow> 'r result \<times> 's) option \<Rightarrow> HealthSnapshot \<Rightarrow> 's \<Rightarrow> 'r option result \<times> HealthSnapshot \<times> 's" where
  "coordinator_reconcile reconciler h s =
     (let reconciling = set_recovery_phase RECONCILING [] h in
      case reconciler of
        None \<Rightarrow> (Inr None, mark_ready reconciling, s)
      | Some f \<Rightarrow>
          (case f s of
             (Inl e, s') \<Rightarrow> (Inl e, reconciling, s')
           | (Inr result, s') \<Rightarrow> (Inr (Some result), mark_ready reconciling, s')))"

definition coordinator_fail :: "exn \<Rightarrow> HealthSnapshot \<Rightarrow> HealthSnapshot" where
  "coordinator_fail e h = set_recovery_phase STARTUP_FAILED (exn_msg e) (set_readiness False h)"

section \<open>The reconciler\<close>

record RecoveryReconciliationResult =
  rr_keys_checked :: int
  rr_authoritative_keys :: int
  rr_peers_contacted :: int
  rr_failures :: int

definition repository_mark :: "string \<Rightarrow> bool \<Rightarrow> DurableNode \<Rightarrow> unit result \<times> DurableNode" where
  "repository_mark key owned n =
     with_io (\<lambda>s io. case mark_authority (dn_repo s) io key owned of (r, repo) \<Rightarrow> (r, s\<lparr>dn_repo := repo\<rparr>)) n"

text \<open>The first loop: the replica ids of every key, with the authority of the key marked on the way.\<close>

fun mark_keys ::
  "ReplicaSelector \<Rightarrow> string \<Rightarrow> string list \<Rightarrow> DurableNode \<Rightarrow> (string \<times> string set) list result \<times> DurableNode" where
  "mark_keys selector local_node_id [] n = (Inr [], n)"
| "mark_keys selector local_node_id (key # keys) n =
     (case replicas selector key of
        Inl e \<Rightarrow> (Inl e, n)
      | Inr members \<Rightarrow>
          (let ids = set (map cm_node members) in
           case repository_mark key (local_node_id \<in> ids) n of
             (Inl e, n') \<Rightarrow> (Inl e, n')
           | (Inr _, n') \<Rightarrow>
               (case mark_keys selector local_node_id keys n' of
                  (r, n'') \<Rightarrow> (rbind r (\<lambda>placed. Inr ((key, ids) # placed)), n''))))"

definition authoritative_keys :: "string \<Rightarrow> (string \<times> string set) list \<Rightarrow> (string \<times> string set) list" where
  "authoritative_keys local_node_id placed = filter (\<lambda>(key, ids). local_node_id \<in> ids) placed"

definition relevant_keys :: "(string \<times> string set) list \<Rightarrow> string \<Rightarrow> string list" where
  "relevant_keys authoritative peer_node_id = map fst (filter (\<lambda>(key, ids). peer_node_id \<in> ids) authoritative)"

text \<open>The second loop; the counters are \<^verbatim>\<open>contacted\<close> and \<^verbatim>\<open>failures\<close>.\<close>

fun reconcile_peers ::
  "ReplicaSelector \<Rightarrow> string \<Rightarrow> (ClusterMember \<Rightarrow> 'p crdt_calls) \<Rightarrow> (string \<times> string set) list \<Rightarrow> ClusterMember list \<Rightarrow>
     int \<Rightarrow> int \<Rightarrow> DurableNode \<Rightarrow> 'p \<Rightarrow> (int \<times> int) result \<times> DurableNode \<times> 'p" where
  "reconcile_peers selector local_node_id calls authoritative [] contacted failures n p = (Inr (contacted, failures), n, p)"
| "reconcile_peers selector local_node_id calls authoritative (peer # peers) contacted failures n p =
     (let relevant = relevant_keys authoritative (cm_node peer) in
      if cm_node peer = local_node_id \<or> cm_status peer \<noteq> ALIVE \<or> relevant = []
      then reconcile_peers selector local_node_id calls authoritative peers contacted failures n p
      else case reconcile_peer durable_ops selector local_node_id (calls peer) (cm_node peer) (Some (set relevant)) n p of
             (Inl e, n', p') \<Rightarrow>
               if is_transport e
               then reconcile_peers selector local_node_id calls authoritative peers (contacted + 1) (failures + 1) n' p'
               else (Inl e, n', p')
           | (Inr stats, n', p') \<Rightarrow>
               reconcile_peers selector local_node_id calls authoritative peers (contacted + 1) (failures + st_failures stats) n' p')"

definition recovery_reconcile ::
  "ReplicaSelector \<Rightarrow> string \<Rightarrow> (ClusterMember \<Rightarrow> 'p crdt_calls) \<Rightarrow> ClusterMember list \<Rightarrow> DurableNode \<Rightarrow> 'p \<Rightarrow>
     RecoveryReconciliationResult result \<times> DurableNode \<times> 'p" where
  "recovery_reconcile selector local_node_id calls peers n p =
     (let keys = store_keys (dn_memory (du_store n)) in
      case mark_keys selector local_node_id keys n of
        (Inl e, n') \<Rightarrow> (Inl e, n', p)
      | (Inr placed, n') \<Rightarrow>
          (let authoritative = authoritative_keys local_node_id placed in
           case reconcile_peers selector local_node_id calls authoritative peers 0 0 n' p of
             (r, n'', p') \<Rightarrow>
               (rbind r (\<lambda>(contacted, failures).
                  Inr \<lparr>rr_keys_checked = int (length keys), rr_authoritative_keys = int (length authoritative),
                       rr_peers_contacted = contacted, rr_failures = failures\<rparr>), n'', p')))"

section \<open>The lifecycle of the replication service\<close>

text \<open>Which of the two background parts has been started.\<close>

record ReplicationLifecycle =
  rl_replicator_started :: bool
  rl_anti_entropy_started :: bool

definition ReplicationLifecycle_init :: ReplicationLifecycle where
  "ReplicationLifecycle_init = \<lparr>rl_replicator_started = False, rl_anti_entropy_started = False\<rparr>"

definition start_fast_path :: "ReplicationLifecycle \<Rightarrow> ReplicationLifecycle" where
  "start_fast_path l = (if rl_replicator_started l then l else l\<lparr>rl_replicator_started := True\<rparr>)"

definition start_anti_entropy :: "ReplicationLifecycle \<Rightarrow> ReplicationLifecycle" where
  "start_anti_entropy l = (if rl_anti_entropy_started l then l else l\<lparr>rl_anti_entropy_started := True\<rparr>)"

definition replication_start :: "ReplicationLifecycle \<Rightarrow> ReplicationLifecycle" where
  "replication_start l = start_anti_entropy (start_fast_path l)"

definition replication_stop :: "ReplicationLifecycle \<Rightarrow> ReplicationLifecycle" where
  "replication_stop l =
     (let l' = (if rl_anti_entropy_started l then l\<lparr>rl_anti_entropy_started := False\<rparr> else l)
      in if rl_replicator_started l' then l'\<lparr>rl_replicator_started := False\<rparr> else l')"

text \<open>One pass of the loop of \<^verbatim>\<open>_loop\<close>: only a cancellation leaves it.\<close>

definition anti_entropy_pass :: "unit result \<times> 'n \<times> 'p \<Rightarrow> unit result \<times> 'n \<times> 'p" where
  "anti_entropy_pass outcome =
     (case outcome of
        (Inl e, n, p) \<Rightarrow> (if exn_cls e = CancelledError then Inl e else Inr (), n, p)
      | (Inr _, n, p) \<Rightarrow> (Inr (), n, p))"

section \<open>What the client of a round promises\<close>

locale valid_calls =
  fixes cl :: "'p crdt_calls"
  assumes fetch_valid: "cl_fetch cl p k = (Inr d, p') \<Longrightarrow> pred_option entry_ok (rs_state d)"
    and digest_valid: "cl_digest cl p ds b = (Inr answer, p') \<Longrightarrow> list_all (\<lambda>d. vv_ok (dg_context d)) answer"

interpretation rpc_calls: valid_calls "client_calls co c peer timeout_seconds" for co and c :: "'p peer_client" and peer timeout_seconds
proof
  fix p p' :: 'p and k d
  assume "cl_fetch (client_calls co c peer timeout_seconds) p k = (Inr d, p')"
  then obtain payload where "crdt_round_trip co c p peer CRDT_FETCH payload timeout_seconds False = (Inr d, p')"
    by (auto simp: client_calls_def peer_fetch_def split: sum.splits)
  then obtain response :: Message where "decode_crdt_response (co_response_par co) (msg_payload response) = Inr d"
    by (rule crdt_round_trip_accepts)
  from decode_crdt_response_wf [OF this] show "pred_option entry_ok (rs_state d)"
    by (cases "rs_state d") (simp_all add: entry_wf_ok)
next
  fix p p' :: 'p and ds b answer
  assume "cl_digest (client_calls co c peer timeout_seconds) p ds b = (Inr answer, p')"
  then obtain response :: Message where "decode_digest_response (co_digest_par co) (msg_payload response) = Inr answer"
    by (auto simp: client_calls_def peer_digest_def split: sum.splits prod.splits if_splits)
  from decode_digest_response_wf [OF this] show "list_all (\<lambda>d. vv_ok (dg_context d)) answer"
    by (auto simp: list_all_iff digest_wf_def vv_wf_def)
qed

section \<open>A round keeps what the node has\<close>

lemma push_state_node: "push_state cl stored n p = (r, n', p') \<Longrightarrow> n' = n"
  by (auto simp: push_state_def split: option.splits prod.splits sum.splits)

definition kept :: "'n node_ops \<Rightarrow> ('n \<Rightarrow> bool) \<Rightarrow> 'n \<Rightarrow> 'n \<Rightarrow> bool" where
  "kept ops ok n n' \<longleftrightarrow> ok n' \<and> node_grows ops n n'"

lemma kept_refl: "ok n \<Longrightarrow> kept ops ok n n"
  by (simp add: kept_def)

lemma kept_trans: "kept ops ok a b \<Longrightarrow> kept ops ok b c \<Longrightarrow> kept ops ok a c"
  by (auto simp: kept_def intro: node_grows_trans)

lemma keptD: "kept ops ok n n' \<Longrightarrow> ok n'"
  by (simp add: kept_def)

locale anti_entropy = crdt_node ops ok + valid_calls cl
  for ops :: "'n node_ops" and ok :: "'n \<Rightarrow> bool" and cl :: "'p crdt_calls"
begin

lemma pull_kept:
  assumes "ok n" "pull_state ops cl k n p = (r, n', p')"
  shows "kept ops ok n n'"
proof (cases "ae_fetch_state cl p k")
  case (Pair x q)
  show ?thesis
  proof (cases "\<exists>e. x = Inr (Some e)")
    case True
    then obtain e where x: "x = Inr (Some e)" by blast
    then obtain d where d: "cl_fetch cl p k = (Inr d, q)" "rs_state d = Some e"
      using Pair by (auto simp: ae_fetch_state_def rbind_eq_Inr split: prod.splits if_splits)
    have "entry_ok e" using fetch_valid [OF d(1)] d(2) by simp
    moreover obtain y where "no_merge_entry ops n e = (y, n')"
      using assms(2) Pair x by (auto simp: pull_state_def split: prod.splits sum.splits)
    ultimately show ?thesis using merge_grows [OF assms(1)] by (simp add: kept_def)
  next
    case False
    then have "n' = n" using assms(2) Pair by (auto simp: pull_state_def split: sum.splits option.splits)
    then show ?thesis using assms(1) by (simp add: kept_refl)
  qed
qed

lemma push_metadata_kept:
  assumes "ok n" "vv_ok v" "push_metadata ops cl k v n p = (r, n', p')"
  shows "kept ops ok n n'"
proof -
  obtain x where "no_merge_metadata ops n k v = (x, n')"
    using assms(3) by (auto simp: push_metadata_def split: prod.splits sum.splits)
  with metadata_grows [OF assms(1,2)] show ?thesis by (simp add: kept_def)
qed

lemma reconcile_key_kept:
  assumes "ok n" "pred_option (\<lambda>d. vv_ok (dg_context d)) l" "pred_option (\<lambda>d. vv_ok (dg_context d)) r"
    and "reconcile_key ops cl k l r n p = (b, n', p')"
  shows "kept ops ok n n'"
proof -
  let ?pull = "case pull_state ops cl k n p of (r, n', p') \<Rightarrow> (rbind r (\<lambda>m. Inr (m \<noteq> None)), n', p')"
  let ?push = "push_state cl (no_get ops n k) n p"
  have pull: "kept ops ok n n'" if "?pull = (b, n', p')"
    using that pull_kept [OF assms(1)] by (auto split: prod.splits)
  have push: "kept ops ok n n'" if "?push = (b, n', p')"
    using push_state_node [OF that] assms(1) by (simp add: kept_refl)
  note run = assms(4) [unfolded reconcile_key_def Let_def]
  show ?thesis
  proof (cases l)
    case None
    then show ?thesis using run pull assms(1) by (cases r) (auto simp: kept_refl)
  next
    case (Some x)
    show ?thesis
    proof (cases r)
      case None
      then show ?thesis using run push Some by simp
    next
      case (Some y)
      note run = run [unfolded Some \<open>l = Some x\<close> option.case prod.case]
      show ?thesis
      proof (cases "compare_digest x y")
        case (Inl e)
        then show ?thesis using run assms(1) by (simp add: kept_refl)
      next
        case (Inr d)
        note run = run [unfolded Inr sum.case]
        show ?thesis
        proof (cases d)
          case METADATA_ONLY
          have "vv_ok (vv_merge (dg_context x) (dg_context y))" using assms(2,3) Some \<open>l = Some x\<close> by simp
          from push_metadata_kept [OF assms(1) this] show ?thesis using run METADATA_ONLY by simp
        next
          case DIGEST_CONCURRENT
          obtain z n1 p1 where z: "pull_state ops cl k n p = (z, n1, p1)" by (rule prod_cases3)
          have "n' = n1" using run z DIGEST_CONCURRENT push_state_node by (auto split: sum.splits option.splits)
          then show ?thesis using pull_kept [OF assms(1) z] by simp
        qed (use run pull push assms(1) in \<open>auto simp: kept_refl\<close>)
      qed
    qed
  qed
qed

lemma reconcile_keys_kept:
  assumes "ok n" "\<And>k. pred_option (\<lambda>d. vv_ok (dg_context d)) (lm k) \<and> pred_option (\<lambda>d. vv_ok (dg_context d)) (rm k)"
    and "reconcile_keys ops cl lm rm ks c n p = (r, n', p')"
  shows "kept ops ok n n'"
  using assms
proof (induction ks arbitrary: c n p)
  case Nil
  then show ?case by (simp add: kept_refl)
next
  case (Cons k ks)
  obtain b n1 p1 where b: "reconcile_key ops cl k (lm k) (rm k) n p = (b, n1, p1)" by (rule prod_cases3)
  have one: "kept ops ok n n1" using reconcile_key_kept [OF Cons.prems(1) _ _ b] Cons.prems(2) by blast
  show ?case
  proof (cases b)
    case (Inl e)
    then show ?thesis using Cons.prems(3) b one by simp
  next
    case (Inr x)
    then show ?thesis using Cons.prems(3) b Cons.IH [OF keptD [OF one] Cons.prems(2)] kept_trans [OF one] by simp
  qed
qed

lemma digest_map_pred:
  assumes "list_all (\<lambda>d. vv_ok (dg_context d)) ds"
  shows "pred_option (\<lambda>d. vv_ok (dg_context d)) (digest_map ds k)"
proof (cases "digest_map ds k")
  case (Some d)
  then have "(k, d) \<in> set (rev (map (\<lambda>d. (dg_key d, d)) ds))" unfolding digest_map_def by (rule map_of_SomeD)
  then show ?thesis using assms Some by (auto simp: list_all_iff)
qed simp

lemma reconcile_digest_kept:
  assumes "ok n" "list_all (\<lambda>d. vv_ok (dg_context d)) mine"
    and "reconcile_digest ops selector a cl b mine limit n p = (r, n', p')"
  shows "kept ops ok n n'"
proof -
  obtain x p1 where x: "ae_exchange_digest cl p mine = (x, p1)" by fastforce
  show ?thesis
  proof (cases x)
    case (Inl e)
    then show ?thesis using assms(1,3) x by (simp add: reconcile_digest_def kept_refl)
  next
    case (Inr answer)
    have answer: "list_all (\<lambda>d. vv_ok (dg_context d)) answer"
      using x Inr digest_valid by (simp add: ae_exchange_digest_def)
    show ?thesis
    proof (cases "rfilter (\<lambda>d. shared_replica selector a (dg_key d) b) answer")
      case (Inl e)
      then show ?thesis using assms(1,3) x Inr by (simp add: reconcile_digest_def kept_refl)
    next
      case (Inr remote)
      have remote: "list_all (\<lambda>d. vv_ok (dg_context d)) remote" using answer rfilter_Inr [OF Inr] by (simp add: list_all_iff)
      obtain ks y where "reconcile_keys ops cl (digest_map mine) (digest_map remote) ks 0 n p1 = (y, n', p')"
        using assms(3) x \<open>x = Inr answer\<close> Inr by (auto simp: reconcile_digest_def Let_def split: prod.splits)
      with reconcile_keys_kept [OF assms(1)] digest_map_pred [OF assms(2)] digest_map_pred [OF remote] show ?thesis by blast
    qed
  qed
qed

lemma shared_digest_contexts:
  assumes "ok n" "shared_digest ops selector a b wanted n = Inr ds"
  shows "list_all (\<lambda>d. vv_ok (dg_context d)) ds"
proof -
  obtain P where "ds = map digest_from_entry (filter P (no_snapshot_all ops n))"
    using assms(2) rfilter_Inr unfolding shared_digest_def rbind_eq_Inr by fastforce
  then show ?thesis using snapshot [OF assms(1)] get_ok [OF assms(1)] by (fastforce simp: list_all_iff digest_from_entry_def entry_ok_def)
qed

lemma reconcile_peer_kept:
  assumes "ok n" "reconcile_peer ops selector a cl b keys n p = (r, n', p')"
  shows "kept ops ok n n'"
proof (cases "shared_digest ops selector a b (\<lambda>k. case keys of None \<Rightarrow> True | Some ks \<Rightarrow> k \<in> ks) n")
  case (Inl e)
  then show ?thesis using assms by (simp add: reconcile_peer_def kept_refl)
next
  case (Inr mine)
  then show ?thesis
    using assms(2) reconcile_digest_kept [OF assms(1) shared_digest_contexts [OF assms(1) Inr]] by (simp add: reconcile_peer_def)
qed

lemma run_once_kept:
  assumes "ok n" "run_once ops selector a (\<lambda>_. cl) provided pick batch_size n p = (r, n', p')"
  shows "kept ops ok n n'"
proof (cases "alive_peers a provided = []")
  case True
  then show ?thesis using assms by (simp add: run_once_def kept_refl)
next
  case False
  let ?b = "cm_node (pick (alive_peers a provided))"
  show ?thesis
  proof (cases "local_digest_for ops selector a batch_size ?b n")
    case (Inl e)
    then show ?thesis using assms False by (simp add: run_once_def Let_def kept_refl)
  next
    case (Inr mine)
    then obtain ds where ds: "shared_digest ops selector a ?b (\<lambda>_. True) n = Inr ds" "mine = take (nat batch_size) ds"
      by (auto simp: local_digest_for_def rbind_eq_Inr)
    have "list_all (\<lambda>d. vv_ok (dg_context d)) mine"
      using shared_digest_contexts [OF assms(1) ds(1)] ds(2) by (auto simp: list_all_iff dest: in_set_takeD)
    moreover obtain x where "reconcile_digest ops selector a cl ?b mine (Some batch_size) n p = (x, n', p')"
      using assms(2) False Inr by (auto simp: run_once_def Let_def split: prod.splits)
    ultimately show ?thesis by (rule reconcile_digest_kept [OF assms(1)])
  qed
qed

end

interpretation ae: anti_entropy durable_ops durable_ok "client_calls co c peer timeout_seconds"
  for co and c :: "'p peer_client" and peer timeout_seconds
  by unfold_locales

section \<open>Recovery\<close>

lemma repository_mark_spec:
  assumes "repository_mark key owned n = (r, n')"
  shows "dn_memory (du_store n') = dn_memory (du_store n)" "dn_clock (du_store n') = dn_clock (du_store n)"
    and "r = Inr u \<Longrightarrow> db_entries (repo_db (dn_repo (du_store n'))) =
      map (\<lambda>(k, encoded, a). (k, encoded, if k = key then owned else a)) (db_entries (repo_db (dn_repo (du_store n))))"
  using assms by (auto simp: repository_mark_def with_io_def mark_authority_def executor_run_def Let_def case_prod_unfold
      split: sum.splits io.splits if_splits)

lemma mark_keys_same:
  "mark_keys selector a keys n = (r, n') \<Longrightarrow>
     dn_memory (du_store n') = dn_memory (du_store n) \<and> dn_clock (du_store n') = dn_clock (du_store n)"
proof (induction keys arbitrary: n r)
  case (Cons key keys)
  then show ?case
    by (auto simp: Let_def split: sum.splits prod.splits dest: repository_mark_spec(1,2))
qed simp

lemma mark_keys_placed:
  "mark_keys selector a keys n = (Inr placed, n') \<Longrightarrow>
     map fst placed = keys \<and> (\<forall>(k, ids) \<in> set placed. \<exists>ms. replicas selector k = Inr ms \<and> ids = set (map cm_node ms))"
proof (induction keys arbitrary: n placed)
  case (Cons key keys)
  then show ?case by (fastforce simp: Let_def rbind_eq_Inr split: sum.splits prod.splits)
qed simp

text \<open>After the first loop the row of every marked key says whether this node is a replica of it.\<close>

lemma mark_keys_rows:
  assumes "mark_keys selector a keys n = (Inr placed, n')" "(k, encoded, auth) \<in> set (db_entries (repo_db (dn_repo (du_store n'))))"
  shows "if k \<in> set keys then is_replica selector a k = Inr auth
    else (k, encoded, auth) \<in> set (db_entries (repo_db (dn_repo (du_store n))))"
  using assms
proof (induction keys arbitrary: n placed)
  case (Cons key keys)
  obtain ms n1 rest where m: "replicas selector key = Inr ms" and one: "repository_mark key (a \<in> cm_node ` set ms) n = (Inr (), n1)"
    and rest: "mark_keys selector a keys n1 = (Inr rest, n')"
    using Cons.prems(1) by (fastforce simp: Let_def rbind_eq_Inr split: sum.splits prod.splits)
  note rows = repository_mark_spec(3) [OF one refl]
  show ?case
  proof (cases "k \<in> set keys")
    case False
    then have "(k, encoded, auth) \<in> set (db_entries (repo_db (dn_repo (du_store n1))))"
      using Cons.IH [OF rest Cons.prems(2)] by simp
    then show ?thesis using False m by (auto simp: rows is_replica_def list_ex_iff)
  qed (use Cons.IH [OF rest Cons.prems(2)] in simp)
qed simp

lemma reconcile_peer_failures:
  "reconcile_peer ops selector a cl b keys n p = (Inr stats, n', p') \<Longrightarrow> 0 \<le> st_failures stats \<and> st_failures stats \<le> 1"
  by (auto simp: reconcile_peer_def reconcile_digest_def Let_def rbind_eq_Inr split: sum.splits prod.splits if_splits)

lemma reconcile_peers_spec:
  assumes "durable_ok n"
    and "reconcile_peers selector a (\<lambda>peer. client_calls co c peer timeout_seconds) authoritative peers contacted failures n p = (r, n', p')"
  shows "kept durable_ops durable_ok n n' \<and> (\<forall>c' f'. r = Inr (c', f') \<longrightarrow> contacted \<le> c' \<and> failures \<le> f' \<and>
    f' - failures \<le> c' - contacted \<and> c' - contacted \<le> int (length (alive_peers a peers)))"
  using assms
proof (induction peers arbitrary: contacted failures n p)
  case Nil
  then show ?case by (auto simp: kept_refl)
next
  case (Cons peer peers)
  let ?rel = "relevant_keys authoritative (cm_node peer)"
  show ?case
  proof (cases "cm_node peer = a \<or> cm_status peer \<noteq> ALIVE \<or> ?rel = []")
    case True
    then show ?thesis using Cons.IH [OF Cons.prems(1), of contacted failures p] Cons.prems(2) by (auto simp: alive_peers_def)
  next
    case False
    obtain x n1 p1 where x: "reconcile_peer durable_ops selector a (client_calls co c peer timeout_seconds) (cm_node peer)
        (Some (set ?rel)) n p = (x, n1, p1)" by (rule prod_cases3)
    have one: "kept durable_ops durable_ok n n1" by (rule ae.reconcile_peer_kept [OF Cons.prems(1) x])
    note IH = Cons.IH [OF keptD [OF one], of "contacted + 1" _ p1]
    show ?thesis
    proof (cases x)
      case (Inl e)
      then show ?thesis using Cons.prems(2) False x one IH [of "failures + 1"] kept_trans [OF one]
        by (cases "is_transport e") (auto simp: alive_peers_def)
    next
      case (Inr stats)
      then show ?thesis
        using Cons.prems(2) False x IH [of "failures + st_failures stats"] kept_trans [OF one] reconcile_peer_failures [OF x [unfolded Inr]]
        by (fastforce simp: alive_peers_def)
    qed
  qed
qed

text \<open>C10: Whatever the peers answer, the reconciliation of a restarted node loses nothing: the store
  stays well formed, no entry disappears or changes its type, no version and no context goes
  back, and neither does the clock - also when it raises halfway. Once the keys are marked,
  the row of every key the node holds says truthfully whether the node is one of its
  replicas. A reconciliation that returns has contacted at most the other alive members, and
  has counted at most one failure for each.\<close>

theorem recovery_reconcile_safe:
  assumes "durable_ok n"
    and "recovery_reconcile selector a (\<lambda>peer. client_calls co c peer timeout_seconds) peers n p = (r, n', p')"
  shows "durable_ok n' \<and> node_grows durable_ops n n' \<and>
    (\<forall>placed m. mark_keys selector a (store_keys (dn_memory (du_store n))) n = (Inr placed, m) \<longrightarrow>
       (\<forall>(k, encoded, auth) \<in> set (db_entries (repo_db (dn_repo (du_store m)))).
          no_get durable_ops n k \<noteq> None \<longrightarrow> is_replica selector a k = Inr auth)) \<and>
    (\<forall>res. r = Inr res \<longrightarrow> rr_authoritative_keys res \<le> rr_keys_checked res \<and> 0 \<le> rr_failures res \<and>
       rr_failures res \<le> rr_peers_contacted res \<and> rr_peers_contacted res \<le> int (length (alive_peers a peers)))"
proof -
  let ?keys = "store_keys (dn_memory (du_store n))"
  obtain x m where m: "mark_keys selector a ?keys n = (x, m)" by fastforce
  note same = mark_keys_same [OF m]
  have kept_m: "kept durable_ops durable_ok n m"
    using assms(1) same by (auto simp: kept_def durable_ok_def durable_ops_def intro!: node_grows_same)
  have rows: "is_replica selector a k = Inr auth" if "mark_keys selector a ?keys n = (Inr placed, m')"
    "(k, encoded, auth) \<in> set (db_entries (repo_db (dn_repo (du_store m'))))" "no_get durable_ops n k \<noteq> None" for placed m' k encoded auth
  proof -
    have "k \<in> set ?keys" using that(3) map_of_eq_None_iff [of "store_entries (dn_memory (du_store n))" k]
      by (simp add: durable_ops_def store_get_def store_keys_def)
    then show ?thesis using mark_keys_rows [OF that(1,2)] by simp
  qed
  have rest: "durable_ok n' \<and> node_grows durable_ops n n' \<and>
    (\<forall>res. r = Inr res \<longrightarrow> rr_authoritative_keys res \<le> rr_keys_checked res \<and> 0 \<le> rr_failures res \<and>
       rr_failures res \<le> rr_peers_contacted res \<and> rr_peers_contacted res \<le> int (length (alive_peers a peers)))"
  proof (cases x)
    case (Inl e)
    then show ?thesis using assms(2) m kept_m by (auto simp: recovery_reconcile_def kept_def)
  next
    case (Inr placed)
    obtain y where y: "reconcile_peers selector a (\<lambda>peer. client_calls co c peer timeout_seconds) (authoritative_keys a placed) peers 0 0 m p = (y, n', p')"
      "r = rbind y (\<lambda>(contacted, failures). Inr \<lparr>rr_keys_checked = int (length ?keys),
         rr_authoritative_keys = int (length (authoritative_keys a placed)), rr_peers_contacted = contacted, rr_failures = failures\<rparr>)"
      using assms(2) m Inr by (auto simp: recovery_reconcile_def Let_def split: prod.splits)
    have "length (authoritative_keys a placed) \<le> length ?keys"
      using mark_keys_placed [OF m [unfolded Inr]] length_filter_le [of _ placed] by (metis authoritative_keys_def length_map)
    then show ?thesis
      using reconcile_peers_spec [OF keptD [OF kept_m] y(1)] kept_trans [OF kept_m] y(2) by (cases y) (auto simp: kept_def)
  qed
  have "\<forall>placed m. mark_keys selector a ?keys n = (Inr placed, m) \<longrightarrow>
       (\<forall>(k, encoded, auth) \<in> set (db_entries (repo_db (dn_repo (du_store m)))).
          no_get durable_ops n k \<noteq> None \<longrightarrow> is_replica selector a k = Inr auth)"
    by (intro allI impI ballI case_prodI2) (clarify, rule rows, assumption+, simp)
  with rest show ?thesis by simp
qed

text \<open>A restarted node that holds one counter which the ring places on another node.\<close>

definition recovery_entry :: StoredCrdtEntry where
  "recovery_entry =
     \<lparr>se_key = ''k'', se_type = GCOUNTER, se_state = SGCounter gc_empty, se_version = vv_empty, se_context = vv_empty\<rparr>"

definition recovery_node :: DurableNode where
  "recovery_node = repair_node\<lparr>du_store := (du_store repair_node)
     \<lparr>dn_memory := \<lparr>store_entries = [(''k'', recovery_entry)]\<rparr>,
      dn_repo := (dn_repo (du_store repair_node))\<lparr>repo_db := (repo_db (dn_repo (du_store repair_node)))
        \<lparr>db_entries := [(''k'', \<lparr>enc_key = ''k'', enc_type = ''gcounter'', enc_state = [], enc_version = [], enc_context = []\<rparr>, True)]\<rparr>\<rparr>\<rparr>\<rparr>"

lemma recovery_run:
  "\<exists>n'. mark_keys repair_selector ''b'' [''k''] recovery_node = (Inr [(''k'', {''c''})], n') \<and>
     map (snd \<circ> snd) (db_entries (repo_db (dn_repo (du_store n')))) = [False] \<and>
     recovery_reconcile repair_selector ''b'' calls [repair_peer] recovery_node p =
       (Inr \<lparr>rr_keys_checked = 1, rr_authoritative_keys = 0, rr_peers_contacted = 0, rr_failures = 0\<rparr>, n', p)"
proof -
  have r: "replicas repair_selector ''k'' = Inr [repair_peer]"
    by (simp add: replicas_def candidates_def repair_selector_def repair_peer_def Let_def)
  have "\<exists>n'. repository_mark ''k'' False recovery_node = (Inr (), n') \<and>
      map (snd \<circ> snd) (db_entries (repo_db (dn_repo (du_store n')))) = [False]"
    by (simp add: repository_mark_def with_io_def mark_authority_def executor_run_def ensure_open_def recovery_node_def
        repair_node_def Let_def)
  then obtain n' where n: "repository_mark ''k'' False recovery_node = (Inr (), n')"
    "map (snd \<circ> snd) (db_entries (repo_db (dn_repo (du_store n')))) = [False]"
    by (elim exE conjE) (rule that)
  then have m: "mark_keys repair_selector ''b'' [''k''] recovery_node = (Inr [(''k'', {''c''})], n')"
    using r by (simp add: repair_peer_def Let_def)
  have "store_keys (dn_memory (du_store recovery_node)) = [''k'']" by (simp add: recovery_node_def store_keys_def)
  then have "recovery_reconcile repair_selector ''b'' calls [repair_peer] recovery_node p =
       (Inr \<lparr>rr_keys_checked = 1, rr_authoritative_keys = 0, rr_peers_contacted = 0, rr_failures = 0\<rparr>, n', p)"
    using m by (simp add: recovery_reconcile_def authoritative_keys_def relevant_keys_def Let_def)
  with m n(2) show ?thesis by (intro exI conjI)
qed

theorem recovery_reconcile_safe_witness:
  "\<exists>res n'. \<forall>co (c :: unit peer_client) t.
     recovery_reconcile repair_selector ''b'' (\<lambda>peer. client_calls co c peer t) [repair_peer] recovery_node () = (Inr res, n', ()) \<and>
     durable_ok n' \<and> node_grows durable_ops recovery_node n' \<and> rr_keys_checked res = 1 \<and> rr_failures res \<le> rr_peers_contacted res"
proof -
  have ok: "durable_ok recovery_node"
    by (simp add: durable_ok_def recovery_node_def repair_node_def store_ok_def recovery_entry_def entry_ok_def
        clock_ok_def CausalClock_init_def gc_empty_def gc_ok_def dict_ok_def)
  let ?res = "\<lparr>rr_keys_checked = 1, rr_authoritative_keys = 0, rr_peers_contacted = 0, rr_failures = 0\<rparr>"
  obtain n' where n: "mark_keys repair_selector ''b'' [''k''] recovery_node = (Inr [(''k'', {''c''})], n')"
    using recovery_run [of "\<lambda>_. undefined" "()"] by (elim exE conjE) (rule that)
  have run: "recovery_reconcile repair_selector ''b'' (\<lambda>peer. client_calls co c peer t) [repair_peer] recovery_node () = (Inr ?res, n', ())"
    for co and c :: "unit peer_client" and t
    using recovery_run [of "\<lambda>peer. client_calls co c peer t" "()"] n by auto
  show ?thesis using recovery_reconcile_safe [OF ok run] run by (intro exI [of _ ?res] exI [of _ n']) simp
qed

end
