(* ===== verification/Cluster_Rpc.thy ===== *)
theory Cluster_Rpc
  imports Peer_Rpc Cluster_Wire
begin

text \<open>
  The cluster peer client of \<^verbatim>\<open>src/src/distsys/cluster/peer_client.py\<close>: the one-shot control
  calls (join, ping, indirect ping, gossip) and the forwarding of a task, which retries
  through a circuit breaker per peer. The lemmas: a response is accepted only when it
  answers the request, and over TLS only from the node it was asked of; an open breaker
  keeps every exchange from the network; a forwarded task is sent at most as often as the
  retry policy allows, and its failures are the ones the cluster router fails over on.
\<close>

section \<open>Parameters\<close>

record cluster_codecs =
  cc_member_ser :: "MemberProto serializer"
  cc_member_par :: "MemberProto parser"
  cc_members_ser :: "MemberProto list serializer"
  cc_members_par :: "MemberProto list parser"
  cc_ack_ser :: "AckProto serializer"
  cc_ack_par :: "AckProto parser"
  cc_ping_request_ser :: "PingRequestProto serializer"
  cc_ping_request_par :: "PingRequestProto parser"
  cc_task_ser :: "TaskRequest serializer"
  cc_task_par :: "TaskRequest parser"
  cc_response_ser :: "TaskResponse serializer"
  cc_response_par :: "TaskResponse parser"
  cc_forwarded_ser :: "ForwardedProto serializer"
  cc_forwarded_par :: "ForwardedProto parser"

text \<open>
  The client. \<open>cp_metrics\<close> says whether a metrics object is attached and \<open>cp_trace\<close> gives the
  trace headers of the current span when tracing is on; the other fields are as those of the
  CRDT peer client.
\<close>

record 'p PeerClient =
  cp_node_id :: string
  cp_retry_policy :: RetryPolicy
  cp_failure_threshold :: int
  cp_recovery_seconds :: real
  cp_max_frame_size :: int
  cp_tls :: bool
  cp_env_ser :: "Envelope serializer"
  cp_env_par :: "Envelope parser"
  cp_transport :: "'p transport"
  cp_environ :: environ
  cp_fresh :: "'p \<Rightarrow> string \<times> int"
  cp_metrics :: bool
  cp_trace :: "'p \<Rightarrow> (string \<times> string) option"

section \<open>One exchange\<close>

text \<open>\<^verbatim>\<open>except (ConnectionError, ssl.SSLError)\<close>.\<close>

definition close_passed_over :: "exn \<Rightarrow> bool" where
  "close_passed_over e = (is_connection e \<or> exn_cls e = SSLError)"

definition exchange_endpoint_raw ::
  "'p PeerClient \<Rightarrow> 'p \<Rightarrow> string \<Rightarrow> int \<Rightarrow> Message \<Rightarrow> real \<Rightarrow> string option \<Rightarrow> Message result \<times> 'p" where
  "exchange_endpoint_raw c p host port message timeout_seconds expected_node_id =
     (if timeout_seconds \<le> 0 then (raise TimeoutError ''peer exchange timeout exhausted'', p)
      else case open_peer (cp_transport c) (cp_tls c) host port expected_node_id p of
             (Inl e, p') \<Rightarrow> (Inl e, p')
           | (Inr _, p') \<Rightarrow>
               (case finally_close (cp_transport c) close_passed_over
                       (send_and_read (cp_transport c) (cp_env_ser c) (cp_env_par c) (cp_max_frame_size c) message p') of
                  (r, p'') \<Rightarrow>
                    (rbind r (\<lambda>response.
                       if msg_correlation_id response \<noteq> msg_correlation_id message
                       then raise PeerProtocolError (''expected correlation '' @ msg_correlation_id message @
                              '', got '' @ msg_correlation_id response)
                       else Inr response), p'')))"

definition exchange_endpoint ::
  "'p PeerClient \<Rightarrow> 'p \<Rightarrow> string \<Rightarrow> int \<Rightarrow> Message \<Rightarrow> real \<Rightarrow> string option \<Rightarrow> Message result \<times> 'p" where
  "exchange_endpoint c p host port message timeout_seconds expected_node_id =
     (if \<not> cp_metrics c \<and> cp_trace c p = None \<and> \<not> peer_routing_enabled (cp_environ c)
      then exchange_endpoint_raw c p host port message timeout_seconds expected_node_id
      else case resolve_peer_endpoint (cp_environ c) expected_node_id host port of
             Inl e \<Rightarrow> (Inl e, p)
           | Inr (host, port) \<Rightarrow>
               exchange_endpoint_raw c p host port
                 (case cp_trace c p of
                    None \<Rightarrow> message
                  | Some (traceparent, tracestate) \<Rightarrow> message\<lparr>msg_traceparent := traceparent, msg_tracestate := tracestate\<rparr>)
                 timeout_seconds expected_node_id)"

text \<open>The keyword argument \<^verbatim>\<open>expected_node_id\<close> is passed only with TLS.\<close>

definition expected_peer :: "'p PeerClient \<Rightarrow> string option \<Rightarrow> string option" where
  "expected_peer c node_id = (if cp_tls c then node_id else None)"

definition control_request :: "'p PeerClient \<Rightarrow> 'p \<Rightarrow> MessageType \<Rightarrow> char list \<Rightarrow> Message" where
  "control_request c p type payload =
     (let (fresh_uuid, now_ms) = cp_fresh c p in new_request fresh_uuid now_ms (cp_node_id c) payload None 8 type [] [])"

section \<open>The control calls\<close>

definition peer_join ::
  "cluster_codecs \<Rightarrow> 'p PeerClient \<Rightarrow> 'p \<Rightarrow> SeedAddress \<Rightarrow> ClusterMember \<Rightarrow> real \<Rightarrow> ClusterMember list result \<times> 'p" where
  "peer_join co c p seed local_member timeout_seconds =
     (case encode_join_request (cc_member_ser co) local_member of
        Inl e \<Rightarrow> (Inl e, p)
      | Inr payload \<Rightarrow>
          if cp_tls c \<and> sd_node seed = None
          then (raise TlsPeerIdentityError ''secure cluster join requires an identity-aware seed'', p)
          else (case exchange_endpoint c p (sd_host seed) (sd_port seed) (control_request c p JOIN_REQUEST payload)
                       timeout_seconds (expected_peer c (sd_node seed)) of
                  (r, p') \<Rightarrow>
                    (rbind r (\<lambda>response.
                       if msg_type response \<noteq> JOIN_RESPONSE
                       then raise PeerProtocolError (''expected JOIN_RESPONSE, got '' @ type_name (msg_type response))
                       else decode_join_response (cc_members_par co) (msg_payload response)), p')))"

text \<open>The three calls that expect an ACK have the same body after encoding.\<close>

definition ack_exchange ::
  "cluster_codecs \<Rightarrow> 'p PeerClient \<Rightarrow> 'p \<Rightarrow> ClusterMember \<Rightarrow> MessageType \<Rightarrow> char list result \<Rightarrow> real \<Rightarrow> AckData result \<times> 'p" where
  "ack_exchange co c p peer type encoded timeout_seconds =
     (case encoded of
        Inl e \<Rightarrow> (Inl e, p)
      | Inr payload \<Rightarrow>
          (case exchange_endpoint c p (cm_host peer) (cm_port peer) (control_request c p type payload)
                  timeout_seconds (expected_peer c (Some (cm_node peer))) of
             (r, p') \<Rightarrow>
               (rbind r (\<lambda>response.
                  if msg_type response \<noteq> ACK then raise PeerProtocolError (''expected ACK, got '' @ type_name (msg_type response))
                  else decode_ack (cc_ack_par co) (msg_payload response)), p')))"

definition peer_ping ::
  "cluster_codecs \<Rightarrow> 'p PeerClient \<Rightarrow> 'p \<Rightarrow> ClusterMember \<Rightarrow> ClusterMember list \<Rightarrow> real \<Rightarrow> AckData result \<times> 'p" where
  "peer_ping co c p peer gossip timeout_seconds =
     ack_exchange co c p peer PING (encode_ping (cc_members_ser co) gossip) timeout_seconds"

definition peer_ping_request ::
  "cluster_codecs \<Rightarrow> 'p PeerClient \<Rightarrow> 'p \<Rightarrow> ClusterMember \<Rightarrow> ClusterMember \<Rightarrow> ClusterMember list \<Rightarrow> real \<Rightarrow> AckData result \<times> 'p" where
  "peer_ping_request co c p helper target gossip timeout_seconds =
     ack_exchange co c p helper PING_REQ (encode_ping_request (cc_ping_request_ser co) target gossip) timeout_seconds"

definition peer_gossip ::
  "cluster_codecs \<Rightarrow> 'p PeerClient \<Rightarrow> 'p \<Rightarrow> ClusterMember \<Rightarrow> ClusterMember list \<Rightarrow> real \<Rightarrow> AckData result \<times> 'p" where
  "peer_gossip co c p peer members timeout_seconds =
     ack_exchange co c p peer GOSSIP (encode_gossip (cc_members_ser co) members) timeout_seconds"

section \<open>Forwarding a task\<close>

text \<open>The breakers are created on first use; a breaker admits one probe when it is half open.\<close>

definition breaker_for ::
  "'p PeerClient \<Rightarrow> (string, CircuitBreaker) dict \<Rightarrow> string \<Rightarrow> CircuitBreaker result \<times> (string, CircuitBreaker) dict" where
  "breaker_for c breakers node_id =
     (case map_of breakers node_id of
        Some b \<Rightarrow> (Inr b, breakers)
      | None \<Rightarrow>
          (case CircuitBreaker_init (cp_failure_threshold c) (cp_recovery_seconds c) 1 of
             Inl e \<Rightarrow> (Inl e, breakers)
           | Inr b \<Rightarrow> (Inr b, AList.update node_id b breakers)))"

text \<open>
  The clock readings of the \<open>i\<close>-th attempt: at the check of the deadline, when the breaker
  is asked, when the timeout of the exchange is taken, and when the outcome is recorded;
  and what the retry loop meets around it.
\<close>

record forward_times =
  ft_check :: "nat \<Rightarrow> real"
  ft_begin :: "nat \<Rightarrow> real"
  ft_timeout :: "nat \<Rightarrow> real"
  ft_end :: "nat \<Rightarrow> real"
  ft_before :: "nat \<Rightarrow> real"
  ft_random :: "nat \<Rightarrow> real \<Rightarrow> real"
  ft_after :: "nat \<Rightarrow> real"

text \<open>
  \<^verbatim>\<open>breaker.call\<close> around an exchange, which happens only when the breaker admits it. A call is
  modelled with no other call through the same breaker during it; interleaved calls are
  the histories of \<^verbatim>\<open>Resilience\<close>.
\<close>

definition guarded_exchange ::
  "CircuitBreaker \<Rightarrow> real \<Rightarrow> real \<Rightarrow> ('p \<Rightarrow> 'a result \<times> 'p) \<Rightarrow> 'p \<Rightarrow> 'a result \<times> CircuitBreaker \<times> 'p" where
  "guarded_exchange b now_begin now_end operation p =
     (case before_call b now_begin of
        (Inl e, b') \<Rightarrow> (Inl e, b', p)
      | (Inr _, _) \<Rightarrow>
          (let (outcome, p') = operation p; (r, b') = breaker_call b now_begin now_end outcome in (r, b', p')))"

record forward_task_data =
  fw_task_name :: string
  fw_payload :: json
  fw_routing_key :: string
  fw_origin :: string

definition forward_attempt ::
  "cluster_codecs \<Rightarrow> 'p PeerClient \<Rightarrow> ClusterMember \<Rightarrow> forward_task_data \<Rightarrow> string \<Rightarrow> Deadline \<Rightarrow> forward_times \<Rightarrow> nat \<Rightarrow>
     CircuitBreaker \<times> 'p \<Rightarrow> Message result \<times> CircuitBreaker \<times> 'p" where
  "forward_attempt co c peer task correlation_id deadline ft i s =
     (case s of (b, p) \<Rightarrow>
      let left = remaining deadline (ft_check ft i) in
      if left \<le> 0 then (raise DeadlineExceeded ''request deadline exceeded before peer forward'', b, p)
      else case encode_forwarded_request (cc_task_ser co) (cc_task_par co) (cc_forwarded_ser co) (fw_task_name task)
                  (fw_payload task) (fw_routing_key task) (fw_origin task) (remaining_ms left) of
             Inl e \<Rightarrow> (Inl e, b, p)
           | Inr payload \<Rightarrow>
               guarded_exchange b (ft_begin ft i) (ft_end ft i)
                 (\<lambda>p. exchange_endpoint c p (cm_host peer) (cm_port peer)
                        (let (fresh_uuid, now_ms) = cp_fresh c p
                         in new_request fresh_uuid now_ms (cp_node_id c) payload (Some correlation_id) 8 FORWARDED_REQUEST [] [])
                        (remaining deadline (ft_timeout ft i)) (expected_peer c (Some (cm_node peer))))
                 p)"

text \<open>The state after the first attempts.\<close>

fun after_attempts :: "(nat \<Rightarrow> 's \<Rightarrow> 'a result \<times> 's) \<Rightarrow> 's \<Rightarrow> nat \<Rightarrow> 's" where
  "after_attempts attempt s 0 = s"
| "after_attempts attempt s (Suc i) = snd (attempt i (after_attempts attempt s i))"

definition retryable_forward :: "exn \<Rightarrow> bool" where
  "retryable_forward e = (is_transport e \<and> exn_cls e \<noteq> CircuitOpenError)"

text \<open>
  The retries of \<open>attempt\<close>: the outcome of the \<open>i\<close>-th operation is that of the \<open>i\<close>-th attempt,
  made in the state the earlier ones left. The result is what the loop returns, the state
  after it, and the number of attempts.
\<close>

definition retry_attempts ::
  "RetryPolicy \<Rightarrow> Deadline \<Rightarrow> forward_times \<Rightarrow> (nat \<Rightarrow> 's \<Rightarrow> 'a result \<times> 's) \<Rightarrow> 's \<Rightarrow> 'a result \<times> 's \<times> nat" where
  "retry_attempts policy deadline ft attempt s =
     (let (r, delays, n) = retry_async policy retryable_forward (Some deadline)
        \<lparr>re_before = ft_before ft, re_operation = \<lambda>i. fst (attempt i (after_attempts attempt s i)),
         re_random = ft_random ft, re_after = ft_after ft\<rparr>
      in (r, after_attempts attempt s n, n))"

definition forward_failure :: "ClusterMember \<Rightarrow> exn \<Rightarrow> exn" where
  "forward_failure peer e =
     (if exn_cls e \<in> {CircuitOpenError, DeadlineExceeded} then e
      else if is_transport e then Exn PeerTransportError (''peer '' @ cm_node peer @ '' transport failed'')
      else e)"

definition forward_result :: "cluster_codecs \<Rightarrow> Message \<Rightarrow> json result" where
  "forward_result co response =
     (if msg_type response \<notin> {RESPONSE, ERROR}
      then raise PeerProtocolError (''expected task RESPONSE/ERROR, got '' @ type_name (msg_type response))
      else rbind (decode_task_response (cc_response_par co) (msg_payload response)) (\<lambda>decoded.
        if \<not> rd_success decoded then raise (PeerApplicationError (rd_error_code decoded)) (rd_error_message decoded)
        else Inr (case rd_result decoded of None \<Rightarrow> JNull | Some v \<Rightarrow> v)))"

definition forward_task ::
  "cluster_codecs \<Rightarrow> 'p PeerClient \<Rightarrow> ClusterMember \<Rightarrow> forward_task_data \<Rightarrow> string \<Rightarrow> Deadline \<Rightarrow> forward_times \<Rightarrow>
     (string, CircuitBreaker) dict \<times> 'p \<Rightarrow> json result \<times> (string, CircuitBreaker) dict \<times> 'p" where
  "forward_task co c peer task correlation_id deadline ft s =
     (case s of (breakers, p) \<Rightarrow>
      (case breaker_for c breakers (cm_node peer) of
         (Inl e, breakers1) \<Rightarrow> (Inl e, breakers1, p)
       | (Inr b, breakers1) \<Rightarrow>
           (case retry_attempts (cp_retry_policy c) deadline ft
                   (forward_attempt co c peer task correlation_id deadline ft) (b, p) of
              (r, (b', p'), n) \<Rightarrow>
                (case r of
                   Inl e \<Rightarrow> Inl (forward_failure peer e)
                 | Inr response \<Rightarrow> forward_result co response,
                 AList.update (cm_node peer) b' breakers1, p'))))"

section \<open>What an exchange accepts\<close>

lemma exchange_endpoint_raw_accepts:
  assumes "exchange_endpoint_raw c p host port message timeout expected = (Inr response, p')"
  shows "0 < timeout" "msg_correlation_id response = msg_correlation_id message"
    and "cp_tls c \<Longrightarrow> \<exists>node_id cert p1. expected = Some node_id \<and> tr_peercert (cp_transport c) p1 = Some cert \<and> node_id \<in> dns_sans cert"
proof -
  show "0 < timeout" using assms by (auto simp: exchange_endpoint_raw_def split: if_splits)
  then obtain p1 where o: "open_peer (cp_transport c) (cp_tls c) host port expected p = (Inr (), p1)"
    using assms by (cases "open_peer (cp_transport c) (cp_tls c) host port expected p")
      (auto simp: exchange_endpoint_raw_def split: sum.splits)
  then show "msg_correlation_id response = msg_correlation_id message"
    using assms \<open>0 < timeout\<close> by (auto simp: exchange_endpoint_raw_def rbind_eq_Inr split: prod.splits if_splits)
  assume tls: "cp_tls c"
  show "\<exists>node_id cert p1. expected = Some node_id \<and> tr_peercert (cp_transport c) p1 = Some cert \<and> node_id \<in> dns_sans cert"
    by (rule open_peer_identity [OF o [simplified tls]]) blast
qed

lemma exchange_endpoint_accepts:
  assumes "exchange_endpoint c p host port message timeout expected = (Inr response, p')"
  shows "0 < timeout" "msg_correlation_id response = msg_correlation_id message"
    and "cp_tls c \<Longrightarrow> \<exists>node_id cert p1. expected = Some node_id \<and> tr_peercert (cp_transport c) p1 = Some cert \<and> node_id \<in> dns_sans cert"
proof -
  obtain host' port' message' where
    "exchange_endpoint_raw c p host' port' message' timeout expected = (Inr response, p')"
    "msg_correlation_id message' = msg_correlation_id message"
    using assms by (auto simp: exchange_endpoint_def split: if_splits sum.splits prod.splits option.splits)
  then show "0 < timeout" "msg_correlation_id response = msg_correlation_id message"
    "cp_tls c \<Longrightarrow> \<exists>node_id cert p1. expected = Some node_id \<and> tr_peercert (cp_transport c) p1 = Some cert \<and> node_id \<in> dns_sans cert"
    using exchange_endpoint_raw_accepts by metis+
qed

text \<open>An ACK that a call returns came from the peer that was asked, over TLS by its certificate.\<close>

lemma ack_exchange_accepts:
  assumes "ack_exchange co c p peer type encoded timeout = (Inr ack, p')"
  obtains response :: Message where "0 < timeout" "msg_type response = ACK"
    "msg_correlation_id response = fst (cp_fresh c p)" "decode_ack (cc_ack_par co) (msg_payload response) = Inr ack"
    "cp_tls c \<longrightarrow> (\<exists>cert p1. tr_peercert (cp_transport c) p1 = Some cert \<and> cm_node peer \<in> dns_sans cert)"
proof -
  obtain payload where e: "encoded = Inr payload" using assms by (cases encoded) (auto simp: ack_exchange_def)
  let ?m = "control_request c p type payload" let ?x = "expected_peer c (Some (cm_node peer))"
  obtain q p1 where q: "exchange_endpoint c p (cm_host peer) (cm_port peer) ?m timeout ?x = (q, p1)" by fastforce
  then obtain response where r: "q = Inr response" "msg_type response = ACK"
      "decode_ack (cc_ack_par co) (msg_payload response) = Inr ack"
    using assms e by (auto simp: ack_exchange_def rbind_eq_Inr split: if_splits)
  note x = exchange_endpoint_accepts [OF q [unfolded r(1)]]
  have "msg_correlation_id ?m = fst (cp_fresh c p)" by (simp add: control_request_def new_request_def case_prod_unfold Let_def)
  moreover have "\<exists>cert p1. tr_peercert (cp_transport c) p1 = Some cert \<and> cm_node peer \<in> dns_sans cert" if "cp_tls c"
    using x(3) [OF that] that by (auto simp: expected_peer_def)
  ultimately show ?thesis using that x(1,2) r by auto
qed

text \<open>Without TLS the expected node is not passed on, so the chaos profile rewrites no endpoint of this client.\<close>

lemma plain_exchange_never_rewritten:
  "\<not> cp_tls c \<Longrightarrow> resolve_peer_endpoint (cp_environ c) (expected_peer c node_id) host port = Inr (host, port)"
  by (simp add: expected_peer_def resolve_peer_endpoint_def)

section \<open>Forwarding\<close>

text \<open>A breaker that refuses the call leaves the network alone.\<close>

lemma guarded_exchange_open:
  assumes "before_call b now_begin = (Inl e, b')"
  shows "guarded_exchange b now_begin now_end operation p = (Inl e, b', p)"
  using assms by (simp add: guarded_exchange_def)

lemma guarded_exchange_call:
  "guarded_exchange b now_begin now_end operation p = (r, b', p') \<Longrightarrow>
     (\<exists>e. before_call b now_begin = (Inl e, b') \<and> r = Inl e \<and> p' = p) \<or>
     (operation p = (r, p') \<and> breaker_call b now_begin now_end r = (r, b'))"
  by (cases "operation p"; cases "before_call b now_begin")
    (auto simp: guarded_exchange_def breaker_call_def Let_def split: sum.splits)

text \<open>The failures of the retried attempts reach the router as one of the classes it knows.\<close>

lemma forward_failure_class:
  assumes "is_transport e"
  shows "exn_cls (forward_failure peer e) \<in> {CircuitOpenError, DeadlineExceeded, PeerTransportError}"
  using assms by (auto simp: forward_failure_def)

lemma forward_failure_other: "\<not> is_transport e \<Longrightarrow> forward_failure peer e = e"
  by (auto simp: forward_failure_def is_transport_def)

lemma forward_failure_fails_over:
  assumes "is_transport e" "exn_cls e \<noteq> DeadlineExceeded" "cm_node peer \<noteq> local_node_id"
  shows "fails_over local_node_id peer (forward_failure peer e)"
  using assms by (auto simp: forward_failure_def fails_over_def)

lemma retry_attempts_bound:
  assumes "1 \<le> rp_max_attempts policy" "\<And>i cap. 0 < cap \<Longrightarrow> ft_random ft i cap \<le> cap"
    and "retry_attempts policy deadline ft attempt s = (r, s', n)"
  shows "int n \<le> rp_max_attempts policy" "s' = after_attempts attempt s n"
    and "(\<exists>m. r = raise DeadlineExceeded m) \<or> 0 < n \<and> attempt (n - 1) (after_attempts attempt s (n - 1)) = (r, s')"
proof -
  let ?env = "\<lparr>re_before = ft_before ft, re_operation = \<lambda>i. fst (attempt i (after_attempts attempt s i)),
         re_random = ft_random ft, re_after = ft_after ft\<rparr>"
  obtain ds where run: "retry_loop policy retryable_forward (Some deadline) ?env 0 (nat (rp_max_attempts policy)) = (r, ds, n)"
    and s': "s' = after_attempts attempt s n"
    using assms(3) by (auto simp: retry_attempts_def retry_async_def Let_def split: prod.splits)
  show "s' = after_attempts attempt s n" by (rule s')
  have "rp_max_attempts policy = int (0 + nat (rp_max_attempts policy))" "0 < nat (rp_max_attempts policy)"
    using assms(1) by simp_all
  note spec = retry_loop_spec [OF _ this run]
  then have b: "n \<le> nat (rp_max_attempts policy)"
    "0 < n \<and> r = fst (attempt (n - 1) (after_attempts attempt s (n - 1))) \<or> (\<exists>m. r = raise DeadlineExceeded m)"
    using assms(2) by auto
  then show "int n \<le> rp_max_attempts policy" using assms(1) by linarith
  show "(\<exists>m. r = raise DeadlineExceeded m) \<or> 0 < n \<and> attempt (n - 1) (after_attempts attempt s (n - 1)) = (r, s')"
    using b(2) s' by (cases n) (auto simp: prod_eq_iff)
qed

text \<open>
  What forwarding gives: at most as many attempts as the policy allows, and the result of the
  last one, or that the deadline has passed.
\<close>

lemma forward_task_outcome:
  assumes attempts: "1 \<le> rp_max_attempts (cp_retry_policy c)" and random: "\<And>i cap. 0 < cap \<Longrightarrow> ft_random ft i cap \<le> cap"
    and run: "forward_task co c peer task correlation_id deadline ft (breakers, p) = (r, breakers', p')"
    and breaker: "breaker_for c breakers (cm_node peer) = (Inr b, breakers1)"
  obtains n b' where "int n \<le> rp_max_attempts (cp_retry_policy c)"
    "after_attempts (forward_attempt co c peer task correlation_id deadline ft) (b, p) n = (b', p')"
    "breakers' = AList.update (cm_node peer) b' breakers1"
    "(\<exists>m. r = raise DeadlineExceeded m) \<or>
     0 < n \<and> r = (case fst (forward_attempt co c peer task correlation_id deadline ft (n - 1)
                        (after_attempts (forward_attempt co c peer task correlation_id deadline ft) (b, p) (n - 1))) of
                   Inl e \<Rightarrow> Inl (forward_failure peer e) | Inr response \<Rightarrow> forward_result co response)"
proof -
  let ?attempt = "forward_attempt co c peer task correlation_id deadline ft"
  obtain q b' p1 n where q: "retry_attempts (cp_retry_policy c) deadline ft ?attempt (b, p) = (q, (b', p1), n)"
    by (cases "retry_attempts (cp_retry_policy c) deadline ft ?attempt (b, p)") auto
  then have r: "r = (case q of Inl e \<Rightarrow> Inl (forward_failure peer e) | Inr response \<Rightarrow> forward_result co response)"
    and "breakers' = AList.update (cm_node peer) b' breakers1" "p1 = p'"
    using run breaker by (simp_all add: forward_task_def)
  moreover note bound = retry_attempts_bound [OF attempts random q]
  moreover have "(\<exists>m. r = raise DeadlineExceeded m) \<or>
      0 < n \<and> r = (case fst (?attempt (n - 1) (after_attempts ?attempt (b, p) (n - 1))) of
                   Inl e \<Rightarrow> Inl (forward_failure peer e) | Inr response \<Rightarrow> forward_result co response)"
    using bound(3) r by (auto simp: forward_failure_def)
  ultimately show ?thesis using that by metis
qed

text \<open>A result of a forwarded task is one that the peer sent in answer to this very task.\<close>

lemma forward_attempt_accepts:
  assumes "forward_attempt co c peer task correlation_id deadline ft i (b, p) = (Inr response, b', p')"
    and "correlation_id \<noteq> []"
  shows "msg_correlation_id response = correlation_id"
    and "cp_tls c \<Longrightarrow> \<exists>cert p1. tr_peercert (cp_transport c) p1 = Some cert \<and> cm_node peer \<in> dns_sans cert"
proof -
  obtain payload where g: "guarded_exchange b (ft_begin ft i) (ft_end ft i)
       (\<lambda>p. exchange_endpoint c p (cm_host peer) (cm_port peer)
              (let (fresh_uuid, now_ms) = cp_fresh c p
               in new_request fresh_uuid now_ms (cp_node_id c) payload (Some correlation_id) 8 FORWARDED_REQUEST [] [])
              (remaining deadline (ft_timeout ft i)) (expected_peer c (Some (cm_node peer)))) p = (Inr response, b', p')"
    using assms(1) by (auto simp: forward_attempt_def Let_def split: if_splits sum.splits)
  then have x: "exchange_endpoint c p (cm_host peer) (cm_port peer)
              (let (fresh_uuid, now_ms) = cp_fresh c p
               in new_request fresh_uuid now_ms (cp_node_id c) payload (Some correlation_id) 8 FORWARDED_REQUEST [] [])
              (remaining deadline (ft_timeout ft i)) (expected_peer c (Some (cm_node peer))) = (Inr response, p')"
    using guarded_exchange_call by fastforce
  show "msg_correlation_id response = correlation_id"
    using exchange_endpoint_accepts(2) [OF x] assms(2) by (simp add: new_request_def case_prod_unfold Let_def)
  show "\<exists>cert p1. tr_peercert (cp_transport c) p1 = Some cert \<and> cm_node peer \<in> dns_sans cert" if "cp_tls c"
    using exchange_endpoint_accepts(3) [OF x that] that by (auto simp: expected_peer_def)
qed

text \<open>An open circuit keeps a forwarded task from the network until the recovery time has passed.\<close>

definition circuit_open_during :: "CircuitBreaker \<Rightarrow> forward_times \<Rightarrow> bool" where
  "circuit_open_during b ft \<longleftrightarrow>
     cb_state b = OPEN \<and> (\<exists>t. cb_opened_at b = Some t \<and> (\<forall>i. ft_begin ft i - t < cb_recovery b))"

lemma forward_attempt_open:
  assumes "circuit_open_during b ft"
  shows "snd (forward_attempt co c peer task correlation_id deadline ft i (b, p)) = (b, p)"
    and "isl (fst (forward_attempt co c peer task correlation_id deadline ft i (b, p)))"
proof -
  obtain t where "cb_state b = OPEN" "cb_opened_at b = Some t" "\<not> cb_recovery b \<le> ft_begin ft i - t"
    using assms by (auto simp: circuit_open_during_def not_le)
  then have "before_call b (ft_begin ft i) = (raise CircuitOpenError ''circuit breaker is open'', b)"
    by (simp add: before_call_def Let_def)
  note closed = guarded_exchange_open [OF this]
  show "snd (forward_attempt co c peer task correlation_id deadline ft i (b, p)) = (b, p)"
    "isl (fst (forward_attempt co c peer task correlation_id deadline ft i (b, p)))"
    by (auto simp: forward_attempt_def Let_def closed split: sum.split)
qed

lemma after_attempts_open:
  assumes "circuit_open_during b ft"
  shows "after_attempts (forward_attempt co c peer task correlation_id deadline ft) (b, p) n = (b, p)"
  by (induction n) (simp_all add: forward_attempt_open [OF assms])

lemma forward_task_open:
  assumes "map_of breakers (cm_node peer) = Some b" "circuit_open_during b ft"
  shows "\<exists>e. forward_task co c peer task correlation_id deadline ft (breakers, p) = (Inl e, AList.update (cm_node peer) b breakers, p)"
proof -
  let ?attempt = "forward_attempt co c peer task correlation_id deadline ft"
  obtain q s n where q: "retry_attempts (cp_retry_policy c) deadline ft ?attempt (b, p) = (q, s, n)"
    by (cases "retry_attempts (cp_retry_policy c) deadline ft ?attempt (b, p)")
  then have s: "s = (b, p)"
    by (auto simp: retry_attempts_def after_attempts_open [OF assms(2)] Let_def split: prod.splits)
  have "\<exists>e. q = Inl e"
  proof (cases q)
    case (Inr response)
    have "\<exists>i. re_operation env i = Inr v" if "retry_loop policy f d env i left = (Inr v, ds, k)" for policy f d env i left v ds k
      using that by (induction left arbitrary: i ds k) (auto simp: Let_def split: if_splits sum.splits prod.splits option.splits)
    from this [of "cp_retry_policy c" retryable_forward "Some deadline"] q Inr obtain i where
      "fst (?attempt i (after_attempts ?attempt (b, p) i)) = Inr response"
      by (fastforce simp: retry_attempts_def retry_async_def Let_def split: prod.splits)
    then show ?thesis using forward_attempt_open(2) [OF assms(2), of co c peer task correlation_id deadline i p]
      by (simp add: after_attempts_open [OF assms(2)])
  qed simp
  then show ?thesis using assms(1) q s by (auto simp: forward_task_def breaker_for_def)
qed

end
