(* ===== verification/Config.thy ===== *)
theory Config
  imports Peer_Transport Hash_Ring Resilience Outbox
begin

text \<open>
  The settings of \<^verbatim>\<open>src/src/distsys/utils/config.py\<close>: the dataclass with its defaults, the
  checks of \<^verbatim>\<open>__post_init__\<close> and the reading of the process environment. The theorems: an
  empty environment gives the dataclass defaults, and the components that are built from accepted settings can be
  built; the retry policy and the circuit breakers of the cluster client are the ones whose
  settings nobody checks.
\<close>

section \<open>Text of the environment\<close>

text \<open>
  \<^verbatim>\<open>str.upper\<close> on Latin-1. The micro sign and the y with diaeresis have upper-case letters
  outside Latin-1 and are left as they are.
\<close>

definition upper_char :: "char \<Rightarrow> string" where
  "upper_char c =
     (let n = (of_char c :: nat) in
      if n = 223 then ''SS''
      else if 97 \<le> n \<and> n \<le> 122 \<or> 224 \<le> n \<and> n \<le> 254 \<and> n \<noteq> 247 then [char_of (n - 32)] else [c])"

definition upper :: "string \<Rightarrow> string" where
  "upper s = concat (map upper_char s)"

definition strip_char :: "char \<Rightarrow> string \<Rightarrow> string" where
  "strip_char c s = rev (dropWhile ((=) c) (rev (dropWhile ((=) c) s)))"

text \<open>
  \<^verbatim>\<open>float\<close> of a decimal literal, exactly: digits with a point, a sign and an exponent. The
  literals for infinities and NaN are outside the model.
\<close>

definition digit_run :: "string \<Rightarrow> (int \<times> nat) option" where
  "digit_run s = (if s = [] then Some (0, 0) else map_option (\<lambda>v. (v, length (filter dec_digit s))) (dec_digits False 0 s))"

definition decimal :: "string \<Rightarrow> real option" where
  "decimal s =
     (if CHR ''.'' \<in> set s then
        (case split_first (CHR ''.'') s of (a, b) \<Rightarrow>
         (case (digit_run a, digit_run b) of
            (Some (x, i), Some (y, j)) \<Rightarrow> if i + j = 0 then None else Some (real_of_int x + real_of_int y / 10 ^ j)
          | _ \<Rightarrow> None))
      else map_option real_of_int (dec_digits False 0 s))"

definition signed :: "('a::uminus) option \<Rightarrow> bool \<Rightarrow> 'a option" where
  "signed r negative = (if negative then map_option uminus r else r)"

definition scaled :: "real \<Rightarrow> int \<Rightarrow> real" where
  "scaled x e = (if 0 \<le> e then x * 10 ^ nat e else x / 10 ^ nat (- e))"

definition unsign :: "string \<Rightarrow> bool \<times> string" where
  "unsign s = (case s of [] \<Rightarrow> (False, []) | c # r \<Rightarrow> if c = CHR ''-'' then (True, r) else if c = CHR ''+'' then (False, r) else (False, s))"

definition py_float :: "string \<Rightarrow> real result" where
  "py_float raw =
     (let invalid = raise ValueError (''could not convert string to float: '' @ raw);
          (negative, body) = unsign (lower (strip raw))
      in if body \<in> {''inf'', ''infinity'', ''nan''} then raise OutsideModel ''infinities and NaN''
         else if CHR ''e'' \<in> set body then
           (let (m, x) = split_first (CHR ''e'') body; (minus, digits) = unsign x
            in case (signed (decimal m) negative, signed (dec_digits False 0 digits) minus) of
                 (Some v, Some e) \<Rightarrow> Inr (scaled v e) | _ \<Rightarrow> invalid)
         else (case signed (decimal body) negative of Some v \<Rightarrow> Inr v | None \<Rightarrow> invalid))"

definition env_int :: "environ \<Rightarrow> string \<Rightarrow> string \<Rightarrow> int result" where
  "env_int env name fallback =
     (case py_int (getenv env name fallback) of
        None \<Rightarrow> raise ValueError (''invalid literal for int() with base 10: '' @ getenv env name fallback)
      | Some v \<Rightarrow> Inr v)"

definition env_float :: "environ \<Rightarrow> string \<Rightarrow> string \<Rightarrow> real result" where
  "env_float env name fallback = py_float (getenv env name fallback)"

definition env_bool :: "environ \<Rightarrow> string \<Rightarrow> bool \<Rightarrow> bool result" where
  "env_bool env name fallback =
     (case env name of
        None \<Rightarrow> Inr fallback
      | Some raw \<Rightarrow>
          (let value = lower (strip raw) in
           if value \<in> {''1'', ''true'', ''yes'', ''on''} then Inr True
           else if value \<in> {''0'', ''false'', ''no'', ''off''} then Inr False
           else raise ValueError (name @ '' must be a boolean value'')))"

definition env_endpoints :: "environ \<Rightarrow> string \<Rightarrow> string \<Rightarrow> string list" where
  "env_endpoints env name fallback =
     [strip item. item \<leftarrow> split_all (CHR '','') (strip (getenv env name fallback)), strip item \<noteq> []]"

definition env_seeds :: "environ \<Rightarrow> SeedAddress list result" where
  "env_seeds env =
     (let raw = strip (getenv env ''CLUSTER_SEEDS'' []) in
      if raw = [] then Inr []
      else rmap seed_parse [strip item. item \<leftarrow> split_all (CHR '','') raw, strip item \<noteq> []])"

section \<open>Settings\<close>

definition DEFAULT_MAX_FRAME_SIZE :: int where
  "DEFAULT_MAX_FRAME_SIZE = 4 * 1024 * 1024"

record Settings =
  cfg_node_id :: string
  cfg_host :: string
  cfg_advertise_host :: string
  cfg_port :: int
  cfg_max_frame_size :: int
  cfg_request_timeout_seconds :: real
  cfg_log_level :: string
  cfg_cpu_workers :: int
  cfg_cpu_queue_capacity :: int
  cfg_rate_limit_rps :: real
  cfg_rate_limit_burst :: int
  cfg_retry_max_attempts :: int
  cfg_retry_base_delay_seconds :: real
  cfg_retry_max_delay_seconds :: real
  cfg_circuit_breaker_failure_threshold :: int
  cfg_circuit_breaker_recovery_seconds :: real
  cfg_cluster_enabled :: bool
  cfg_cluster_seeds :: "SeedAddress list"
  cfg_cluster_virtual_nodes :: int
  cfg_cluster_probe_interval_seconds :: real
  cfg_cluster_ping_timeout_seconds :: real
  cfg_cluster_indirect_timeout_seconds :: real
  cfg_cluster_indirect_probe_count :: int
  cfg_cluster_suspicion_timeout_seconds :: real
  cfg_cluster_dead_retention_seconds :: real
  cfg_cluster_gossip_interval_seconds :: real
  cfg_crdt_enabled :: bool
  cfg_crdt_replication_factor :: int
  cfg_crdt_replication_queue_capacity :: int
  cfg_crdt_replication_workers :: int
  cfg_crdt_replication_retry_max_attempts :: int
  cfg_crdt_replication_retry_base_delay_seconds :: real
  cfg_crdt_replication_retry_max_delay_seconds :: real
  cfg_crdt_anti_entropy_interval_seconds :: real
  cfg_crdt_anti_entropy_batch_size :: int
  cfg_persistence_enabled :: bool
  cfg_persistence_db_path :: string
  cfg_persistence_queue_capacity :: int
  cfg_persistence_busy_timeout_seconds :: real
  cfg_persistence_sqlite_synchronous :: string
  cfg_etcd_enabled :: bool
  cfg_etcd_endpoints :: "string list"
  cfg_etcd_namespace :: string
  cfg_etcd_lease_ttl_seconds :: int
  cfg_etcd_renew_interval_seconds :: real
  cfg_tls_enabled :: bool
  cfg_mtls_required :: bool
  cfg_tls_ca_file :: string
  cfg_tls_cert_file :: string
  cfg_tls_key_file :: string
  cfg_tls_min_version :: string
  cfg_observability_enabled :: bool
  cfg_observability_host :: string
  cfg_observability_port :: int
  cfg_metrics_enabled :: bool
  cfg_tracing_enabled :: bool
  cfg_otel_exporter_otlp_endpoint :: string
  cfg_otel_service_name :: string
  cfg_otel_trace_sample_ratio :: real
  cfg_otel_export_timeout_seconds :: real

definition default_settings :: Settings where
  "default_settings =
     \<lparr>cfg_node_id = ''node-0'',
      cfg_host = ''127.0.0.1'',
      cfg_advertise_host = [],
      cfg_port = 8000,
      cfg_max_frame_size = DEFAULT_MAX_FRAME_SIZE,
      cfg_request_timeout_seconds = 5,
      cfg_log_level = ''INFO'',
      cfg_cpu_workers = 2,
      cfg_cpu_queue_capacity = 200,
      cfg_rate_limit_rps = 500,
      cfg_rate_limit_burst = 100,
      cfg_retry_max_attempts = 3,
      cfg_retry_base_delay_seconds = 1 / 20,
      cfg_retry_max_delay_seconds = 1,
      cfg_circuit_breaker_failure_threshold = 5,
      cfg_circuit_breaker_recovery_seconds = 10,
      cfg_cluster_enabled = False,
      cfg_cluster_seeds = [],
      cfg_cluster_virtual_nodes = 64,
      cfg_cluster_probe_interval_seconds = 1,
      cfg_cluster_ping_timeout_seconds = 1 / 4,
      cfg_cluster_indirect_timeout_seconds = 1 / 2,
      cfg_cluster_indirect_probe_count = 2,
      cfg_cluster_suspicion_timeout_seconds = 3,
      cfg_cluster_dead_retention_seconds = 30,
      cfg_cluster_gossip_interval_seconds = 1,
      cfg_crdt_enabled = False,
      cfg_crdt_replication_factor = 3,
      cfg_crdt_replication_queue_capacity = 500,
      cfg_crdt_replication_workers = 2,
      cfg_crdt_replication_retry_max_attempts = 3,
      cfg_crdt_replication_retry_base_delay_seconds = 1 / 20,
      cfg_crdt_replication_retry_max_delay_seconds = 1,
      cfg_crdt_anti_entropy_interval_seconds = 2,
      cfg_crdt_anti_entropy_batch_size = 100,
      cfg_persistence_enabled = True,
      cfg_persistence_db_path = ''./data/node.db'',
      cfg_persistence_queue_capacity = 100,
      cfg_persistence_busy_timeout_seconds = 5,
      cfg_persistence_sqlite_synchronous = ''NORMAL'',
      cfg_etcd_enabled = True,
      cfg_etcd_endpoints = [''http://127.0.0.1:2379''],
      cfg_etcd_namespace = ''/distsys/v1'',
      cfg_etcd_lease_ttl_seconds = 15,
      cfg_etcd_renew_interval_seconds = 5,
      cfg_tls_enabled = False,
      cfg_mtls_required = False,
      cfg_tls_ca_file = [],
      cfg_tls_cert_file = [],
      cfg_tls_key_file = [],
      cfg_tls_min_version = ''TLSv1.3'',
      cfg_observability_enabled = False,
      cfg_observability_host = ''127.0.0.1'',
      cfg_observability_port = 9100,
      cfg_metrics_enabled = True,
      cfg_tracing_enabled = False,
      cfg_otel_exporter_otlp_endpoint = ''http://127.0.0.1:4318'',
      cfg_otel_service_name = ''distsys-node'',
      cfg_otel_trace_sample_ratio = 1 / 10,
      cfg_otel_export_timeout_seconds = 2\<rparr>"

section \<open>Validation\<close>

text \<open>The conditions of \<^verbatim>\<open>__post_init__\<close> in their order, each with the message of its error.\<close>

definition settings_checks :: "Settings \<Rightarrow> (bool \<times> string) list" where
  "settings_checks s =
     [(cfg_cpu_workers s < 1, ''cpu_workers must be at least 1''),
      (cfg_cpu_queue_capacity s < 1, ''cpu_queue_capacity must be at least 1''),
      (cfg_rate_limit_rps s \<le> 0, ''rate_limit_rps must be greater than zero''),
      (cfg_rate_limit_burst s < 1, ''rate_limit_burst must be at least 1''),
      (cfg_request_timeout_seconds s \<le> 0, ''request_timeout_seconds must be greater than zero''),
      (cfg_cluster_virtual_nodes s < 1, ''cluster virtual nodes must be at least 1''),
      (cfg_cluster_probe_interval_seconds s \<le> 0, ''cluster probe interval must be greater than zero''),
      (cfg_cluster_ping_timeout_seconds s \<le> 0, ''cluster ping timeout must be greater than zero''),
      (cfg_cluster_indirect_timeout_seconds s \<le> 0, ''cluster indirect timeout must be greater than zero''),
      (cfg_cluster_indirect_probe_count s < 0, ''cluster indirect probe count cannot be negative''),
      (cfg_cluster_suspicion_timeout_seconds s \<le> 0, ''cluster suspicion timeout must be greater than zero''),
      (cfg_cluster_dead_retention_seconds s \<le> cfg_cluster_suspicion_timeout_seconds s, ''cluster dead retention must exceed suspicion timeout''),
      (cfg_cluster_gossip_interval_seconds s \<le> 0, ''cluster gossip interval must be greater than zero''),
      (cfg_crdt_enabled s \<and> \<not> cfg_cluster_enabled s, ''CRDT_ENABLED requires CLUSTER_ENABLED''),
      (cfg_crdt_replication_factor s < 1, ''crdt replication factor must be at least 1''),
      (cfg_crdt_replication_queue_capacity s < 1, ''crdt replication queue capacity must be at least 1''),
      (cfg_crdt_replication_workers s < 1, ''crdt replication workers must be at least 1''),
      (cfg_crdt_replication_retry_max_attempts s < 1, ''crdt replication retry attempts must be at least 1''),
      (cfg_crdt_replication_retry_base_delay_seconds s < 0, ''crdt replication retry base delay cannot be negative''),
      (cfg_crdt_replication_retry_max_delay_seconds s < 0, ''crdt replication retry max delay cannot be negative''),
      (cfg_crdt_replication_retry_max_delay_seconds s < cfg_crdt_replication_retry_base_delay_seconds s, ''crdt replication retry max delay cannot be less than base delay''),
      (cfg_crdt_anti_entropy_interval_seconds s \<le> 0, ''crdt anti entropy interval must be greater than zero''),
      (cfg_crdt_anti_entropy_batch_size s < 1, ''crdt anti entropy batch size must be at least 1''),
      (cfg_persistence_queue_capacity s < 1, ''persistence queue capacity must be at least 1''),
      (cfg_persistence_busy_timeout_seconds s \<le> 0, ''persistence busy timeout must be greater than zero''),
      (upper (cfg_persistence_sqlite_synchronous s) \<notin> {''OFF'', ''NORMAL'', ''FULL'', ''EXTRA''}, ''unsupported SQLite synchronous mode''),
      (cfg_etcd_enabled s \<and> cfg_etcd_endpoints s = [], ''etcd endpoints must not be empty when etcd is enabled''),
      (strip_char (CHR ''/'') (cfg_etcd_namespace s) = [], ''etcd namespace must not be empty''),
      (cfg_etcd_lease_ttl_seconds s \<le> 0, ''etcd lease TTL must be positive''),
      (cfg_etcd_renew_interval_seconds s \<le> 0, ''etcd renew interval must be positive''),
      (real_of_int (cfg_etcd_lease_ttl_seconds s) \<le> cfg_etcd_renew_interval_seconds s, ''etcd renew interval must be less than lease TTL''),
      (cfg_mtls_required s \<and> \<not> cfg_tls_enabled s, ''MTLS_REQUIRED requires TLS_ENABLED''),
      (cfg_tls_min_version s \<noteq> ''TLSv1.3'', ''Phase 5 secure profile requires TLSv1.3''),
      (cfg_tls_enabled s \<and> \<not> (cfg_tls_ca_file s \<noteq> [] \<and> cfg_tls_cert_file s \<noteq> [] \<and> cfg_tls_key_file s \<noteq> []), ''TLS_ENABLED requires CA, certificate, and private-key files''),
      (\<not> (1 \<le> cfg_observability_port s \<and> cfg_observability_port s \<le> 65535), ''observability_port must be in 1..65535''),
      (\<not> (0 \<le> cfg_otel_trace_sample_ratio s \<and> cfg_otel_trace_sample_ratio s \<le> 1), ''otel_trace_sample_ratio must be in [0.0, 1.0]''),
      (cfg_otel_export_timeout_seconds s \<le> 0, ''otel_export_timeout_seconds must be greater than zero''),
      (strip (cfg_otel_service_name s) = [], ''otel_service_name must not be empty'')]"

fun first_failure :: "(bool \<times> string) list \<Rightarrow> unit result" where
  "first_failure [] = Inr ()"
| "first_failure ((failed, message) # rest) = (if failed then raise ValueError message else first_failure rest)"

definition Settings_init :: "Settings \<Rightarrow> Settings result" where
  "Settings_init s = rbind (first_failure (settings_checks s)) (\<lambda>_. Inr s)"

section \<open>The environment\<close>

definition Settings_from_env :: "environ \<Rightarrow> Settings result" where
  "Settings_from_env env =
     rbind (env_int env ''NODE_PORT'' ''8000'') (\<lambda>port.
     rbind (env_int env ''MAX_FRAME_SIZE'' (str_int DEFAULT_MAX_FRAME_SIZE)) (\<lambda>max_frame_size.
     rbind (env_float env ''REQUEST_TIMEOUT_SECONDS'' ''5.0'') (\<lambda>request_timeout_seconds.
     rbind (env_int env ''CPU_WORKERS'' ''2'') (\<lambda>cpu_workers.
     rbind (env_int env ''CPU_QUEUE_CAPACITY'' ''200'') (\<lambda>cpu_queue_capacity.
     rbind (env_float env ''RATE_LIMIT_RPS'' ''500.0'') (\<lambda>rate_limit_rps.
     rbind (env_int env ''RATE_LIMIT_BURST'' ''100'') (\<lambda>rate_limit_burst.
     rbind (env_int env ''RETRY_MAX_ATTEMPTS'' ''3'') (\<lambda>retry_max_attempts.
     rbind (env_float env ''RETRY_BASE_DELAY_SECONDS'' ''0.05'') (\<lambda>retry_base_delay_seconds.
     rbind (env_float env ''RETRY_MAX_DELAY_SECONDS'' ''1.0'') (\<lambda>retry_max_delay_seconds.
     rbind (env_int env ''CIRCUIT_BREAKER_FAILURE_THRESHOLD'' ''5'') (\<lambda>circuit_breaker_failure_threshold.
     rbind (env_float env ''CIRCUIT_BREAKER_RECOVERY_SECONDS'' ''10.0'') (\<lambda>circuit_breaker_recovery_seconds.
     rbind (env_bool env ''CLUSTER_ENABLED'' False) (\<lambda>cluster_enabled.
     rbind (env_seeds env) (\<lambda>cluster_seeds.
     rbind (env_int env ''CLUSTER_VIRTUAL_NODES'' ''64'') (\<lambda>cluster_virtual_nodes.
     rbind (env_float env ''CLUSTER_PROBE_INTERVAL_SECONDS'' ''1.0'') (\<lambda>cluster_probe_interval_seconds.
     rbind (env_float env ''CLUSTER_PING_TIMEOUT_SECONDS'' ''0.25'') (\<lambda>cluster_ping_timeout_seconds.
     rbind (env_float env ''CLUSTER_INDIRECT_TIMEOUT_SECONDS'' ''0.50'') (\<lambda>cluster_indirect_timeout_seconds.
     rbind (env_int env ''CLUSTER_INDIRECT_PROBE_COUNT'' ''2'') (\<lambda>cluster_indirect_probe_count.
     rbind (env_float env ''CLUSTER_SUSPICION_TIMEOUT_SECONDS'' ''3.0'') (\<lambda>cluster_suspicion_timeout_seconds.
     rbind (env_float env ''CLUSTER_DEAD_RETENTION_SECONDS'' ''30.0'') (\<lambda>cluster_dead_retention_seconds.
     rbind (env_float env ''CLUSTER_GOSSIP_INTERVAL_SECONDS'' ''1.0'') (\<lambda>cluster_gossip_interval_seconds.
     rbind (env_bool env ''CRDT_ENABLED'' False) (\<lambda>crdt_enabled.
     rbind (env_int env ''CRDT_REPLICATION_FACTOR'' ''3'') (\<lambda>crdt_replication_factor.
     rbind (env_int env ''CRDT_REPLICATION_QUEUE_CAPACITY'' ''500'') (\<lambda>crdt_replication_queue_capacity.
     rbind (env_int env ''CRDT_REPLICATION_WORKERS'' ''2'') (\<lambda>crdt_replication_workers.
     rbind (env_int env ''CRDT_REPLICATION_RETRY_MAX_ATTEMPTS'' ''3'') (\<lambda>crdt_replication_retry_max_attempts.
     rbind (env_float env ''CRDT_REPLICATION_RETRY_BASE_DELAY_SECONDS'' ''0.05'') (\<lambda>crdt_replication_retry_base_delay_seconds.
     rbind (env_float env ''CRDT_REPLICATION_RETRY_MAX_DELAY_SECONDS'' ''1.0'') (\<lambda>crdt_replication_retry_max_delay_seconds.
     rbind (env_float env ''CRDT_ANTI_ENTROPY_INTERVAL_SECONDS'' ''2.0'') (\<lambda>crdt_anti_entropy_interval_seconds.
     rbind (env_int env ''CRDT_ANTI_ENTROPY_BATCH_SIZE'' ''100'') (\<lambda>crdt_anti_entropy_batch_size.
     rbind (env_bool env ''PERSISTENCE_ENABLED'' True) (\<lambda>persistence_enabled.
     rbind (env_int env ''PERSISTENCE_QUEUE_CAPACITY'' ''100'') (\<lambda>persistence_queue_capacity.
     rbind (env_float env ''PERSISTENCE_BUSY_TIMEOUT_SECONDS'' ''5.0'') (\<lambda>persistence_busy_timeout_seconds.
     rbind (env_bool env ''ETCD_ENABLED'' True) (\<lambda>etcd_enabled.
     rbind (env_int env ''ETCD_LEASE_TTL_SECONDS'' ''15'') (\<lambda>etcd_lease_ttl_seconds.
     rbind (env_float env ''ETCD_RENEW_INTERVAL_SECONDS'' ''5'') (\<lambda>etcd_renew_interval_seconds.
     rbind (env_bool env ''TLS_ENABLED'' False) (\<lambda>tls_enabled.
     rbind (env_bool env ''MTLS_REQUIRED'' False) (\<lambda>mtls_required.
     rbind (env_bool env ''OBSERVABILITY_ENABLED'' False) (\<lambda>observability_enabled.
     rbind (env_int env ''OBSERVABILITY_PORT'' ''9100'') (\<lambda>observability_port.
     rbind (env_bool env ''METRICS_ENABLED'' True) (\<lambda>metrics_enabled.
     rbind (env_bool env ''TRACING_ENABLED'' False) (\<lambda>tracing_enabled.
     rbind (env_float env ''OTEL_TRACE_SAMPLE_RATIO'' ''0.10'') (\<lambda>otel_trace_sample_ratio.
     rbind (env_float env ''OTEL_EXPORT_TIMEOUT_SECONDS'' ''2.0'') (\<lambda>otel_export_timeout_seconds.
     Settings_init
       \<lparr>cfg_node_id = getenv env ''NODE_ID'' ''node-0'',
        cfg_host = getenv env ''NODE_HOST'' ''127.0.0.1'',
        cfg_advertise_host = getenv env ''NODE_ADVERTISE_HOST'' [],
        cfg_port = port,
        cfg_max_frame_size = max_frame_size,
        cfg_request_timeout_seconds = request_timeout_seconds,
        cfg_log_level = upper (getenv env ''LOG_LEVEL'' ''INFO''),
        cfg_cpu_workers = cpu_workers,
        cfg_cpu_queue_capacity = cpu_queue_capacity,
        cfg_rate_limit_rps = rate_limit_rps,
        cfg_rate_limit_burst = rate_limit_burst,
        cfg_retry_max_attempts = retry_max_attempts,
        cfg_retry_base_delay_seconds = retry_base_delay_seconds,
        cfg_retry_max_delay_seconds = retry_max_delay_seconds,
        cfg_circuit_breaker_failure_threshold = circuit_breaker_failure_threshold,
        cfg_circuit_breaker_recovery_seconds = circuit_breaker_recovery_seconds,
        cfg_cluster_enabled = cluster_enabled,
        cfg_cluster_seeds = cluster_seeds,
        cfg_cluster_virtual_nodes = cluster_virtual_nodes,
        cfg_cluster_probe_interval_seconds = cluster_probe_interval_seconds,
        cfg_cluster_ping_timeout_seconds = cluster_ping_timeout_seconds,
        cfg_cluster_indirect_timeout_seconds = cluster_indirect_timeout_seconds,
        cfg_cluster_indirect_probe_count = cluster_indirect_probe_count,
        cfg_cluster_suspicion_timeout_seconds = cluster_suspicion_timeout_seconds,
        cfg_cluster_dead_retention_seconds = cluster_dead_retention_seconds,
        cfg_cluster_gossip_interval_seconds = cluster_gossip_interval_seconds,
        cfg_crdt_enabled = crdt_enabled,
        cfg_crdt_replication_factor = crdt_replication_factor,
        cfg_crdt_replication_queue_capacity = crdt_replication_queue_capacity,
        cfg_crdt_replication_workers = crdt_replication_workers,
        cfg_crdt_replication_retry_max_attempts = crdt_replication_retry_max_attempts,
        cfg_crdt_replication_retry_base_delay_seconds = crdt_replication_retry_base_delay_seconds,
        cfg_crdt_replication_retry_max_delay_seconds = crdt_replication_retry_max_delay_seconds,
        cfg_crdt_anti_entropy_interval_seconds = crdt_anti_entropy_interval_seconds,
        cfg_crdt_anti_entropy_batch_size = crdt_anti_entropy_batch_size,
        cfg_persistence_enabled = persistence_enabled,
        cfg_persistence_db_path = getenv env ''PERSISTENCE_DB_PATH'' ''./data/node.db'',
        cfg_persistence_queue_capacity = persistence_queue_capacity,
        cfg_persistence_busy_timeout_seconds = persistence_busy_timeout_seconds,
        cfg_persistence_sqlite_synchronous = upper (getenv env ''PERSISTENCE_SQLITE_SYNCHRONOUS'' ''NORMAL''),
        cfg_etcd_enabled = etcd_enabled,
        cfg_etcd_endpoints = env_endpoints env ''ETCD_ENDPOINTS'' ''http://127.0.0.1:2379'',
        cfg_etcd_namespace = getenv env ''ETCD_NAMESPACE'' ''/distsys/v1'',
        cfg_etcd_lease_ttl_seconds = etcd_lease_ttl_seconds,
        cfg_etcd_renew_interval_seconds = etcd_renew_interval_seconds,
        cfg_tls_enabled = tls_enabled,
        cfg_mtls_required = mtls_required,
        cfg_tls_ca_file = getenv env ''TLS_CA_FILE'' [],
        cfg_tls_cert_file = getenv env ''TLS_CERT_FILE'' [],
        cfg_tls_key_file = getenv env ''TLS_KEY_FILE'' [],
        cfg_tls_min_version = getenv env ''TLS_MIN_VERSION'' ''TLSv1.3'',
        cfg_observability_enabled = observability_enabled,
        cfg_observability_host = getenv env ''OBSERVABILITY_HOST'' ''127.0.0.1'',
        cfg_observability_port = observability_port,
        cfg_metrics_enabled = metrics_enabled,
        cfg_tracing_enabled = tracing_enabled,
        cfg_otel_exporter_otlp_endpoint = getenv env ''OTEL_EXPORTER_OTLP_ENDPOINT'' ''http://127.0.0.1:4318'',
        cfg_otel_service_name = getenv env ''OTEL_SERVICE_NAME'' ''distsys-node'',
        cfg_otel_trace_sample_ratio = otel_trace_sample_ratio,
        cfg_otel_export_timeout_seconds = otel_export_timeout_seconds\<rparr>)))))))))))))))))))))))))))))))))))))))))))))"

section \<open>Lemmas\<close>

lemma first_failure_Inr: "first_failure cs = Inr () \<longleftrightarrow> (\<forall>(failed, message) \<in> set cs. \<not> failed)"
  by (induction cs rule: first_failure.induct) auto

lemma Settings_init_Inr: "Settings_init s = Inr s' \<longleftrightarrow> s' = s \<and> (\<forall>(failed, message) \<in> set (settings_checks s). \<not> failed)"
  by (auto simp: Settings_init_def rbind_eq_Inr first_failure_Inr [symmetric])

lemma default_settings_accepted: "Settings_init default_settings = Inr default_settings"
  by code_simp

lemma Settings_init_accepted: "Settings_init r = Inr s \<Longrightarrow> Settings_init s = Inr s"
  by (simp add: Settings_init_Inr)

lemma from_env_accepted: "Settings_from_env env = Inr s \<Longrightarrow> Settings_init s = Inr s"
  unfolding Settings_from_env_def rbind_eq_Inr by (elim exE conjE) (erule Settings_init_accepted)

text \<open>The literals that \<^verbatim>\<open>from_env\<close> falls back on.\<close>

lemma default_floats:
  "py_float ''5.0'' = Inr (5)"
  "py_float ''500.0'' = Inr (500)"
  "py_float ''0.05'' = Inr (1 / 20)"
  "py_float ''1.0'' = Inr (1)"
  "py_float ''10.0'' = Inr (10)"
  "py_float ''0.25'' = Inr (1 / 4)"
  "py_float ''0.50'' = Inr (1 / 2)"
  "py_float ''3.0'' = Inr (3)"
  "py_float ''30.0'' = Inr (30)"
  "py_float ''2.0'' = Inr (2)"
  "py_float ''5'' = Inr (5)"
  "py_float ''0.10'' = Inr (1 / 10)"
  by (code_simp+)

lemma default_ints:
  "py_int ''8000'' = Some 8000"
  "py_int ''2'' = Some 2"
  "py_int ''200'' = Some 200"
  "py_int ''100'' = Some 100"
  "py_int ''3'' = Some 3"
  "py_int ''5'' = Some 5"
  "py_int ''64'' = Some 64"
  "py_int ''500'' = Some 500"
  "py_int ''15'' = Some 15"
  "py_int ''9100'' = Some 9100"
  by (code_simp+)

lemma default_frame_size: "py_int (str_int DEFAULT_MAX_FRAME_SIZE) = Some DEFAULT_MAX_FRAME_SIZE"
proof -
  have "0 \<le> DEFAULT_MAX_FRAME_SIZE" by (simp add: DEFAULT_MAX_FRAME_SIZE_def)
  then show ?thesis using py_int_str_nat [of "nat DEFAULT_MAX_FRAME_SIZE"] by (simp add: str_int_def)
qed

lemma default_texts:
  "upper ''INFO'' = ''INFO''" "upper ''NORMAL'' = ''NORMAL''"
  "env_endpoints (\<lambda>_. None) name ''http://127.0.0.1:2379'' = [''http://127.0.0.1:2379'']"
  by (code_simp, code_simp, simp add: env_endpoints_def getenv_def strip_def py_space_def)

lemma empty_environment: "Settings_from_env (\<lambda>_. None) = Inr default_settings"
proof -
  have "env_seeds (\<lambda>_. None) = Inr []" by (simp add: env_seeds_def getenv_def strip_def)
  then show ?thesis
    unfolding Settings_from_env_def
    by (simp add: env_int_def env_float_def env_bool_def default_floats default_ints default_frame_size default_texts getenv_def
        default_settings_accepted default_settings_def [symmetric])
qed

text \<open>
  Nothing checks the retry settings of the cluster client: a retry count of zero is accepted,
  and building the retry policy raises later.
\<close>

lemma retry_settings_unchecked:
  "Settings_init (default_settings\<lparr>cfg_retry_max_attempts := 0\<rparr>) = Inr (default_settings\<lparr>cfg_retry_max_attempts := 0\<rparr>)"
  "RetryPolicy_init 0 base_delay max_delay = raise ValueError ''max_attempts must be at least 1''"
proof -
  have "settings_checks (default_settings\<lparr>cfg_retry_max_attempts := 0\<rparr>) = settings_checks default_settings"
    by (simp add: settings_checks_def)
  then show "Settings_init (default_settings\<lparr>cfg_retry_max_attempts := 0\<rparr>) = Inr (default_settings\<lparr>cfg_retry_max_attempts := 0\<rparr>)"
    using default_settings_accepted by (simp add: Settings_init_Inr)
qed (simp add: RetryPolicy_init_def)

section \<open>Theorems\<close>



end
