(* ===== verification/Cluster_Control.thy ===== *)
theory Cluster_Control
  imports Cluster_Rpc Config
begin

text \<open>
  The control plane: \<^verbatim>\<open>src/src/distsys/cluster/service.py\<close> with the loops of \<^verbatim>\<open>gossip.py\<close> and
  \<^verbatim>\<open>failure_detector.py\<close>. No method of the membership table suspends while it holds the
  lock, so a task suspends only in its peer calls: the code between two of them is one
  step, and \<open>pe_others\<close> gives what the other tasks of the node did to the service during a
  call. The theorems: at every suspension the hash ring is the one of the members the
  table holds, whatever the peers send; a member that answers no probe is given up within
  the suspicion timeout; and the first answer that is cut short ends a loop for good.
\<close>

section \<open>State\<close>

record ClusterService =
  cs_settings :: Settings
  cs_seeds :: "SeedAddress list"
  cs_local_member :: ClusterMember
  cs_membership :: MembershipTable
  cs_ring :: ConsistentHashRing
  cs_ring_version :: int
  cs_background_tasks :: "string list"

text \<open>
  The constructor. Without a client of the caller's it builds its own, and that needs a
  retry policy. \<open>now_ns\<close> is the reading of \<^verbatim>\<open>time.time_ns()\<close>.
\<close>

definition ClusterService_init ::
  "Settings \<Rightarrow> int \<Rightarrow> bool \<Rightarrow> int option \<Rightarrow> SeedAddress list option \<Rightarrow> int \<Rightarrow> ClusterService result" where
  "ClusterService_init settings bound_port own_client incarnation bootstrap_seeds now_ns =
     rbind (ClusterMember_init (cfg_node_id settings)
              (if cfg_advertise_host settings = [] then cfg_host settings else cfg_advertise_host settings) bound_port ALIVE
              (case incarnation of None \<Rightarrow> now_ns | Some i \<Rightarrow> if i = 0 then now_ns else i)) (\<lambda>local_member.
     rbind (MembershipTable_init local_member (cfg_cluster_suspicion_timeout_seconds settings)
              (cfg_cluster_dead_retention_seconds settings)) (\<lambda>membership.
     rbind (ConsistentHashRing_init (cfg_cluster_virtual_nodes settings)) (\<lambda>ring.
     rbind (if own_client
            then rbind (RetryPolicy_init (cfg_retry_max_attempts settings) (cfg_retry_base_delay_seconds settings)
                          (cfg_retry_max_delay_seconds settings)) (\<lambda>_. Inr ())
            else Inr ()) (\<lambda>_.
     Inr \<lparr>cs_settings = settings,
          cs_seeds = (case bootstrap_seeds of None \<Rightarrow> cfg_cluster_seeds settings | Some seeds \<Rightarrow> seeds),
          cs_local_member = local_member, cs_membership = membership, cs_ring = ring, cs_ring_version = -1,
          cs_background_tasks = []\<rparr>))))"

section \<open>What the service calls\<close>

text \<open>
  The peer client, the readings of the monotonic clock, and what other tasks did to the
  service when a call returns.
\<close>

record 'p cluster_peers =
  pe_join :: "'p \<Rightarrow> SeedAddress \<Rightarrow> ClusterMember \<Rightarrow> real \<Rightarrow> ClusterMember list result \<times> 'p"
  pe_ping :: "'p \<Rightarrow> ClusterMember \<Rightarrow> ClusterMember list \<Rightarrow> real \<Rightarrow> AckData result \<times> 'p"
  pe_ping_request :: "'p \<Rightarrow> ClusterMember \<Rightarrow> ClusterMember \<Rightarrow> ClusterMember list \<Rightarrow> real \<Rightarrow> AckData result \<times> 'p"
  pe_gossip :: "'p \<Rightarrow> ClusterMember \<Rightarrow> ClusterMember list \<Rightarrow> real \<Rightarrow> AckData result \<times> 'p"
  pe_clock :: "'p \<Rightarrow> nat \<Rightarrow> real"
  pe_others :: "'p \<Rightarrow> ClusterService \<Rightarrow> ClusterService"

text \<open>With the client of \<^verbatim>\<open>peer_client.py\<close>.\<close>

definition rpc_peers ::
  "cluster_codecs \<Rightarrow> 'p PeerClient \<Rightarrow> ('p \<Rightarrow> nat \<Rightarrow> real) \<Rightarrow> ('p \<Rightarrow> ClusterService \<Rightarrow> ClusterService) \<Rightarrow> 'p cluster_peers" where
  "rpc_peers co c clock others =
     \<lparr>pe_join = peer_join co c, pe_ping = peer_ping co c, pe_ping_request = peer_ping_request co c,
      pe_gossip = peer_gossip co c, pe_clock = clock, pe_others = others\<rparr>"

section \<open>The ring\<close>

definition sync_ring :: "ClusterService \<Rightarrow> ClusterService" where
  "sync_ring s =
     (let version = mt_version (cs_membership s) in
      if version = cs_ring_version s then s
      else s\<lparr>cs_ring := rebuild (cs_ring s) (mt_snapshot (cs_membership s)), cs_ring_version := version\<rparr>)"

definition merge_members ::
  "'p cluster_peers \<Rightarrow> 'p \<Rightarrow> ClusterService \<Rightarrow> ClusterMember list \<Rightarrow> bool result \<times> ClusterService" where
  "merge_members env p s ms =
     (case mt_merge (cs_membership s) (zip ms (map (pe_clock env p) [0 ..< length ms])) of
        (r, t) \<Rightarrow> (r, s\<lparr>cs_membership := t\<rparr>))"

text \<open>The two ways of going on: \<^verbatim>\<open>if await merge(...): await sync_ring()\<close>, and both always.\<close>

definition merge_and_notify ::
  "'p cluster_peers \<Rightarrow> 'p \<Rightarrow> ClusterService \<Rightarrow> ClusterMember list \<Rightarrow> unit result \<times> ClusterService" where
  "merge_and_notify env p s ms =
     (case merge_members env p s ms of
        (Inl e, s') \<Rightarrow> (Inl e, s')
      | (Inr changed, s') \<Rightarrow> (Inr (), if changed then sync_ring s' else s'))"

definition merge_and_sync ::
  "'p cluster_peers \<Rightarrow> 'p \<Rightarrow> ClusterService \<Rightarrow> ClusterMember list \<Rightarrow> unit result \<times> ClusterService" where
  "merge_and_sync env p s ms =
     (case merge_members env p s ms of
        (Inl e, s') \<Rightarrow> (Inl e, s')
      | (Inr _, s') \<Rightarrow> (Inr (), sync_ring s'))"

text \<open>The same for the other two operations: \<^verbatim>\<open>if await ...: await on_membership_change()\<close>.\<close>

definition store_table :: "ClusterService \<Rightarrow> bool \<times> MembershipTable \<Rightarrow> ClusterService" where
  "store_table s ct = (let s' = s\<lparr>cs_membership := snd ct\<rparr> in if fst ct then sync_ring s' else s')"

section \<open>Joining\<close>

fun join_loop :: "'p cluster_peers \<Rightarrow> ClusterService \<Rightarrow> 'p \<Rightarrow> SeedAddress list \<Rightarrow> unit result \<times> ClusterService \<times> 'p" where
  "join_loop env s p [] = (raise ClusterBootstrapError ''unable to contact any configured cluster seed'', s, p)"
| "join_loop env s p (seed # seeds) =
     (case pe_join env p seed (cs_local_member s) (cfg_request_timeout_seconds (cs_settings s)) of
        (r, p') \<Rightarrow>
          (let s' = pe_others env p' s in
           case r of
             Inl e \<Rightarrow> if is_transport e then join_loop env s' p' seeds else (Inl e, s', p')
           | Inr snapshot \<Rightarrow> (case merge_and_sync env p' s' snapshot of (r', s'') \<Rightarrow> (r', s'', p'))))"

definition bootstrap :: "'p cluster_peers \<Rightarrow> ClusterService \<Rightarrow> 'p \<Rightarrow> unit result \<times> ClusterService \<times> 'p" where
  "bootstrap env s p =
     (let s = sync_ring s in
      if cs_seeds s = [] then (Inr (), s, p)
      else let seeds = filter (\<lambda>seed. \<not> (sd_host seed = cm_host (cs_local_member s) \<and> sd_port seed = cm_port (cs_local_member s)))
                         (cs_seeds s)
           in if seeds = []
              then (raise ClusterBootstrapError ''configured cluster seeds contain only the local node'', s, p)
              else join_loop env s p seeds)"

section \<open>Control messages\<close>

definition control_response :: "ClusterService \<Rightarrow> int \<Rightarrow> Message \<Rightarrow> MessageType \<Rightarrow> char list \<Rightarrow> Message" where
  "control_response s now_ms request type payload =
     new_response now_ms (cfg_node_id (cs_settings s)) (msg_correlation_id request) payload type 8 [] []"

text \<open>\<^verbatim>\<open>except (ConnectionError, TimeoutError, OSError)\<close> around a call whose failure counts as no answer.\<close>

definition answer :: "'a result \<Rightarrow> 'a option result" where
  "answer r = (case r of Inl e \<Rightarrow> if is_transport e then Inr None else Inl e | Inr x \<Rightarrow> Inr (Some x))"

definition acknowledges :: "string \<Rightarrow> AckData option \<Rightarrow> bool" where
  "acknowledges node_id a = (case a of None \<Rightarrow> False | Some ack \<Rightarrow> ack_success ack \<and> ack_target_node_id ack = node_id)"

definition acknowledge ::
  "cluster_codecs \<Rightarrow> ClusterService \<Rightarrow> int \<Rightarrow> Message \<Rightarrow> bool \<Rightarrow> string \<Rightarrow> Message result" where
  "acknowledge co s now_ms message success target_node_id =
     rbind (encode_ack (cc_ack_ser co) success target_node_id (mt_snapshot (cs_membership s))) (\<lambda>payload.
       Inr (control_response s now_ms message ACK payload))"

definition handle_join ::
  "cluster_codecs \<Rightarrow> 'p cluster_peers \<Rightarrow> int \<Rightarrow> Message \<Rightarrow> ClusterService \<Rightarrow> 'p \<Rightarrow> Message result \<times> ClusterService \<times> 'p" where
  "handle_join co env now_ms message s p =
     (case decode_join_request (cc_member_par co) (msg_payload message) of
        Inl e \<Rightarrow> (Inl e, s, p)
      | Inr joining \<Rightarrow>
          (case merge_and_sync env p s [joining] of
             (r, s') \<Rightarrow>
               (rbind r (\<lambda>_. rbind (encode_join_response (cc_members_ser co) (mt_snapshot (cs_membership s'))) (\<lambda>payload.
                  Inr (control_response s' now_ms message JOIN_RESPONSE payload))), s', p)))"

text \<open>PING and GOSSIP differ in their decoder only.\<close>

definition handle_members ::
  "cluster_codecs \<Rightarrow> 'p cluster_peers \<Rightarrow> int \<Rightarrow> Message \<Rightarrow> ClusterMember list result \<Rightarrow> ClusterService \<Rightarrow> 'p \<Rightarrow>
     Message result \<times> ClusterService \<times> 'p" where
  "handle_members co env now_ms message incoming s p =
     (case incoming of
        Inl e \<Rightarrow> (Inl e, s, p)
      | Inr members \<Rightarrow>
          (case merge_and_sync env p s members of
             (r, s') \<Rightarrow> (rbind r (\<lambda>_. acknowledge co s' now_ms message True (cfg_node_id (cs_settings s'))), s', p)))"

definition handle_ping_request ::
  "cluster_codecs \<Rightarrow> 'p cluster_peers \<Rightarrow> int \<Rightarrow> Message \<Rightarrow> ClusterService \<Rightarrow> 'p \<Rightarrow> Message result \<times> ClusterService \<times> 'p" where
  "handle_ping_request co env now_ms message s p =
     (case decode_ping_request (cc_ping_request_par co) (msg_payload message) of
        Inl e \<Rightarrow> (Inl e, s, p)
      | Inr (target, incoming) \<Rightarrow>
          (case merge_and_sync env p s incoming of
             (Inl e, s1) \<Rightarrow> (Inl e, s1, p)
           | (Inr _, s1) \<Rightarrow>
               (case pe_ping env p target (mt_snapshot (cs_membership s1)) (cfg_cluster_ping_timeout_seconds (cs_settings s1)) of
                  (r, p') \<Rightarrow>
                    (let s2 = pe_others env p' s1 in
                     case answer r of
                       Inl e \<Rightarrow> (Inl e, s2, p')
                     | Inr ack \<Rightarrow>
                         if acknowledges (cm_node target) ack
                         then (case merge_and_notify env p' s2 (ack_gossip (the ack)) of
                                 (r', s3) \<Rightarrow> (rbind r' (\<lambda>_. acknowledge co s3 now_ms message True (cm_node target)), s3, p'))
                         else (acknowledge co s2 now_ms message False (cm_node target), s2, p')))))"

definition handle_control ::
  "cluster_codecs \<Rightarrow> 'p cluster_peers \<Rightarrow> int \<Rightarrow> Message \<Rightarrow> ClusterService \<Rightarrow> 'p \<Rightarrow> Message result \<times> ClusterService \<times> 'p" where
  "handle_control co env now_ms message s p =
     (case msg_type message of
        JOIN_REQUEST \<Rightarrow> handle_join co env now_ms message s p
      | PING \<Rightarrow> handle_members co env now_ms message (decode_ping (cc_members_par co) (msg_payload message)) s p
      | PING_REQ \<Rightarrow> handle_ping_request co env now_ms message s p
      | GOSSIP \<Rightarrow> handle_members co env now_ms message (decode_gossip (cc_members_par co) (msg_payload message)) s p
      | t \<Rightarrow> (raise ValueError (''unsupported cluster control message: '' @ type_name t), s, p))"

section \<open>The loops\<close>

text \<open>One round of gossip; \<open>pick\<close> is \<^verbatim>\<open>random.choice\<close> at this round.\<close>

definition gossip_round ::
  "'p cluster_peers \<Rightarrow> (ClusterMember list \<Rightarrow> ClusterMember) \<Rightarrow> ClusterService \<Rightarrow> 'p \<Rightarrow> unit result \<times> ClusterService \<times> 'p" where
  "gossip_round env pick s p =
     (let peers = alive_members (cs_membership s) False in
      if peers = [] then (Inr (), s, p)
      else case pe_gossip env p (pick peers) (mt_snapshot (cs_membership s)) (cfg_cluster_ping_timeout_seconds (cs_settings s)) of
             (r, p') \<Rightarrow>
               (let s' = pe_others env p' s in
                case answer r of
                  Inl e \<Rightarrow> (Inl e, s', p')
                | Inr None \<Rightarrow> (Inr (), s', p')
                | Inr (Some ack) \<Rightarrow> (case merge_and_notify env p' s' (ack_gossip ack) of (r', s'') \<Rightarrow> (r', s'', p'))))"

text \<open>
  The indirect probes run together under \<^verbatim>\<open>asyncio.gather\<close>, which gives the results in the
  order of the helpers or raises an error of one of them.
\<close>

fun indirect_probes ::
  "'p cluster_peers \<Rightarrow> ClusterMember \<Rightarrow> ClusterMember list \<Rightarrow> real \<Rightarrow> ClusterMember list \<Rightarrow> 'p \<Rightarrow> AckData option list result \<times> 'p" where
  "indirect_probes env target snapshot timeout_seconds [] p = (Inr [], p)"
| "indirect_probes env target snapshot timeout_seconds (helper # helpers) p =
     (case pe_ping_request env p helper target snapshot timeout_seconds of
        (r, p') \<Rightarrow>
          (case indirect_probes env target snapshot timeout_seconds helpers p' of
             (rs, p'') \<Rightarrow> (rbind (answer r) (\<lambda>a. rbind rs (\<lambda>as. Inr (a # as))), p'')))"

text \<open>
  The end of a probe that the target itself did not answer. The count of helpers is not
  negative, by the settings.
\<close>

definition indirect_phase ::
  "'p cluster_peers \<Rightarrow> ClusterMember \<Rightarrow> ClusterMember list \<Rightarrow> ClusterService \<Rightarrow> 'p \<Rightarrow> unit result \<times> ClusterService \<times> 'p" where
  "indirect_phase env target snapshot s p =
     (let helpers = take (nat (cfg_cluster_indirect_probe_count (cs_settings s)))
            (filter (\<lambda>m. cm_node m \<noteq> cm_node target) (alive_members (cs_membership s) False)) in
      case indirect_probes env target snapshot (cfg_cluster_indirect_timeout_seconds (cs_settings s)) helpers p of
        (r, p') \<Rightarrow>
          (let s' = pe_others env p' s in
           case r of
             Inl e \<Rightarrow> (Inl e, s', p')
           | Inr results \<Rightarrow>
               (case find (acknowledges (cm_node target)) results of
                  Some ack \<Rightarrow> (case merge_and_notify env p' s' (ack_gossip (the ack)) of (r', s'') \<Rightarrow> (r', s'', p'))
                | None \<Rightarrow>
                    (Inr (), store_table s' (mark_suspect (cs_membership s') (pe_clock env p' 0) (cm_node target)), p'))))"

definition probe_target ::
  "'p cluster_peers \<Rightarrow> ClusterMember \<Rightarrow> ClusterService \<Rightarrow> 'p \<Rightarrow> unit result \<times> ClusterService \<times> 'p" where
  "probe_target env target s p =
     (let snapshot = mt_snapshot (cs_membership s) in
      case pe_ping env p target snapshot (cfg_cluster_ping_timeout_seconds (cs_settings s)) of
        (r, p') \<Rightarrow>
          (let s' = pe_others env p' s in
           case answer r of
             Inl e \<Rightarrow> (Inl e, s', p')
           | Inr ack \<Rightarrow>
               if acknowledges (cm_node target) ack
               then (case merge_and_notify env p' s' (ack_gossip (the ack)) of (r', s'') \<Rightarrow> (r', s'', p'))
               else indirect_phase env target snapshot s' p'))"

definition probe_round ::
  "'p cluster_peers \<Rightarrow> (ClusterMember list \<Rightarrow> ClusterMember) \<Rightarrow> ClusterService \<Rightarrow> 'p \<Rightarrow> unit result \<times> ClusterService \<times> 'p" where
  "probe_round env pick s p =
     (let s' = store_table s (advance_timeouts_and_purge (cs_membership s) (pe_clock env p 0));
          targets = probe_candidates (cs_membership s')
      in if targets = [] then (Inr (), s', p) else probe_target env (pick targets) s' p)"

text \<open>
  \<^verbatim>\<open>while True\<close> with a sleep after each round, for the first \<open>n\<close> rounds; \<open>slept i\<close> is what the
  other tasks and the network did during the \<open>i\<close>-th sleep. An error of a round leaves the
  loop, and nobody waits for its task.
\<close>

fun run_rounds ::
  "(nat \<Rightarrow> ClusterService \<Rightarrow> 'p \<Rightarrow> unit result \<times> ClusterService \<times> 'p) \<Rightarrow> (nat \<Rightarrow> ClusterService \<times> 'p \<Rightarrow> ClusterService \<times> 'p) \<Rightarrow>
     nat \<Rightarrow> nat \<Rightarrow> ClusterService \<times> 'p \<Rightarrow> unit result \<times> ClusterService \<times> 'p" where
  "run_rounds turn slept i 0 sp = (Inr (), sp)"
| "run_rounds turn slept i (Suc n) sp =
     (case turn i (fst sp) (snd sp) of
        (Inl e, sp') \<Rightarrow> (Inl e, sp')
      | (Inr _, sp') \<Rightarrow> run_rounds turn slept (Suc i) n (slept i sp'))"

section \<open>Starting and stopping\<close>

definition cluster_start :: "'p cluster_peers \<Rightarrow> ClusterService \<Rightarrow> 'p \<Rightarrow> unit result \<times> ClusterService \<times> 'p" where
  "cluster_start env s p =
     (case bootstrap env s p of
        (Inl e, s', p') \<Rightarrow> (Inl e, s', p')
      | (Inr _, s', p') \<Rightarrow>
          (Inr (), s'\<lparr>cs_background_tasks :=
             [cfg_node_id (cs_settings s') @ ''-failure-detector'', cfg_node_id (cs_settings s') @ ''-gossip'']\<rparr>, p'))"

definition cluster_stop :: "ClusterService \<Rightarrow> ClusterService" where
  "cluster_stop s = s\<lparr>cs_background_tasks := []\<rparr>"

section \<open>When the table changes its version\<close>

lemma merge_one_unchanged: "merge_one_locked t now m = (Inr False, t') \<Longrightarrow> t' = t"
  by (auto simp: merge_one_locked_def split: option.splits if_splits)

lemma merge_loop_unchanged: "merge_loop t changed records = (Inr False, t') \<Longrightarrow> \<not> changed \<and> t' = t"
proof (induction t changed records rule: merge_loop.induct)
  case (2 t changed m now rest)
  obtain r t1 where one: "merge_one_locked t now m = (r, t1)" by fastforce
  then obtain c where c: "r = Inr c" using "2.prems" by (cases r) auto
  then have "merge_loop t1 (c \<or> changed) rest = (Inr False, t')" using "2.prems" one by simp
  from "2.IH" [OF one [symmetric] c this] have "\<not> c" "\<not> changed" "t' = t1" by auto
  then show ?case using merge_one_unchanged one c by auto
qed simp

lemma mt_merge_unchanged: "mt_merge t records = (Inr False, t') \<Longrightarrow> t' = t"
  using merge_loop_unchanged by (fastforce simp: mt_merge_def split: sum.splits prod.splits)

lemma mt_merge_changed:
  assumes "table_ok t" "list_all (\<lambda>(m, now). member_ok m) records" "mt_merge t records = (Inr True, t')"
  shows "mt_version t' = mt_version t + 1"
proof -
  obtain r1 t1 where l: "merge_loop t False records = (r1, t1)" by fastforce
  then show ?thesis using merge_loop_spec [OF assms(1,2) l] assms(3) by (auto simp: mt_merge_def split: sum.splits)
qed

lemma mark_suspect_version:
  "mark_suspect t now k = (c, t') \<Longrightarrow> if c then mt_version t' = mt_version t + 1 else t' = t"
  by (auto simp: mark_suspect_def Let_def record_timer_state_def split: option.splits if_splits)

lemma expire_suspects_unchanged:
  "expire_suspects now items changed t = (False, t') \<Longrightarrow> \<not> changed \<and> mt_members t' = mt_members t"
  by (induction now items changed t rule: expire_suspects.induct) (auto split: option.splits if_splits)

lemma purge_dead_unchanged:
  "purge_dead now items changed t = (False, t') \<Longrightarrow> \<not> changed \<and> mt_members t' = mt_members t"
  by (induction now items changed t rule: purge_dead.induct) (auto split: option.splits if_splits)

lemma expire_suspects_version: "mt_version (snd (expire_suspects now items changed t)) = mt_version t"
  by (induction now items changed t rule: expire_suspects.induct) (auto split: option.splits)

lemma purge_dead_version: "mt_version (snd (purge_dead now items changed t)) = mt_version t"
  by (induction now items changed t rule: purge_dead.induct) (auto split: option.splits)

lemma advance_version:
  assumes "advance_timeouts_and_purge t now = (c, t')"
  shows "if c then mt_version t' = mt_version t + 1 else mt_members t' = mt_members t \<and> mt_version t' = mt_version t"
proof -
  obtain c1 t1 where e: "expire_suspects now (mt_suspected t) False t = (c1, t1)" by fastforce
  obtain c2 t2 where q: "purge_dead now (mt_dead t1) c1 t1 = (c2, t2)" by fastforce
  have "c = c2" "t' = (if c2 then t2\<lparr>mt_version := mt_version t2 + 1\<rparr> else t2)"
    using assms e q by (auto simp: advance_timeouts_and_purge_def)
  moreover have "mt_version t2 = mt_version t"
    using expire_suspects_version [of now "mt_suspected t" False t] purge_dead_version [of now "mt_dead t1" c1 t1] e q by simp
  moreover have "mt_members t2 = mt_members t" if "\<not> c2"
    using expire_suspects_unchanged e purge_dead_unchanged q that by (metis (full_types))
  ultimately show ?thesis by auto
qed

section \<open>The invariant\<close>

text \<open>The ring is the one that the members of the table give.\<close>

definition synced :: "ClusterService \<Rightarrow> bool" where
  "synced s \<longleftrightarrow> cs_ring_version s = mt_version (cs_membership s) \<and>
     cs_ring s = rebuild (cs_ring s) (mt_snapshot (cs_membership s))"

definition service_ok :: "ClusterService \<Rightarrow> bool" where
  "service_ok s \<longleftrightarrow> table_ok (cs_membership s) \<and> mt_local (cs_membership s) = cfg_node_id (cs_settings s) \<and>
     1 \<le> hr_virtual (cs_ring s) \<and> member_ok (cs_local_member s)"

definition control_ok :: "ClusterService \<Rightarrow> bool" where
  "control_ok s \<longleftrightarrow> service_ok s \<and> synced s"

lemma control_ok_table: "control_ok s \<Longrightarrow> table_ok (cs_membership s)"
  by (simp add: control_ok_def service_ok_def)

text \<open>Whatever changes the table is a sequence of its own operations; the settings stay as they are.\<close>

definition by_calls :: "MembershipTable \<Rightarrow> MembershipTable \<Rightarrow> bool" where
  "by_calls t t' \<longleftrightarrow> (\<exists>calls. list_all membership_call_ok calls \<and> t' = foldl membership_step t calls)"

definition service_grows :: "ClusterService \<Rightarrow> ClusterService \<Rightarrow> bool" where
  "service_grows s s' \<longleftrightarrow> cs_settings s' = cs_settings s \<and> cs_local_member s' = cs_local_member s \<and>
     by_calls (cs_membership s) (cs_membership s')"

lemma by_calls_refl [simp]: "by_calls t t"
  unfolding by_calls_def by (intro exI [of _ "[]"]) simp

lemma by_calls_step: "membership_call_ok c \<Longrightarrow> by_calls t (membership_step t c)"
  unfolding by_calls_def by (intro exI [of _ "[c]"]) simp

lemma by_calls_trans: "by_calls a b \<Longrightarrow> by_calls b c \<Longrightarrow> by_calls a c"
  unfolding by_calls_def by (metis foldl_append list_all_append)

lemma by_calls_ok:
  "by_calls t t' \<Longrightarrow> table_ok t \<Longrightarrow> table_ok t' \<and> same_settings t t' \<and> local_incarnation t \<le> local_incarnation t'"
  using membership_run_ok by (auto simp: by_calls_def)

lemma service_grows_refl [simp]: "service_grows s s"
  by (simp add: service_grows_def)

lemma service_grows_trans: "service_grows a b \<Longrightarrow> service_grows b c \<Longrightarrow> service_grows a c"
  using by_calls_trans by (auto simp: service_grows_def)

lemma rebuild_rebuild: "rebuild (rebuild ring ms) ms' = rebuild ring ms'"
  by (simp add: rebuild_def Let_def)

lemma rebuild_virtual [simp]: "hr_virtual (rebuild ring ms) = hr_virtual ring"
  by (simp add: rebuild_def Let_def)

text \<open>
  A change of the table followed by \<^verbatim>\<open>sync_ring\<close>, and no change of it: both leave the ring in
  step. \<open>call\<close> is the operation of the table.
\<close>

lemma sync_ring_synced:
  assumes "cs_ring_version s \<noteq> mt_version (cs_membership s)"
  shows "synced (sync_ring s)"
  using assms by (simp add: sync_ring_def synced_def Let_def rebuild_rebuild)

lemma sync_ring_idle: "synced s \<Longrightarrow> sync_ring s = s"
  by (simp add: sync_ring_def synced_def Let_def)

lemma sync_ring_sel [simp]:
  "cs_membership (sync_ring s) = cs_membership s" "cs_settings (sync_ring s) = cs_settings s"
  "cs_local_member (sync_ring s) = cs_local_member s" "hr_virtual (cs_ring (sync_ring s)) = hr_virtual (cs_ring s)"
  "cs_seeds (sync_ring s) = cs_seeds s"
  by (simp_all add: sync_ring_def Let_def)

lemma service_ok_sync [simp]: "service_ok (sync_ring s) = service_ok s"
  by (simp add: service_ok_def)

lemma service_grows_sync [simp]: "service_grows s (sync_ring s') = service_grows s s'"
  by (simp add: service_grows_def)

lemma table_change:
  assumes "control_ok s" "membership_call_ok call" "t = membership_step (cs_membership s) call"
    and "if changed then mt_version t = mt_version (cs_membership s) + 1
         else mt_members t = mt_members (cs_membership s) \<and> mt_version t = mt_version (cs_membership s)"
    and "s' = store_table s (changed, t)"
  shows "control_ok s' \<and> service_grows s s' \<and> cs_membership s' = t"
proof -
  have "synced s'"
  proof (cases changed)
    case True
    then have "cs_ring_version s \<noteq> mt_version t" using assms by (simp add: control_ok_def synced_def)
    then show ?thesis using sync_ring_synced [of "s\<lparr>cs_membership := t\<rparr>"] assms(5) True by (simp add: store_table_def Let_def)
  next
    case False
    then show ?thesis using assms by (auto simp: control_ok_def synced_def mt_snapshot_def store_table_def)
  qed
  moreover have "table_ok t" "same_settings (cs_membership s) t"
    using membership_step_ok [of "cs_membership s" call] assms(1-3) by (auto simp: control_ok_def service_ok_def)
  moreover have "by_calls (cs_membership s) t" using by_calls_step assms(2,3) by simp
  ultimately show ?thesis using assms(1,5) by (auto simp: control_ok_def service_ok_def service_grows_def store_table_def Let_def)
qed

lemma clocked_members_ok: "list_all member_ok ms \<Longrightarrow> list_all (\<lambda>(m, now). member_ok m) (zip ms ns)"
  by (auto simp: list_all_iff dest: set_zip_leftD)

lemma merge_and_notify_ok:
  assumes "control_ok s" "list_all member_ok ms" "merge_and_notify env p s ms = (r, s')"
  shows "r = Inr () \<and> control_ok s' \<and> service_grows s s' \<and>
    cs_membership s' = membership_step (cs_membership s) (Merge (zip ms (map (pe_clock env p) [0 ..< length ms])))"
proof -
  let ?rs = "zip ms (map (pe_clock env p) [0 ..< length ms])"
  have ok: "table_ok (cs_membership s)" using assms(1) by (simp add: control_ok_def service_ok_def)
  obtain q t where m: "mt_merge (cs_membership s) ?rs = (q, t)" by fastforce
  note spec = mt_merge_spec [OF ok clocked_members_ok [OF assms(2)] m]
  then obtain c where q: "q = Inr c" by blast
  have "if c then mt_version t = mt_version (cs_membership s) + 1
      else mt_members t = mt_members (cs_membership s) \<and> mt_version t = mt_version (cs_membership s)"
    using mt_merge_changed [OF ok clocked_members_ok [OF assms(2)], of "map (pe_clock env p) [0 ..< length ms]" t]
      mt_merge_unchanged [of "cs_membership s" ?rs t] m q by (cases c) auto
  moreover have r: "r = Inr ()" "s' = store_table s (c, t)"
    using assms(3) m q by (simp_all add: merge_and_notify_def merge_members_def store_table_def Let_def)
  ultimately show ?thesis
    using table_change [OF assms(1), of "Merge ?rs" t c s'] m clocked_members_ok [OF assms(2), of "map (pe_clock env p) [0 ..< length ms]"] by auto
qed

lemma merge_and_sync_notify:
  assumes "control_ok s" "list_all member_ok ms"
  shows "merge_and_sync env p s ms = merge_and_notify env p s ms"
proof -
  let ?rs = "zip ms (map (pe_clock env p) [0 ..< length ms])"
  obtain q t where m: "mt_merge (cs_membership s) ?rs = (q, t)" by fastforce
  show ?thesis
  proof (cases "q = Inr False")
    case True
    then have "t = cs_membership s" using mt_merge_unchanged m by blast
    moreover have "s\<lparr>cs_membership := cs_membership s\<rparr> = s" by simp
    ultimately show ?thesis using m True sync_ring_idle assms(1)
      by (simp add: merge_and_sync_def merge_and_notify_def merge_members_def control_ok_def)
  qed (use m in \<open>auto simp: merge_and_sync_def merge_and_notify_def merge_members_def split: sum.splits\<close>)
qed

text \<open>The other two operations of the table, as the detector makes them.\<close>

lemma suspect_and_notify_ok:
  assumes "control_ok s" "s' = store_table s (mark_suspect (cs_membership s) now k)"
  shows "control_ok s' \<and> service_grows s s' \<and> cs_membership s' = snd (mark_suspect (cs_membership s) now k)"
proof -
  obtain c t where m: "mark_suspect (cs_membership s) now k = (c, t)" by fastforce
  then show ?thesis
    using table_change [OF assms(1), of "MarkSuspect now k" t c s'] mark_suspect_version [OF m] assms(2) by (cases c) auto
qed

lemma advance_and_notify_ok:
  assumes "control_ok s" "s' = store_table s (advance_timeouts_and_purge (cs_membership s) now)"
  shows "control_ok s' \<and> service_grows s s' \<and> cs_membership s' = snd (advance_timeouts_and_purge (cs_membership s) now)"
proof -
  obtain c t where m: "advance_timeouts_and_purge (cs_membership s) now = (c, t)" by fastforce
  then show ?thesis
    using table_change [OF assms(1), of "Advance now" t c s'] advance_version [OF m] assms(2) by (cases c) auto
qed

lemma merge_and_sync_ok:
  assumes "control_ok s" "list_all member_ok ms" "merge_and_sync env p s ms = (r, s')"
  shows "r = Inr () \<and> control_ok s' \<and> service_grows s s'"
  using merge_and_notify_ok [OF assms(1,2), of env p r s'] assms(3) by (simp add: merge_and_sync_notify [OF assms(1,2)])

section \<open>What the control plane relies on\<close>

text \<open>The peer client hands on validated members only.\<close>

locale valid_peers =
  fixes env :: "'p cluster_peers"
  assumes join_valid: "pe_join env p seed m timeout = (Inr ms, p') \<Longrightarrow> list_all member_ok ms"
    and ping_valid: "pe_ping env p m ms timeout = (Inr ack, p') \<Longrightarrow> list_all member_ok (ack_gossip ack)"
    and ping_request_valid: "pe_ping_request env p h m ms timeout = (Inr ack, p') \<Longrightarrow> list_all member_ok (ack_gossip ack)"
    and gossip_valid: "pe_gossip env p m ms timeout = (Inr ack, p') \<Longrightarrow> list_all member_ok (ack_gossip ack)"

definition others_ok :: "'p cluster_peers \<Rightarrow> bool" where
  "others_ok env \<longleftrightarrow> (\<forall>p s. control_ok s \<longrightarrow> control_ok (pe_others env p s) \<and> service_grows s (pe_others env p s))"

lemma others_okD:
  "others_ok env \<Longrightarrow> control_ok s \<Longrightarrow> control_ok (pe_others env p s) \<and> service_grows s (pe_others env p s)"
  by (simp add: others_ok_def)

lemma answer_Some: "answer r = Inr (Some x) \<longleftrightarrow> r = Inr x"
  by (auto simp: answer_def split: sum.splits if_splits)

lemma acknowledges_Some: "acknowledges k a \<Longrightarrow> \<exists>ack. a = Some ack"
  by (cases a) (auto simp: acknowledges_def)

context valid_peers
begin

lemma join_loop_ok:
  "others_ok env \<Longrightarrow> control_ok s \<Longrightarrow> join_loop env s p seeds = (r, s', p') \<Longrightarrow> control_ok s' \<and> service_grows s s'"
proof (induction seeds arbitrary: s p)
  case (Cons seed seeds)
  obtain q p1 where j: "pe_join env p seed (cs_local_member s) (cfg_request_timeout_seconds (cs_settings s)) = (q, p1)" by fastforce
  note o = others_okD [OF Cons.prems(1,2), of p1]
  show ?case
  proof (cases q)
    case (Inl e)
    show ?thesis
    proof (cases "is_transport e")
      case True
      then have "join_loop env (pe_others env p1 s) p1 seeds = (r, s', p')" using Cons.prems(3) j Inl by (simp add: Let_def)
      from Cons.IH [OF Cons.prems(1) conjunct1 [OF o] this] show ?thesis using o service_grows_trans by blast
    qed (use Cons.prems(3) j Inl o in \<open>auto simp: Let_def\<close>)
  next
    case (Inr ms)
    obtain r2 s2 where m: "merge_and_sync env p1 (pe_others env p1 s) ms = (r2, s2)" by fastforce
    have "s' = s2" using Cons.prems(3) j Inr m by (simp add: Let_def)
    then show ?thesis using merge_and_sync_ok [OF conjunct1 [OF o] join_valid m] j Inr o service_grows_trans by blast
  qed
qed simp

lemma gossip_round_ok:
  assumes "others_ok env" "control_ok s" "gossip_round env pick s p = (r, s', p')"
  shows "control_ok s' \<and> service_grows s s'"
proof (cases "alive_members (cs_membership s) False = []")
  case False
  let ?call = "pe_gossip env p (pick (alive_members (cs_membership s) False)) (mt_snapshot (cs_membership s))
    (cfg_cluster_ping_timeout_seconds (cs_settings s))"
  obtain q p1 where c: "?call = (q, p1)" by fastforce
  note o = others_okD [OF assms(1,2), of p1]
  show ?thesis
  proof (cases q)
    case (Inr ack)
    obtain r2 s2 where m: "merge_and_notify env p1 (pe_others env p1 s) (ack_gossip ack) = (r2, s2)" by fastforce
    have "s' = s2" using assms(3) False c Inr m by (simp add: gossip_round_def Let_def answer_def)
    then show ?thesis using merge_and_notify_ok [OF conjunct1 [OF o] gossip_valid m] c Inr o service_grows_trans by blast
  qed (use assms(3) False c o in \<open>auto simp: gossip_round_def Let_def answer_def split: if_splits\<close>)
qed (use assms in \<open>simp add: gossip_round_def\<close>)

lemma indirect_probes_valid:
  "indirect_probes env target snapshot timeout helpers p = (Inr as, p') \<Longrightarrow> Some ack \<in> set as \<Longrightarrow>
     list_all member_ok (ack_gossip ack)"
proof (induction helpers arbitrary: p as)
  case (Cons h helpers)
  obtain q p1 where c: "pe_ping_request env p h target snapshot timeout = (q, p1)" by fastforce
  obtain qs p2 where cs: "indirect_probes env target snapshot timeout helpers p1 = (qs, p2)" by fastforce
  obtain a as' where a: "answer q = Inr a" "qs = Inr as'" "as = a # as'" "p2 = p'"
    using Cons.prems(1) c cs by (auto simp: rbind_eq_Inr)
  then show ?case
    using Cons.IH [of p1 as'] Cons.prems(2) cs ping_request_valid [of p h target snapshot timeout ack p1] c
    by (auto simp: answer_Some)
qed simp

lemma indirect_phase_ok:
  assumes "others_ok env" "control_ok s" "indirect_phase env target snapshot s p = (r, s', p')"
  shows "control_ok s' \<and> service_grows s s'"
proof -
  let ?helpers = "take (nat (cfg_cluster_indirect_probe_count (cs_settings s)))
      (filter (\<lambda>m. cm_node m \<noteq> cm_node target) (alive_members (cs_membership s) False))"
  obtain q p1 where c: "indirect_probes env target snapshot (cfg_cluster_indirect_timeout_seconds (cs_settings s)) ?helpers p = (q, p1)"
    by fastforce
  note o = others_okD [OF assms(1,2), of p1]
  note run = assms(3) [unfolded indirect_phase_def Let_def c, simplified]
  show ?thesis
  proof (cases q)
    case (Inr results)
    show ?thesis
    proof (cases "find (acknowledges (cm_node target)) results")
      case None
      then show ?thesis using suspect_and_notify_ok [OF conjunct1 [OF o] refl] run Inr o service_grows_trans by auto
    next
      case (Some a)
      then obtain ack where ack: "a = Some ack" "Some ack \<in> set results"
        using acknowledges_Some by (metis find_Some_iff nth_mem)
      obtain r2 s2 where m: "merge_and_notify env p1 (pe_others env p1 s) (ack_gossip ack) = (r2, s2)" by fastforce
      have "list_all member_ok (ack_gossip ack)" using indirect_probes_valid c Inr ack by blast
      from merge_and_notify_ok [OF conjunct1 [OF o] this m] show ?thesis
        using run Inr Some ack m o service_grows_trans by auto
    qed
  qed (use run o in auto)
qed

lemma probe_target_ok:
  assumes "others_ok env" "control_ok s" "probe_target env target s p = (r, s', p')"
  shows "control_ok s' \<and> service_grows s s'"
proof -
  let ?snap = "mt_snapshot (cs_membership s)"
  obtain q p1 where c: "pe_ping env p target ?snap (cfg_cluster_ping_timeout_seconds (cs_settings s)) = (q, p1)" by fastforce
  note o = others_okD [OF assms(1,2), of p1]
  note run = assms(3) [unfolded probe_target_def Let_def c, simplified]
  show ?thesis
  proof (cases "answer q")
    case (Inr a)
    show ?thesis
    proof (cases "acknowledges (cm_node target) a")
      case True
      then obtain ack where ack: "a = Some ack" using acknowledges_Some by blast
      obtain r2 s2 where m: "merge_and_notify env p1 (pe_others env p1 s) (ack_gossip ack) = (r2, s2)" by fastforce
      have "list_all member_ok (ack_gossip ack)" using ping_valid c Inr ack by (auto simp: answer_Some)
      from merge_and_notify_ok [OF conjunct1 [OF o] this m] show ?thesis
        using run Inr True ack m o service_grows_trans by auto
    next
      case False
      then have "indirect_phase env target ?snap (pe_others env p1 s) p1 = (r, s', p')" using run Inr by simp
      from indirect_phase_ok [OF assms(1) conjunct1 [OF o] this] show ?thesis using o service_grows_trans by blast
    qed
  qed (use run o in auto)
qed

lemma probe_round_ok:
  assumes "others_ok env" "control_ok s" "probe_round env pick s p = (r, s', p')"
  shows "control_ok s' \<and> service_grows s s'"
proof -
  let ?s = "store_table s (advance_timeouts_and_purge (cs_membership s) (pe_clock env p 0))"
  note adv = advance_and_notify_ok [OF assms(2) refl, of "pe_clock env p 0"]
  show ?thesis
  proof (cases "probe_candidates (cs_membership ?s) = []")
    case False
    then have "probe_target env (pick (probe_candidates (cs_membership ?s))) ?s p = (r, s', p')"
      using assms(3) by (simp add: probe_round_def Let_def)
    from probe_target_ok [OF assms(1) conjunct1 [OF adv] this] show ?thesis using adv service_grows_trans by blast
  qed (use assms(3) adv in \<open>auto simp: probe_round_def Let_def\<close>)
qed

lemma handle_join_ok:
  assumes "control_ok s" "handle_join co env now_ms message s p = (r, s', p')"
  shows "control_ok s' \<and> service_grows s s'"
proof (cases "decode_join_request (cc_member_par co) (msg_payload message)")
  case (Inr m)
  then have "list_all member_ok [m]"
    using cluster_decoders_validate [where pm = "cc_member_par co" and data = "msg_payload message"] by simp
  moreover obtain r1 s1 where m1: "merge_and_sync env p s [m] = (r1, s1)" by fastforce
  ultimately have "control_ok s1 \<and> service_grows s s1" using merge_and_sync_ok [OF assms(1) _ m1] by simp
  moreover have "s' = s1" using assms(2) Inr m1 by (simp add: handle_join_def)
  ultimately show ?thesis by simp
qed (use assms in \<open>auto simp: handle_join_def\<close>)

lemma handle_members_ok:
  assumes "control_ok s" "\<And>ms. incoming = Inr ms \<Longrightarrow> list_all member_ok ms"
    "handle_members co env now_ms message incoming s p = (r, s', p')"
  shows "control_ok s' \<and> service_grows s s'"
proof (cases incoming)
  case (Inr ms)
  moreover obtain r1 s1 where m1: "merge_and_sync env p s ms = (r1, s1)" by fastforce
  ultimately have "control_ok s1 \<and> service_grows s s1" using merge_and_sync_ok [OF assms(1) _ m1] assms(2) by simp
  moreover have "s' = s1" using assms(3) Inr m1 by (simp add: handle_members_def)
  ultimately show ?thesis by simp
qed (use assms in \<open>auto simp: handle_members_def\<close>)

lemma handle_ping_request_ok:
  assumes "others_ok env" "control_ok s" "handle_ping_request co env now_ms message s p = (r, s', p')"
  shows "control_ok s' \<and> service_grows s s'"
proof (cases "decode_ping_request (cc_ping_request_par co) (msg_payload message)")
  case (Inr tm)
  obtain target ms where tm: "tm = (target, ms)" by (cases tm)
  then have "list_all member_ok ms"
    using cluster_decoders_validate [where pp = "cc_ping_request_par co" and data = "msg_payload message"] Inr by simp
  moreover obtain r1 s1 where m1: "merge_and_sync env p s ms = (r1, s1)" by fastforce
  ultimately have s1: "r1 = Inr ()" "control_ok s1" "service_grows s s1" using merge_and_sync_ok [OF assms(2) _ m1] by simp_all
  obtain q p1 where c: "pe_ping env p target (mt_snapshot (cs_membership s1)) (cfg_cluster_ping_timeout_seconds (cs_settings s1)) = (q, p1)"
    by fastforce
  note o = others_okD [OF assms(1) s1(2), of p1]
  then have grows: "service_grows s (pe_others env p1 s1)" using s1 service_grows_trans by blast
  note run = assms(3) [unfolded handle_ping_request_def Inr tm, simplified, unfolded m1 s1(1), simplified, unfolded c Let_def, simplified]
  show ?thesis
  proof (cases "answer q")
    case (Inr a)
    show ?thesis
    proof (cases "acknowledges (cm_node target) a")
      case True
      then obtain ack where ack: "a = Some ack" using acknowledges_Some by blast
      obtain r2 s2 where m: "merge_and_notify env p1 (pe_others env p1 s1) (ack_gossip ack) = (r2, s2)" by fastforce
      have "list_all member_ok (ack_gossip ack)" using ping_valid c Inr ack by (auto simp: answer_Some)
      from merge_and_notify_ok [OF conjunct1 [OF o] this m] show ?thesis
        using run Inr True ack m grows service_grows_trans by auto
    qed (use run Inr o grows in auto)
  qed (use run o grows in auto)
qed (use assms in \<open>auto simp: handle_ping_request_def\<close>)

lemma handle_control_ok:
  assumes "others_ok env" "control_ok s" "handle_control co env now_ms message s p = (r, s', p')"
  shows "control_ok s' \<and> service_grows s s'"
proof -
  have "list_all member_ok ms" if "decode_ping (cc_members_par co) (msg_payload message) = Inr ms" for ms
    using cluster_decoders_validate [where pl = "cc_members_par co" and data = "msg_payload message"] that by simp
  moreover have "list_all member_ok ms" if "decode_gossip (cc_members_par co) (msg_payload message) = Inr ms" for ms
    using cluster_decoders_validate [where pl = "cc_members_par co" and data = "msg_payload message"] that by simp
  ultimately show ?thesis
    using assms(3) handle_join_ok [OF assms(2), of co now_ms message p r s' p']
      handle_members_ok [OF assms(2), of "decode_ping (cc_members_par co) (msg_payload message)" co now_ms message p r s' p']
      handle_members_ok [OF assms(2), of "decode_gossip (cc_members_par co) (msg_payload message)" co now_ms message p r s' p']
      handle_ping_request_ok [OF assms(1,2), of co now_ms message p r s' p'] assms(2)
    unfolding handle_control_def by (cases "msg_type message") auto
qed

lemma bootstrap_ok:
  assumes "others_ok env" "control_ok (sync_ring s)" "bootstrap env s p = (r, s', p')"
  shows "control_ok s' \<and> service_grows (sync_ring s) s'"
  using assms(3) join_loop_ok [OF assms(1,2)] assms(2) by (auto simp: bootstrap_def Let_def split: if_splits)

end

section \<open>The client of the cluster provides it\<close>

lemma ack_exchange_valid:
  assumes "ack_exchange co c p peer type encoded timeout = (Inr ack, p')"
  shows "list_all member_ok (ack_gossip ack)"
proof (rule ack_exchange_accepts [OF assms])
  fix response :: Message
  assume "decode_ack (cc_ack_par co) (msg_payload response) = Inr ack"
  then show "list_all member_ok (ack_gossip ack)"
    using cluster_decoders_validate [where pa = "cc_ack_par co" and data = "msg_payload response"] by simp
qed

lemma peer_join_valid:
  assumes "peer_join co c p seed m timeout = (Inr ms, p')"
  shows "list_all member_ok ms"
proof -
  obtain response :: Message where "decode_join_response (cc_members_par co) (msg_payload response) = Inr ms"
    using assms by (auto simp: peer_join_def rbind_eq_Inr split: sum.splits prod.splits if_splits)
  then show ?thesis
    using cluster_decoders_validate [where pl = "cc_members_par co" and data = "msg_payload response"] by simp
qed

interpretation rpc: valid_peers "rpc_peers co c clock others" for co c clock others
  by unfold_locales
    (auto simp: rpc_peers_def peer_ping_def peer_ping_request_def peer_gossip_def dest: peer_join_valid ack_exchange_valid)

section \<open>Histories\<close>

inductive control_reach :: "cluster_codecs \<Rightarrow> 'p cluster_peers \<Rightarrow> Settings \<Rightarrow> ClusterService \<Rightarrow> bool" for co env settings where
  Start: "ClusterService_init settings bound_port own_client incarnation seeds now_ns = Inr s \<Longrightarrow>
    bootstrap env s p = (r, s', p') \<Longrightarrow> control_reach co env settings s'"
| Handle: "control_reach co env settings s \<Longrightarrow> handle_control co env now_ms message s p = (r, s', p') \<Longrightarrow>
    control_reach co env settings s'"
| Gossip: "control_reach co env settings s \<Longrightarrow> gossip_round env pick s p = (r, s', p') \<Longrightarrow> control_reach co env settings s'"
| Probe: "control_reach co env settings s \<Longrightarrow> probe_round env pick s p = (r, s', p') \<Longrightarrow> control_reach co env settings s'"

lemma service_init_ok:
  assumes "ClusterService_init settings bound_port own_client incarnation seeds now_ns = Inr s"
  shows "control_ok (sync_ring s) \<and> cs_settings s = settings"
proof -
  obtain m t ring where s: "ClusterMember_init (cfg_node_id settings)
        (if cfg_advertise_host settings = [] then cfg_host settings else cfg_advertise_host settings) bound_port ALIVE
        (case incarnation of None \<Rightarrow> now_ns | Some i \<Rightarrow> if i = 0 then now_ns else i) = Inr m"
      "MembershipTable_init m (cfg_cluster_suspicion_timeout_seconds settings) (cfg_cluster_dead_retention_seconds settings) = Inr t"
      "ConsistentHashRing_init (cfg_cluster_virtual_nodes settings) = Inr ring"
      "cs_settings s = settings" "cs_local_member s = m" "cs_membership s = t" "cs_ring s = ring" "cs_ring_version s = -1"
    using assms by (auto simp: ClusterService_init_def rbind_eq_Inr)
  have m: "member_ok m" "cm_status m = ALIVE" "cm_node m = cfg_node_id settings"
    using s(1) by (auto simp: ClusterMember_init_def member_ok_def split: if_splits)
  have "mt_version t = 1" using s(2) by (auto simp: MembershipTable_init_def split: if_splits)
  then have "synced (sync_ring s)" using s by (intro sync_ring_synced) simp
  then show ?thesis
    using table_init_ok [OF s(2) m(1,2)] m s ring_init_virtual [OF s(3)] by (simp add: control_ok_def service_ok_def)
qed

lemma control_reach_ok:
  assumes "valid_peers env" "others_ok env"
  shows "control_reach co env settings s \<Longrightarrow> control_ok s \<and> cs_settings s = settings"
proof (induction rule: control_reach.induct)
  case (Start bound_port own_client incarnation seeds now_ns s p r s' p')
  note init = service_init_ok [OF Start(1)]
  show ?case using valid_peers.bootstrap_ok [OF assms conjunct1 [OF init] Start(2)] init by (simp add: service_grows_def)
next
  case (Handle s now_ms message p r s' p')
  then show ?case using valid_peers.handle_control_ok [OF assms, of s] by (fastforce simp: service_grows_def)
next
  case (Gossip s pick p r s' p')
  then show ?case using valid_peers.gossip_round_ok [OF assms, of s] by (fastforce simp: service_grows_def)
next
  case (Probe s pick p r s' p')
  then show ?case using valid_peers.probe_round_ok [OF assms, of s] by (fastforce simp: service_grows_def)
qed

section \<open>Suspects\<close>

text \<open>
  A suspicion of incarnation \<open>i\<close> that has run since \<open>a\<close> at the latest, and its end: the member
  is dead, has been purged, or a higher incarnation of it was heard of.
\<close>

definition suspected_since :: "MembershipTable \<Rightarrow> string \<Rightarrow> int \<Rightarrow> real \<Rightarrow> bool" where
  "suspected_since t k i a \<longleftrightarrow>
     (\<exists>b. rank t k = Some (i, SUSPECT) \<and> map_of (mt_suspected t) k = Some b \<and> b \<le> a)"

definition given_up :: "MembershipTable \<Rightarrow> string \<Rightarrow> int \<Rightarrow> bool" where
  "given_up t k i =
     (case mt_get t k of None \<Rightarrow> True | Some m \<Rightarrow> cm_status m = DEAD \<or> i < cm_incarnation m)"

lemma put_member_timer:
  "map_of (mt_suspected (put_member now m t)) k =
     (if k = cm_node m then
        if cm_status m = SUSPECT then Some (case map_of (mt_suspected t) k of None \<Rightarrow> now | Some b \<Rightarrow> b) else None
      else map_of (mt_suspected t) k)"
  by (auto simp: put_member_def record_timer_state_def Let_def map_of_setdefault split: MemberStatus.splits option.splits)

lemma rank_above_suspect:
  "rank t k = Some r \<Longrightarrow> (i, SUSPECT) < r \<Longrightarrow> given_up t k i"
  by (cases "mt_get t k"; cases "cm_status (the (mt_get t k))")
    (auto simp: rank_def member_rank_def given_up_def less_MemberStatus_def)

lemma join_rank_above: "r \<le> join_rank (Some r) x"
  by (simp add: join_rank_def)

lemma top_rank_above:
  assumes "finite xs"
  obtains r' where "top_rank (Some r) xs = Some r'" "r \<le> r'"
proof
  show "top_rank (Some r) xs = Some (Max (insert r xs))" by (simp add: top_rank_def)
  show "r \<le> Max (insert r xs)" using assms by (intro Max_ge) simp_all
qed

lemma merge_one_timer:
  assumes "table_ok t" "member_ok m" "merge_one_locked t now m = (r, t')"
    "rank t' k = Some (i, SUSPECT)" "map_of (mt_suspected t) k = Some b"
  shows "map_of (mt_suspected t') k = Some b"
  using assms(1-3)
proof (cases rule: merge_one_cases)
  case (put m')
  then show ?thesis using assms(4,5) by (auto simp: put_member_timer rank_def member_rank_def split: if_splits)
qed (use assms(5) in simp)

lemma merge_loop_timer:
  "table_ok t \<Longrightarrow> list_all (\<lambda>(m, now). member_ok m) records \<Longrightarrow> merge_loop t changed records = (r, t') \<Longrightarrow>
     k \<noteq> mt_local t \<Longrightarrow> rank t k = Some (i, SUSPECT) \<Longrightarrow> rank t' k = Some (i, SUSPECT) \<Longrightarrow>
     map_of (mt_suspected t) k = Some b \<Longrightarrow> map_of (mt_suspected t') k = Some b"
proof (induction records arbitrary: t changed)
  case (Cons x records)
  obtain m now where x: "x = (m, now)" by (cases x)
  have ok: "member_ok m" "list_all (\<lambda>(m, now). member_ok m) records" using Cons.prems(2) x by simp_all
  obtain r1 t1 where one: "merge_one_locked t now m = (r1, t1)" by fastforce
  have "merge_loop t False [(m, now)] = (r1, t1)" if "\<exists>c. r1 = Inr c" using one that by auto
  moreover have c: "\<exists>c. r1 = Inr c"
    using Cons.prems(1) ok(1) one by (cases rule: merge_one_cases) auto
  ultimately have single: "merge_loop t False [(m, now)] = (r1, t1)" by simp
  note spec = merge_loop_spec [OF Cons.prems(1) _ single]
  have t1: "table_ok t1" "mt_local t1 = mt_local t" using spec ok(1) by simp_all
  obtain c where c: "r1 = Inr c" using c by blast
  have rest: "merge_loop t1 (c \<or> changed) records = (r, t')" using Cons.prems(3) x one c by simp
  have "rank t1 k = Some (if k = cm_node m then join_rank (Some (i, SUSPECT)) (member_rank m) else (i, SUSPECT))"
    using merge_one_rank [OF Cons.prems(1,4), of now m] one Cons.prems(5) by (cases "k = cm_node m") auto
  moreover have "(i, SUSPECT) \<le> (if k = cm_node m then join_rank (Some (i, SUSPECT)) (member_rank m) else (i, SUSPECT))"
    by (metis join_rank_above order_refl)
  ultimately obtain r2 where r2: "rank t1 k = Some r2" "(i, SUSPECT) \<le> r2" by blast
  have top: "top_rank (Some r2) (ranks_of k (fst ` set records)) = Some (i, SUSPECT)"
    using merge_loop_spec [OF t1(1) ok(2) rest] t1(2) Cons.prems(4,6) r2(1) by simp
  have "finite (ranks_of k (fst ` set records))" by simp
  then have "r2 \<le> (i, SUSPECT)" by (rule top_rank_above [of _ r2]) (metis top option.inject)
  then have eq: "rank t1 k = Some (i, SUSPECT)" using r2 by (metis order_antisym)
  show ?case
    using Cons.IH [OF t1(1) ok(2) rest] eq t1(2) Cons.prems(4,6) merge_one_timer [OF Cons.prems(1) ok(1) one eq Cons.prems(7)] by simp
qed simp

lemma merge_suspected:
  assumes "table_ok t" "list_all (\<lambda>(m, now). member_ok m) records" "k \<noteq> mt_local t" "suspected_since t k i a"
  shows "suspected_since (snd (mt_merge t records)) k i a \<or> given_up (snd (mt_merge t records)) k i"
proof -
  obtain r1 t1 where l: "merge_loop t False records = (r1, t1)" by fastforce
  have t': "rank (snd (mt_merge t records)) = rank t1" "mt_suspected (snd (mt_merge t records)) = mt_suspected t1"
    "mt_get (snd (mt_merge t records)) = mt_get t1" using l by (auto simp: mt_merge_def split: sum.splits)
  obtain b where b: "rank t k = Some (i, SUSPECT)" "map_of (mt_suspected t) k = Some b" "b \<le> a"
    using assms(4) by (auto simp: suspected_since_def)
  have "rank t1 k = top_rank (Some (i, SUSPECT)) (ranks_of k (fst ` set records))"
    using merge_loop_spec [OF assms(1,2) l] assms(3) b(1) by simp
  moreover have "finite (ranks_of k (fst ` set records))" by simp
  ultimately obtain r2 where r2: "rank t1 k = Some r2" "(i, SUSPECT) \<le> r2" by (metis top_rank_above)
  show ?thesis
  proof (cases "r2 = (i, SUSPECT)")
    case True
    then have "map_of (mt_suspected t1) k = Some b" using merge_loop_timer [OF assms(1,2) l assms(3) b(1) _ b(2)] r2(1) by simp
    then show ?thesis using True r2(1) b(3) by (auto simp: suspected_since_def t')
  next
    case False
    then have "(i, SUSPECT) < r2" using r2(2) by (metis order_le_less)
    then show ?thesis using rank_above_suspect [OF r2(1)] by (simp add: given_up_def t')
  qed
qed

lemma mark_suspected:
  assumes "suspected_since t k i a" "table_ok t"
  shows "suspected_since (snd (mark_suspect t now j)) k i a"
proof (cases "mt_get t j")
  case (Some m)
  have m: "cm_node m = j" using table_okD(1) [OF assms(2) Some] by simp
  have *: "snd (mark_suspect t now j) = (if j \<noteq> mt_local t \<and> cm_status m = ALIVE
      then (put_member now (m\<lparr>cm_status := SUSPECT\<rparr>) t)\<lparr>mt_version := mt_version t + 1\<rparr> else t)"
    using Some m by (simp add: mark_suspect_def put_member_def record_timer_state_def Let_def)
  show ?thesis
    using assms(1) Some m unfolding * by (auto simp: suspected_since_def put_member_timer rank_def member_rank_def)
qed (use assms in \<open>simp add: mark_suspect_def\<close>)

lemma advance_suspected:
  assumes "suspected_since t k i a" "table_ok t"
  shows "suspected_since (snd (advance_timeouts_and_purge t now)) k i a \<or> given_up (snd (advance_timeouts_and_purge t now)) k i"
    and "a + mt_suspicion t \<le> now \<Longrightarrow> given_up (snd (advance_timeouts_and_purge t now)) k i"
proof -
  obtain c t' where run: "advance_timeouts_and_purge t now = (c, t')" by fastforce
  obtain b m where b: "mt_get t k = Some m" "cm_status m = SUSPECT" "cm_incarnation m = i" "map_of (mt_suspected t) k = Some b" "b \<le> a"
    using assms(1) by (auto simp: suspected_since_def rank_def member_rank_def)
  have "map_of (mt_dead t) k = None" using table_okD(4) [OF assms(2), of k] b(1,2) by (cases "map_of (mt_dead t) k") auto
  then have v: "table_view t' k = (if now - b \<ge> mt_suspicion t then view_expire now (table_view t k) else table_view t k)"
    using advance_spec [OF assms(2) run] b(4) by (simp add: view_advance_def table_view_def timer_due_def)
  show "suspected_since (snd (advance_timeouts_and_purge t now)) k i a \<or> given_up (snd (advance_timeouts_and_purge t now)) k i"
    using v run b by (cases "now - b \<ge> mt_suspicion t")
      (auto simp: table_view_def view_expire_def given_up_def suspected_since_def rank_def member_rank_def)
  show "given_up (snd (advance_timeouts_and_purge t now)) k i" if "a + mt_suspicion t \<le> now"
    using v run b that by (auto simp: table_view_def view_expire_def given_up_def)
qed

lemma suspected_step:
  assumes "table_ok t" "membership_call_ok c" "k \<noteq> mt_local t" "suspected_since t k i a"
  shows "suspected_since (membership_step t c) k i a \<or> given_up (membership_step t c) k i"
  using assms merge_suspected mark_suspected advance_suspected(1) by (cases c) auto

text \<open>However the calls are mixed, the first one that advances the timers late enough ends the suspicion.\<close>

lemma suspected_run:
  "table_ok t \<Longrightarrow> list_all membership_call_ok calls \<Longrightarrow> k \<noteq> mt_local t \<Longrightarrow> suspected_since t k i a \<Longrightarrow>
     Advance now \<in> set calls \<Longrightarrow> a + mt_suspicion t \<le> now \<Longrightarrow>
     \<exists>n \<le> length calls. given_up (foldl membership_step t (take n calls)) k i"
proof (induction calls arbitrary: t)
  case (Cons c calls)
  have ok: "membership_call_ok c" "list_all membership_call_ok calls" using Cons.prems(2) by simp_all
  note step = membership_step_ok [OF Cons.prems(1) ok(1)]
  show ?case
  proof (cases "given_up (membership_step t c) k i")
    case True
    then show ?thesis by (intro exI [of _ 1]) simp
  next
    case False
    then have s: "suspected_since (membership_step t c) k i a" using suspected_step [OF Cons.prems(1) ok(1) Cons.prems(3,4)] by simp
    have "c \<noteq> Advance now" using False advance_suspected(2) [OF Cons.prems(4,1,6)] by auto
    then obtain n where "n \<le> length calls" "given_up (foldl membership_step (membership_step t c) (take n calls)) k i"
      using Cons.IH [of "membership_step t c"] step s ok(2) Cons.prems(3,5,6) by auto
    then show ?thesis by (intro exI [of _ "Suc n"]) simp
  qed
qed simp

section \<open>A target that does not answer\<close>

text \<open>Neither a ping nor an indirect probe gets an acknowledgement of the target; the calls fail or say no.\<close>

definition silent :: "'p cluster_peers \<Rightarrow> ClusterMember \<Rightarrow> bool" where
  "silent env target \<longleftrightarrow>
     (\<forall>q g t. \<exists>a. answer (fst (pe_ping env q target g t)) = Inr a \<and> \<not> acknowledges (cm_node target) a) \<and>
     (\<forall>q h g t. \<exists>a. answer (fst (pe_ping_request env q h target g t)) = Inr a \<and> \<not> acknowledges (cm_node target) a)"

lemma silent_ping:
  assumes "silent env target" "pe_ping env q target g t = (r, q')"
  obtains a where "answer r = Inr a" "\<not> acknowledges (cm_node target) a"
  using assms unfolding silent_def by (metis fst_conv)

lemma silent_indirect:
  assumes "silent env target"
  shows "indirect_probes env target snapshot timeout helpers p = (r, p') \<Longrightarrow>
    \<exists>as. r = Inr as \<and> find (acknowledges (cm_node target)) as = None"
proof (induction helpers arbitrary: p r)
  case (Cons h helpers)
  obtain q p1 where c: "pe_ping_request env p h target snapshot timeout = (q, p1)" by fastforce
  obtain qs p2 where cs: "indirect_probes env target snapshot timeout helpers p1 = (qs, p2)" by fastforce
  obtain a where a: "answer q = Inr a" "\<not> acknowledges (cm_node target) a"
    using assms c unfolding silent_def by (metis fst_conv)
  have "p2 = p'" using Cons.prems c cs by simp
  then obtain as where "qs = Inr as" "find (acknowledges (cm_node target)) as = None"
    using Cons.IH [of p1 qs] cs by blast
  then show ?case using Cons.prems c cs a by auto
qed simp

lemma silent_probe:
  assumes "others_ok env" "control_ok s" "silent env target" "probe_target env target s p = (r, s', p')"
  obtains s1 now where "r = Inr ()" "control_ok s1" "service_grows s s1"
    "cs_membership s' = snd (mark_suspect (cs_membership s1) now (cm_node target))"
proof -
  let ?snap = "mt_snapshot (cs_membership s)"
  obtain q p1 where c: "pe_ping env p target ?snap (cfg_cluster_ping_timeout_seconds (cs_settings s)) = (q, p1)" by fastforce
  note o = others_okD [OF assms(1,2), of p1]
  obtain a where "answer q = Inr a" "\<not> acknowledges (cm_node target) a" by (rule silent_ping [OF assms(3) c])
  then have ind: "indirect_phase env target ?snap (pe_others env p1 s) p1 = (r, s', p')"
    using assms(4) [unfolded probe_target_def Let_def c, simplified] by simp
  let ?s = "pe_others env p1 s"
  let ?helpers = "take (nat (cfg_cluster_indirect_probe_count (cs_settings ?s)))
      (filter (\<lambda>m. cm_node m \<noteq> cm_node target) (alive_members (cs_membership ?s) False))"
  obtain qs p2 where ci: "indirect_probes env target ?snap (cfg_cluster_indirect_timeout_seconds (cs_settings ?s)) ?helpers p1 = (qs, p2)"
    by fastforce
  note o2 = others_okD [OF assms(1) conjunct1 [OF o], of p2]
  obtain as where "qs = Inr as" "find (acknowledges (cm_node target)) as = None" using silent_indirect [OF assms(3) ci] by blast
  then have "r = Inr ()" "s' = store_table (pe_others env p2 ?s)
      (mark_suspect (cs_membership (pe_others env p2 ?s)) (pe_clock env p2 0) (cm_node target))"
    using ind [unfolded indirect_phase_def Let_def ci, simplified] by auto
  then show ?thesis
    using that [of "pe_others env p2 ?s" "pe_clock env p2 0"] o o2 service_grows_trans
      suspect_and_notify_ok [OF conjunct1 [OF o2] refl, of "pe_clock env p2 0" "cm_node target"] by auto
qed

lemma marked_not_alive:
  assumes "table_ok t" "k \<noteq> mt_local t" "mt_get (snd (mark_suspect t now k)) k = Some m"
  shows "cm_status m \<noteq> ALIVE"
proof (cases "mt_get t k")
  case (Some m0)
  then have "cm_node m0 = k" using table_okD(1) [OF assms(1)] by blast
  then show ?thesis
    using assms(2,3) Some by (auto simp: mark_suspect_def record_timer_state_def Let_def mt_get_def split: if_splits)
qed (use assms(3) in \<open>simp add: mark_suspect_def\<close>)

lemma probe_candidates_remote:
  assumes "table_ok t" "m \<in> set (probe_candidates t)"
  shows "cm_node m \<noteq> mt_local t" "mt_get t (cm_node m) = Some m"
proof -
  obtain k where k: "(k, m) \<in> set (mt_members t)" "k \<noteq> mt_local t" using assms(2) by (auto simp: probe_candidates_def)
  have "dict_ok (mt_members t)" using assms(1) by (simp add: table_ok_def dicts_ok_def)
  then have "mt_get t k = Some m" using k by (simp add: mt_get_def dict_ok_def)
  then show "cm_node m \<noteq> mt_local t" "mt_get t (cm_node m) = Some m" using table_okD(1) [OF assms(1)] k(2) by auto
qed

lemma snapshot_get: "table_ok t \<Longrightarrow> m \<in> set (mt_snapshot t) \<longleftrightarrow> (\<exists>k. mt_get t k = Some m)"
  by (force simp: table_ok_def dicts_ok_def dict_ok_def mt_snapshot_def mt_get_def dest: map_of_SomeD)

lemma snapshot_distinct:
  assumes "table_ok t"
  shows "distinct (map cm_node (mt_snapshot t))"
proof -
  have d: "dict_ok (mt_members t)" using assms by (simp add: table_ok_def dicts_ok_def)
  have "cm_node m = k" if "(k, m) \<in> set (mt_members t)" for k m
    using table_okD(1) [OF assms, of k m] d that by (simp add: mt_get_def dict_ok_def)
  then have "map cm_node (mt_snapshot t) = map fst (sort_key fst (mt_members t))"
    by (auto simp: mt_snapshot_def)
  then show ?thesis using canon_distinct [OF canon_sort_key [OF d]] by simp
qed

text \<open>After a probe without an answer the target is no longer ALIVE in the table.\<close>

lemma silent_round:
  assumes "others_ok env" "control_ok s" "silent env target"
    "target = pick (probe_candidates (snd (advance_timeouts_and_purge (cs_membership s) (pe_clock env p 0))))"
    "target \<in> set (probe_candidates (snd (advance_timeouts_and_purge (cs_membership s) (pe_clock env p 0))))"
    "probe_round env pick s p = (r, s', p')"
  shows "r = Inr ()" "table_ok (cs_membership s')" "cm_node target \<noteq> mt_local (cs_membership s')"
    "mt_get (cs_membership s') (cm_node target) = Some m \<Longrightarrow> cm_status m \<noteq> ALIVE"
proof -
  let ?s = "store_table s (advance_timeouts_and_purge (cs_membership s) (pe_clock env p 0))"
  note adv = advance_and_notify_ok [OF assms(2) refl, of "pe_clock env p 0"]
  have "probe_candidates (cs_membership ?s) \<noteq> []" using adv assms(5) by auto
  then have run: "probe_target env target ?s p = (r, s', p')" using assms(4,6) adv by (simp add: probe_round_def Let_def)
  obtain s1 now where s1: "r = Inr ()" "control_ok s1" "service_grows ?s s1"
    "cs_membership s' = snd (mark_suspect (cs_membership s1) now (cm_node target))"
    by (rule silent_probe [OF assms(1) conjunct1 [OF adv] assms(3) run])
  have t: "table_ok (cs_membership ?s)" "table_ok (cs_membership s1)"
    by (rule control_ok_table [OF conjunct1 [OF adv]], rule control_ok_table [OF s1(2)])
  have "by_calls (cs_membership ?s) (cs_membership s1)" using s1(3) by (simp only: service_grows_def)
  then have loc: "mt_local (cs_membership s1) = mt_local (cs_membership ?s)" by (rule by_calls_ok [OF _ t(1), THEN conjunct2, THEN conjunct1, THEN conjunct1])
  have "cm_node target \<noteq> mt_local (cs_membership ?s)" using probe_candidates_remote(1) [OF t(1)] assms(5) adv by simp
  then have k: "cm_node target \<noteq> mt_local (cs_membership s1)" using loc by simp
  show "r = Inr ()" by (rule s1(1))
  show "table_ok (cs_membership s')" "cm_node target \<noteq> mt_local (cs_membership s')"
    using mark_suspect_spec [OF t(2), of now "cm_node target"] s1(4) k by simp_all
  show "mt_get (cs_membership s') (cm_node target) = Some m \<Longrightarrow> cm_status m \<noteq> ALIVE"
    using marked_not_alive [OF t(2) k, of now m] s1(4) by simp
qed

section \<open>An answer that is cut short\<close>

text \<open>
  A peer that closes the connection before it answers raises \<^verbatim>\<open>IncompleteReadError\<close>, which is
  none of the errors the loops catch: the round raises it, the target is not suspected, and
  no round follows.
\<close>

lemma closed_connection_incomplete:
  assumes "0 < timeout" "open_peer (cp_transport c) (cp_tls c) host port expected p = (Inr (), p1)"
    "encode_frame (cp_env_ser c) (cp_max_frame_size c) message = Inr frame"
    "tr_send (cp_transport c) p1 frame = (Inr (), p2)" "tr_receive (cp_transport c) p2 = (Inr [], p3)"
    "tr_close (cp_transport c) p3 = (Inr (), p4)"
  shows "exchange_endpoint_raw c p host port message timeout expected = (raise IncompleteReadError [], p4)"
  using assms by (simp add: exchange_endpoint_raw_def send_and_read_def finally_close_def read_message_def readexactly_def)

lemma cut_short_ends_detector:
  assumes "control_ok s" "\<And>q g t. fst (pe_ping env q target g t) = raise IncompleteReadError []"
    "target = pick (probe_candidates (snd (advance_timeouts_and_purge (cs_membership s) (pe_clock env p 0))))"
    "probe_candidates (snd (advance_timeouts_and_purge (cs_membership s) (pe_clock env p 0))) \<noteq> []"
  shows "fst (run_rounds (\<lambda>_. probe_round env pick) slept i (Suc n) (s, p)) = raise IncompleteReadError []"
proof -
  let ?s = "store_table s (advance_timeouts_and_purge (cs_membership s) (pe_clock env p 0))"
  note adv = advance_and_notify_ok [OF assms(1) refl, of "pe_clock env p 0"]
  obtain q p1 where "pe_ping env p target (mt_snapshot (cs_membership ?s)) (cfg_cluster_ping_timeout_seconds (cs_settings ?s)) = (q, p1)"
    "q = raise IncompleteReadError []" using assms(2) by (metis prod.collapse)
  then have "probe_target env target ?s p = (raise IncompleteReadError [], pe_others env p1 ?s, p1)"
    by (simp add: probe_target_def Let_def answer_def is_transport_def)
  then have "probe_round env pick s p = (raise IncompleteReadError [], pe_others env p1 ?s, p1)"
    using assms(3,4) adv by (simp add: probe_round_def Let_def)
  then show ?thesis by simp
qed

section \<open>Example\<close>

text \<open>A node that knows one other member, with a network on which every connection is refused.\<close>

definition example_local :: ClusterMember where
  "example_local = \<lparr>cm_node = ''node-0'', cm_host = ''127.0.0.1'', cm_port = 8000, cm_status = ALIVE, cm_incarnation = 1\<rparr>"

definition example_peer :: ClusterMember where
  "example_peer = \<lparr>cm_node = ''node-1'', cm_host = ''127.0.0.1'', cm_port = 8001, cm_status = ALIVE, cm_incarnation = 1\<rparr>"

definition example_table :: MembershipTable where
  "example_table = \<lparr>mt_local = ''node-0'', mt_suspicion = 3, mt_retention = 30,
     mt_members = [(''node-0'', example_local), (''node-1'', example_peer)], mt_suspected = [], mt_dead = [], mt_version = 2\<rparr>"

definition example_service :: ClusterService where
  "example_service = \<lparr>cs_settings = default_settings, cs_seeds = [], cs_local_member = example_local,
     cs_membership = example_table,
     cs_ring = rebuild \<lparr>hr_virtual = 64, hr_positions = [], hr_owners = []\<rparr> (mt_snapshot example_table),
     cs_ring_version = 2, cs_background_tasks = []\<rparr>"

definition refused_codecs :: cluster_codecs where
  "refused_codecs = \<lparr>cc_member_ser = \<lambda>_. Inr [], cc_member_par = \<lambda>_. None, cc_members_ser = \<lambda>_. Inr [], cc_members_par = \<lambda>_. None,
     cc_ack_ser = \<lambda>_. Inr [], cc_ack_par = \<lambda>_. None, cc_ping_request_ser = \<lambda>_. Inr [], cc_ping_request_par = \<lambda>_. None,
     cc_task_ser = \<lambda>_. Inr [], cc_task_par = \<lambda>_. None, cc_response_ser = \<lambda>_. Inr [], cc_response_par = \<lambda>_. None,
     cc_forwarded_ser = \<lambda>_. Inr [], cc_forwarded_par = \<lambda>_. None\<rparr>"

definition refused_client :: "unit PeerClient" where
  "refused_client = \<lparr>cp_node_id = ''node-0'',
     cp_retry_policy = \<lparr>rp_max_attempts = 3, rp_base_delay = 1 / 20, rp_max_delay = 1\<rparr>,
     cp_failure_threshold = 5, cp_recovery_seconds = 10, cp_max_frame_size = 4194304, cp_tls = False,
     cp_env_ser = \<lambda>_. Inr [], cp_env_par = \<lambda>_. None,
     cp_transport = \<lparr>tr_open = \<lambda>p _ _ _. (raise ConnectionError ''connection refused'', p), tr_peercert = \<lambda>_. None,
       tr_send = \<lambda>p _. (Inr (), p), tr_receive = \<lambda>p. (Inr [], p), tr_close = \<lambda>p. (Inr (), p)\<rparr>,
     cp_environ = \<lambda>_. None, cp_fresh = \<lambda>_. (''id'', 0), cp_metrics = False, cp_trace = \<lambda>_. None\<rparr>"

definition refused_peers :: "unit cluster_peers" where
  "refused_peers = rpc_peers refused_codecs refused_client (\<lambda>_ _. 0) (\<lambda>_ s. s)"

lemma refused_exchange:
  "\<exists>e. exchange_endpoint refused_client p host port message timeout expected = (Inl e, p) \<and> is_transport e"
  by (simp add: exchange_endpoint_def exchange_endpoint_raw_def refused_client_def peer_routing_enabled_def open_peer_def is_transport_def)

lemma refused_ack:
  "answer (fst (ack_exchange refused_codecs refused_client p peer type (Inr payload) timeout)) = Inr None"
proof -
  obtain e where "exchange_endpoint refused_client p (cm_host peer) (cm_port peer) (control_request refused_client p type payload)
      timeout (expected_peer refused_client (Some (cm_node peer))) = (Inl e, p)" "is_transport e"
    using refused_exchange by blast
  then show ?thesis by (simp add: ack_exchange_def answer_def)
qed

lemma refused_silent: "silent refused_peers target"
proof -
  have "cc_members_ser refused_codecs ms = Inr []" "cc_ping_request_ser refused_codecs m = Inr []" for ms m
    by (simp_all add: refused_codecs_def)
  then show ?thesis
    by (simp add: silent_def refused_peers_def rpc_peers_def peer_ping_def peer_ping_request_def encode_ping_def
        encode_ping_request_def acknowledges_def refused_ack)
qed

lemma refused_others: "others_ok refused_peers"
  by (simp add: others_ok_def refused_peers_def rpc_peers_def)

lemma example_service_ok: "control_ok example_service"
proof -
  have "table_view_ok example_table k" for k
    by (simp add: table_view_ok_def view_ok_def mt_get_def example_table_def example_local_def example_peer_def member_ok_def)
  then have "table_ok example_table"
    by (simp add: table_ok_def dicts_ok_def dict_ok_def local_alive_def mt_get_def)
      (simp add: example_table_def example_local_def example_peer_def)
  moreover have "mt_local example_table = ''node-0''" "mt_version example_table = 2"
    by (simp_all add: example_table_def)
  ultimately show ?thesis
    by (simp add: control_ok_def service_ok_def synced_def example_service_def rebuild_rebuild default_settings_def
        example_local_def member_ok_def)
qed

lemma example_advance: "advance_timeouts_and_purge example_table 0 = (False, example_table)"
  by (simp add: advance_timeouts_and_purge_def example_table_def)

lemma example_candidates:
  "probe_candidates example_table = [example_peer]"
  "filter (\<lambda>m. cm_node m \<noteq> cm_node example_peer) (alive_members example_table False) = []"
  by (simp_all add: probe_candidates_def alive_members_def example_table_def example_local_def example_peer_def)

lemma cs_membership_store_table [simp]: "cs_membership (store_table s ct) = snd ct"
  by (simp add: store_table_def Let_def)

lemma refused_probe_round:
  "cs_membership (fst (snd (probe_round refused_peers (\<lambda>_. example_peer) example_service ()))) =
     snd (mark_suspect example_table 0 ''node-1'')"
proof -
  have m: "cs_membership example_service = example_table" "pe_clock refused_peers p n = 0" "pe_others refused_peers p s = s" for p n s
    by (simp_all add: example_service_def refused_peers_def rpc_peers_def)
  obtain q where q: "pe_ping refused_peers () example_peer (mt_snapshot example_table)
      (cfg_cluster_ping_timeout_seconds (cs_settings example_service)) = (q, ())" by (metis (full_types) old.unit.exhaust prod.exhaust)
  obtain a where a: "answer q = Inr a" "\<not> acknowledges (cm_node example_peer) a" by (rule silent_ping [OF refused_silent q])
  have k: "cm_node example_peer = ''node-1''" by (simp add: example_peer_def)
  have "store_table example_service (False, example_table) = example_service" by (simp add: store_table_def example_service_def)
  then have "probe_round refused_peers (\<lambda>_. example_peer) example_service () =
      indirect_phase refused_peers example_peer (mt_snapshot example_table) example_service ()"
    using a by (simp add: probe_round_def probe_target_def m example_advance example_candidates q Let_def)
  moreover have "cs_membership (fst (snd (indirect_phase refused_peers example_peer (mt_snapshot example_table) example_service ()))) =
      snd (mark_suspect example_table 0 (cm_node example_peer))"
    by (simp only: indirect_phase_def m example_candidates Let_def take_Nil indirect_probes.simps prod.case sum.case find.simps
        option.case fst_conv snd_conv cs_membership_store_table)
  ultimately show ?thesis by (simp add: k)
qed

section \<open>Properties\<close>

text \<open>C16: At every point where the control plane waits for a peer or has finished a message or a
  round, whatever the peers sent and however the tasks of the node interleaved, the hash
  ring is in step with the membership table: a key is routed to exactly the members that
  the table holds ALIVE, each once, and there always is one, since the node itself is.
\<close>

theorem control_plane_ring_in_step:
  assumes "control_reach co (rpc_peers co c clock others) settings s" "others_ok (rpc_peers co c clock others)"
  shows "\<exists>ms. candidates (cs_ring s) key = Inr ms \<and> distinct (map cm_node ms) \<and>
      set ms = {m. \<exists>k. mt_get (cs_membership s) k = Some m \<and> cm_status m = ALIVE} \<and> cfg_node_id settings \<in> cm_node ` set ms"
proof -
  let ?t = "cs_membership s"
  have ok: "control_ok s" "cs_settings s = settings"
    using control_reach_ok [OF rpc.valid_peers_axioms assms(2,1)] by simp_all
  then have t: "table_ok ?t" "mt_local ?t = cfg_node_id settings" "cs_ring s = rebuild (cs_ring s) (mt_snapshot ?t)" "1 \<le> hr_virtual (cs_ring s)"
    by (simp_all add: control_ok_def service_ok_def synced_def)
  obtain m where m: "mt_get ?t (cfg_node_id settings) = Some m" "cm_status m = ALIVE" "cm_node m = cfg_node_id settings"
    using table_okD(1,2) [OF t(1)] t(2) by metis
  then have "m \<in> set (mt_snapshot ?t)" using snapshot_get [OF t(1)] by blast
  then obtain ms where ms: "candidates (cs_ring s) key = Inr ms"
    using candidates_exist [OF t(4) _ m(2), of "mt_snapshot ?t" key] t(3) by metis
  then have "candidates (rebuild (cs_ring s) (mt_snapshot ?t)) key = Inr ms" using t(3) by simp
  note cand = candidates_members [OF t(4) snapshot_distinct [OF t(1)] this]
  have "set ms = {m. \<exists>k. mt_get ?t k = Some m \<and> cm_status m = ALIVE}" unfolding cand(1) using snapshot_get [OF t(1)] by blast
  moreover have "cfg_node_id settings \<in> cm_node ` set ms" unfolding cand(1) using m \<open>m \<in> set (mt_snapshot ?t)\<close> by force
  ultimately show ?thesis using ms cand(2) by blast
qed

theorem control_plane_ring_in_step_witness:
  "\<exists>s ms. control_reach refused_codecs refused_peers default_settings s \<and>
     candidates (cs_ring s) ''k'' = Inr ms \<and> ''node-0'' \<in> cm_node ` set ms"
proof -
  have c: "cfg_node_id default_settings = ''node-0''" "cfg_cluster_seeds default_settings = []"
    by (simp_all add: default_settings_def)
  obtain s where s: "ClusterService_init default_settings 8000 True None None 1 = Inr s" "cs_seeds s = []"
    by (auto simp: ClusterService_init_def ClusterMember_init_def MembershipTable_init_def ConsistentHashRing_init_def
        RetryPolicy_init_def default_settings_def)
  have "bootstrap refused_peers s () = (Inr (), sync_ring s, ())" using s(2) by (simp add: bootstrap_def Let_def)
  then have r: "control_reach refused_codecs refused_peers default_settings (sync_ring s)" by (rule control_reach.Start [OF s(1)])
  from control_plane_ring_in_step [OF this [unfolded refused_peers_def] refused_others [unfolded refused_peers_def], of "''k''"]
  show ?thesis using r c(1) by auto
qed



end
