(* ===== verification/Node.thy ===== *)
theory Node
  imports Compute Recovery Cluster_Control Crdt_Handler
begin

text \<open>
  The requests of a node: \<^verbatim>\<open>handle_message\<close> and what it calls, \<^verbatim>\<open>_verify_authenticated_sender\<close>
  and the connection loop of \<^verbatim>\<open>node.py\<close>. The cluster service, the CRDT service and the executor
  are those of their own theories. What the outside contributes to one message - the clocks,
  the fate of a job, the answers of other nodes - is the environment.
\<close>

section \<open>The node\<close>

abbreviation (input) "UNKNOWN_TASK \<equiv> (1 :: int)"
abbreviation (input) "RECOVERY_IN_PROGRESS \<equiv> (14 :: int)"

record 'n DistributedNode =
  nd_settings :: Settings
  nd_executor :: TaskExecutor
  nd_backpressure :: BackpressureController
  nd_rate_limiter :: TokenBucketRateLimiter
  nd_cluster :: "ClusterService option"
  nd_crdt :: "'n CrdtService option"
  nd_health :: HealthSnapshot
  nd_stopping :: bool

record ('n, 'p) node_env =
  ne_codecs :: codecs
  ne_cluster_codecs :: cluster_codecs
  ne_peers :: "'p cluster_peers"
  ne_ops :: "'n node_ops"
  ne_service :: service_config
  ne_service_envs :: "real \<Rightarrow> 'n service_env"
  ne_now_ms :: int
  ne_now :: real
  ne_elapsed_us :: int
  ne_execution :: execution_env
  ne_expired :: "nat \<Rightarrow> bool"
  ne_forward :: "nat \<Rightarrow> ClusterMember \<Rightarrow> json result"

definition control_types :: "MessageType set" where
  "control_types = {JOIN_REQUEST, PING, PING_REQ, GOSSIP}"

definition crdt_types :: "MessageType set" where
  "crdt_types = {CRDT_MUTATE_REQUEST, CRDT_READ_REQUEST, CRDT_REPLICATE, CRDT_FETCH, CRDT_DIGEST}"

text \<open>\<open>Refused\<close>: the returns of an error response from within the \<^verbatim>\<open>try\<close> block.\<close>

datatype task_answer = Answered json | Refused int string

definition node_response ::
  "('n, 'p) node_env \<Rightarrow> 'n DistributedNode \<Rightarrow> Message \<Rightarrow> int \<Rightarrow> task_answer \<Rightarrow> Message result" where
  "node_response env x request processing_time_us outcome =
     (let success = (case outcome of Answered _ \<Rightarrow> True | Refused _ _ \<Rightarrow> False) in
      rbind (case outcome of
               Answered result \<Rightarrow>
                 encode_task_response (cc_response_ser (ne_cluster_codecs env)) True result 0 [] processing_time_us
             | Refused code text \<Rightarrow>
                 encode_task_response (cc_response_ser (ne_cluster_codecs env)) False JNull code text processing_time_us)
        (\<lambda>payload. Inr (new_response (ne_now_ms env) (cfg_node_id (nd_settings x)) (msg_correlation_id request) payload
                          (if success then RESPONSE else ERROR) 8 [] [])))"

section \<open>Tasks\<close>

definition execute_local ::
  "execution_env \<Rightarrow> string \<Rightarrow> json \<Rightarrow> Deadline \<Rightarrow> 'n DistributedNode \<Rightarrow> json result \<times> 'n DistributedNode" where
  "execute_local env task_name payload deadline x =
     (case try_acquire (nd_backpressure x) of
        (False, b) \<Rightarrow> (raise LocalOverloadedError ''node is at execution capacity'', x\<lparr>nd_backpressure := b\<rparr>)
      | (True, b) \<Rightarrow>
          (case executor_execute env (nd_executor x) task_name payload deadline of
             (r, ex) \<Rightarrow>
               (let r' = (case r of
                            Inl e \<Rightarrow>
                              if exn_cls e = WorkerPoolSaturatedError
                              then raise LocalOverloadedError ''worker pool pending capacity is full'' else Inl e
                          | Inr v \<Rightarrow> Inr v)
                in case release b of
                     (Inl e, b') \<Rightarrow> (Inl e, x\<lparr>nd_executor := ex, nd_backpressure := b'\<rparr>)
                   | (Inr _, b') \<Rightarrow> (r', x\<lparr>nd_executor := ex, nd_backpressure := b'\<rparr>))))"

text \<open>
  The loop of the cluster router with the state that the local candidate changes; without
  it, it is \<open>route_loop\<close>.
\<close>

fun route_stateful ::
  "string \<Rightarrow> (nat \<Rightarrow> bool) \<Rightarrow> (nat \<Rightarrow> ClusterMember \<Rightarrow> 's \<Rightarrow> 'r result \<times> 's) \<Rightarrow> nat \<Rightarrow> bool \<Rightarrow> ClusterMember list \<Rightarrow> 's \<Rightarrow>
     'r result \<times> 's" where
  "route_stateful local_node_id expired attempt i saw_failure [] s =
     (if saw_failure then raise PeerUnavailableError ''all cluster routing candidates are unavailable''
      else raise PeerUnavailableError ''no usable cluster routing candidate'', s)"
| "route_stateful local_node_id expired attempt i saw_failure (c # cs) s =
     (if expired i then (raise DeadlineExceeded ''request deadline exceeded during cluster routing'', s)
      else case attempt i c s of
             (Inr v, s') \<Rightarrow> (Inr v, s')
           | (Inl e, s') \<Rightarrow>
               if fails_over local_node_id c e then route_stateful local_node_id expired attempt (Suc i) True cs s'
               else (Inl e, s'))"

lemma route_stateful_route_loop:
  assumes "\<And>i c s. fst (attempt i c s) = f i c"
  shows "fst (route_stateful local_node_id expired attempt i saw cs s) = route_loop local_node_id expired f i saw cs"
proof (induction cs arbitrary: i saw s)
  case (Cons c cs)
  obtain r s' where "attempt i c s = (r, s')" by fastforce
  then show ?case using Cons.IH assms [of i c s] by (auto split: sum.splits)
qed simp

definition route_task ::
  "('n, 'p) node_env \<Rightarrow> ClusterService \<Rightarrow> TaskRequestData \<Rightarrow> Deadline \<Rightarrow> 'n DistributedNode \<Rightarrow> json result \<times> 'n DistributedNode" where
  "route_task env cluster request deadline x =
     (let local_id = cfg_node_id (nd_settings x) in
      case candidates (cs_ring cluster) (td_routing_key request) of
        Inl e \<Rightarrow> (Inl e, x)
      | Inr members \<Rightarrow>
          route_stateful local_id (ne_expired env)
            (\<lambda>i c s. if cm_node c = local_id
                     then execute_local (ne_execution env) (td_task_name request) (td_payload request) deadline s
                     else (ne_forward env i c, s)) 0 False members x)"

definition answered :: "json result \<times> 's \<Rightarrow> task_answer result \<times> 's" where
  "answered rs = (case rs of (r, s) \<Rightarrow> (rbind r (\<lambda>v. Inr (Answered v)), s))"

text \<open>The two arms of the \<^verbatim>\<open>try\<close> block, with the task name for the error message.\<close>

definition serve_forwarded ::
  "('n, 'p) node_env \<Rightarrow> Message \<Rightarrow> 'n DistributedNode \<Rightarrow> string \<times> task_answer result \<times> 'n DistributedNode" where
  "serve_forwarded env message x =
     (case nd_cluster x of
        None \<Rightarrow> (''unknown'', Inr (Refused INVALID_REQUEST ''cluster mode is disabled''), x)
      | Some cluster \<Rightarrow>
          (case decode_forwarded_request (cc_task_ser (ne_cluster_codecs env)) (cc_task_par (ne_cluster_codecs env))
                  (cc_forwarded_par (ne_cluster_codecs env)) (msg_payload message) of
             Inl e \<Rightarrow> (''unknown'', Inl e, x)
           | Inr forwarded \<Rightarrow>
               (let name = td_task_name (fd_task forwarded) in
                if fd_remaining_timeout_ms forwarded \<le> 0
                then (name, raise DeadlineExceeded ''forwarded request deadline exceeded'', x)
                else case deadline_after (real_of_int (fd_remaining_timeout_ms forwarded) / 1000) (ne_now env) of
                       Inl e \<Rightarrow> (name, Inl e, x)
                     | Inr deadline \<Rightarrow>
                         (name, answered (execute_local (ne_execution env) name (td_payload (fd_task forwarded)) deadline x)))))"

definition serve_request ::
  "('n, 'p) node_env \<Rightarrow> Message \<Rightarrow> 'n DistributedNode \<Rightarrow> string \<times> task_answer result \<times> 'n DistributedNode" where
  "serve_request env message x =
     (case decode_task_request (cc_task_par (ne_cluster_codecs env)) (msg_payload message) of
        Inl e \<Rightarrow> (''unknown'', Inl e, x)
      | Inr request \<Rightarrow>
          (let name = td_task_name request in
           case allow (nd_rate_limiter x) (ne_now env) 1 of
             (Inl e, limiter) \<Rightarrow> (name, Inl e, x\<lparr>nd_rate_limiter := limiter\<rparr>)
           | (Inr False, limiter) \<Rightarrow>
               (name, Inr (Refused RATE_LIMITED ''request rate limit exceeded''), x\<lparr>nd_rate_limiter := limiter\<rparr>)
           | (Inr True, limiter) \<Rightarrow>
               (let x' = x\<lparr>nd_rate_limiter := limiter\<rparr> in
                case deadline_after (cfg_request_timeout_seconds (nd_settings x)) (ne_now env) of
                  Inl e \<Rightarrow> (name, Inl e, x')
                | Inr deadline \<Rightarrow>
                    (name, answered
                       (case nd_cluster x of
                          Some cluster \<Rightarrow>
                            if td_routing_key request \<noteq> [] then route_task env cluster request deadline x'
                            else execute_local (ne_execution env) name (td_payload request) deadline x'
                        | None \<Rightarrow> execute_local (ne_execution env) name (td_payload request) deadline x')))))"

text \<open>The \<^verbatim>\<open>except\<close> clauses in their order.\<close>

definition task_error :: "string \<Rightarrow> exn \<Rightarrow> (int \<times> string) option" where
  "task_error task_name e =
     (if exn_cls e = UnknownTaskError then Some (UNKNOWN_TASK, ''unknown task: '' @ task_name)
      else if exn_cls e = DecodeError \<or> exn_cls e = TaskValidationError then Some (INVALID_REQUEST, exn_msg e)
      else if exn_cls e = DeadlineExceeded then Some (TIMEOUT, ''request deadline exceeded'')
      else if exn_cls e = LocalOverloadedError then Some (OVERLOADED, exn_msg e)
      else if exn_cls e = NoRouteError then Some (NO_ROUTE, exn_msg e)
      else if exn_cls e = PeerUnavailableError then Some (PEER_UNAVAILABLE, exn_msg e)
      else case exn_cls e of
             Is_RuntimeError (PeerApplicationErrorR code) \<Rightarrow> Some (code, exn_msg e)
           | _ \<Rightarrow> if is_Exception e then Some (INTERNAL_ERROR, ''internal server error'') else None)"

definition handle_task :: "('n, 'p) node_env \<Rightarrow> Message \<Rightarrow> 'n DistributedNode \<Rightarrow> Message result \<times> 'n DistributedNode" where
  "handle_task env message x =
     (let (task_name, outcome, x') =
            (if msg_type message = FORWARDED_REQUEST then serve_forwarded env message x else serve_request env message x) in
      case rbind outcome (node_response env x' message (ne_elapsed_us env)) of
        Inr response \<Rightarrow> (Inr response, x')
      | Inl e \<Rightarrow>
          (case task_error task_name e of
             None \<Rightarrow> (Inl e, x')
           | Some (code, text) \<Rightarrow> (node_response env x' message (ne_elapsed_us env) (Refused code text), x')))"

section \<open>Control and CRDT messages\<close>

definition node_control ::
  "('n, 'p) node_env \<Rightarrow> Message \<Rightarrow> 'n DistributedNode \<Rightarrow> 'p \<Rightarrow> Message result \<times> 'n DistributedNode \<times> 'p" where
  "node_control env message x p =
     (case nd_cluster x of
        None \<Rightarrow> (node_response env x message 0 (Refused INVALID_REQUEST ''cluster mode is disabled''), x, p)
      | Some cluster \<Rightarrow>
          (case handle_control (ne_cluster_codecs env) (ne_peers env) (ne_now_ms env) message cluster p of
             (r, cluster', p') \<Rightarrow>
               (let x' = x\<lparr>nd_cluster := Some cluster'\<rparr> in
                (case r of
                   Inl e \<Rightarrow>
                     if exn_cls e = DecodeError then node_response env x' message 0 (Refused INVALID_REQUEST (exn_msg e)) else Inl e
                 | Inr response \<Rightarrow> Inr response, x', p'))))"

definition crdt_refusal :: "('n, 'p) node_env \<Rightarrow> 'n DistributedNode \<Rightarrow> Message \<Rightarrow> int \<Rightarrow> string \<Rightarrow> Message result" where
  "crdt_refusal env x message code text =
     rbind (encode_crdt_response (co_response_ser (ne_codecs env))
              \<lparr>rs_success = False, rs_type = None, rs_value = JNull, rs_token = token_empty, rs_served_by = cfg_node_id (nd_settings x),
               rs_repair = False, rs_error_code = code, rs_error_message = text, rs_state = None, rs_frontier = vv_empty\<rparr>)
       (\<lambda>payload. Inr (new_response (ne_now_ms env) (cfg_node_id (nd_settings x)) (msg_correlation_id message) payload
                         CRDT_RESPONSE 8 [] []))"

definition recovery_gate :: "'n DistributedNode \<Rightarrow> Message \<Rightarrow> bool" where
  "recovery_gate x message =
     (cfg_crdt_enabled (nd_settings x) \<and> cfg_persistence_enabled (nd_settings x) \<and>
      msg_type message \<in> {CRDT_MUTATE_REQUEST, CRDT_READ_REQUEST} \<and> \<not> hs_readiness (nd_health x))"

definition node_crdt :: "('n, 'p) node_env \<Rightarrow> Message \<Rightarrow> 'n DistributedNode \<Rightarrow> Message result \<times> 'n DistributedNode" where
  "node_crdt env message x =
     (if recovery_gate x message
      then (crdt_refusal env x message RECOVERY_IN_PROGRESS ''durable recovery is still in progress'', x)
      else case nd_crdt x of
             Some service \<Rightarrow>
               (case handle_message (ne_ops env) (ne_codecs env) (ne_service env) (cfg_request_timeout_seconds (nd_settings x))
                       (ne_service_envs env) (ne_now_ms env) message service of
                  (r, service') \<Rightarrow> (r, x\<lparr>nd_crdt := Some service'\<rparr>))
           | None \<Rightarrow> (crdt_refusal env x message INVALID_REQUEST ''CRDT mode is disabled'', x))"

definition node_handle ::
  "('n, 'p) node_env \<Rightarrow> Message \<Rightarrow> 'n DistributedNode \<Rightarrow> 'p \<Rightarrow> Message result \<times> 'n DistributedNode \<times> 'p" where
  "node_handle env message x p =
     (if msg_type message \<in> control_types then node_control env message x p
      else if msg_type message \<in> crdt_types then (case node_crdt env message x of (r, x') \<Rightarrow> (r, x', p))
      else if msg_type message \<notin> {REQUEST, FORWARDED_REQUEST}
      then (node_response env x message 0
              (Refused INVALID_REQUEST (''unsupported message type: '' @ type_name (msg_type message))), x, p)
      else case handle_task env message x of (r, x') \<Rightarrow> (r, x', p))"

section \<open>Connections\<close>

text \<open>
  \<open>ssl\<close> is the SSL object of the connection as its peer certificate; \<^verbatim>\<open>getpeercert()\<close> gives
  an empty dictionary, or \<^verbatim>\<open>None\<close>, for a peer without one.
\<close>

definition verify_authenticated_sender :: "Settings \<Rightarrow> cert option \<Rightarrow> Message \<Rightarrow> unit result" where
  "verify_authenticated_sender settings ssl message =
     (if \<not> cfg_tls_enabled settings then Inr ()
      else case ssl of
             None \<Rightarrow> raise TlsPeerIdentityError ''TLS connection did not expose an SSL object''
           | Some cert \<Rightarrow>
               (if cert = []
                then if cfg_mtls_required settings then raise TlsPeerIdentityError ''mTLS peer did not present a certificate''
                     else Inr ()
                else verify_node_identity cert (msg_sender_id message)))"

text \<open>
  \<^verbatim>\<open>handle_connection\<close> on what the reads of the connection give, one after the other; the
  result is what ended it, and the frames it wrote. \<open>envs\<close> is the environment of each message.
\<close>

fun handle_connection ::
  "Envelope serializer \<Rightarrow> cert option \<Rightarrow> (nat \<Rightarrow> ('n, 'p) node_env) \<Rightarrow> nat \<Rightarrow> Message result list \<Rightarrow> 'n DistributedNode \<Rightarrow> 'p \<Rightarrow>
     unit result \<times> char list list \<times> 'n DistributedNode \<times> 'p" where
  "handle_connection ser ssl envs i [] x p = (Inr (), [], x, p)"
| "handle_connection ser ssl envs i (incoming # rest) x p =
     (if nd_stopping x then (Inr (), [], x, p)
      else case incoming of
             Inl e \<Rightarrow>
               (if exn_cls e = IncompleteReadError \<or> is_ProtocolError (exn_cls e) then Inr () else Inl e, [], x, p)
           | Inr message \<Rightarrow>
               (case verify_authenticated_sender (nd_settings x) ssl message of
                  Inl e \<Rightarrow> (if exn_cls e = TlsPeerIdentityError then Inr () else Inl e, [], x, p)
                | Inr _ \<Rightarrow>
                    (case node_handle (envs i) message x p of
                       (r, x', p') \<Rightarrow>
                         (case rbind r (encode_frame ser (cfg_max_frame_size (nd_settings x'))) of
                            Inl e \<Rightarrow> (Inl e, [], x', p')
                          | Inr frame \<Rightarrow>
                              (case handle_connection ser ssl envs (Suc i) rest x' p' of
                                 (q, frames, x'', p'') \<Rightarrow> (q, frame # frames, x'', p''))))))"

section \<open>A request is answered with the value of its task\<close>

definition serving_ok :: "'n DistributedNode \<Rightarrow> bool" where
  "serving_ok x \<longleftrightarrow> 0 \<le> bp_in_flight (nd_backpressure x) \<and> (\<exists>jobs. pool_reach (te_pool (nd_executor x)) jobs)"

text \<open>What a task may change of a node: the rate limiter and the pool.\<close>

definition task_frame :: "'n DistributedNode \<Rightarrow> 'n DistributedNode \<Rightarrow> bool" where
  "task_frame x x' \<longleftrightarrow> serving_ok x' \<and> nd_settings x' = nd_settings x \<and> nd_backpressure x' = nd_backpressure x \<and>
     nd_cluster x' = nd_cluster x \<and> nd_crdt x' = nd_crdt x \<and> nd_health x' = nd_health x \<and> nd_stopping x' = nd_stopping x \<and>
     te_router (nd_executor x') = te_router (nd_executor x) \<and> te_classifier (nd_executor x') = te_classifier (nd_executor x)"

lemma task_frame_refl: "serving_ok x \<Longrightarrow> task_frame x x"
  by (simp add: task_frame_def)

lemma task_frame_trans: "task_frame x y \<Longrightarrow> task_frame y z \<Longrightarrow> task_frame x z"
  by (simp add: task_frame_def)

lemma task_frame_limiter: "task_frame (x\<lparr>nd_rate_limiter := l\<rparr>) y \<Longrightarrow> task_frame x y"
  by (simp add: task_frame_def)

lemma execute_local_spec:
  assumes "serving_ok x" "execute_local env task_name payload deadline x = (r, x')"
  shows "task_frame x x' \<and> (\<forall>v. r = Inr v \<longrightarrow> dispatch (te_router (nd_executor x)) task_name payload = Inr v)"
proof (cases "bp_in_flight (nd_backpressure x) \<ge> bp_capacity (nd_backpressure x)")
  case True
  then show ?thesis using assms by (auto simp: execute_local_def try_acquire_def task_frame_def serving_ok_def)
next
  case False
  obtain jobs where jobs: "pool_reach (te_pool (nd_executor x)) jobs" using assms(1) by (auto simp: serving_ok_def)
  obtain q ex where q: "executor_execute env (nd_executor x) task_name payload deadline = (q, ex)" by fastforce
  note spec = executor_execute_spec [OF jobs q]
  have "0 \<le> bp_in_flight (nd_backpressure x)" using assms(1) by (simp add: serving_ok_def)
  then have r: "x' = x\<lparr>nd_executor := ex, nd_backpressure := nd_backpressure x\<rparr>"
    "r = (case q of Inl e \<Rightarrow> if exn_cls e = WorkerPoolSaturatedError
       then raise LocalOverloadedError ''worker pool pending capacity is full'' else Inl e | Inr v \<Rightarrow> Inr v)"
    using assms(2) q False by (auto simp: execute_local_def try_acquire_def release_def Let_def)
  have frame: "task_frame x x'" using spec r(1) assms(1) by (auto simp: task_frame_def serving_ok_def)
  have "q = Inr v" if "r = Inr v" for v using that r(2) by (auto split: sum.splits if_splits)
  then have "dispatch (te_router (nd_executor x)) task_name payload = Inr v" if "r = Inr v" for v using spec that by auto
  with frame show ?thesis by blast
qed

lemma route_stateful_spec:
  assumes step: "\<And>i c s r s'. serving_ok s \<Longrightarrow> te_router (nd_executor s) = R \<Longrightarrow> attempt i c s = (r, s') \<Longrightarrow>
      task_frame s s' \<and> (\<forall>v. r = Inr v \<longrightarrow> P v)"
    and "serving_ok x" "te_router (nd_executor x) = R" "route_stateful local_id expired attempt i saw cs x = (r, x')"
  shows "task_frame x x' \<and> (\<forall>v. r = Inr v \<longrightarrow> P v)"
  using assms(2-4)
proof (induction cs arbitrary: i saw x)
  case Nil
  then show ?case by (auto simp: task_frame_refl split: if_splits)
next
  case (Cons c cs)
  obtain q s where q: "attempt i c x = (q, s)" by fastforce
  note one = step [OF Cons.prems(1,2) q]
  have s: "serving_ok s" "te_router (nd_executor s) = R" using one Cons.prems(2) by (simp_all add: task_frame_def)
  show ?case
  proof (cases "expired i")
    case True
    then show ?thesis using Cons.prems by (auto simp: task_frame_refl)
  next
    case False
    show ?thesis
    proof (cases q)
      case (Inr v)
      then show ?thesis using Cons.prems(3) False q one by auto
    next
      case (Inl e)
      show ?thesis
      proof (cases "fails_over local_id c e")
        case True
        then have "route_stateful local_id expired attempt (Suc i) True cs s = (r, x')" using Cons.prems(3) False q Inl by simp
        from Cons.IH [OF s this] one show ?thesis using task_frame_trans by blast
      next
        case False
        then show ?thesis using Cons.prems(3) \<open>\<not> expired i\<close> q Inl one by auto
      qed
    qed
  qed
qed

text \<open>The task a message asks for.\<close>

definition asked :: "('n, 'p) node_env \<Rightarrow> Message \<Rightarrow> (string \<times> json) option" where
  "asked env message =
     (if msg_type message = FORWARDED_REQUEST
      then case decode_forwarded_request (cc_task_ser (ne_cluster_codecs env)) (cc_task_par (ne_cluster_codecs env))
                  (cc_forwarded_par (ne_cluster_codecs env)) (msg_payload message) of
             Inl e \<Rightarrow> None | Inr f \<Rightarrow> Some (td_task_name (fd_task f), td_payload (fd_task f))
      else case decode_task_request (cc_task_par (ne_cluster_codecs env)) (msg_payload message) of
             Inl e \<Rightarrow> None | Inr q \<Rightarrow> Some (td_task_name q, td_payload q))"

text \<open>A value that may be answered: the registered task computes it, or another node sent it.\<close>

definition computed :: "('n, 'p) node_env \<Rightarrow> Message \<Rightarrow> 'n DistributedNode \<Rightarrow> json \<Rightarrow> bool" where
  "computed env message x v \<longleftrightarrow>
     (\<exists>name payload. asked env message = Some (name, payload) \<and> dispatch (te_router (nd_executor x)) name payload = Inr v) \<or>
     msg_type message = REQUEST \<and> (\<exists>i c. cm_node c \<noteq> cfg_node_id (nd_settings x) \<and> ne_forward env i c = Inr v)"

lemma route_task_spec:
  assumes "serving_ok x" "route_task env cluster q deadline x = (r, x')"
  shows "task_frame x x' \<and> (\<forall>v. r = Inr v \<longrightarrow> dispatch (te_router (nd_executor x)) (td_task_name q) (td_payload q) = Inr v \<or>
    (\<exists>i c. cm_node c \<noteq> cfg_node_id (nd_settings x) \<and> ne_forward env i c = Inr v))"
proof (cases "candidates (cs_ring cluster) (td_routing_key q)")
  case (Inl e)
  then show ?thesis using assms by (auto simp: route_task_def Let_def task_frame_refl)
next
  case (Inr members)
  let ?a = "\<lambda>i c s. if cm_node c = cfg_node_id (nd_settings x)
      then execute_local (ne_execution env) (td_task_name q) (td_payload q) deadline s else (ne_forward env i c, s)"
  have run: "route_stateful (cfg_node_id (nd_settings x)) (ne_expired env) ?a 0 False members x = (r, x')"
    using assms(2) Inr by (simp add: route_task_def Let_def)
  show ?thesis
    by (rule route_stateful_spec [OF _ assms(1) refl run])
      (auto simp: task_frame_refl dest: execute_local_spec split: if_splits)
qed

lemma serve_spec:
  assumes "serving_ok x" "msg_type message \<in> {REQUEST, FORWARDED_REQUEST}"
    and "(if msg_type message = FORWARDED_REQUEST then serve_forwarded env message x else serve_request env message x) = (name, r, x')"
  shows "task_frame x x' \<and> (\<forall>v. r = Inr (Answered v) \<longrightarrow> computed env message x v)"
proof (cases "msg_type message = FORWARDED_REQUEST")
  case True
  let ?dec = "decode_forwarded_request (cc_task_ser (ne_cluster_codecs env)) (cc_task_par (ne_cluster_codecs env))
      (cc_forwarded_par (ne_cluster_codecs env)) (msg_payload message)"
  have run: "serve_forwarded env message x = (name, r, x')" using assms(3) True by simp
  show ?thesis
  proof (cases "(\<exists>v. r = Inr (Answered v)) \<or> x' \<noteq> x")
    case False
    then show ?thesis using assms(1) by (auto simp: task_frame_refl)
  next
    case moved: True
    obtain f deadline q where f: "?dec = Inr f"
      and q: "execute_local (ne_execution env) (td_task_name (fd_task f)) (td_payload (fd_task f)) deadline x = (q, x')"
        "r = rbind q (\<lambda>v. Inr (Answered v))"
      using run moved by (auto simp: serve_forwarded_def answered_def Let_def split: option.splits sum.splits if_splits prod.splits)
    show ?thesis using execute_local_spec [OF assms(1) q(1)] q(2) True f by (auto simp: computed_def asked_def rbind_eq_Inr)
  qed
next
  case False
  have run: "serve_request env message x = (name, r, x')" using assms(3) False by simp
  show ?thesis
  proof (cases "decode_task_request (cc_task_par (ne_cluster_codecs env)) (msg_payload message)")
    case (Inl e)
    then show ?thesis using run assms(1) by (auto simp: serve_request_def task_frame_refl)
  next
    case (Inr request)
    obtain a l where a: "allow (nd_rate_limiter x) (ne_now env) 1 = (a, l)" by fastforce
    let ?y = "x\<lparr>nd_rate_limiter := l\<rparr>"
    have y: "serving_ok ?y" using assms(1) by (simp add: serving_ok_def)
    have asked: "asked env message = Some (td_task_name request, td_payload request)" using False Inr by (simp add: asked_def)
    show ?thesis
    proof (cases "(\<exists>v. r = Inr (Answered v)) \<or> x' \<noteq> ?y")
      case False
      then show ?thesis using task_frame_limiter [OF task_frame_refl [OF y]] by auto
    next
      case True
      obtain deadline q where q: "r = rbind q (\<lambda>v. Inr (Answered v))"
        and alt: "execute_local (ne_execution env) (td_task_name request) (td_payload request) deadline ?y = (q, x') \<or>
          (\<exists>cluster. route_task env cluster request deadline ?y = (q, x'))"
        using run Inr a True
        by (auto simp: serve_request_def answered_def Let_def split: option.splits sum.splits if_splits prod.splits bool.splits)
      have "task_frame ?y x' \<and> (\<forall>v. q = Inr v \<longrightarrow> computed env message x v)"
        using alt execute_local_spec [OF y] route_task_spec [OF y] asked assms(2) \<open>msg_type message \<noteq> FORWARDED_REQUEST\<close>
        by (fastforce simp: computed_def)
      then show ?thesis using task_frame_limiter q by (auto simp: rbind_eq_Inr)
    qed
  qed
qed

lemma task_error_None: "task_error name e = None \<Longrightarrow> exn_cls e = CancelledError"
  by (auto simp: task_error_def is_Exception_def split: if_splits exn_class.splits runtime_error.splits)

definition answers_task :: "('n, 'p) node_env \<Rightarrow> 'n DistributedNode \<Rightarrow> Message \<Rightarrow> Message \<Rightarrow> bool" where
  "answers_task env x message response \<longleftrightarrow>
     msg_correlation_id response = msg_correlation_id message \<and> msg_sender_id response = cfg_node_id (nd_settings x) \<and>
     (msg_type response = RESPONSE \<and> (\<exists>v. computed env message x v \<and>
        encode_task_response (cc_response_ser (ne_cluster_codecs env)) True v 0 [] (ne_elapsed_us env) = Inr (msg_payload response)) \<or>
      msg_type response = ERROR \<and> (\<exists>code text.
        encode_task_response (cc_response_ser (ne_cluster_codecs env)) False JNull code text (ne_elapsed_us env) =
          Inr (msg_payload response)))"

lemma node_response_cases:
  "node_response env x' message (ne_elapsed_us env) outcome = Inr response \<Longrightarrow> nd_settings x' = nd_settings x \<Longrightarrow>
     (\<And>v. outcome = Answered v \<Longrightarrow> computed env message x v) \<Longrightarrow> answers_task env x message response"
  "node_response env x' message us outcome = Inl e \<Longrightarrow> \<exists>m. cc_response_ser (ne_cluster_codecs env) m = Inl e"
  by (auto simp: node_response_def answers_task_def new_response_def rbind_eq_Inr Let_def split: task_answer.splits)
    (auto simp: rbind_def encode_task_response_def split: sum.splits task_answer.splits)


section \<open>A connection answers its messages in order\<close>

lemma handle_control_correlation:
  "handle_control co env now_ms message s p = (Inr response, s', p') \<Longrightarrow>
     msg_correlation_id response = msg_correlation_id message"
  by (auto simp: handle_control_def handle_join_def handle_members_def handle_ping_request_def acknowledge_def control_response_def
      new_response_def rbind_eq_Inr Let_def split: MessageType.splits sum.splits prod.splits if_splits)

lemma node_response_correlation:
  "node_response env x message us outcome = Inr response \<Longrightarrow> msg_correlation_id response = msg_correlation_id message"
  "crdt_refusal env x message code text = Inr response \<Longrightarrow> msg_correlation_id response = msg_correlation_id message"
  by (auto simp: node_response_def crdt_refusal_def new_response_def rbind_eq_Inr Let_def)

lemma crdt_message_correlation:
  assumes "handle_message ops co cfg request_timeout envs now_ms message s = (Inr response, s')"
  shows "msg_correlation_id response = msg_correlation_id message"
proof (cases "\<exists>m s1. handle_body ops co cfg request_timeout envs now_ms message s = (Inr m, s1)")
  case True
  then show ?thesis using assms handle_body_answers by (fastforce simp: handle_message_def answers_def)
next
  case False
  then show ?thesis using assms wire_response_answers
    by (fastforce simp: handle_message_def answers_def split: prod.splits sum.splits option.splits)
qed

lemma handle_task_answers:
  assumes "serving_ok x" "msg_type message \<in> {REQUEST, FORWARDED_REQUEST}" "handle_task env message x = (r, x')"
  shows "task_frame x x'" "r = Inr response \<Longrightarrow> msg_correlation_id response = msg_correlation_id message"
proof -
  obtain name q y where s: "(if msg_type message = FORWARDED_REQUEST then serve_forwarded env message x
      else serve_request env message x) = (name, q, y)" by (rule prod_cases3)
  have "x' = y" using assms(3) s by (auto simp: handle_task_def split: sum.splits option.splits)
  then show "task_frame x x'" using serve_spec [OF assms(1,2) s] by simp
  show "r = Inr response \<Longrightarrow> msg_correlation_id response = msg_correlation_id message"
    using assms(3) s node_response_correlation(1)
    by (auto simp: handle_task_def rbind_eq_Inr split: sum.splits option.splits prod.splits)
qed

lemma node_handle_answers:
  assumes "serving_ok x" "node_handle env message x p = (r, x', p')"
  shows "serving_ok x' \<and> nd_settings x' = nd_settings x" "r = Inr response \<Longrightarrow> msg_correlation_id response = msg_correlation_id message"
proof -
  consider (control) "msg_type message \<in> control_types" "node_control env message x p = (r, x', p')"
    | (crdt) "node_crdt env message x = (r, x')" | (other) "x' = x" "\<exists>outcome. r = node_response env x message 0 outcome"
    | (task) "msg_type message \<in> {REQUEST, FORWARDED_REQUEST}" "handle_task env message x = (r, x')"
    using assms(2) by (auto simp: node_handle_def split: if_splits prod.splits)
  then have "serving_ok x' \<and> nd_settings x' = nd_settings x \<and>
      (\<forall>response. r = Inr response \<longrightarrow> msg_correlation_id response = msg_correlation_id message)"
  proof cases
    case control
    then show ?thesis using assms(1) handle_control_correlation node_response_correlation(1)
      by (fastforce simp: node_control_def serving_ok_def Let_def split: option.splits prod.splits sum.splits if_splits)
  next
    case crdt
    then show ?thesis using assms(1) crdt_message_correlation node_response_correlation(2)
      by (fastforce simp: node_crdt_def serving_ok_def split: option.splits prod.splits if_splits)
  next
    case other
    then show ?thesis using assms(1) node_response_correlation(1) by auto
  next
    case task
    then show ?thesis using handle_task_answers [OF assms(1) task] by (auto simp: task_frame_def)
  qed
  then show "serving_ok x' \<and> nd_settings x' = nd_settings x" "r = Inr response \<Longrightarrow> msg_correlation_id response = msg_correlation_id message"
    by blast+
qed

text \<open>What one written frame is: a response to the message read in its place, from a peer that was allowed to send it.\<close>

definition frame_answers :: "Envelope serializer \<Rightarrow> cert option \<Rightarrow> Settings \<Rightarrow> Message result \<Rightarrow> char list \<Rightarrow> bool" where
  "frame_answers ser ssl settings incoming frame \<longleftrightarrow>
     (\<exists>message response. incoming = Inr message \<and> verify_authenticated_sender settings ssl message = Inr () \<and>
        encode_frame ser (cfg_max_frame_size settings) response = Inr frame \<and>
        msg_correlation_id response = msg_correlation_id message)"

lemma connection_frames:
  assumes "serving_ok x" "handle_connection ser ssl envs i incoming x p = (q, frames, x', p')"
  shows "serving_ok x' \<and> nd_settings x' = nd_settings x \<and>
    list_all2 (frame_answers ser ssl (nd_settings x)) (take (length frames) incoming) frames"
  using assms
proof (induction incoming arbitrary: i x p q frames)
  case (Cons m rest)
  show ?case
  proof (cases "frames = []")
    case True
    then show ?thesis using Cons.prems
      by (auto split: sum.splits prod.splits if_splits dest: node_handle_answers(1))
  next
    case False
    then obtain message r x1 p1 frame q' frames' where m: "m = Inr message"
      "verify_authenticated_sender (nd_settings x) ssl message = Inr ()" "node_handle (envs i) message x p = (r, x1, p1)"
      "rbind r (encode_frame ser (cfg_max_frame_size (nd_settings x1))) = Inr frame"
      and rest: "handle_connection ser ssl envs (Suc i) rest x1 p1 = (q', frames', x', p')" "frames = frame # frames'"
      using Cons.prems(2) by (auto split: sum.splits prod.splits if_splits)
    note one = node_handle_answers [OF Cons.prems(1) m(3)]
    obtain response where resp: "r = Inr response" "encode_frame ser (cfg_max_frame_size (nd_settings x)) response = Inr frame"
      using m(4) one(1) by (auto simp: rbind_eq_Inr)
    have "frame_answers ser ssl (nd_settings x) m frame" using m(1,2) resp one(2) [OF resp(1)] by (auto simp: frame_answers_def)
    then show ?thesis using Cons.IH [OF conjunct1 [OF one(1)] rest(1)] one(1) rest(2) by simp
  qed
qed simp


section \<open>An example\<close>

definition echo_codecs :: cluster_codecs where
  "echo_codecs =
     \<lparr>cc_member_ser = \<lambda>_. Inr [], cc_member_par = \<lambda>_. None, cc_members_ser = \<lambda>_. Inr [], cc_members_par = \<lambda>_. None,
      cc_ack_ser = \<lambda>_. Inr [], cc_ack_par = \<lambda>_. None, cc_ping_request_ser = \<lambda>_. Inr [], cc_ping_request_par = \<lambda>_. None,
      cc_task_ser = \<lambda>_. Inr [],
      cc_task_par = \<lambda>_. Some \<lparr>tr_task_name = ''echo'', tr_payload_json = ''7'', tr_routing_key = []\<rparr>,
      cc_response_ser = \<lambda>_. Inr ''ok'', cc_response_par = \<lambda>_. None,
      cc_forwarded_ser = \<lambda>_. Inr [], cc_forwarded_par = \<lambda>_. None\<rparr>"

definition silent_peers :: "unit cluster_peers" where
  "silent_peers =
     \<lparr>pe_join = \<lambda>p _ _ _. (raise ConnectionError [], p), pe_ping = \<lambda>p _ _ _. (raise ConnectionError [], p),
      pe_ping_request = \<lambda>p _ _ _ _. (raise ConnectionError [], p), pe_gossip = \<lambda>p _ _ _. (raise ConnectionError [], p),
      pe_clock = \<lambda>_ _. 0, pe_others = \<lambda>_ s. s\<rparr>"

definition echo_env :: "(DurableNode, unit) node_env" where
  "echo_env =
     \<lparr>ne_codecs = example_codecs, ne_cluster_codecs = echo_codecs, ne_peers = silent_peers, ne_ops = durable_ops,
      ne_service = example_config, ne_service_envs = \<lambda>_. example_env, ne_now_ms = 0, ne_now = 0, ne_elapsed_us = 0,
      ne_execution = \<lparr>xe_now = 0, xe_refused = None, xe_in_time = \<lambda>_. True, xe_breaks = False\<rparr>,
      ne_expired = \<lambda>_. False, ne_forward = \<lambda>_ _. raise ConnectionError []\<rparr>"

definition echo_node :: "DurableNode DistributedNode" where
  "echo_node =
     \<lparr>nd_settings = default_settings,
      nd_executor = \<lparr>te_router = \<lparr>tr_handlers = [(''echo'', echo_task)]\<rparr>, te_classifier = \<lparr>tc_mapping = []\<rparr>,
        te_pool = \<lparr>wp_max_workers = 1, wp_max_pending = 1, wp_executor = False, wp_closed = False,
          wp_pending = \<lparr>pl_capacity = 1, pl_in_flight = 0\<rparr>\<rparr>\<rparr>,
      nd_backpressure = \<lparr>bp_capacity = 1, bp_in_flight = 0\<rparr>,
      nd_rate_limiter = \<lparr>tb_rate = 1, tb_burst = 1, tb_tokens = 1, tb_last = 0\<rparr>,
      nd_cluster = None, nd_crdt = None, nd_health = HealthState_init, nd_stopping = False\<rparr>"

definition echo_message :: Message where
  "echo_message = new_request ''id'' 0 ''client'' ''p'' None 8 REQUEST [] []"

lemma echo_node_ok: "serving_ok echo_node"
proof -
  have "pool_reach (te_pool (nd_executor echo_node)) 0"
    by (rule pool_reach.Start [of 1 1]) (simp add: WorkerPool_init_def echo_node_def)
  then show ?thesis by (auto simp: serving_ok_def echo_node_def)
qed

lemma echo_decoded: "decode_task_request (cc_task_par echo_codecs) (msg_payload echo_message) =
    Inr \<lparr>td_task_name = ''echo'', td_payload = JInt 7, td_routing_key = []\<rparr>"
  by code_simp

definition echo_response :: Message where
  "echo_response = new_response 0 (cfg_node_id default_settings) ''id'' ''ok'' RESPONSE 8 [] []"

lemma echo_run: "\<exists>x'. node_handle echo_env echo_message echo_node () = (Inr echo_response, x', ())"
proof -
  have m: "msg_type echo_message = REQUEST" "msg_correlation_id echo_message = ''id''"
    by (simp_all add: echo_message_def new_request_def)
  have e: "ne_cluster_codecs echo_env = echo_codecs" "ne_now echo_env = 0" "ne_now_ms echo_env = 0"
    "ne_execution echo_env = \<lparr>xe_now = 0, xe_refused = None, xe_in_time = \<lambda>_. True, xe_breaks = False\<rparr>"
    by (simp_all add: echo_env_def)
  let ?x = "echo_node\<lparr>nd_rate_limiter := \<lparr>tb_rate = 1, tb_burst = 1, tb_tokens = 0, tb_last = 0\<rparr>\<rparr>"
  have s: "serve_request echo_env echo_message echo_node = (''echo'', Inr (Answered (JInt 7)), ?x)"
    by (simp add: serve_request_def e echo_decoded allow_def refill_def deadline_after_def answered_def execute_local_def
        try_acquire_def release_def executor_execute_def classify_def deadline_run_def remaining_def dispatch_def
        router_resolve_def echo_task_def echo_node_def default_settings_def Let_def)
  have "node_response echo_env ?x echo_message (ne_elapsed_us echo_env) (Answered (JInt 7)) = Inr echo_response"
    by (simp add: node_response_def e encode_task_response_def echo_codecs_def echo_response_def m echo_node_def)
  then have "handle_task echo_env echo_message echo_node = (Inr echo_response, ?x)" using s m by (simp add: handle_task_def)
  then show ?thesis using m by (simp add: node_handle_def control_types_def crdt_types_def)
qed


lemma echo_frame: "\<exists>frame. encode_frame (\<lambda>_. Inr ''body'') (cfg_max_frame_size default_settings) echo_response = Inr frame"
  by (simp add: encode_frame_def encode_envelope_def header_pack_def echo_response_def new_response_def default_settings_def
      DEFAULT_MAX_FRAME_SIZE_def)


end
