(* ===== verification/Coordination.thy ===== *)
theory Coordination
  imports Config Cluster_Wire
begin

text \<open>
  Coordination through etcd, \<^verbatim>\<open>src/src/distsys/coordination\<close>: the records kept there and
  their JSON form, the client with its leases, the renewal of the node's lease, and the
  discovery of seeds. The etcd3gw client and the etcd cluster behind it are the parameter
  \<open>etcd\<close>; each of its calls runs in a thread and may raise anything. The theorems: a member
  read back from etcd is the one that was written, discovered seeds are validated and name
  their nodes, and the health that the node publishes follows its lease.
\<close>

section \<open>Records\<close>

definition coordination_namespace :: "string \<Rightarrow> string result" where
  "coordination_namespace value =
     (let cleaned = ''/'' @ strip_char (CHR ''/'') value in
      if cleaned = ''/'' then raise ValueError ''coordination namespace must not be empty'' else Inr cleaned)"

definition member_key :: "string \<Rightarrow> string \<Rightarrow> string result" where
  "member_key namespace node_id =
     (if node_id = [] then raise ValueError ''node_id must not be empty''
      else rbind (coordination_namespace namespace) (\<lambda>ns. Inr (ns @ ''/members/'' @ node_id)))"

definition node_metadata_key :: "string \<Rightarrow> string \<Rightarrow> string result" where
  "node_metadata_key namespace node_id =
     (if node_id = [] then raise ValueError ''node_id must not be empty''
      else rbind (coordination_namespace namespace) (\<lambda>ns. Inr (ns @ ''/nodes/'' @ node_id @ ''/metadata'')))"

record LeaseHandle =
  lh_lease_id :: int
  lh_ttl_seconds :: int

definition LeaseHandle_init :: "int \<Rightarrow> int \<Rightarrow> LeaseHandle result" where
  "LeaseHandle_init lease_id ttl_seconds =
     (if lease_id \<le> 0 then raise ValueError ''lease_id must be positive''
      else if ttl_seconds \<le> 0 then raise ValueError ''ttl_seconds must be positive''
      else Inr \<lparr>lh_lease_id = lease_id, lh_ttl_seconds = ttl_seconds\<rparr>)"

record CoordinationMember =
  co_node_id :: string
  co_node_uuid :: string
  co_host :: string
  co_port :: int
  co_incarnation :: int
  co_protocol_version :: int
  co_release :: string
  co_tls_required :: bool

definition CoordinationMember_init :: "CoordinationMember \<Rightarrow> CoordinationMember result" where
  "CoordinationMember_init m =
     (if co_node_id m = [] then raise ValueError ''node_id must not be empty''
      else if co_node_uuid m = [] then raise ValueError ''node_uuid must not be empty''
      else if co_host m = [] then raise ValueError ''host must not be empty''
      else if \<not> (1 \<le> co_port m \<and> co_port m \<le> 65535) then raise ValueError ''port must be between 1 and 65535''
      else if co_incarnation m < 1 then raise ValueError ''membership_incarnation must be positive''
      else if co_protocol_version m < 1 then raise ValueError ''protocol_version must be positive''
      else if co_release m = [] then raise ValueError ''release must not be empty''
      else Inr m)"

record CoordinationHealth =
  ch_healthy :: bool
  ch_connected :: bool
  ch_lease_id :: "int option"
  ch_message :: string

section \<open>JSON\<close>

text \<open>
  \<^verbatim>\<open>json.dumps\<close> escapes what is not printable ASCII, unlike the printer of \<^verbatim>\<open>Json\<close>; outside
  strings a JSON text has no such character.
\<close>

definition ascii_char :: "char \<Rightarrow> string" where
  "ascii_char c =
     (let n = (of_char c :: nat) in
      if n < 127 then [c] else [CHR 0x5C, CHR ''u'', CHR ''0'', CHR ''0'', hex_digit (n div 16), hex_digit (n mod 16)])"

definition dumps_ascii_sorted :: "json \<Rightarrow> string" where
  "dumps_ascii_sorted v = concat (map ascii_char (dumps_sorted v))"

definition coordination_to_json :: "CoordinationMember \<Rightarrow> string" where
  "coordination_to_json m =
     dumps_ascii_sorted (JObj
       [(''host'', JStr (co_host m)), (''membership_incarnation'', JInt (co_incarnation m)),
        (''node_id'', JStr (co_node_id m)), (''node_uuid'', JStr (co_node_uuid m)), (''port'', JInt (co_port m)),
        (''protocol_version'', JInt (co_protocol_version m)), (''release'', JStr (co_release m)),
        (''tls_required'', JBool (co_tls_required m))])"

text \<open>
  \<^verbatim>\<open>str\<close>, \<^verbatim>\<open>int\<close> and \<^verbatim>\<open>bool\<close> of a JSON value. The representation of a list or a dictionary
  as a string is outside the model.
\<close>

definition py_str_of :: "json \<Rightarrow> string result" where
  "py_str_of v =
     (case v of
        JStr s \<Rightarrow> Inr s | JInt i \<Rightarrow> Inr (str_int i) | JBool b \<Rightarrow> Inr (if b then ''True'' else ''False'') | JNull \<Rightarrow> Inr ''None''
      | _ \<Rightarrow> raise OutsideModel ''str of a list or a dictionary'')"

definition py_int_of :: "json \<Rightarrow> int result" where
  "py_int_of v =
     (case v of
        JInt i \<Rightarrow> Inr i
      | JBool b \<Rightarrow> Inr (if b then 1 else 0)
      | JStr s \<Rightarrow>
          (case py_int s of
             None \<Rightarrow> raise ValueError (''invalid literal for int() with base 10: '' @ s)
           | Some i \<Rightarrow> Inr i)
      | _ \<Rightarrow> raise TypeError ''int() argument must be a string, a bytes-like object or a real number'')"

definition py_bool_of :: "json \<Rightarrow> bool" where
  "py_bool_of v =
     (case v of
        JNull \<Rightarrow> False | JBool b \<Rightarrow> b | JInt i \<Rightarrow> i \<noteq> 0 | JStr s \<Rightarrow> s \<noteq> [] | JArr xs \<Rightarrow> xs \<noteq> [] | JObj kvs \<Rightarrow> kvs \<noteq> [])"

definition field :: "(string \<times> json) list \<Rightarrow> string \<Rightarrow> json result" where
  "field kvs k = (case map_of kvs k of None \<Rightarrow> raise KeyError k | Some v \<Rightarrow> Inr v)"

definition member_of_object :: "(string \<times> json) list \<Rightarrow> CoordinationMember result" where
  "member_of_object data =
     rbind (rbind (field data ''node_id'') py_str_of) (\<lambda>node_id.
     rbind (rbind (field data ''node_uuid'') py_str_of) (\<lambda>node_uuid.
     rbind (rbind (field data ''host'') py_str_of) (\<lambda>host.
     rbind (rbind (field data ''port'') py_int_of) (\<lambda>port.
     rbind (rbind (field data ''membership_incarnation'') py_int_of) (\<lambda>incarnation.
     rbind (rbind (field data ''protocol_version'') py_int_of) (\<lambda>protocol_version.
     rbind (rbind (field data ''release'') py_str_of) (\<lambda>release.
     rbind (field data ''tls_required'') (\<lambda>tls_required.
       CoordinationMember_init
         \<lparr>co_node_id = node_id, co_node_uuid = node_uuid, co_host = host, co_port = port, co_incarnation = incarnation,
          co_protocol_version = protocol_version, co_release = release, co_tls_required = py_bool_of tls_required\<rparr>))))))))"

text \<open>\<^verbatim>\<open>from_json\<close> of bytes: they are decoded before the \<^verbatim>\<open>try\<close> block.\<close>

definition coordination_from_json :: "char list \<Rightarrow> CoordinationMember result" where
  "coordination_from_json raw =
     rbind (utf8_decode raw) (\<lambda>text.
       case loads text of
         Inl e \<Rightarrow> if exn_cls e = JSONDecodeError then raise ValueError ''invalid coordination member JSON'' else Inl e
       | Inr (JObj data) \<Rightarrow> member_of_object data
       | Inr _ \<Rightarrow> raise TypeError ''coordination member payload must be an object'')"

section \<open>The etcd client\<close>

text \<open>
  The third-party client: \<open>et_lease\<close> gives a lease object with its id, \<open>et_refresh\<close> the remaining
  time if it is a number, \<open>et_get_prefix\<close> the values of the keys under a prefix.
\<close>

record ('e, 'l) etcd =
  et_status :: "'e \<Rightarrow> string \<Rightarrow> unit result \<times> 'e"
  et_lease :: "'e \<Rightarrow> int \<Rightarrow> ('l \<times> int) result \<times> 'e"
  et_refresh :: "'e \<Rightarrow> 'l \<Rightarrow> real option result \<times> 'e"
  et_put :: "'e \<Rightarrow> string \<Rightarrow> char list \<Rightarrow> 'l option \<Rightarrow> unit result \<times> 'e"
  et_get_prefix :: "'e \<Rightarrow> string \<Rightarrow> char list list result \<times> 'e"

record 'l EtcdClient =
  eg_endpoints :: "string list"
  eg_namespace :: string
  eg_timeout :: real
  eg_client :: "string option"
  eg_leases :: "(int, 'l) dict"

definition EtcdClient_init :: "string list \<Rightarrow> string \<Rightarrow> real \<Rightarrow> 'l EtcdClient result" where
  "EtcdClient_init endpoints namespace timeout_seconds =
     (if endpoints = [] then raise ValueError ''at least one etcd endpoint is required''
      else if timeout_seconds \<le> 0 then raise ValueError ''timeout_seconds must be greater than zero''
      else Inr \<lparr>eg_endpoints = endpoints, eg_namespace = ''/'' @ strip_char (CHR ''/'') namespace, eg_timeout = timeout_seconds,
                eg_client = None, eg_leases = []\<rparr>)"

text \<open>
  \<^verbatim>\<open>urlparse\<close> for endpoints without brackets: the scheme up to the first colon, and between
  the two slashes and the path the host and the port, after an optional user.
\<close>

definition scheme_char :: "char \<Rightarrow> bool" where
  "scheme_char c =
     (let n = (of_char c :: nat) in
      65 \<le> n \<and> n \<le> 90 \<or> 97 \<le> n \<and> n \<le> 122 \<or> dec_digit c \<or> c \<in> {CHR ''+'', CHR ''-'', CHR ''.''})"

definition alpha :: "char \<Rightarrow> bool" where
  "alpha c = (let n = (of_char c :: nat) in 65 \<le> n \<and> n \<le> 90 \<or> 97 \<le> n \<and> n \<le> 122)"

definition url_scheme :: "string \<Rightarrow> string \<times> string" where
  "url_scheme url =
     (let prefix = takeWhile (\<lambda>c. c \<noteq> CHR '':'') url in
      if CHR '':'' \<in> set url \<and> prefix \<noteq> [] \<and> alpha (hd prefix) \<and> list_all scheme_char prefix
      then (lower prefix, drop (length prefix + 1) url) else ([], url))"

definition url_netloc :: "string \<Rightarrow> string" where
  "url_netloc rest =
     (if take 2 rest = ''//'' then takeWhile (\<lambda>c. c \<notin> {CHR ''/'', CHR ''?'', CHR ''#''}) (drop 2 rest) else [])"

definition url_hostinfo :: "string \<Rightarrow> string" where
  "url_hostinfo netloc = (if CHR ''@'' \<in> set netloc then snd (split_last (CHR ''@'') netloc) else netloc)"

definition url_port :: "string \<Rightarrow> int option result" where
  "url_port port =
     (if port = [] then Inr None
      else if list_all dec_digit port
      then (case dec_digits False 0 port of
              Some n \<Rightarrow> if n \<le> 65535 then Inr (Some n) else raise ValueError ''Port out of range 0-65535''
            | None \<Rightarrow> raise ValueError ''Port could not be cast to integer value'')
      else raise ValueError ''Port could not be cast to integer value'')"

definition etcd_factory :: "string \<Rightarrow> string result" where
  "etcd_factory endpoint =
     (let (scheme, rest) = url_scheme (dropWhile (\<lambda>c. (of_char c :: nat) \<le> 32) endpoint);
          hostinfo = url_hostinfo (url_netloc rest);
          invalid = raise ValueError (''invalid etcd endpoint: '' @ endpoint)
      in if CHR ''['' \<in> set hostinfo \<or> CHR '']'' \<in> set hostinfo then raise OutsideModel ''bracketed host''
         else let host = takeWhile (\<lambda>c. c \<noteq> CHR '':'') hostinfo; port = drop (length host + 1) hostinfo
              in if scheme \<notin> {''http'', ''https''} \<or> host = [] then invalid
                 else rbind (url_port port) (\<lambda>p. if p \<in> {None, Some 0} then invalid else Inr endpoint))"

fun connect_loop ::
  "('e, 'l) etcd \<Rightarrow> 'l EtcdClient \<Rightarrow> 'e \<Rightarrow> string list \<Rightarrow> unit result \<times> 'l EtcdClient \<times> 'e" where
  "connect_loop et c e [] = (raise CoordinationUnavailableError ''no etcd endpoint is reachable'', c, e)"
| "connect_loop et c e (endpoint # endpoints) =
     (case etcd_factory endpoint of
        Inl x \<Rightarrow> (Inl x, c, e)
      | Inr _ \<Rightarrow>
          (case et_status et e endpoint of
             (Inl x, e') \<Rightarrow> if is_Exception x then connect_loop et c e' endpoints else (Inl x, c, e')
           | (Inr _, e') \<Rightarrow> (Inr (), c\<lparr>eg_client := Some endpoint\<rparr>, e')))"

definition etcd_connect :: "('e, 'l) etcd \<Rightarrow> 'l EtcdClient \<Rightarrow> 'e \<Rightarrow> unit result \<times> 'l EtcdClient \<times> 'e" where
  "etcd_connect et c e = connect_loop et c e (eg_endpoints c)"

definition etcd_close :: "'l EtcdClient \<Rightarrow> 'l EtcdClient" where
  "etcd_close c = c\<lparr>eg_client := None, eg_leases := []\<rparr>"

definition require_client :: "'l EtcdClient \<Rightarrow> string result" where
  "require_client c =
     (case eg_client c of None \<Rightarrow> raise CoordinationUnavailableError ''etcd client is not connected'' | Some x \<Rightarrow> Inr x)"

text \<open>\<^verbatim>\<open>except Exception\<close> around a call of the third-party client.\<close>

definition unavailable :: "string \<Rightarrow> 'a result \<Rightarrow> 'a result" where
  "unavailable message r =
     (case r of Inl x \<Rightarrow> if is_Exception x then raise CoordinationUnavailableError message else Inl x | Inr v \<Rightarrow> Inr v)"

definition grant_lease ::
  "('e, 'l) etcd \<Rightarrow> 'l EtcdClient \<Rightarrow> 'e \<Rightarrow> int \<Rightarrow> LeaseHandle result \<times> 'l EtcdClient \<times> 'e" where
  "grant_lease et c e ttl_seconds =
     (if ttl_seconds \<le> 0 then (raise ValueError ''ttl_seconds must be positive'', c, e)
      else case require_client c of
             Inl x \<Rightarrow> (Inl x, c, e)
           | Inr _ \<Rightarrow>
               (case et_lease et e ttl_seconds of
                  (r, e') \<Rightarrow>
                    (case unavailable ''failed to grant etcd lease'' r of
                       Inl x \<Rightarrow> (Inl x, c, e')
                     | Inr (lease, lease_id) \<Rightarrow>
                         (case LeaseHandle_init lease_id ttl_seconds of
                            Inl x \<Rightarrow> (Inl x, c, e')
                          | Inr handle \<Rightarrow> (Inr handle, c\<lparr>eg_leases := AList.update (lh_lease_id handle) lease (eg_leases c)\<rparr>, e')))))"

definition refresh_lease :: "('e, 'l) etcd \<Rightarrow> 'l EtcdClient \<Rightarrow> 'e \<Rightarrow> LeaseHandle \<Rightarrow> unit result \<times> 'e" where
  "refresh_lease et c e lease =
     (case map_of (eg_leases c) (lh_lease_id lease) of
        None \<Rightarrow> (raise CoordinationUnavailableError ''unknown etcd lease'', e)
      | Some raw \<Rightarrow>
          (case et_refresh et e raw of
             (r, e') \<Rightarrow>
               (rbind (unavailable ''failed to refresh etcd lease'' r) (\<lambda>ttl.
                  case ttl of
                    Some t \<Rightarrow> if t \<le> 0 then raise CoordinationUnavailableError ''etcd lease expired'' else Inr ()
                  | None \<Rightarrow> Inr ()), e')))"

definition put_checked ::
  "('e, 'l) etcd \<Rightarrow> 'e \<Rightarrow> string result \<Rightarrow> CoordinationMember \<Rightarrow> 'l option \<Rightarrow> string \<Rightarrow> unit result \<times> 'e" where
  "put_checked et e key member lease message =
     (case key of
        Inl x \<Rightarrow> (unavailable message (Inl x), e)
      | Inr k \<Rightarrow> (case et_put et e k (coordination_to_json member) lease of (r, e') \<Rightarrow> (unavailable message r, e')))"

definition register_member ::
  "('e, 'l) etcd \<Rightarrow> 'l EtcdClient \<Rightarrow> 'e \<Rightarrow> CoordinationMember \<Rightarrow> LeaseHandle \<Rightarrow> unit result \<times> 'e" where
  "register_member et c e member lease =
     (case require_client c of
        Inl x \<Rightarrow> (Inl x, e)
      | Inr _ \<Rightarrow>
          (case map_of (eg_leases c) (lh_lease_id lease) of
             None \<Rightarrow> (raise CoordinationUnavailableError ''unknown etcd lease'', e)
           | Some raw \<Rightarrow>
               put_checked et e (member_key (eg_namespace c) (co_node_id member)) member (Some raw) ''failed to register etcd member''))"

definition put_node_metadata :: "('e, 'l) etcd \<Rightarrow> 'l EtcdClient \<Rightarrow> 'e \<Rightarrow> CoordinationMember \<Rightarrow> unit result \<times> 'e" where
  "put_node_metadata et c e member =
     (case require_client c of
        Inl x \<Rightarrow> (Inl x, e)
      | Inr _ \<Rightarrow>
          put_checked et e (node_metadata_key (eg_namespace c) (co_node_id member)) member None ''failed to persist etcd node metadata'')"

definition discover_members :: "('e, 'l) etcd \<Rightarrow> 'l EtcdClient \<Rightarrow> 'e \<Rightarrow> CoordinationMember list result \<times> 'e" where
  "discover_members et c e =
     (case require_client c of
        Inl x \<Rightarrow> (Inl x, e)
      | Inr _ \<Rightarrow>
          (case et_get_prefix et e (eg_namespace c @ ''/members/'') of
             (r, e') \<Rightarrow>
               (rbind (unavailable ''failed to discover etcd members'' r) (\<lambda>rows.
                  rbind (rmap coordination_from_json rows) (\<lambda>members. Inr (sort_key co_node_id members))), e')))"

section \<open>Discovery\<close>

definition discover_seeds :: "('e, 'l) etcd \<Rightarrow> 'l EtcdClient \<Rightarrow> 'e \<Rightarrow> string \<Rightarrow> SeedAddress list result \<times> 'e" where
  "discover_seeds et c e local_node_id =
     (case discover_members et c e of
        (r, e') \<Rightarrow>
          (rbind r (\<lambda>members.
             rmap (\<lambda>m. SeedAddress_init (co_host m) (co_port m) (Some (co_node_id m)))
               (filter (\<lambda>m. co_node_id m \<noteq> local_node_id) (sort_key co_node_id members))), e'))"

section \<open>The lease manager\<close>

text \<open>\<open>lm_published\<close> lists the healths handed to the callback, the latest first.\<close>

record LeaseManager =
  lm_ttl_seconds :: int
  lm_renew_interval_seconds :: real
  lm_member :: "CoordinationMember option"
  lm_lease :: "LeaseHandle option"
  lm_task :: bool
  lm_health :: CoordinationHealth
  lm_published :: "CoordinationHealth list"

definition not_healthy :: "string \<Rightarrow> CoordinationHealth" where
  "not_healthy message = \<lparr>ch_healthy = False, ch_connected = False, ch_lease_id = None, ch_message = message\<rparr>"

definition healthy_with :: "LeaseHandle \<Rightarrow> CoordinationHealth" where
  "healthy_with lease =
     \<lparr>ch_healthy = True, ch_connected = True, ch_lease_id = Some (lh_lease_id lease), ch_message = ''healthy''\<rparr>"

definition LeaseManager_init :: "int \<Rightarrow> real \<Rightarrow> LeaseManager result" where
  "LeaseManager_init ttl_seconds renew_interval_seconds =
     (if ttl_seconds \<le> 0 then raise ValueError ''ttl_seconds must be positive''
      else if renew_interval_seconds \<le> 0 \<or> renew_interval_seconds \<ge> real_of_int ttl_seconds
      then raise ValueError ''renew interval must be positive and less than lease TTL''
      else Inr \<lparr>lm_ttl_seconds = ttl_seconds, lm_renew_interval_seconds = renew_interval_seconds, lm_member = None,
                lm_lease = None, lm_task = False, lm_health = not_healthy ''not started'', lm_published = []\<rparr>)"

definition publish_health :: "CoordinationHealth \<Rightarrow> LeaseManager \<Rightarrow> LeaseManager" where
  "publish_health health lm = lm\<lparr>lm_health := health, lm_published := health # lm_published lm\<rparr>"

definition acquire_and_register ::
  "('e, 'l) etcd \<Rightarrow> LeaseManager \<Rightarrow> 'l EtcdClient \<Rightarrow> 'e \<Rightarrow> unit result \<times> LeaseManager \<times> 'l EtcdClient \<times> 'e" where
  "acquire_and_register et lm c e =
     (case lm_member lm of
        None \<Rightarrow> (raise RuntimeError ''lease manager member is not configured'', lm, c, e)
      | Some member \<Rightarrow>
          (case grant_lease et c e (lm_ttl_seconds lm) of
             (Inl x, c', e') \<Rightarrow> (Inl x, lm, c', e')
           | (Inr lease, c', e') \<Rightarrow>
               (case register_member et c' e' member lease of
                  (Inl x, e'') \<Rightarrow> (Inl x, lm, c', e'')
                | (Inr _, e'') \<Rightarrow> (Inr (), publish_health (healthy_with lease) (lm\<lparr>lm_lease := Some lease\<rparr>), c', e''))))"

definition lease_start ::
  "('e, 'l) etcd \<Rightarrow> CoordinationMember \<Rightarrow> LeaseManager \<Rightarrow> 'l EtcdClient \<Rightarrow> 'e \<Rightarrow> unit result \<times> LeaseManager \<times> 'l EtcdClient \<times> 'e" where
  "lease_start et member lm c e =
     (if lm_task lm then (Inr (), lm, c, e)
      else case acquire_and_register et (lm\<lparr>lm_member := Some member\<rparr>) c e of
             (Inl x, lm', s) \<Rightarrow> (Inl x, lm', s)
           | (Inr _, lm', s) \<Rightarrow> (Inr (), lm'\<lparr>lm_task := True\<rparr>, s))"

definition lease_stop :: "LeaseManager \<Rightarrow> LeaseManager" where
  "lease_stop lm = publish_health (not_healthy ''stopped'') (lm\<lparr>lm_task := False\<rparr>)"

text \<open>One turn of the loop after its sleep; what is not caught ends the task.\<close>

definition lease_error :: "exn \<Rightarrow> bool" where
  "lease_error x = (is_transport x \<or> is_RuntimeError (exn_cls x))"

definition try_renew ::
  "('e, 'l) etcd \<Rightarrow> LeaseManager \<Rightarrow> 'l EtcdClient \<Rightarrow> 'e \<Rightarrow> unit result \<times> LeaseManager \<times> 'l EtcdClient \<times> 'e" where
  "try_renew et lm c e =
     (case lm_lease lm of
        None \<Rightarrow> acquire_and_register et lm c e
      | Some lease \<Rightarrow>
          (case refresh_lease et c e lease of
             (Inl x, e') \<Rightarrow> (Inl x, lm, c, e')
           | (Inr _, e') \<Rightarrow> (Inr (), publish_health (healthy_with lease) lm, c, e')))"

definition renew ::
  "('e, 'l) etcd \<Rightarrow> LeaseManager \<Rightarrow> 'l EtcdClient \<Rightarrow> 'e \<Rightarrow> unit result \<times> LeaseManager \<times> 'l EtcdClient \<times> 'e" where
  "renew et lm c e =
     (case try_renew et lm c e of
        (Inl x, lm', s) \<Rightarrow>
          (if lease_error x then (Inr (), publish_health (not_healthy (exn_msg x)) (lm'\<lparr>lm_lease := None\<rparr>), s) else (Inl x, lm', s))
      | (Inr _, lm', s) \<Rightarrow> (Inr (), lm', s))"

section \<open>The facade\<close>

record 'l CoordinationService =
  cos_client :: "'l EtcdClient"
  cos_lease_manager :: LeaseManager
  cos_started :: bool

definition coordination_bootstrap ::
  "('e, 'l) etcd \<Rightarrow> CoordinationMember \<Rightarrow> 'l CoordinationService \<Rightarrow> 'e \<Rightarrow> SeedAddress list result \<times> 'l CoordinationService \<times> 'e" where
  "coordination_bootstrap et member s e =
     (case etcd_connect et (cos_client s) e of
        (Inl x, c, e1) \<Rightarrow> (Inl x, s\<lparr>cos_client := c\<rparr>, e1)
      | (Inr _, c, e1) \<Rightarrow>
          (case put_node_metadata et c e1 member of
             (Inl x, e2) \<Rightarrow> (Inl x, s\<lparr>cos_client := c\<rparr>, e2)
           | (Inr _, e2) \<Rightarrow>
               (case discover_seeds et c e2 (co_node_id member) of
                  (Inl x, e3) \<Rightarrow> (Inl x, s\<lparr>cos_client := c\<rparr>, e3)
                | (Inr seeds, e3) \<Rightarrow>
                    (case lease_start et member (cos_lease_manager s) c e3 of
                       (Inl x, lm, c', e4) \<Rightarrow> (Inl x, s\<lparr>cos_client := c', cos_lease_manager := lm\<rparr>, e4)
                     | (Inr _, lm, c', e4) \<Rightarrow>
                         (Inr seeds, s\<lparr>cos_client := c', cos_lease_manager := lm, cos_started := True\<rparr>, e4)))))"

definition coordination_stop :: "'l CoordinationService \<Rightarrow> 'l CoordinationService" where
  "coordination_stop s =
     (let s' = (if cos_started s then s\<lparr>cos_lease_manager := lease_stop (cos_lease_manager s), cos_started := False\<rparr> else s)
      in s'\<lparr>cos_client := etcd_close (cos_client s')\<rparr>)"

section \<open>JSON round trip\<close>

definition ascii_text :: "string \<Rightarrow> bool" where
  "ascii_text s = list_all (\<lambda>c. (of_char c :: nat) < 127) s"

lemma ascii_text_simps [simp]:
  "ascii_text []" "ascii_text (c # s) \<longleftrightarrow> (of_char c :: nat) < 127 \<and> ascii_text s"
  "ascii_text (a @ b) \<longleftrightarrow> ascii_text a \<and> ascii_text b"
  by (simp_all add: ascii_text_def)

lemma ascii_dumps: "ascii_text t \<Longrightarrow> concat (map ascii_char t) = t"
  by (induction t) (simp_all add: ascii_text_def ascii_char_def)

lemma ascii_utf8: "ascii_text t \<Longrightarrow> utf8 t = t"
  by (induction t) (simp_all add: ascii_text_def utf8_def utf8_char_def)

lemma ascii_utf8_decode: "ascii_text t \<Longrightarrow> utf8_decode t = Inr t"
  using utf8_decode_utf8 [of t] by (simp add: ascii_utf8)

lemma ascii_str_int: "ascii_text (str_int i)"
  using str_int_chars [of _ i] by (fastforce simp: ascii_text_def list_all_iff)

lemma ascii_esc_char:
  assumes "(of_char c :: nat) < 127"
  shows "ascii_text (esc_char c)"
proof -
  have "(of_char (hex_digit n) :: nat) < 127" if "n < 16" for n
    using that by (auto simp: hex_digit_def)
  then show ?thesis
    using assms by (auto simp: esc_char_def short_escapes_def ascii_text_def split: if_splits)
qed

lemma ascii_jquote: "ascii_text s \<Longrightarrow> ascii_text (jquote s)"
proof -
  have "ascii_text (concat (map esc_char s))" if "ascii_text s" for s
    using that by (induction s) (simp_all add: ascii_esc_char)
  then show "ascii_text s \<Longrightarrow> ascii_text (jquote s)" by (simp add: jquote_def)
qed

definition member_texts_ascii :: "CoordinationMember \<Rightarrow> bool" where
  "member_texts_ascii m \<longleftrightarrow>
     ascii_text (co_node_id m) \<and> ascii_text (co_node_uuid m) \<and> ascii_text (co_host m) \<and> ascii_text (co_release m)"

lemma coordination_round_trip:
  assumes "CoordinationMember_init m = Inr m" "member_texts_ascii m"
  shows "coordination_from_json (coordination_to_json m) = Inr m"
proof -
  let ?kvs = "[(''host'', JStr (co_host m)), (''membership_incarnation'', JInt (co_incarnation m)),
        (''node_id'', JStr (co_node_id m)), (''node_uuid'', JStr (co_node_uuid m)), (''port'', JInt (co_port m)),
        (''protocol_version'', JInt (co_protocol_version m)), (''release'', JStr (co_release m)),
        (''tls_required'', JBool (co_tls_required m))]"
  have ok: "json_ok (JObj ?kvs)" "dict_ok ?kvs" by (simp_all add: dict_ok_def)
  have sorted: "jsort (JObj ?kvs) = JObj ?kvs" by (simp add: less_eq_list_code)
  have "ascii_text (dumps_sorted (JObj ?kvs))"
    using assms(2) unfolding dumps_sorted_def sorted by (simp add: member_texts_ascii_def ascii_jquote ascii_str_int jprint_members.simps)
  then have "coordination_to_json m = dumps_sorted (JObj ?kvs)" "utf8_decode (dumps_sorted (JObj ?kvs)) = Inr (dumps_sorted (JObj ?kvs))"
    by (simp_all only: coordination_to_json_def dumps_ascii_sorted_def ascii_dumps ascii_utf8_decode)
  then have "coordination_from_json (coordination_to_json m) = member_of_object ?kvs"
    using loads_dumps_sorted [OF ok(1)] by (simp only: coordination_from_json_def rbind_simps sorted sum.case json.case)
  also have "\<dots> = Inr m"
    using assms(1) by (cases m) (simp add: member_of_object_def field_def py_str_of_def py_int_of_def py_bool_of_def)
  finally show ?thesis .
qed

section \<open>Discovered seeds\<close>

lemma rmap_eq_Inr: "rmap f xs = Inr ys \<longleftrightarrow> list_all2 (\<lambda>x y. f x = Inr y) xs ys"
proof (induction xs arbitrary: ys)
  case (Cons x xs)
  show ?case by (cases ys) (auto simp: rbind_eq_Inr Cons)
qed auto

lemma CoordinationMember_init_id: "CoordinationMember_init r = Inr m \<Longrightarrow> m = r"
  by (auto simp: CoordinationMember_init_def split: if_splits)

lemma CoordinationMember_init_accepted: "CoordinationMember_init r = Inr m \<Longrightarrow> CoordinationMember_init m = Inr m"
  using CoordinationMember_init_id by blast

lemma member_of_object_valid: "member_of_object data = Inr m \<Longrightarrow> CoordinationMember_init m = Inr m"
  unfolding member_of_object_def rbind_eq_Inr by (elim exE conjE) (erule CoordinationMember_init_accepted)

lemma from_json_valid:
  assumes "coordination_from_json raw = Inr m"
  shows "CoordinationMember_init m = Inr m"
proof -
  obtain t where t: "utf8_decode raw = Inr t" using assms by (auto simp: coordination_from_json_def rbind_eq_Inr)
  then obtain data where "loads t = Inr (JObj data)" "member_of_object data = Inr m"
    using assms by (cases "loads t") (auto simp: coordination_from_json_def split: json.splits if_splits)
  then show ?thesis by (simp add: member_of_object_valid)
qed

lemma valid_seed:
  "CoordinationMember_init m = Inr m \<Longrightarrow>
     SeedAddress_init (co_host m) (co_port m) (Some (co_node_id m)) =
       Inr \<lparr>sd_host = co_host m, sd_port = co_port m, sd_node = Some (co_node_id m)\<rparr>"
  by (auto simp: CoordinationMember_init_def SeedAddress_init_def split: if_splits)

definition seed_of :: "CoordinationMember \<Rightarrow> SeedAddress" where
  "seed_of m = \<lparr>sd_host = co_host m, sd_port = co_port m, sd_node = Some (co_node_id m)\<rparr>"

lemma discover_members_spec:
  assumes "discover_members et c e = (Inr ms, e')"
  obtains rows where "et_get_prefix et e (eg_namespace c @ ''/members/'') = (Inr rows, e')"
    "set ms = {m. \<exists>raw \<in> set rows. coordination_from_json raw = Inr m}" "sorted (map co_node_id ms)"
proof -
  obtain x where x: "require_client c = Inr x" using assms by (cases "require_client c") (auto simp: discover_members_def)
  obtain r e1 where g: "et_get_prefix et e (eg_namespace c @ ''/members/'') = (r, e1)" by fastforce
  obtain rows ms' where r: "r = Inr rows" "rmap coordination_from_json rows = Inr ms'" "ms = sort_key co_node_id ms'" "e1 = e'"
    using assms x g by (auto simp: discover_members_def rbind_eq_Inr unavailable_def split: sum.splits if_splits)
  have "set ms' = {m. \<exists>raw \<in> set rows. coordination_from_json raw = Inr m}"
    using r(2) unfolding rmap_eq_Inr by (induction rule: list_all2_induct) auto
  then show ?thesis using that [of rows] g r by simp
qed

lemma discover_seeds_spec:
  assumes "discover_seeds et c e local_node_id = (Inr seeds, e')"
  obtains ms where "discover_members et c e = (Inr ms, e')"
    "seeds = map seed_of (filter (\<lambda>m. co_node_id m \<noteq> local_node_id) (sort_key co_node_id ms))"
proof -
  obtain ms where ms: "discover_members et c e = (Inr ms, e')"
    using assms by (cases "discover_members et c e") (auto simp: discover_seeds_def rbind_eq_Inr)
  obtain rows where "set ms = {m. \<exists>raw \<in> set rows. coordination_from_json raw = Inr m}"
    by (rule discover_members_spec [OF ms])
  then have "CoordinationMember_init m = Inr m" if "m \<in> set ms" for m using that from_json_valid by blast
  then have "rmap (\<lambda>m. SeedAddress_init (co_host m) (co_port m) (Some (co_node_id m)))
      (filter (\<lambda>m. co_node_id m \<noteq> local_node_id) (sort_key co_node_id ms)) =
      Inr (map seed_of (filter (\<lambda>m. co_node_id m \<noteq> local_node_id) (sort_key co_node_id ms)))"
    by (intro rmap_Inr) (simp add: valid_seed seed_of_def)
  then show ?thesis using that [OF ms] assms ms by (simp add: discover_seeds_def)
qed

text \<open>
  What is relied on of etcd: a value that was put is among those read back under a prefix of
  its key. Nothing is said of later changes.
\<close>

definition reads_back :: "('e, 'l) etcd \<Rightarrow> bool" where
  "reads_back et \<longleftrightarrow>
     (\<forall>e k v l e' prefix rest rows e''.
        et_put et e k v l = (Inr (), e') \<longrightarrow> k = prefix @ rest \<longrightarrow> et_get_prefix et e' prefix = (Inr rows, e'') \<longrightarrow> v \<in> set rows)"

lemma register_member_put:
  assumes "register_member et c e member lease = (Inr (), e')"
  obtains ns raw where "coordination_namespace (eg_namespace c) = Inr ns" "co_node_id member \<noteq> []"
    "et_put et e (ns @ ''/members/'' @ co_node_id member) (coordination_to_json member) (Some raw) = (Inr (), e')"
proof -
  obtain raw where raw: "put_checked et e (member_key (eg_namespace c) (co_node_id member)) member (Some raw)
      ''failed to register etcd member'' = (Inr (), e')"
    using assms by (auto simp: register_member_def split: sum.splits option.splits)
  obtain k where k: "member_key (eg_namespace c) (co_node_id member) = Inr k"
    using raw by (cases "member_key (eg_namespace c) (co_node_id member)") (auto simp: put_checked_def unavailable_def split: if_splits)
  obtain r e1 where p: "et_put et e k (coordination_to_json member) (Some raw) = (r, e1)" by fastforce
  have "r = Inr ()" "e1 = e'" using raw k p by (auto simp: put_checked_def unavailable_def split: sum.splits if_splits)
  moreover obtain ns where "coordination_namespace (eg_namespace c) = Inr ns" "co_node_id member \<noteq> []" "k = ns @ ''/members/'' @ co_node_id member"
    using k by (auto simp: member_key_def rbind_eq_Inr split: if_splits)
  ultimately show ?thesis using that p by blast
qed

section \<open>The lease\<close>

text \<open>The published health is the current one, and it is healthy only with the lease it names.\<close>

definition lease_ok :: "LeaseManager \<Rightarrow> 'l EtcdClient \<Rightarrow> bool" where
  "lease_ok lm c \<longleftrightarrow>
     (case lm_published lm of [] \<Rightarrow> \<not> ch_healthy (lm_health lm) | h # _ \<Rightarrow> h = lm_health lm) \<and>
     (if ch_healthy (lm_health lm)
      then \<exists>lease. lm_lease lm = Some lease \<and> lm_health lm = healthy_with lease \<and> map_of (eg_leases c) (lh_lease_id lease) \<noteq> None
      else lm_health lm = not_healthy (ch_message (lm_health lm))) \<and>
     (\<forall>lease. lm_lease lm = Some lease \<longrightarrow> 0 < lh_lease_id lease)"

lemma grant_lease_cases:
  assumes "grant_lease et c e ttl = (r, c', e')"
  shows "(\<exists>x. r = Inl x \<and> c' = c) \<or> (\<exists>lease raw. r = Inr lease \<and> 0 < lh_lease_id lease \<and>
    c' = c\<lparr>eg_leases := AList.update (lh_lease_id lease) raw (eg_leases c)\<rparr>)"
  using assms by (auto simp: grant_lease_def LeaseHandle_init_def split: if_splits sum.splits prod.splits)

lemma acquire_cases:
  assumes "acquire_and_register et lm c e = (r, lm', c', e')" "lease_ok lm c"
  shows "(\<exists>x. r = Inl x \<and> lm' = lm \<and> lease_ok lm c') \<or>
    r = Inr () \<and> ch_healthy (lm_health lm') \<and> lease_ok lm' c'"
proof (cases "lm_member lm")
  case (Some member)
  obtain q c1 e1 where g: "grant_lease et c e (lm_ttl_seconds lm) = (q, c1, e1)" by (cases "grant_lease et c e (lm_ttl_seconds lm)")
  have keep: "lease_ok lm (c\<lparr>eg_leases := AList.update k raw (eg_leases c)\<rparr>)" for k raw
    using assms(2) by (auto simp: lease_ok_def split: if_splits)
  from grant_lease_cases [OF g] show ?thesis
  proof (elim disjE exE conjE)
    fix lease raw
    assume q: "q = Inr lease" "0 < lh_lease_id lease" "c1 = c\<lparr>eg_leases := AList.update (lh_lease_id lease) raw (eg_leases c)\<rparr>"
    obtain p e2 where reg: "register_member et c1 e1 member lease = (p, e2)" by fastforce
    show ?thesis
    proof (cases p)
      case (Inl x)
      then show ?thesis using assms(1) Some g q reg keep by (auto simp: acquire_and_register_def)
    next
      case (Inr u)
      then have "r = Inr ()" "lm' = publish_health (healthy_with lease) (lm\<lparr>lm_lease := Some lease\<rparr>)" "c' = c1"
        using assms(1) Some g q(1) reg by (auto simp: acquire_and_register_def)
      then show ?thesis using q by (auto simp: lease_ok_def publish_health_def healthy_with_def)
    qed
  qed (use assms Some g in \<open>auto simp: acquire_and_register_def\<close>)
qed (use assms in \<open>auto simp: acquire_and_register_def\<close>)

lemma lost_ok: "lease_ok (publish_health (not_healthy message) (lm\<lparr>lm_lease := None\<rparr>)) c"
  by (simp add: lease_ok_def publish_health_def not_healthy_def)

lemma renew_ok:
  assumes "lease_ok lm c" "renew et lm c e = (r, lm', c', e')"
  shows "lease_ok lm' c'"
proof (cases "lm_lease lm")
  case None
  obtain q lm1 c1 e1 where a: "acquire_and_register et lm c e = (q, lm1, c1, e1)" by (cases "acquire_and_register et lm c e")
  from acquire_cases [OF a assms(1)] show ?thesis
    using assms(2) None a by (auto simp: renew_def try_renew_def lost_ok split: if_splits)
next
  case (Some lease)
  obtain q e1 where f: "refresh_lease et c e lease = (q, e1)" by fastforce
  show ?thesis
  proof (cases q)
    case (Inl x)
    then show ?thesis using assms Some f by (auto simp: renew_def try_renew_def lost_ok split: if_splits)
  next
    case (Inr u)
    then have known: "map_of (eg_leases c) (lh_lease_id lease) \<noteq> None" using f by (auto simp: refresh_lease_def split: option.splits)
    have "lm' = publish_health (healthy_with lease) lm" "c' = c" using assms(2) Some f Inr by (auto simp: renew_def try_renew_def)
    then show ?thesis using Some known assms(1) by (auto simp: lease_ok_def publish_health_def healthy_with_def)
  qed
qed

text \<open>A renewal that fails gives the lease up; the next one that etcd answers takes a new one.\<close>

lemma renew_lost:
  assumes "renew et lm c e = (Inr (), lm', c', e')" "\<not> ch_healthy (lm_health lm')"
  shows "lm_lease lm' = None \<and> lm_member lm' = lm_member lm \<and> lm_ttl_seconds lm' = lm_ttl_seconds lm"
proof -
  obtain q lm1 s1 where a: "try_renew et lm c e = (q, lm1, s1)" by (cases "try_renew et lm c e")
  have keeps: "lm_member lm1 = lm_member lm \<and> lm_ttl_seconds lm1 = lm_ttl_seconds lm \<and> (q = Inr () \<longrightarrow> ch_healthy (lm_health lm1))"
  proof (cases "lm_lease lm")
    case None
    then show ?thesis using a
      by (auto simp: try_renew_def acquire_and_register_def publish_health_def healthy_with_def
          split: option.splits prod.splits sum.splits)
  next
    case (Some lease)
    then show ?thesis using a
      by (cases "refresh_lease et c e lease") (auto simp: try_renew_def publish_health_def healthy_with_def split: sum.splits)
  qed
  show ?thesis
    using assms keeps a by (cases q) (auto simp: renew_def publish_health_def split: if_splits)
qed

lemma renew_recovers:
  assumes "lm_lease lm = None" "lm_member lm = Some member" "0 < lm_ttl_seconds lm" "require_client c = Inr x"
    "et_lease et e (lm_ttl_seconds lm) = (Inr (raw, lease_id), e1)" "0 < lease_id"
    "member_key (eg_namespace c) (co_node_id member) = Inr k"
    "et_put et e1 k (coordination_to_json member) (Some raw) = (Inr (), e2)"
  obtains lm' c' where "renew et lm c e = (Inr (), lm', c', e2)"
    "lm_health lm' = healthy_with \<lparr>lh_lease_id = lease_id, lh_ttl_seconds = lm_ttl_seconds lm\<rparr>"
proof -
  let ?l = "\<lparr>lh_lease_id = lease_id, lh_ttl_seconds = lm_ttl_seconds lm\<rparr>"
    and ?c = "c\<lparr>eg_leases := AList.update lease_id raw (eg_leases c)\<rparr>"
  have "grant_lease et c e (lm_ttl_seconds lm) = (Inr ?l, ?c, e1)"
    using assms(3-6) by (simp add: grant_lease_def unavailable_def LeaseHandle_init_def)
  moreover have "register_member et ?c e1 member ?l = (Inr (), e2)"
    using assms(4,7,8) by (simp add: register_member_def put_checked_def unavailable_def require_client_def split: option.splits)
  ultimately have "renew et lm c e = (Inr (), publish_health (healthy_with ?l) (lm\<lparr>lm_lease := Some ?l\<rparr>), ?c, e2)"
    using assms(1,2) by (simp add: renew_def try_renew_def acquire_and_register_def)
  then show ?thesis by (rule that) (simp add: publish_health_def)
qed

text \<open>The life of the service: it is bootstrapped, its lease is renewed while the task runs, and it is stopped.\<close>

inductive coordination_reach :: "('e, 'l) etcd \<Rightarrow> 'l CoordinationService \<Rightarrow> bool" for et where
  Start: "EtcdClient_init endpoints namespace timeout = Inr c \<Longrightarrow> LeaseManager_init ttl renew_interval = Inr lm \<Longrightarrow>
    coordination_reach et \<lparr>cos_client = c, cos_lease_manager = lm, cos_started = False\<rparr>"
| Bootstrap: "coordination_reach et s \<Longrightarrow> coordination_bootstrap et member s e = (r, s', e') \<Longrightarrow> coordination_reach et s'"
| Renew: "coordination_reach et s \<Longrightarrow> lm_task (cos_lease_manager s) \<Longrightarrow>
    renew et (cos_lease_manager s) (cos_client s) e = (r, lm, c, e') \<Longrightarrow>
    coordination_reach et (s\<lparr>cos_client := c, cos_lease_manager := lm\<rparr>)"
| Stop: "coordination_reach et s \<Longrightarrow> coordination_reach et (coordination_stop s)"

definition coordination_ok :: "'l CoordinationService \<Rightarrow> bool" where
  "coordination_ok s \<longleftrightarrow> lease_ok (cos_lease_manager s) (cos_client s) \<and>
     (ch_healthy (lm_health (cos_lease_manager s)) \<longrightarrow> cos_started s) \<and> (lm_task (cos_lease_manager s) \<longrightarrow> cos_started s)"

lemma lease_ok_client: "lease_ok lm c \<Longrightarrow> eg_leases c' = eg_leases c \<Longrightarrow> lease_ok lm c'"
  by (auto simp: lease_ok_def split: if_splits)

lemma lease_ok_member: "lease_ok (lm\<lparr>lm_member := m\<rparr>) c = lease_ok lm c" "lease_ok (lm\<lparr>lm_task := b\<rparr>) c = lease_ok lm c"
  by (simp_all add: lease_ok_def cong: list.case_cong)

lemma connect_loop_leases: "connect_loop et c e endpoints = (r, c', e') \<Longrightarrow> eg_leases c' = eg_leases c"
  by (induction et c e endpoints rule: connect_loop.induct) (auto split: sum.splits prod.splits if_splits)

lemma lease_start_ok:
  assumes "lease_ok lm c" "lease_start et member lm c e = (r, lm', c', e')"
  shows "lease_ok lm' c'" "isl r \<Longrightarrow> \<not> lm_task lm \<and> \<not> lm_task lm' \<and> lm_health lm' = lm_health lm"
proof -
  obtain q lm1 c1 e1 where a: "acquire_and_register et (lm\<lparr>lm_member := Some member\<rparr>) c e = (q, lm1, c1, e1)"
    by (cases "acquire_and_register et (lm\<lparr>lm_member := Some member\<rparr>) c e")
  note A = acquire_cases [OF a] 
  show "lease_ok lm' c'" "isl r \<Longrightarrow> \<not> lm_task lm \<and> \<not> lm_task lm' \<and> lm_health lm' = lm_health lm"
    using A assms a by (auto simp: lease_start_def lease_ok_member split: if_splits sum.splits)
qed

lemma bootstrap_keeps:
  assumes "coordination_ok s" "coordination_bootstrap et member s e = (r, s', e')"
  shows "coordination_ok s'"
proof -
  let ?lm = "cos_lease_manager s"
  obtain q c e1 where c: "etcd_connect et (cos_client s) e = (q, c, e1)" by (cases "etcd_connect et (cos_client s) e")
  then have ok: "lease_ok ?lm c"
    using assms(1) connect_loop_leases lease_ok_client by (fastforce simp: etcd_connect_def coordination_ok_def)
  have early: "coordination_ok (s\<lparr>cos_client := c\<rparr>)" using assms(1) ok by (simp add: coordination_ok_def)
  obtain r2 e2 where m: "put_node_metadata et c e1 member = (r2, e2)" by fastforce
  obtain r3 e3 where d: "discover_seeds et c e2 (co_node_id member) = (r3, e3)" by fastforce
  obtain p lm1 c1 e4 where l: "lease_start et member ?lm c e3 = (p, lm1, c1, e4)" by (cases "lease_start et member ?lm c e3")
  note L = lease_start_ok [OF ok l]
  show ?thesis
  proof (cases "isl q \<or> isl r2 \<or> isl r3")
    case True
    then have "s' = s\<lparr>cos_client := c\<rparr>"
      using assms(2) c m d by (cases q; cases r2; cases r3) (auto simp: coordination_bootstrap_def)
    then show ?thesis using early by simp
  next
    case False
    then show ?thesis
      using assms c m d l L by (cases q; cases r2; cases r3; cases p) (auto simp: coordination_bootstrap_def coordination_ok_def)
  qed
qed

lemma coordination_reach_ok: "coordination_reach et s \<Longrightarrow> coordination_ok s"
proof (induction rule: coordination_reach.induct)
  case (Start endpoints namespace timeout c ttl renew_interval lm)
  then show ?case
    by (auto simp: coordination_ok_def lease_ok_def LeaseManager_init_def not_healthy_def split: if_splits)
next
  case (Bootstrap s member e r s' e')
  show ?case by (rule bootstrap_keeps [OF Bootstrap.IH Bootstrap.hyps(2)])
next
  case (Renew s e r lm c e')
  then have "lease_ok (cos_lease_manager s) (cos_client s)" "cos_started s" by (auto simp: coordination_ok_def)
  then have "lease_ok lm c" "cos_started s" using renew_ok [OF _ Renew.hyps(3)] by simp_all
  then show ?case by (simp add: coordination_ok_def)
next
  case (Stop s)
  then show ?case
    by (auto simp: coordination_ok_def coordination_stop_def lease_stop_def publish_health_def lease_ok_def not_healthy_def
        etcd_close_def Let_def split: list.splits)
qed

section \<open>Properties\<close>

lemma strip_char_idem: "strip_char c (c # strip_char c s) = strip_char c s"
proof -
  have "dropWhile ((=) c) (rev (strip_char c s)) = rev (strip_char c s)"
    unfolding strip_char_def by simp
  moreover have "dropWhile ((=) c) (strip_char c s) = strip_char c s"
  proof (cases "strip_char c s")
    case (Cons d r)
    have "dropWhile ((=) c) s = strip_char c s @ rev (takeWhile ((=) c) (rev (dropWhile ((=) c) s)))"
      unfolding strip_char_def by (metis rev_append rev_rev_ident takeWhile_dropWhile_id)
    then have "hd (dropWhile ((=) c) s) = d" "dropWhile ((=) c) s \<noteq> []" using Cons by (metis append_Cons list.sel(1), metis append_Cons list.distinct(1))
    then have "c \<noteq> d" using hd_dropWhile [of "(=) c" s] by auto
    then show ?thesis using Cons by simp
  qed simp
  ultimately show ?thesis by (simp add: strip_char_def [of c "c # strip_char c s"])
qed

lemma client_namespace:
  assumes "EtcdClient_init endpoints namespace timeout = Inr c0" "eg_namespace c = eg_namespace c0"
    "coordination_namespace (eg_namespace c) = Inr ns"
  shows "ns = eg_namespace c"
  using assms strip_char_idem [of "CHR ''/''" namespace]
  by (auto simp: EtcdClient_init_def coordination_namespace_def Let_def split: if_splits)

text \<open>C38: A node that has registered is found: whoever reads the members after it, with a client
  for the same namespace, gets it as a seed under the host, port and node id it wrote. All
  seeds are ordered by node id, name their nodes, as joining over TLS needs, and leave out
  the node that asks.\<close>

theorem registered_member_discovered:
  assumes "reads_back et" "EtcdClient_init endpoints namespace timeout = Inr c0"
    and ns: "eg_namespace c = eg_namespace c0" "eg_namespace c2 = eg_namespace c0"
    and member: "CoordinationMember_init member = Inr member" "member_texts_ascii member" "co_node_id member \<noteq> local_node_id"
    and run: "register_member et c e member lease = (Inr (), e1)" "discover_seeds et c2 e1 local_node_id = (Inr seeds, e2)"
  shows "seed_of member \<in> set seeds \<and> sorted (map (the \<circ> sd_node) seeds) \<and>
    (\<forall>seed \<in> set seeds. sd_node seed \<noteq> None \<and> sd_node seed \<noteq> Some local_node_id)"
proof -
  obtain n raw where n: "coordination_namespace (eg_namespace c) = Inr n"
      "et_put et e (n @ ''/members/'' @ co_node_id member) (coordination_to_json member) (Some raw) = (Inr (), e1)"
    by (rule register_member_put [OF run(1)])
  have key: "n = eg_namespace c2" using client_namespace [OF assms(2) ns(1) n(1)] ns by simp
  obtain ms where ms: "discover_members et c2 e1 = (Inr ms, e2)"
      "seeds = map seed_of (filter (\<lambda>m. co_node_id m \<noteq> local_node_id) (sort_key co_node_id ms))"
    by (rule discover_seeds_spec [OF run(2)])
  obtain rows where rows: "et_get_prefix et e1 (eg_namespace c2 @ ''/members/'') = (Inr rows, e2)"
      "set ms = {m. \<exists>raw \<in> set rows. coordination_from_json raw = Inr m}"
    by (rule discover_members_spec [OF ms(1)])
  have "coordination_to_json member \<in> set rows"
    using assms(1) n(2) rows(1) key unfolding reads_back_def by (metis append_assoc)
  then have "member \<in> set ms" using rows(2) coordination_round_trip [OF member(1,2)] by blast
  moreover have "sorted (map co_node_id (filter (\<lambda>m. co_node_id m \<noteq> local_node_id) (sort_key co_node_id ms)))"
    by (intro sorted_filter) simp
  ultimately show ?thesis using ms(2) member(3) by (auto simp: seed_of_def comp_def)
qed

text \<open>A store that keeps every value put into it.\<close>

definition list_etcd :: "((string \<times> char list) list, unit) etcd" where
  "list_etcd = \<lparr>et_status = \<lambda>e _. (Inr (), e), et_lease = \<lambda>e _. (Inr ((), 7), e), et_refresh = \<lambda>e _. (Inr (Some 1), e),
     et_put = \<lambda>e k v _. (Inr (), (k, v) # e),
     et_get_prefix = \<lambda>e p. (Inr (map snd (filter (\<lambda>(k, v). take (length p) k = p) e)), e)\<rparr>"

lemma list_etcd_reads_back: "reads_back list_etcd"
  by (force simp: reads_back_def list_etcd_def)

definition example_coordination_member :: CoordinationMember where
  "example_coordination_member = \<lparr>co_node_id = ''n1'', co_node_uuid = ''u1'', co_host = ''h1'', co_port = 7001, co_incarnation = 3,
     co_protocol_version = 1, co_release = ''0.5'', co_tls_required = True\<rparr>"

definition example_etcd_client :: "unit EtcdClient" where
  "example_etcd_client = \<lparr>eg_endpoints = [''http://e:2379''], eg_namespace = ''/distsys/v1'', eg_timeout = 3,
     eg_client = Some ''http://e:2379'', eg_leases = [(7, ())]\<rparr>"

theorem registered_member_discovered_witness:
  "\<exists>e1 seeds e2. register_member list_etcd example_etcd_client [] example_coordination_member \<lparr>lh_lease_id = 7, lh_ttl_seconds = 15\<rparr> = (Inr (), e1) \<and>
     discover_seeds list_etcd example_etcd_client e1 ''n2'' = (Inr seeds, e2) \<and>
     \<lparr>sd_host = ''h1'', sd_port = 7001, sd_node = Some ''n1''\<rparr> \<in> set seeds"
proof -
  obtain e1 where r: "register_member list_etcd example_etcd_client [] example_coordination_member \<lparr>lh_lease_id = 7, lh_ttl_seconds = 15\<rparr> = (Inr (), e1)"
    by (simp add: register_member_def require_client_def put_checked_def member_key_def coordination_namespace_def strip_char_def
        unavailable_def list_etcd_def example_etcd_client_def example_coordination_member_def)
  have m: "CoordinationMember_init example_coordination_member = Inr example_coordination_member"
      "member_texts_ascii example_coordination_member" "co_node_id example_coordination_member \<noteq> ''n2''"
      "seed_of example_coordination_member = \<lparr>sd_host = ''h1'', sd_port = 7001, sd_node = Some ''n1''\<rparr>"
    by (simp_all add: CoordinationMember_init_def member_texts_ascii_def example_coordination_member_def seed_of_def)
  have e1: "e1 = [(''/distsys/v1/members/n1'', coordination_to_json example_coordination_member)]"
    using r by (simp add: register_member_def require_client_def put_checked_def member_key_def coordination_namespace_def strip_char_def
        unavailable_def list_etcd_def example_etcd_client_def example_coordination_member_def)
  obtain seeds e2 where d: "discover_seeds list_etcd example_etcd_client e1 ''n2'' = (Inr seeds, e2)"
    using coordination_round_trip [OF m(1,2)] valid_seed [OF m(1)] m(3)
    by (simp add: discover_seeds_def discover_members_def require_client_def unavailable_def e1)
      (simp add: list_etcd_def example_etcd_client_def unavailable_def)
  have "EtcdClient_init [''http://e:2379''] ''/distsys/v1'' 3 = Inr (example_etcd_client\<lparr>eg_client := None, eg_leases := []\<rparr>)"
    by (simp add: EtcdClient_init_def example_etcd_client_def strip_char_def)
  moreover have "eg_namespace example_etcd_client = eg_namespace (example_etcd_client\<lparr>eg_client := None, eg_leases := []\<rparr>)" by simp
  ultimately have "seed_of example_coordination_member \<in> set seeds"
    using registered_member_discovered [OF list_etcd_reads_back _ _ _ m(1-3) r d] by blast
  then show ?thesis using r d m(4) by metis
qed



end
