(* ===== verification/Node_Start.thy ===== *)
theory Node_Start
  imports Node Coordination
begin

text \<open>
  Starting and stopping a node: \<^verbatim>\<open>start\<close> and \<^verbatim>\<open>stop\<close> of \<^verbatim>\<open>node.py\<close>. The state says which parts of
  the node exist and keeps every health snapshot that was published, newest first; whether a
  part comes up is the environment. The parts themselves have their own theories.
\<close>

section \<open>State and environment\<close>

record NodeRun =
  nr_pool :: WorkerPool
  nr_health :: HealthSnapshot
  nr_published :: "HealthSnapshot list"
  nr_stopping :: bool
  nr_server :: bool
  nr_repository :: bool
  nr_coordinator :: bool
  nr_coordination :: bool
  nr_cluster :: bool
  nr_crdt :: bool
  nr_replication :: ReplicationLifecycle

definition NodeRun_init :: "WorkerPool \<Rightarrow> NodeRun" where
  "NodeRun_init pool =
     \<lparr>nr_pool = pool, nr_health = HealthState_init, nr_published = [], nr_stopping = False, nr_server = False,
      nr_repository = False, nr_coordinator = False, nr_coordination = False, nr_cluster = False, nr_crdt = False,
      nr_replication = ReplicationLifecycle_init\<rparr>"

text \<open>
  What the parts do: the TLS contexts, opening the repository, restoring, binding the port,
  the bootstrap of the coordination service, building and starting the cluster service,
  starting the CRDT service, and the reconciliation.
\<close>

record start_env =
  sv_contexts :: "unit result"
  sv_open :: "unit result"
  sv_restore :: "unit result"
  sv_bind :: "unit result"
  sv_coordination :: "unit result"
  sv_cluster_build :: "unit result"
  sv_cluster_start :: "unit result"
  sv_crdt_start :: "unit result"
  sv_reconcile :: "unit result"

type_synonym start_step = "NodeRun \<Rightarrow> unit result \<times> NodeRun"

definition sthen :: "start_step \<Rightarrow> start_step \<Rightarrow> start_step" where
  "sthen f g x = (case f x of (Inl e, x') \<Rightarrow> (Inl e, x') | (Inr _, x') \<Rightarrow> g x')"

definition meets :: "unit result \<Rightarrow> start_step" where
  "meets r x = (r, x)"

definition sets :: "(NodeRun \<Rightarrow> NodeRun) \<Rightarrow> start_step" where
  "sets f x = (Inr (), f x)"

definition publishes :: "(HealthSnapshot \<Rightarrow> HealthSnapshot) \<Rightarrow> start_step" where
  "publishes f x = (Inr (), x\<lparr>nr_health := f (nr_health x), nr_published := f (nr_health x) # nr_published x\<rparr>)"

definition node_durable :: "Settings \<Rightarrow> bool" where
  "node_durable settings = (cfg_crdt_enabled settings \<and> cfg_persistence_enabled settings)"

definition is_running :: "NodeRun \<Rightarrow> bool" where
  "is_running x = (nr_server x \<and> \<not> nr_stopping x)"

section \<open>Start\<close>

definition start_persistence :: "Settings \<Rightarrow> start_env \<Rightarrow> start_step" where
  "start_persistence settings env =
     (if node_durable settings
      then sthen (sets (\<lambda>x. x\<lparr>nr_repository := True\<rparr>)) (sthen (meets (sv_open env))
             (sthen (sets (\<lambda>x. x\<lparr>nr_coordinator := True\<rparr>))
             (sthen (publishes (set_recovery_phase OPENING_REPOSITORY []))
             (sthen (publishes (set_recovery_phase RESTORING [])) (meets (sv_restore env))))))
      else publishes (set_recovery_phase RESTORING []))"

definition ready :: start_step where
  "ready = sthen (publishes (set_readiness True)) (publishes (set_recovery_phase READY []))"

definition start_coordination :: "Settings \<Rightarrow> start_env \<Rightarrow> start_step" where
  "start_coordination settings env =
     (if cfg_etcd_enabled settings
      then if \<not> node_durable settings
           then meets (raise RuntimeError ''ETCD_ENABLED clustered CRDT startup requires durable node identity'')
           else sthen (publishes mark_coordinating) (sthen (sets (\<lambda>x. x\<lparr>nr_coordination := True\<rparr>))
                  (sthen (meets (sv_coordination env)) (publishes (set_coordination True ''healthy''))))
      else publishes (set_coordination True ''disabled''))"

definition start_crdt :: "Settings \<Rightarrow> start_env \<Rightarrow> start_step" where
  "start_crdt settings env =
     sthen (sets (\<lambda>x. x\<lparr>nr_crdt := True\<rparr>)) (sthen (meets (sv_crdt_start env))
       (if node_durable settings
        then sthen (sets (\<lambda>x. x\<lparr>nr_replication := start_fast_path (nr_replication x)\<rparr>))
               (sthen (publishes (set_recovery_phase RECONCILING [])) (sthen (meets (sv_reconcile env))
               (sthen ready (sets (\<lambda>x. x\<lparr>nr_replication := start_anti_entropy (nr_replication x)\<rparr>)))))
        else sthen (sets (\<lambda>x. x\<lparr>nr_replication := replication_start (nr_replication x)\<rparr>)) ready))"

definition start_cluster :: "Settings \<Rightarrow> start_env \<Rightarrow> start_step" where
  "start_cluster settings env =
     sthen (start_coordination settings env) (sthen (publishes mark_joining_cluster)
       (sthen (meets (sv_cluster_build env)) (sthen (sets (\<lambda>x. x\<lparr>nr_cluster := True\<rparr>))
       (sthen (meets (sv_cluster_start env)) (sthen (publishes (set_cluster True))
       (if cfg_crdt_enabled settings then start_crdt settings env else meets (Inr ())))))))"

definition start_body :: "Settings \<Rightarrow> start_env \<Rightarrow> start_step" where
  "start_body settings env =
     sthen (meets (sv_contexts env)) (sthen (start_persistence settings env)
       (sthen (publishes mark_binding) (sthen (meets (sv_bind env)) (sthen (sets (\<lambda>x. x\<lparr>nr_server := True\<rparr>))
       (if cfg_cluster_enabled settings then start_cluster settings env else ready)))))"

text \<open>The \<^verbatim>\<open>except\<close> block: what exists is stopped and dropped.\<close>

definition start_failed :: "exn \<Rightarrow> NodeRun \<Rightarrow> NodeRun" where
  "start_failed e x =
     (let x' = (if nr_coordinator x
                then snd (sthen (publishes (set_readiness False)) (publishes (set_recovery_phase STARTUP_FAILED (exn_msg e))) x)
                else x)
      in x'\<lparr>nr_replication := (if nr_crdt x' then replication_stop (nr_replication x') else nr_replication x'),
            nr_crdt := False, nr_cluster := False, nr_coordination := False, nr_server := False, nr_repository := False,
            nr_pool := pool_close (nr_pool x')\<rparr>)"

definition node_start :: "Settings \<Rightarrow> start_env \<Rightarrow> NodeRun \<Rightarrow> unit result \<times> NodeRun" where
  "node_start settings env x =
     (if is_running x then (Inr (), x)
      else case pool_start (nr_pool x) of
             (Inl e, pool) \<Rightarrow> (Inl e, x\<lparr>nr_stopping := False, nr_pool := pool\<rparr>)
           | (Inr _, pool) \<Rightarrow>
               (case start_body settings env (x\<lparr>nr_stopping := False, nr_pool := pool\<rparr>) of
                  (Inr _, x') \<Rightarrow> (Inr (), x')
                | (Inl e, x') \<Rightarrow> (Inl e, if is_Exception e then start_failed e x' else x')))"

section \<open>Stop\<close>

definition node_stop :: "NodeRun \<Rightarrow> NodeRun" where
  "node_stop x =
     (if nr_stopping x then x
      else x\<lparr>nr_stopping := True,
             nr_replication := (if nr_crdt x then replication_stop (nr_replication x) else nr_replication x),
             nr_crdt := False, nr_cluster := False, nr_coordination := False, nr_server := False, nr_repository := False,
             nr_pool := pool_close (nr_pool x)\<rparr>)"

section \<open>A node is ready only when it has recovered\<close>

text \<open>No published snapshot says ready.\<close>

definition not_ready :: "NodeRun \<Rightarrow> bool" where
  "not_ready x \<longleftrightarrow> \<not> hs_readiness (nr_health x) \<and> (\<forall>h \<in> set (nr_published x). \<not> hs_readiness h)"

text \<open>A step from \<open>P\<close> ends in \<open>Q\<close>, or raises in \<open>E\<close>.\<close>

definition triple :: "(NodeRun \<Rightarrow> bool) \<Rightarrow> start_step \<Rightarrow> (NodeRun \<Rightarrow> bool) \<Rightarrow> (NodeRun \<Rightarrow> bool) \<Rightarrow> bool" where
  "triple P f Q E \<longleftrightarrow> (\<forall>x r x'. P x \<and> f x = (r, x') \<longrightarrow> (if isl r then E x' else Q x'))"

lemma tripleI: "(\<And>x r x'. P x \<Longrightarrow> f x = (r, x') \<Longrightarrow> if isl r then E x' else Q x') \<Longrightarrow> triple P f Q E"
  unfolding triple_def by blast

lemma tripleD: "triple P f Q E \<Longrightarrow> P x \<Longrightarrow> f x = (r, x') \<Longrightarrow> if isl r then E x' else Q x'"
  unfolding triple_def by blast

lemma triple_sthen:
  assumes "triple P f Q E" "triple Q g R E"
  shows "triple P (sthen f g) R E"
proof (rule tripleI)
  fix x r x'
  assume x: "P x" and run: "sthen f g x = (r, x')"
  obtain q y where q: "f x = (q, y)" by fastforce
  note one = tripleD [OF assms(1) x q]
  show "if isl r then E x' else R x'"
  proof (cases q)
    case (Inl e)
    then show ?thesis using run q one by (auto simp: sthen_def)
  next
    case (Inr u)
    then have "Q y" "g y = (r, x')" using run q one by (simp_all add: sthen_def)
    then show ?thesis by (rule tripleD [OF assms(2)])
  qed
qed

lemma not_isl: "\<not> isl (r :: unit result) \<longleftrightarrow> r = Inr ()"
  by (cases r) auto

text \<open>A stage of the start: not ready yet, the server up or not, and what the environment has shown so far.\<close>

definition stage :: "bool \<Rightarrow> bool \<Rightarrow> NodeRun \<Rightarrow> bool" where
  "stage server shown x \<longleftrightarrow> not_ready x \<and> nr_server x = server \<and> shown"

lemma stage_meets: "triple (stage s F) (meets r) (stage s (F \<and> r = Inr ())) not_ready"
  by (rule tripleI) (auto simp: meets_def stage_def not_isl)

lemma stage_publishes: "(\<And>h. hs_readiness (f h) = hs_readiness h) \<Longrightarrow> triple (stage s F) (publishes f) (stage s F) not_ready"
  by (rule tripleI) (auto simp: publishes_def stage_def not_ready_def)

lemma stage_sets:
  "(\<And>x. nr_health (f x) = nr_health x \<and> nr_published (f x) = nr_published x \<and> nr_server (f x) = nr_server x) \<Longrightarrow>
     triple (stage s F) (sets f) (stage s F) not_ready"
  by (rule tripleI) (auto simp: sets_def stage_def not_ready_def)

lemma stage_serves: "triple (stage s F) (sets (\<lambda>x. x\<lparr>nr_server := True\<rparr>)) (stage True F) not_ready"
  by (rule tripleI) (auto simp: sets_def stage_def not_ready_def)

lemma stage_shown: "triple (stage s F) f Q E \<Longrightarrow> (F' \<Longrightarrow> F) \<Longrightarrow> triple (stage s F') f Q E"
  by (auto simp: triple_def stage_def)

lemma triple_weaken: "triple P f Q E \<Longrightarrow> (\<And>x. Q x \<Longrightarrow> R x) \<Longrightarrow> triple P f R E"
  by (simp add: triple_def)

lemma phases_keep_readiness [simp]:
  "hs_readiness (set_recovery_phase phase text h) = hs_readiness h" "hs_readiness (mark_binding h) = hs_readiness h"
  "hs_readiness (mark_coordinating h) = hs_readiness h" "hs_readiness (mark_joining_cluster h) = hs_readiness h"
  "hs_readiness (set_coordination ok text h) = hs_readiness h" "hs_readiness (set_cluster ok h) = hs_readiness h"
  by (simp_all add: set_recovery_phase_def mark_binding_def mark_coordinating_def mark_joining_cluster_def set_coordination_def
      set_cluster_def)

lemmas stage_rules = triple_sthen stage_meets stage_publishes stage_sets phases_keep_readiness

lemma persistence_stage:
  "triple (stage s F) (start_persistence settings env)
     (stage s (F \<and> (node_durable settings \<longrightarrow> sv_open env = Inr () \<and> sv_restore env = Inr ()))) not_ready"
proof (cases "node_durable settings")
  case True
  have "triple (stage s F) (start_persistence settings env) (stage s ((F \<and> sv_open env = Inr ()) \<and> sv_restore env = Inr ())) not_ready"
    unfolding start_persistence_def by (simp only: True if_True) (rule stage_rules | simp)+
  then show ?thesis by (rule triple_weaken) (simp add: stage_def)
next
  case False
  then show ?thesis by (simp add: start_persistence_def stage_publishes)
qed

lemma coordination_stage: "triple (stage s F) (start_coordination settings env) (stage s F) not_ready"
proof (cases "cfg_etcd_enabled settings \<and> node_durable settings")
  case True
  have "triple (stage s F) (start_coordination settings env) (stage s (F \<and> sv_coordination env = Inr ())) not_ready"
    unfolding start_coordination_def by (simp only: True if_True not_True_eq_False if_False) (rule stage_rules | simp)+
  then show ?thesis by (rule triple_weaken) (simp add: stage_def)
next
  case False
  have "triple (stage s F) (meets (raise c m)) (stage s F) not_ready" for c m
    by (rule triple_weaken [OF stage_meets]) (simp add: stage_def)
  then show ?thesis using False by (auto simp: start_coordination_def stage_publishes)
qed

text \<open>The last step: ready, once what it needs has been shown.\<close>

definition started :: "bool \<Rightarrow> NodeRun \<Rightarrow> bool" where
  "started shown x \<longleftrightarrow> nr_server x \<and> hs_readiness (nr_health x) \<and> hs_phase (nr_health x) = READY \<and> shown"

lemma ready_started: "triple (stage True F) ready (started F) not_ready"
  by (rule tripleI)
    (auto simp: ready_def sthen_def publishes_def stage_def started_def set_readiness_def set_recovery_phase_def)

lemma started_sets:
  "(\<And>x. nr_health (f x) = nr_health x \<and> nr_server (f x) = nr_server x) \<Longrightarrow> triple (started F) (sets f) (started F) E"
  by (rule tripleI) (auto simp: sets_def started_def)

lemma crdt_stage:
  "triple (stage True F) (start_crdt settings env)
     (started (F \<and> sv_crdt_start env = Inr () \<and> (node_durable settings \<longrightarrow> sv_reconcile env = Inr ()))) not_ready"
proof (cases "node_durable settings")
  case True
  have "triple (stage True F) (start_crdt settings env)
     (started ((F \<and> sv_crdt_start env = Inr ()) \<and> sv_reconcile env = Inr ())) not_ready"
    unfolding start_crdt_def by (simp only: True if_True) (rule stage_rules ready_started started_sets | simp)+
  then show ?thesis by (rule triple_weaken) (simp add: started_def)
next
  case False
  have "triple (stage True F) (start_crdt settings env) (started (F \<and> sv_crdt_start env = Inr ())) not_ready"
    unfolding start_crdt_def by (simp only: False if_False) (rule stage_rules ready_started | simp)+
  then show ?thesis by (rule triple_weaken) (simp add: started_def False)
qed

text \<open>What a ready node must have done.\<close>

definition recovered :: "Settings \<Rightarrow> start_env \<Rightarrow> bool" where
  "recovered settings env \<longleftrightarrow> sv_contexts env = Inr () \<and> sv_bind env = Inr () \<and>
     (node_durable settings \<longrightarrow> sv_open env = Inr () \<and> sv_restore env = Inr ()) \<and>
     (cfg_cluster_enabled settings \<longrightarrow> sv_cluster_build env = Inr () \<and> sv_cluster_start env = Inr ()) \<and>
     (cfg_cluster_enabled settings \<and> cfg_crdt_enabled settings \<longrightarrow> sv_crdt_start env = Inr ()) \<and>
     (cfg_cluster_enabled settings \<and> node_durable settings \<longrightarrow> sv_reconcile env = Inr ())"

definition never_ready :: "Settings \<Rightarrow> bool" where
  "never_ready settings \<longleftrightarrow> cfg_cluster_enabled settings \<and> \<not> cfg_crdt_enabled settings"

definition start_over :: "Settings \<Rightarrow> start_env \<Rightarrow> NodeRun \<Rightarrow> bool" where
  "start_over settings env x \<longleftrightarrow>
     (if never_ready settings then stage True (recovered settings env) x else started (recovered settings env) x)"

lemma cluster_stage:
  assumes "cfg_cluster_enabled settings"
    and "F \<longleftrightarrow> sv_contexts env = Inr () \<and> sv_bind env = Inr () \<and>
      (node_durable settings \<longrightarrow> sv_open env = Inr () \<and> sv_restore env = Inr ())"
  shows "triple (stage True F) (start_cluster settings env) (start_over settings env) not_ready"
proof -
  let ?built = "(F \<and> sv_cluster_build env = Inr ()) \<and> sv_cluster_start env = Inr ()"
  have end_step: "triple (stage True ?built) (if cfg_crdt_enabled settings then start_crdt settings env else meets (Inr ()))
      (start_over settings env) not_ready"
  proof (cases "cfg_crdt_enabled settings")
    case True
    show ?thesis using True
      by (simp, intro triple_weaken [OF crdt_stage])
        (use assms in \<open>auto simp: start_over_def never_ready_def started_def recovered_def\<close>)
  next
    case False
    then have "\<not> node_durable settings" by (simp add: node_durable_def)
    show ?thesis using False
      by (simp, intro triple_weaken [OF stage_meets])
        (use assms \<open>\<not> node_durable settings\<close> in \<open>auto simp: start_over_def never_ready_def stage_def recovered_def\<close>)
  qed
  show ?thesis unfolding start_cluster_def
    by (rule coordination_stage end_step stage_rules | simp)+
qed

lemma start_body_stage: "triple (stage s True) (start_body settings env) (start_over settings env) not_ready"
proof -
  let ?kept = "(True \<and> sv_contexts env = Inr ()) \<and> (node_durable settings \<longrightarrow> sv_open env = Inr () \<and> sv_restore env = Inr ())"
  have end_step: "triple (stage True (?kept \<and> sv_bind env = Inr ()))
      (if cfg_cluster_enabled settings then start_cluster settings env else ready) (start_over settings env) not_ready"
  proof (cases "cfg_cluster_enabled settings")
    case True
    then show ?thesis by (simp, intro cluster_stage) auto
  next
    case False
    show ?thesis using False
      by (simp, intro triple_weaken [OF ready_started])
        (use False in \<open>auto simp: start_over_def never_ready_def started_def recovered_def\<close>)
  qed
  show ?thesis unfolding start_body_def
    by (rule persistence_stage end_step stage_serves stage_rules | simp)+
qed

definition parts_dropped :: "NodeRun \<Rightarrow> bool" where
  "parts_dropped x \<longleftrightarrow> \<not> nr_server x \<and> \<not> nr_repository x \<and> \<not> nr_coordination x \<and> \<not> nr_cluster x \<and> \<not> nr_crdt x \<and>
     wp_closed (nr_pool x) \<and> \<not> pool_started (nr_pool x)"

lemma closed_pool: "wp_closed (pool_close w)" "\<not> pool_started (pool_close w)"
  by (simp_all add: pool_close_def pool_started_def)

lemma start_failed_drops:
  "parts_dropped (start_failed e x)"
  "nr_coordinator (start_failed e x) = nr_coordinator x"
  "nr_coordinator x \<Longrightarrow> hs_phase (nr_health (start_failed e x)) = STARTUP_FAILED \<and>
     hs_last_error (nr_health (start_failed e x)) = exn_msg e"
  by (simp_all add: start_failed_def parts_dropped_def closed_pool sthen_def publishes_def set_recovery_phase_def Let_def)

lemma start_failed_not_ready: "not_ready x \<Longrightarrow> not_ready (start_failed e x)"
  by (auto simp: start_failed_def not_ready_def sthen_def publishes_def set_readiness_def set_recovery_phase_def Let_def)

lemma start_over_recovered: "start_over settings env x \<Longrightarrow> recovered settings env"
  by (simp add: start_over_def stage_def started_def split: if_splits)

lemma node_start_runs:
  assumes "\<not> is_running x" "\<not> wp_closed (nr_pool x)" "node_start settings env x = (r, x')"
  obtains y z where "y = x\<lparr>nr_stopping := False, nr_pool := (nr_pool x)\<lparr>wp_executor := True\<rparr>\<rparr>"
    "start_body settings env y = (r, z)"
    "x' = (case r of Inl e \<Rightarrow> if is_Exception e then start_failed e z else z | Inr _ \<Rightarrow> z)"
proof -
  let ?y = "x\<lparr>nr_stopping := False, nr_pool := (nr_pool x)\<lparr>wp_executor := True\<rparr>\<rparr>"
  obtain q z where q: "start_body settings env ?y = (q, z)" by fastforce
  have "q = r \<and> x' = (case r of Inl e \<Rightarrow> if is_Exception e then start_failed e z else z | Inr _ \<Rightarrow> z)"
    using assms q by (cases q) (auto simp: node_start_def pool_start_def)
  then show ?thesis using that [of ?y z] q by simp
qed

text \<open>C11: A start publishes readiness only after the node has recovered. On a node that is not
  ready, not running and whose worker pool is open, \<^verbatim>\<open>DistributedNode.start\<close> publishes no
  snapshot that says ready unless the TLS contexts were built and the port was bound and, for
  a durable node, the repository was opened and restored and, in a cluster, the membership and
  the CRDT service were started and the reconciliation returned. A start that returns leaves
  the server up, and the node ready in phase READY unless it has a cluster and no CRDTs. A start that
  raises an \<^verbatim>\<open>Exception\<close> has never said ready, has dropped every part and closed the pool,
  and says STARTUP_FAILED with the message when there is a recovery coordinator.\<close>

theorem node_start_safe:
  assumes "not_ready x" "\<not> is_running x" "\<not> wp_closed (nr_pool x)" "node_start settings env x = (r, x')"
  shows "(\<forall>h \<in> set (nr_published x'). hs_readiness h \<longrightarrow> recovered settings env) \<and>
    (r = Inr () \<longrightarrow> nr_server x' \<and> recovered settings env \<and>
       (if cfg_cluster_enabled settings \<and> \<not> cfg_crdt_enabled settings then not_ready x'
        else hs_readiness (nr_health x') \<and> hs_phase (nr_health x') = READY)) \<and>
    (\<forall>e. r = Inl e \<longrightarrow> not_ready x' \<and>
       (is_Exception e \<longrightarrow> parts_dropped x' \<and>
          (nr_coordinator x' \<longrightarrow> hs_phase (nr_health x') = STARTUP_FAILED \<and> hs_last_error (nr_health x') = exn_msg e)))"
proof -
  obtain y z where y: "y = x\<lparr>nr_stopping := False, nr_pool := (nr_pool x)\<lparr>wp_executor := True\<rparr>\<rparr>"
    and run: "start_body settings env y = (r, z)"
    and x': "x' = (case r of Inl e \<Rightarrow> if is_Exception e then start_failed e z else z | Inr _ \<Rightarrow> z)"
    by (rule node_start_runs [OF assms(2-4)])
  have "stage (nr_server y) True y" using assms(1) by (simp add: stage_def y not_ready_def)
  note z = tripleD [OF start_body_stage this run]
  show ?thesis
  proof (cases r)
    case (Inl e)
    then have "not_ready z" "not_ready x'" using z x' by (simp_all add: start_failed_not_ready)
    then show ?thesis using Inl x' by (auto simp: not_ready_def start_failed_drops)
  next
    case (Inr u)
    then have "start_over settings env x'" "recovered settings env" using z x' start_over_recovered by auto
    then show ?thesis using Inr by (auto simp: start_over_def stage_def started_def never_ready_def)
  qed
qed

definition example_run :: NodeRun where
  "example_run = NodeRun_init \<lparr>wp_max_workers = 2, wp_max_pending = 8, wp_executor = False, wp_closed = False,
     wp_pending = \<lparr>pl_capacity = 8, pl_in_flight = 0\<rparr>\<rparr>"

definition unrestored :: start_env where
  "unrestored = \<lparr>sv_contexts = Inr (), sv_open = Inr (), sv_restore = raise RuntimeError ''corrupt'', sv_bind = Inr (),
     sv_coordination = Inr (), sv_cluster_build = Inr (), sv_cluster_start = Inr (), sv_crdt_start = Inr (),
     sv_reconcile = Inr ()\<rparr>"

definition durable_settings :: Settings where
  "durable_settings = default_settings\<lparr>cfg_cluster_enabled := True, cfg_crdt_enabled := True, cfg_persistence_enabled := True\<rparr>"

text \<open>A durable node whose restore fails, on a fresh node: it never says ready and the port is
  not bound.\<close>

lemma node_start_safe_witness:
  "\<exists>x'. node_start durable_settings unrestored example_run = (raise RuntimeError ''corrupt'', x') \<and>
     not_ready x' \<and> parts_dropped x' \<and> hs_phase (nr_health x') = STARTUP_FAILED"
proof -
  have fresh: "not_ready example_run" "\<not> is_running example_run" "\<not> wp_closed (nr_pool example_run)"
    by (simp_all add: example_run_def NodeRun_init_def not_ready_def HealthState_init_def is_running_def)
  obtain r x' where run: "node_start durable_settings unrestored example_run = (r, x')" by fastforce
  have "node_durable durable_settings" by (simp add: node_durable_def durable_settings_def)
  then have r: "r = raise RuntimeError ''corrupt'' \<and> nr_coordinator x'" using run
    by (auto simp: node_start_def example_run_def NodeRun_init_def is_running_def pool_start_def start_body_def sthen_def
        meets_def unrestored_def start_persistence_def sets_def publishes_def is_Exception_def start_failed_def Let_def)
  then show ?thesis using run node_start_safe [OF fresh run] by (auto simp: is_Exception_def)
qed

section \<open>Stop\<close>

text \<open>
  A node that was stopped cannot be started again: \<^verbatim>\<open>start\<close> clears \<^verbatim>\<open>_stopping\<close> but the worker
  pool stays closed. Its last health snapshot is the one of before the stop.
\<close>

lemma stop_is_final:
  assumes "\<not> nr_stopping x"
  shows "parts_dropped (node_stop x)" "node_stop (node_stop x) = node_stop x" "nr_health (node_stop x) = nr_health x"
    "\<exists>y. node_start settings env (node_stop x) = (raise WorkerPoolClosedError ''worker pool is closed'', y) \<and>
      parts_dropped y \<and> nr_health y = nr_health x"
  using assms
  by (simp_all add: node_stop_def parts_dropped_def closed_pool node_start_def is_running_def pool_start_def)

end
