(* ===== verification/Spec2Isabelle.thy ===== *)
theory Spec2Isabelle
  imports Anti_Entropy Node_Start
begin

text \<open>
  Verification of the distributed CRDT store under \<^verbatim>\<open>src/src/distsys\<close>.
\<close>

end
